(* ===== verification/Prelude.thy ===== *)
theory Prelude
  imports Main "HOL-Library.Word" "HOL-Library.Monad_Syntax"
begin

text \<open>
  Shared ground of the development: the machine integers of the Go code, its slices, the
  byte accessors of \<open>encoding/binary\<close>, and the facts every component uses about them.

  A Go value of type \<open>[]byte\<close> is a \<open>byte list\<close>. A run-time panic (an index or a
  reslice out of range, an integer division by zero) is the value \<open>None\<close>, so that
  \<open>option\<close> is the monad of code that may panic and Go errors are ordinary values inside
  it. \<open>slice\<close> checks a reslice against the length: Go lets \<open>b[i:j]\<close> reach up to the capacity, so
  code that never fails by \<open>slice\<close> reslices within the length. Where a run may reach beyond it, on the
  read path of the Linux device, the memory behind a slice is an argument (\<open>GSO.reslice\<close>).
\<close>

unbundle bit_operations_syntax

type_synonym byte = "8 word"
type_synonym u8 = "8 word"
type_synonym u16 = "16 word"
type_synonym u32 = "32 word"
type_synonym u64 = "64 word"

named_theorems go_simps \<open>evaluation of slice accesses that are in range\<close>
named_theorems go_iff \<open>inversion of computations that did not panic\<close>

section \<open>Slices\<close>

text \<open>\<open>xs[i]\<close>, \<open>xs[i] = v\<close>, \<open>xs[i:]\<close> and \<open>xs[i:j]\<close>.\<close>

definition idx :: "'a list \<Rightarrow> nat \<Rightarrow> 'a option" where
  "idx xs i = (if i < length xs then Some (xs ! i) else None)"

definition set_at :: "'a list \<Rightarrow> nat \<Rightarrow> 'a \<Rightarrow> 'a list option" where
  "set_at xs i v = (if i < length xs then Some (xs[i := v]) else None)"

definition slice_from :: "'a list \<Rightarrow> nat \<Rightarrow> 'a list option" where
  "slice_from xs i = (if i \<le> length xs then Some (drop i xs) else None)"

definition slice :: "'a list \<Rightarrow> nat \<Rightarrow> nat \<Rightarrow> 'a list option" where
  "slice xs i j = (if i \<le> j \<and> j \<le> length xs then Some (take (j - i) (drop i xs)) else None)"

text \<open>
  \<open>copy(xs[i:], src)\<close>: as many elements as both slices hold, the rest of \<open>xs\<close> unchanged.
\<close>

definition copy_at :: "'a list \<Rightarrow> nat \<Rightarrow> 'a list \<Rightarrow> 'a list option" where
  "copy_at xs i src =
     (if i \<le> length xs
      then Some (take i xs @ take (length xs - i) src @ drop (i + length src) xs)
      else None)"

text \<open>\<open>clear(xs[i:j])\<close> on a byte slice.\<close>

definition clear_range :: "byte list \<Rightarrow> nat \<Rightarrow> nat \<Rightarrow> byte list option" where
  "clear_range xs i j =
     (if i \<le> j \<and> j \<le> length xs
      then Some (take i xs @ replicate (j - i) 0 @ drop j xs)
      else None)"

text \<open>A run-time check of the code: the computation goes on only if it holds.\<close>

definition check :: "bool \<Rightarrow> unit option" where
  "check b = (if b then Some () else None)"

lemma idx_in [go_simps]: "i < length xs \<Longrightarrow> idx xs i = Some (xs ! i)"
  by (simp add: idx_def)

lemma set_at_in [go_simps]: "i < length xs \<Longrightarrow> set_at xs i v = Some (xs[i := v])"
  by (simp add: set_at_def)

lemma slice_from_in [go_simps]: "i \<le> length xs \<Longrightarrow> slice_from xs i = Some (drop i xs)"
  by (simp add: slice_from_def)

lemma slice_in [go_simps]:
  "i \<le> j \<Longrightarrow> j \<le> length xs \<Longrightarrow> slice xs i j = Some (take (j - i) (drop i xs))"
  by (simp add: slice_def)

lemma copy_at_in [go_simps]:
  "i \<le> length xs \<Longrightarrow>
   copy_at xs i src = Some (take i xs @ take (length xs - i) src @ drop (i + length src) xs)"
  by (simp add: copy_at_def)

lemma clear_range_in [go_simps]:
  "i \<le> j \<Longrightarrow> j \<le> length xs \<Longrightarrow>
   clear_range xs i j = Some (take i xs @ replicate (j - i) 0 @ drop j xs)"
  by (simp add: clear_range_def)

lemma check_in [go_simps]: "b \<Longrightarrow> check b = Some ()"
  by (simp add: check_def)

lemma idx_Some [go_iff]: "idx xs i = Some x \<longleftrightarrow> i < length xs \<and> x = xs ! i"
  by (auto simp: idx_def)

lemma set_at_Some [go_iff]: "set_at xs i v = Some ys \<longleftrightarrow> i < length xs \<and> ys = xs[i := v]"
  by (auto simp: set_at_def)

lemma slice_from_Some [go_iff]:
  "slice_from xs i = Some ys \<longleftrightarrow> i \<le> length xs \<and> ys = drop i xs"
  by (auto simp: slice_from_def)

lemma slice_Some [go_iff]:
  "slice xs i j = Some ys \<longleftrightarrow> i \<le> j \<and> j \<le> length xs \<and> ys = take (j - i) (drop i xs)"
  by (auto simp: slice_def)

lemma copy_at_Some [go_iff]:
  "copy_at xs i src = Some ys \<longleftrightarrow>
   i \<le> length xs \<and> ys = take i xs @ take (length xs - i) src @ drop (i + length src) xs"
  by (auto simp: copy_at_def)

lemma clear_range_Some [go_iff]:
  "clear_range xs i j = Some ys \<longleftrightarrow>
   i \<le> j \<and> j \<le> length xs \<and> ys = take i xs @ replicate (j - i) 0 @ drop j xs"
  by (auto simp: clear_range_def)

lemma check_Some [go_iff]: "check b = Some u \<longleftrightarrow> b"
  by (auto simp: check_def)

lemma bind_Some_iff [go_iff]:
  "Option.bind m f = Some y \<longleftrightarrow> (\<exists>x. m = Some x \<and> f x = Some y)"
  by (cases m) auto

section \<open>Big-endian accessors\<close>

text \<open>
  \<open>binary.BigEndian.Uint16(xs[i:])\<close>, \<open>Uint32\<close> and their \<open>Put\<close> counterparts. Each
  reads or writes its bytes at \<open>i\<close>, and panics when the slice ends before them.
\<close>

definition be16_of :: "byte \<Rightarrow> byte \<Rightarrow> u16" where
  "be16_of a b = push_bit 8 (ucast a) OR ucast b"

definition be32_of :: "byte \<Rightarrow> byte \<Rightarrow> byte \<Rightarrow> byte \<Rightarrow> u32" where
  "be32_of a b c d =
     push_bit 24 (ucast a) OR push_bit 16 (ucast b) OR push_bit 8 (ucast c) OR ucast d"

definition get16 :: "byte list \<Rightarrow> nat \<Rightarrow> u16 option" where
  "get16 xs i = (if i + 1 < length xs then Some (be16_of (xs ! i) (xs ! (i + 1))) else None)"

definition get32 :: "byte list \<Rightarrow> nat \<Rightarrow> u32 option" where
  "get32 xs i =
     (if i + 3 < length xs
      then Some (be32_of (xs ! i) (xs ! (i + 1)) (xs ! (i + 2)) (xs ! (i + 3)))
      else None)"

definition put16 :: "byte list \<Rightarrow> nat \<Rightarrow> u16 \<Rightarrow> byte list option" where
  "put16 xs i v =
     (if i + 1 < length xs then Some (xs[i := ucast (drop_bit 8 v), i + 1 := ucast v]) else None)"

definition put32 :: "byte list \<Rightarrow> nat \<Rightarrow> u32 \<Rightarrow> byte list option" where
  "put32 xs i v =
     (if i + 3 < length xs
      then Some (xs[i := ucast (drop_bit 24 v), i + 1 := ucast (drop_bit 16 v),
                    i + 2 := ucast (drop_bit 8 v), i + 3 := ucast v])
      else None)"

lemma get16_in [go_simps]:
  "i + 1 < length xs \<Longrightarrow> get16 xs i = Some (be16_of (xs ! i) (xs ! (i + 1)))"
  by (simp add: get16_def)

lemma get32_in [go_simps]:
  "i + 3 < length xs \<Longrightarrow>
   get32 xs i = Some (be32_of (xs ! i) (xs ! (i + 1)) (xs ! (i + 2)) (xs ! (i + 3)))"
  by (simp add: get32_def)

lemma put16_in [go_simps]:
  "i + 1 < length xs \<Longrightarrow>
   put16 xs i v = Some (xs[i := ucast (drop_bit 8 v), i + 1 := ucast v])"
  by (simp add: put16_def)

lemma put32_in [go_simps]:
  "i + 3 < length xs \<Longrightarrow>
   put32 xs i v = Some (xs[i := ucast (drop_bit 24 v), i + 1 := ucast (drop_bit 16 v),
                           i + 2 := ucast (drop_bit 8 v), i + 3 := ucast v])"
  by (simp add: put32_def)

lemma get16_Some [go_iff]:
  "get16 xs i = Some v \<longleftrightarrow> i + 1 < length xs \<and> v = be16_of (xs ! i) (xs ! (i + 1))"
  by (auto simp: get16_def)

lemma get32_Some [go_iff]:
  "get32 xs i = Some v \<longleftrightarrow>
   i + 3 < length xs \<and> v = be32_of (xs ! i) (xs ! (i + 1)) (xs ! (i + 2)) (xs ! (i + 3))"
  by (auto simp: get32_def)

lemma put16_Some [go_iff]:
  "put16 xs i v = Some ys \<longleftrightarrow>
   i + 1 < length xs \<and> ys = xs[i := ucast (drop_bit 8 v), i + 1 := ucast v]"
  by (auto simp: put16_def)

lemma put32_Some [go_iff]:
  "put32 xs i v = Some ys \<longleftrightarrow>
   i + 3 < length xs \<and>
   ys = xs[i := ucast (drop_bit 24 v), i + 1 := ucast (drop_bit 16 v),
           i + 2 := ucast (drop_bit 8 v), i + 3 := ucast v]"
  by (auto simp: put32_def)

lemma be16_of_plus: "be16_of a b = push_bit 8 (ucast a) + ucast b"
proof -
  have "push_bit 8 (ucast a) AND (ucast b :: u16) = 0"
  proof (rule bit_word_eqI)
    fix n
    show "bit (push_bit 8 (ucast a) AND (ucast b :: u16)) n = bit (0 :: u16) n"
      using bit_imp_le_length [of b n] by (auto simp: bit_simps)
  qed
  then show ?thesis
    unfolding be16_of_def by (rule disjunctive_add_eq_or [symmetric])
qed

lemma unat_byte_less: "unat (a :: byte) < 256"
  using unsigned_less [of a] by simp

lemma unat_u16_less: "unat (a :: u16) < 65536"
  using unsigned_less [of a] by simp

lemma unat_u32_less: "unat (a :: u32) < 4294967296"
  using unsigned_less [of a] by simp

lemma unat_be16_of: "unat (be16_of a b) = 256 * unat a + unat b"
proof -
  have "unat a < 256" "unat b < 256" by (rule unat_byte_less)+
  then show ?thesis
    by (simp add: be16_of_plus unat_word_ariths unsigned_push_bit_eq take_bit_eq_mod
        push_bit_eq_mult unsigned_ucast_eq)
qed

lemma be16_of_split: "be16_of (ucast (drop_bit 8 v)) (ucast v) = v"
proof (rule bit_word_eqI)
  fix n assume "n < LENGTH(16)"
  then show "bit (be16_of (ucast (drop_bit 8 v)) (ucast v)) n = bit v n"
    by (cases "n < 8") (auto simp: be16_of_def bit_simps)
qed

lemma be32_of_split:
  "be32_of (ucast (drop_bit 24 v)) (ucast (drop_bit 16 v)) (ucast (drop_bit 8 v)) (ucast v) = v"
proof (rule bit_word_eqI)
  fix n assume "n < LENGTH(32)"
  then show "bit (be32_of (ucast (drop_bit 24 v)) (ucast (drop_bit 16 v))
      (ucast (drop_bit 8 v)) (ucast v)) n = bit v n"
    by (cases "n < 8"; cases "n < 16"; cases "n < 24") (auto simp: be32_of_def bit_simps)
qed

text \<open>The two bytes at \<open>i\<close> and what surrounds them.\<close>

lemma split_at2: "i + 1 < length xs \<Longrightarrow> xs = take i xs @ xs ! i # xs ! (i + 1) # drop (i + 2) xs"
  using id_take_nth_drop [of i xs] Cons_nth_drop_Suc [of "Suc i" xs] by simp

lemma update_at2:
  "i + 1 < length xs \<Longrightarrow> xs[i := a, i + 1 := b] = take i xs @ a # b # drop (i + 2) xs"
  by (rule nth_equalityI)
    (auto simp: nth_append nth_list_update nth_Cons less_Suc_eq_le not_less split: nat.splits
      intro!: arg_cong [where f = "nth xs"])

text \<open>Reading back what was written.\<close>

lemma get16_put16: "put16 xs i v = Some ys \<Longrightarrow> get16 ys i = Some v"
  by (auto simp: go_iff be16_of_split)

lemma get32_put32: "put32 xs i v = Some ys \<Longrightarrow> get32 ys i = Some v"
  by (auto simp: go_iff be32_of_split)

end
