(* ===== verification/Checksum.thy ===== *)
theory Checksum
  imports Prelude
begin

text \<open>
  \<open>src/tun/checksum.go\<close>: the internet checksum, computed with 64-bit additions in the
  byte order of the host. The byte order is the parameter \<open>e\<close> of every definition, so that
  each theorem holds on little- and on big-endian hosts. The result is compared with
  \<open>checksumRef\<close>, the RFC 1071 loop of \<open>src/tun/checksum_test.go\<close>.
\<close>

section \<open>binary.NativeEndian and bits.Add64\<close>

datatype endian = LittleE | BigE

fun le_val :: "byte list \<Rightarrow> nat" where
  "le_val [] = 0"
| "le_val (b # bs) = unat b + 256 * le_val bs"

definition native_val :: "endian \<Rightarrow> byte list \<Rightarrow> nat" where
  "native_val e bs = (case e of LittleE \<Rightarrow> le_val bs | BigE \<Rightarrow> le_val (rev bs))"

definition native_u16 :: "endian \<Rightarrow> byte list \<Rightarrow> u16" where
  "native_u16 e bs = of_nat (native_val e (take 2 bs))"

definition native_u32 :: "endian \<Rightarrow> byte list \<Rightarrow> u32" where
  "native_u32 e bs = of_nat (native_val e (take 4 bs))"

definition native_u64 :: "endian \<Rightarrow> byte list \<Rightarrow> u64" where
  "native_u64 e bs = of_nat (native_val e (take 8 bs))"

fun le_bytes :: "nat \<Rightarrow> nat \<Rightarrow> byte list" where
  "le_bytes 0 n = []"
| "le_bytes (Suc k) n = of_nat n # le_bytes k (n div 256)"

definition native_bytes64 :: "endian \<Rightarrow> u64 \<Rightarrow> byte list" where
  "native_bytes64 e x =
     (case e of LittleE \<Rightarrow> le_bytes 8 (unat x) | BigE \<Rightarrow> rev (le_bytes 8 (unat x)))"

text \<open>
  \<open>binary.NativeEndian.PutUint64(tmp, x)\<close> followed by \<open>binary.BigEndian.Uint64(tmp)\<close>.
\<close>

definition native_swap64 :: "endian \<Rightarrow> u64 \<Rightarrow> u64" where
  "native_swap64 e x = of_nat (le_val (rev (native_bytes64 e x)))"

text \<open>\<open>bits.Add64\<close>: the 64-bit sum and the carry out.\<close>

definition add64 :: "u64 \<Rightarrow> u64 \<Rightarrow> u64 \<Rightarrow> u64 \<times> u64" where
  "add64 x y carry =
     (x + y + carry, if unat x + unat y + unat carry < 2 ^ 64 then 0 else 1)"

section \<open>The code\<close>

text \<open>
  A run of \<open>n\<close> additions \<open>ac, carry = bits.Add64(ac, binary.NativeEndian.Uint64(b[8*i:8*i+8]), carry)\<close>,
  and the block it belongs to: the run started with carry 0, then \<open>ac += carry\<close>.
\<close>

fun add_words :: "endian \<Rightarrow> nat \<Rightarrow> byte list \<Rightarrow> u64 \<Rightarrow> u64 \<Rightarrow> u64 \<times> u64" where
  "add_words e 0 b ac carry = (ac, carry)"
| "add_words e (Suc n) b ac carry =
     (let (ac, carry) = add64 ac (native_u64 e (take 8 b)) carry
      in add_words e n (drop 8 b) ac carry)"

definition add_block :: "endian \<Rightarrow> nat \<Rightarrow> byte list \<Rightarrow> u64 \<Rightarrow> u64" where
  "add_block e n b ac = (let (ac, carry) = add_words e n b ac 0 in ac + carry)"

function loop128 :: "endian \<Rightarrow> byte list \<Rightarrow> u64 \<Rightarrow> byte list \<times> u64" where
  "loop128 e b ac =
     (if 128 \<le> length b then loop128 e (drop 128 b) (add_block e 16 b ac) else (b, ac))"
  by pat_completeness auto
termination
  by (relation "measure (\<lambda>(e, b, ac). length b)") auto

declare loop128.simps [simp del]

definition block_if :: "endian \<Rightarrow> nat \<Rightarrow> byte list \<times> u64 \<Rightarrow> byte list \<times> u64" where
  "block_if e n = (\<lambda>(b, ac).
     if 8 * n \<le> length b then (drop (8 * n) b, add_block e n b ac) else (b, ac))"

definition add_value :: "u64 \<Rightarrow> u64 \<Rightarrow> u64" where
  "add_value ac x = (let (ac, carry) = add64 ac x 0 in ac + carry)"

definition tail4 :: "endian \<Rightarrow> byte list \<times> u64 \<Rightarrow> byte list \<times> u64" where
  "tail4 e = (\<lambda>(b, ac).
     if 4 \<le> length b then (drop 4 b, add_value ac (ucast (native_u32 e (take 4 b)))) else (b, ac))"

definition tail2 :: "endian \<Rightarrow> byte list \<times> u64 \<Rightarrow> byte list \<times> u64" where
  "tail2 e = (\<lambda>(b, ac).
     if 2 \<le> length b then (drop 2 b, add_value ac (ucast (native_u16 e (take 2 b)))) else (b, ac))"

definition tail1 :: "endian \<Rightarrow> byte list \<times> u64 \<Rightarrow> u64" where
  "tail1 e = (\<lambda>(b, ac).
     if length b = 1 then add_value ac (ucast (native_u16 e [hd b, 0])) else ac)"

definition checksumNoFold :: "endian \<Rightarrow> byte list \<Rightarrow> u64 \<Rightarrow> u64" where
  "checksumNoFold e b initial =
     (let ac = native_swap64 e initial;
          s = loop128 e b ac;
          s = block_if e 8 s;
          s = block_if e 4 s;
          s = block_if e 2 s;
          s = block_if e 1 s;
          s = tail4 e s;
          s = tail2 e s
      in native_swap64 e (tail1 e s))"

definition fold_once :: "u64 \<Rightarrow> u64" where
  "fold_once ac = drop_bit 16 ac + (ac AND 0xffff)"

definition checksum :: "endian \<Rightarrow> byte list \<Rightarrow> u64 \<Rightarrow> u16" where
  "checksum e b initial =
     (let ac = checksumNoFold e b initial;
          ac = fold_once ac;
          ac = fold_once ac;
          ac = fold_once ac;
          ac = fold_once ac
      in ucast ac)"

definition pseudoHeaderChecksumNoFold ::
  "endian \<Rightarrow> u8 \<Rightarrow> byte list \<Rightarrow> byte list \<Rightarrow> u16 \<Rightarrow> u64" where
  "pseudoHeaderChecksumNoFold e protocol srcAddr dstAddr totalLen =
     (let sum = checksumNoFold e srcAddr 0;
          sum = checksumNoFold e dstAddr sum;
          sum = checksumNoFold e [0, protocol] sum
      in checksumNoFold e [ucast (drop_bit 8 totalLen), ucast totalLen] sum)"

section \<open>The reference: RFC 1071\<close>

text \<open>
  \<open>besum b\<close> is the sum of the 16-bit big-endian words of \<open>b\<close>, an odd last byte padded with
  zero; \<open>ones16 n\<close> is that number brought into 16 bits by end-around carries.
\<close>

fun besum :: "byte list \<Rightarrow> nat" where
  "besum [] = 0"
| "besum [a] = 256 * unat a"
| "besum (a # b # bs) = 256 * unat a + unat b + besum bs"

definition ones16 :: "nat \<Rightarrow> nat" where
  "ones16 n = (if n = 0 then 0 else (n - 1) mod 65535 + 1)"

text \<open>\<open>checksumRef\<close> of \<open>checksum_test.go\<close>, with its folding loop.\<close>

fun sumRef :: "byte list \<Rightarrow> u64 \<Rightarrow> u64" where
  "sumRef (a # b # bs) ac = sumRef bs (ac + ucast (be16_of a b))"
| "sumRef [a] ac = ac + push_bit 8 (ucast a)"
| "sumRef [] ac = ac"

lemma unat_fold_once: "unat (fold_once ac) = unat ac div 65536 + unat ac mod 65536"
proof -
  have "unat ac < 2 ^ 64" using unsigned_less [of ac] by simp
  then have "unat ac div 65536 + unat ac mod 65536 < 2 ^ 64" by simp
  moreover have "unat (drop_bit 16 ac) = unat ac div 65536"
    by (simp add: drop_bit_eq_div unat_div)
  moreover have "ac AND 0xffff = take_bit 16 ac"
    by (simp add: take_bit_eq_mask mask_eq_exp_minus_1)
  then have "unat (ac AND 0xffff) = unat ac mod 65536"
    by (simp add: take_bit_eq_mod unat_mod)
  ultimately show ?thesis
    by (simp add: fold_once_def unat_word_ariths)
qed

lemma fold_less: "0 < n div 65536 \<Longrightarrow> n div 65536 + n mod 65536 < (n :: nat)"
  using div_mult_mod_eq [of n 65536] by linarith

function foldRef :: "u64 \<Rightarrow> u64" where
  "foldRef ac = (if 0 < drop_bit 16 ac then foldRef (fold_once ac) else ac)"
  by pat_completeness auto
termination
proof (relation "measure unat")
  fix ac :: u64 assume "0 < drop_bit 16 ac"
  then have "0 < unat ac div 65536"
    by (simp add: word_less_nat_alt drop_bit_eq_div unat_div)
  then show "(fold_once ac, ac) \<in> measure unat"
    by (simp add: unat_fold_once fold_less)
qed simp

declare foldRef.simps [simp del]

definition checksumRef :: "byte list \<Rightarrow> u16 \<Rightarrow> u16" where
  "checksumRef b initial = ucast (foldRef (sumRef b (ucast initial)))"

section \<open>Sums modulo 65535\<close>

text \<open>
  \<open>sums k x n\<close>: the number \<open>x\<close> stands for the ones-complement sum \<open>n\<close> scaled by \<open>k\<close>; a
  ones-complement sum is a residue modulo 65535 that also tells zero from 65535.
\<close>

definition sums :: "nat \<Rightarrow> nat \<Rightarrow> nat \<Rightarrow> bool" where
  "sums k x n \<longleftrightarrow> x mod 65535 = k * n mod 65535 \<and> (x = 0 \<longleftrightarrow> n = 0)"

lemma mod_cong_mult: "(a :: nat) mod m = b mod m \<Longrightarrow> c * a mod m = c * b mod m"
  by (metis mod_mult_right_eq)

lemma mod_cong_add: "(a :: nat) mod m = b mod m \<Longrightarrow> c mod m = d mod m \<Longrightarrow> (a + c) mod m = (b + d) mod m"
  by (rule mod_add_cong)

lemma sums_add: "sums k x m \<Longrightarrow> sums k y n \<Longrightarrow> sums k (x + y) (m + n)"
  unfolding sums_def by (auto simp: distrib_left intro: mod_add_cong)

lemma sums_mult:
  assumes "sums k x n" and "sums j y x"
  shows "sums (j * k) y n"
proof -
  have "y mod 65535 = j * (k * n) mod 65535"
    using assms mod_cong_mult [of x 65535 "k * n" j] by (simp add: sums_def)
  with assms show ?thesis by (simp add: sums_def mult.assoc)
qed

lemma sums_mod: "j mod 65535 = k mod 65535 \<Longrightarrow> sums j x n = sums k x n"
  unfolding sums_def by (metis mod_mult_left_eq)

lemma ones16_le: "ones16 n \<le> 65535"
  using mod_less_divisor [of 65535 "n - 1"] by (simp add: ones16_def del: mod_less_divisor)

lemma ones16_less: "ones16 n < 65536"
  using ones16_le [of n] by simp

lemma ones16_sums: "sums 1 (ones16 n) n"
proof (cases n)
  case (Suc m)
  have "(m mod 65535 + 1) mod 65535 = (m + 1) mod 65535" by (rule mod_add_left_eq)
  with Suc show ?thesis by (simp add: sums_def ones16_def)
qed (simp add: sums_def ones16_def)

lemma ones16_unique: "y \<le> 65535 \<Longrightarrow> sums 1 y n \<Longrightarrow> y = ones16 n"
proof -
  assume y: "y \<le> 65535" and s: "sums 1 y n"
  have o: "sums 1 (ones16 n) n" "ones16 n \<le> 65535" by (rule ones16_sums, rule ones16_le)
  have "y mod 65535 = ones16 n mod 65535" using s o by (simp add: sums_def)
  moreover have "y = 0 \<longleftrightarrow> ones16 n = 0" using s o by (simp add: sums_def)
  moreover have "x mod 65535 = (if x = 65535 then 0 else x)" if "x \<le> 65535" for x :: nat
    using that by auto
  ultimately show ?thesis using y o(2) by (metis (full_types))
qed

lemma ones16_cong: "m mod 65535 = n mod 65535 \<Longrightarrow> (m = 0 \<longleftrightarrow> n = 0) \<Longrightarrow> ones16 m = ones16 n"
  by (rule ones16_unique [OF ones16_le]) (use ones16_sums [of m] in \<open>simp add: sums_def\<close>)

lemma besum_append: "even (length xs) \<Longrightarrow> besum (xs @ ys) = besum xs + besum ys"
  by (induction xs rule: besum.induct) auto

lemma besum_take_drop: "even n \<Longrightarrow> besum xs = besum (take n xs) + besum (drop n xs)"
proof (cases "n \<le> length xs")
  case True
  assume "even n"
  with True have "even (length (take n xs))" by simp
  from besum_append [OF this, of "drop n xs"] show ?thesis by simp
qed simp

lemma le_val_less: "le_val bs < 256 ^ length bs"
proof (induction bs)
  case (Cons b bs)
  have "unat b < 256" by (rule unat_byte_less)
  moreover from Cons have "256 * le_val bs + 256 \<le> 256 * 256 ^ length bs" by simp
  ultimately have "unat b + 256 * le_val bs < 256 * 256 ^ length bs" by linarith
  then show ?case by simp
qed simp

lemma le_val_append: "le_val (xs @ ys) = le_val xs + 256 ^ length xs * le_val ys"
  by (induction xs) (auto simp: algebra_simps)

lemma mod_65536: "65536 * x mod 65535 = (x :: nat) mod 65535"
proof -
  have "65536 * x = x + 65535 * x" by simp
  then show ?thesis by (simp only: mod_mult_self2)
qed

lemma le_val_sum: "le_val bs mod 65535 = 256 * besum bs mod 65535"
proof (induction bs rule: besum.induct)
  case (2 a)
  show ?case using mod_65536 [of "unat a"] by simp
next
  case (3 a b bs)
  have "le_val (a # b # bs) mod 65535 = (256 * unat b + (unat a + 65536 * le_val bs)) mod 65535"
    by (simp add: algebra_simps)
  also have "\<dots> = (256 * unat b + (65536 * unat a + 256 * besum bs)) mod 65535"
    using "3.IH" mod_65536 [of "unat a"] mod_65536 [of "le_val bs"]
    by (intro mod_add_cong refl) simp_all
  also have "\<dots> = 256 * besum (a # b # bs) mod 65535" by (simp add: algebra_simps)
  finally show ?case .
qed simp

lemma le_val_0: "le_val bs = 0 \<longleftrightarrow> besum bs = 0"
  by (induction bs rule: besum.induct) auto

lemma sums_le_val: "sums 256 (le_val bs) (besum bs)"
  by (simp add: sums_def le_val_sum le_val_0)

lemma pow256_even: "even n \<Longrightarrow> 256 ^ n mod 65535 = (1 :: nat)"
proof (elim evenE)
  fix m :: nat assume "n = 2 * m"
  have "(65536 :: nat) ^ m mod 65535 = (65536 mod 65535) ^ m mod 65535" by (rule power_mod [symmetric])
  then show ?thesis by (simp add: \<open>n = 2 * m\<close> power_mult)
qed

lemma be_val_sum: "even (length bs) \<Longrightarrow> le_val (rev bs) mod 65535 = besum bs mod 65535"
proof (induction bs rule: besum.induct)
  case (3 a b bs)
  then have "256 ^ length bs mod 65535 = (1 :: nat)" by (simp add: pow256_even)
  then have "256 ^ length bs * (unat b + 256 * unat a) mod 65535 = (unat b + 256 * unat a) mod 65535"
    by (metis mod_mult_left_eq mult_1)
  moreover have "le_val (rev bs) mod 65535 = besum bs mod 65535" using 3 by simp
  ultimately have "(le_val (rev bs) + 256 ^ length bs * (unat b + 256 * unat a)) mod 65535
      = (besum bs + (unat b + 256 * unat a)) mod 65535"
    by (intro mod_add_cong)
  then show ?case by (simp add: le_val_append algebra_simps)
qed simp_all

lemma le_val_rev_0: "le_val (rev bs) = 0 \<longleftrightarrow> le_val bs = 0"
  by (induction bs) (auto simp: le_val_append)

lemma sums_be_val: "even (length bs) \<Longrightarrow> sums 1 (le_val (rev bs)) (besum bs)"
  unfolding sums_def by (metis be_val_sum le_val_0 le_val_rev_0 mult_1)

section \<open>The additions\<close>

text \<open>
  The state between two additions: the accumulator plus the pending carry stands for the sum,
  and a pending carry leaves room for itself, so that \<open>ac += carry\<close> never wraps.
\<close>

definition carry_sum :: "nat \<Rightarrow> u64 \<Rightarrow> u64 \<Rightarrow> nat \<Rightarrow> bool" where
  "carry_sum k ac c n \<longleftrightarrow>
     (c = 0 \<or> c = 1 \<and> unat ac < 18446744073709551615) \<and> sums k (unat ac + unat c) n"

lemma unat_u64_less: "unat (x :: u64) < 18446744073709551616"
  using unsigned_less [of x] by simp

lemma sums_end_around:
  assumes "sums k t n" and "18446744073709551616 \<le> t"
  shows "sums k (t - 18446744073709551615) n"
proof -
  have "t = (t - 18446744073709551615) + 65535 * 281479271743489" using assms(2) by simp
  then have "(t - 18446744073709551615) mod 65535 = t mod 65535" by (metis mod_mult_self2)
  with assms show ?thesis by (auto simp: sums_def)
qed

lemma carry_sum_add64:
  assumes "carry_sum k ac c n" and "sums k (unat w) m"
  shows "carry_sum k (fst (add64 ac w c)) (snd (add64 ac w c)) (n + m)"
proof -
  define t where "t = unat ac + unat w + unat c"
  have "sums k ((unat ac + unat c) + unat w) (n + m)"
    using assms by (intro sums_add) (auto simp: carry_sum_def)
  then have st: "sums k t (n + m)" by (simp add: t_def ac_simps)
  have sum: "unat (fst (add64 ac w c)) = t mod 18446744073709551616"
    by (simp add: add64_def t_def unat_word_ariths mod_simps)
  have carry: "snd (add64 ac w c) = (if t < 18446744073709551616 then 0 else 1)"
    by (simp add: add64_def t_def)
  show ?thesis
  proof (cases "t < 18446744073709551616")
    case True
    with sum carry st show ?thesis by (simp add: carry_sum_def)
  next
    case False
    have "t < 2 * 18446744073709551616 - 1"
      using assms(1) unat_u64_less [of ac] unat_u64_less [of w] by (auto simp: t_def carry_sum_def)
    with False sum have low: "unat (fst (add64 ac w c)) = t - 18446744073709551616"
      by (simp add: le_mod_geq)
    have "t - 18446744073709551616 + 1 = t - 18446744073709551615" using False by simp
    then show ?thesis
      using low carry False \<open>t < 2 * 18446744073709551616 - 1\<close> sums_end_around [OF st]
      by (simp add: carry_sum_def)
  qed
qed

lemma carry_sum_start: "sums k (unat ac) n \<Longrightarrow> carry_sum k ac 0 n"
  by (simp add: carry_sum_def)

lemma carry_sum_end: "carry_sum k ac c n \<Longrightarrow> sums k (unat (ac + c)) n"
proof -
  assume a: "carry_sum k ac c n"
  then have "unat ac + unat c < 2 ^ 64"
    using unat_u64_less [of ac] by (auto simp: carry_sum_def)
  then have "unat (ac + c) = unat ac + unat c" by (simp add: unat_word_ariths)
  with a show ?thesis by (simp add: carry_sum_def)
qed

lemma sums_add_value:
  "sums k (unat ac) n \<Longrightarrow> sums k (unat w) m \<Longrightarrow> sums k (unat (add_value ac w)) (n + m)"
  using carry_sum_end [OF carry_sum_add64 [OF carry_sum_start]]
  by (simp add: add_value_def split: prod.split) (metis fst_conv snd_conv)

text \<open>
  The state of the function body: what is left of the slice and the accumulator together
  stand for the whole sum.
\<close>

definition state_sum :: "nat \<Rightarrow> nat \<Rightarrow> byte list \<times> u64 \<Rightarrow> bool" where
  "state_sum k m s \<longleftrightarrow> (\<exists>m'. sums k (unat (snd s)) m' \<and> m' + besum (fst s) = m)"

section \<open>The interface to the host's byte order\<close>

lemma unat_ucast_u64:
  "unat (ucast (x :: u16) :: u64) = unat x"
  "unat (ucast (y :: u32) :: u64) = unat y"
proof -
  have "unat x < 65536" "unat y < 4294967296"
    using unsigned_less [of x] unsigned_less [of y] by simp_all
  then show "unat (ucast x :: u64) = unat x" "unat (ucast y :: u64) = unat y"
    by (simp_all add: unsigned_ucast_eq take_bit_eq_mod)
qed

text \<open>
  What the checksum relies on: reading 2, 4 or 8 bytes in the host's order gives their
  ones-complement sum scaled by \<open>k\<close>, the initial and final byte swaps scale by \<open>k\<close>, and
  scaling twice is the identity.
\<close>

locale native_order =
  fixes e :: endian and k :: nat
  assumes involution: "k * k mod 65535 = 1"
    and read16: "length b = 2 \<Longrightarrow> sums k (unat (native_u16 e b)) (besum b)"
    and read32: "length b = 4 \<Longrightarrow> sums k (unat (native_u32 e b)) (besum b)"
    and read64: "length b = 8 \<Longrightarrow> sums k (unat (native_u64 e b)) (besum b)"
    and swap: "sums k (unat (native_swap64 e x)) (unat x)"
begin

lemma add_words_sum:
  "8 * n \<le> length b \<Longrightarrow> carry_sum k ac c m \<Longrightarrow> add_words e n b ac c = (ac', c') \<Longrightarrow>
   carry_sum k ac' c' (m + besum (take (8 * n) b))"
proof (induction n arbitrary: b ac c m)
  case (Suc n)
  let ?w = "native_u64 e (take 8 b)"
  have "sums k (unat ?w) (besum (take 8 b))" using Suc.prems(1) by (intro read64) simp
  from carry_sum_add64 [OF Suc.prems(2) this]
  have "carry_sum k (fst (add64 ac ?w c)) (snd (add64 ac ?w c)) (m + besum (take 8 b))" .
  moreover have "add_words e n (drop 8 b) (fst (add64 ac ?w c)) (snd (add64 ac ?w c)) = (ac', c')"
    using Suc.prems(3) by (simp add: split_beta)
  ultimately have "carry_sum k ac' c' (m + besum (take 8 b) + besum (take (8 * n) (drop 8 b)))"
    using Suc.prems(1) by (intro Suc.IH) auto
  moreover have "besum (take (8 * Suc n) b) = besum (take 8 b) + besum (take (8 * n) (drop 8 b))"
    using besum_take_drop [of 8 "take (8 * Suc n) b"] by (simp add: min_def take_drop add.commute)
  ultimately show ?case by (simp add: add.assoc)
qed simp

lemma add_block_sum:
  assumes "8 * n \<le> length b" and "sums k (unat ac) m"
  shows "sums k (unat (add_block e n b ac)) (m + besum (take (8 * n) b))"
proof -
  obtain ac' c' where r: "add_words e n b ac 0 = (ac', c')" by fastforce
  from add_words_sum [OF assms(1) carry_sum_start [OF assms(2)] r]
  show ?thesis by (simp add: add_block_def r carry_sum_end)
qed

lemma add_block_state:
  "8 * n \<le> length b \<Longrightarrow> state_sum k m (b, ac) \<Longrightarrow>
   state_sum k m (drop (8 * n) b, add_block e n b ac)"
proof -
  assume n: "8 * n \<le> length b" and "state_sum k m (b, ac)"
  then obtain m' where m': "sums k (unat ac) m'" "m' + besum b = m"
    by (auto simp: state_sum_def)
  from add_block_sum [OF n m'(1)] m'(2) show ?thesis
    using besum_take_drop [of "8 * n" b] by (auto simp: state_sum_def)
qed

lemma loop128_state:
  "state_sum k m (b, ac) \<Longrightarrow>
   state_sum k m (loop128 e b ac) \<and> length (fst (loop128 e b ac)) < 128"
proof (induction b arbitrary: ac rule: length_induct)
  case (1 b)
  show ?case
  proof (cases "128 \<le> length b")
    case True
    then have "state_sum k m (drop 128 b, add_block e 16 b ac)"
      using add_block_state [of 16 b m ac] "1.prems" by simp
    moreover have "length (drop 128 b) < length b" using True by simp
    ultimately have "state_sum k m (loop128 e (drop 128 b) (add_block e 16 b ac)) \<and>
        length (fst (loop128 e (drop 128 b) (add_block e 16 b ac))) < 128"
      using "1.IH" by blast
    with True show ?thesis by (simp add: loop128.simps [of e b])
  next
    case False
    with "1.prems" show ?thesis by (simp add: loop128.simps [of e b])
  qed
qed

lemma block_if_state:
  "state_sum k m s \<Longrightarrow> length (fst s) < 16 * n \<Longrightarrow>
   state_sum k m (block_if e n s) \<and> length (fst (block_if e n s)) < 8 * n"
  using add_block_state [of n "fst s" m "snd s"] by (auto simp: block_if_def split_beta)

lemma tail4_state:
  "state_sum k m s \<Longrightarrow> length (fst s) < 8 \<Longrightarrow>
   state_sum k m (tail4 e s) \<and> length (fst (tail4 e s)) < 4"
proof -
  assume s: "state_sum k m s" and len: "length (fst s) < 8"
  obtain b ac where [simp]: "s = (b, ac)" by (cases s)
  obtain m' where m': "sums k (unat ac) m'" "m' + besum b = m"
    using s by (auto simp: state_sum_def)
  show ?thesis
  proof (cases "4 \<le> length b")
    case True
    then have "sums k (unat (native_u32 e (take 4 b))) (besum (take 4 b))"
      by (intro read32) simp
    then have "sums k (unat (ucast (native_u32 e (take 4 b)) :: u64)) (besum (take 4 b))"
      by (simp add: unat_ucast_u64)
    from sums_add_value [OF m'(1) this] m'(2) besum_take_drop [of 4 b]
    show ?thesis using True len by (auto simp: tail4_def state_sum_def)
  next
    case False
    with s show ?thesis by (simp add: tail4_def)
  qed
qed

lemma tail2_state:
  "state_sum k m s \<Longrightarrow> length (fst s) < 4 \<Longrightarrow>
   state_sum k m (tail2 e s) \<and> length (fst (tail2 e s)) < 2"
proof -
  assume s: "state_sum k m s" and len: "length (fst s) < 4"
  obtain b ac where [simp]: "s = (b, ac)" by (cases s)
  obtain m' where m': "sums k (unat ac) m'" "m' + besum b = m"
    using s by (auto simp: state_sum_def)
  show ?thesis
  proof (cases "2 \<le> length b")
    case True
    then have "sums k (unat (native_u16 e (take 2 b))) (besum (take 2 b))"
      by (intro read16) simp
    then have "sums k (unat (ucast (native_u16 e (take 2 b)) :: u64)) (besum (take 2 b))"
      by (simp add: unat_ucast_u64)
    from sums_add_value [OF m'(1) this] m'(2) besum_take_drop [of 2 b]
    show ?thesis using True len by (auto simp: tail2_def state_sum_def)
  next
    case False
    with s show ?thesis by (simp add: tail2_def)
  qed
qed

lemma tail1_state:
  "state_sum k m s \<Longrightarrow> length (fst s) < 2 \<Longrightarrow> sums k (unat (tail1 e s)) m"
proof -
  assume s: "state_sum k m s" and len: "length (fst s) < 2"
  obtain b ac where [simp]: "s = (b, ac)" by (cases s)
  obtain m' where m': "sums k (unat ac) m'" "m' + besum b = m"
    using s by (auto simp: state_sum_def)
  consider "b = []" | a where "b = [a]"
    using len by (cases b) auto
  then show ?thesis
  proof cases
    case (2 a)
    have "sums k (unat (native_u16 e [a, 0])) (besum [a, 0])" by (intro read16) simp
    then have "sums k (unat (ucast (native_u16 e [a, 0]) :: u64)) (besum [a])"
      by (simp add: unat_ucast_u64)
    from sums_add_value [OF m'(1) this] m'(2) show ?thesis
      by (simp add: 2 tail1_def)
  qed (use m' in \<open>simp add: tail1_def\<close>)
qed

lemma nofold_sums: "sums 1 (unat (checksumNoFold e b initial)) (unat initial + besum b)"
proof -
  define m where "m = unat initial + besum b"
  have "state_sum k m (b, native_swap64 e initial)"
    using swap [of initial] by (auto simp: state_sum_def m_def)
  note s0 = loop128_state [OF this]
  note s1 = block_if_state [OF conjunct1 [OF s0], of 8, simplified, OF conjunct2 [OF s0]]
  note s2 = block_if_state [OF conjunct1 [OF s1], of 4, simplified, OF conjunct2 [OF s1]]
  note s3 = block_if_state [OF conjunct1 [OF s2], of 2, simplified, OF conjunct2 [OF s2]]
  note s4 = block_if_state [OF conjunct1 [OF s3], of 1, simplified, OF conjunct2 [OF s3]]
  note s5 = tail4_state [OF conjunct1 [OF s4] conjunct2 [OF s4]]
  note s6 = tail2_state [OF conjunct1 [OF s5] conjunct2 [OF s5]]
  note sums_mult [OF tail1_state [OF conjunct1 [OF s6] conjunct2 [OF s6]] swap]
  then have "sums (k * k) (unat (checksumNoFold e b initial)) m"
    by (simp add: checksumNoFold_def Let_def)
  then show ?thesis
    using sums_mod [of "k * k" 1] involution by (simp add: m_def)
qed

end

section \<open>Both byte orders meet the interface\<close>

lemma unat_of_nat_u64: "n < 2 ^ 64 \<Longrightarrow> unat (of_nat n :: u64) = n"
  by (simp add: unat_of_nat)

lemma native_val_less: "native_val e bs < 256 ^ length bs"
  using le_val_less [of bs] le_val_less [of "rev bs"] by (simp add: native_val_def split: endian.split)

lemma sums_native_val:
  "even (length b) \<Longrightarrow> sums (case e of LittleE \<Rightarrow> 256 | BigE \<Rightarrow> 1) (native_val e b) (besum b)"
  by (simp add: native_val_def sums_le_val sums_be_val del: One_nat_def split: endian.split)

lemma unat_native:
  "length b = 2 \<Longrightarrow> unat (native_u16 e b) = native_val e b"
  "length b = 4 \<Longrightarrow> unat (native_u32 e b) = native_val e b"
  "length b = 8 \<Longrightarrow> unat (native_u64 e b) = native_val e b"
  using native_val_less [of e b]
  by (simp_all add: native_u16_def native_u32_def native_u64_def unat_of_nat)

lemma length_le_bytes: "length (le_bytes k n) = k"
  by (induction k arbitrary: n) auto

lemma le_val_le_bytes: "n < 256 ^ k \<Longrightarrow> le_val (le_bytes k n) = n"
proof (induction k arbitrary: n)
  case (Suc k)
  then have "n div 256 < 256 ^ k" by (simp add: less_mult_imp_div_less mult.commute)
  then have "le_val (le_bytes k (n div 256)) = n div 256" by (rule Suc.IH)
  then show ?case by (simp add: unat_of_nat)
qed simp

lemma native_swap_sums:
  "sums (case e of LittleE \<Rightarrow> 256 | BigE \<Rightarrow> 1) (unat (native_swap64 e x)) (unat x)"
proof -
  define bs where "bs = le_bytes 8 (unat x)"
  have len: "length bs = 8" by (simp add: bs_def length_le_bytes)
  have val: "le_val bs = unat x"
    unfolding bs_def by (rule le_val_le_bytes) (use unat_u64_less [of x] in simp)
  show ?thesis
  proof (cases e)
    case BigE
    then have "native_swap64 e x = x"
      using val by (simp add: native_swap64_def native_bytes64_def bs_def)
    with BigE show ?thesis by (simp add: sums_def)
  next
    case LittleE
    have "le_val (rev bs) < 2 ^ 64" using le_val_less [of "rev bs"] len by simp
    then have swapped: "unat (native_swap64 e x) = le_val (rev bs)"
      using LittleE by (simp add: native_swap64_def native_bytes64_def bs_def unat_of_nat_u64)
    have "sums 1 (le_val (rev bs)) (besum bs)" using len by (intro sums_be_val) simp
    moreover have "sums 256 (unat x) (besum bs)" using sums_le_val [of bs] val by simp
    ultimately show ?thesis
      using swapped LittleE mod_65536 [of "besum bs"]
        mod_cong_mult [of "unat x" 65535 "256 * besum bs" 256]
      by (simp add: sums_def mult.assoc [symmetric])
  qed
qed

interpretation little: native_order LittleE 256
  using sums_native_val [where e = LittleE] native_swap_sums [of LittleE]
  by unfold_locales (simp_all add: unat_native)

interpretation big: native_order BigE 1
  using sums_native_val [where e = BigE] native_swap_sums [of BigE]
  by unfold_locales (simp_all add: unat_native)

lemma checksumNoFold_sums: "sums 1 (unat (checksumNoFold e b initial)) (unat initial + besum b)"
  using little.nofold_sums big.nofold_sums by (cases e) blast+

section \<open>Folding\<close>

lemma sums_fold: "sums 1 x n \<Longrightarrow> sums 1 (x div 65536 + x mod 65536) n"
proof -
  assume s: "sums 1 x n"
  have "x = 65536 * (x div 65536) + x mod 65536" by simp
  then have "x mod 65535 = (65536 * (x div 65536) + x mod 65536) mod 65535" by simp
  also have "\<dots> = (x div 65536 + x mod 65536) mod 65535"
    by (rule mod_add_cong [OF mod_65536 refl])
  finally have "x mod 65535 = (x div 65536 + x mod 65536) mod 65535" .
  moreover have "x = 0 \<longleftrightarrow> x div 65536 + x mod 65536 = 0"
    using div_mult_mod_eq [of x 65536] by auto
  ultimately show ?thesis using s by (simp add: sums_def)
qed

lemma sums_fold_once: "sums 1 (unat x) n \<Longrightarrow> sums 1 (unat (fold_once x)) n"
  by (simp add: unat_fold_once sums_fold del: One_nat_def)

text \<open>Four folds bring any 64-bit accumulator into 16 bits: no bit is lost by the truncation.\<close>

lemma fold4_bound:
  "unat (fold_once (fold_once (fold_once (fold_once x)))) \<le> 65535"
proof -
  define f where "f y = y div 65536 + y mod (65536 :: nat)" for y
  have step: "f y \<le> h + 65534" if "y < 65536 * h + 65535" for y h
  proof (cases "y div 65536 = h")
    case True
    then have "y mod 65536 < 65535" using that div_mult_mod_eq [of y 65536] by linarith
    then show ?thesis using True by (simp add: f_def)
  next
    case False
    have "y div 65536 \<le> h" using that div_le_mono [of y "65536 * h + 65535" 65536] by simp
    then show ?thesis using False mod_less_divisor [of 65536 y] unfolding f_def by linarith
  qed
  have "f (unat x) \<le> 281474976710655 + 65535"
    unfolding f_def using unat_u64_less [of x] div_le_mono [of "unat x" 18446744073709551615 65536]
      mod_less_divisor [of 65536 "unat x"] by simp
  then have "f (unat x) < 65536 * 4294967296 + 65535" by simp
  from step [OF this] have "f (f (unat x)) < 65536 * 65536 + 65535" by simp
  from step [OF this] have "f (f (f (unat x))) < 65536 * 1 + 65535" by simp
  from step [OF this] have "f (f (f (f (unat x)))) \<le> 65535" by simp
  then show ?thesis by (simp add: f_def unat_fold_once)
qed

lemma unat_checksum: "unat (checksum e b initial) = ones16 (unat initial + besum b)"
proof (rule ones16_unique)
  let ?x = "fold_once (fold_once (fold_once (fold_once (checksumNoFold e b initial))))"
  have "unat ?x \<le> 65535" by (rule fold4_bound)
  then have "unat (checksum e b initial) = unat ?x"
    by (simp add: checksum_def unsigned_ucast_eq take_bit_eq_mod)
  moreover have "sums 1 (unat ?x) (unat initial + besum b)"
    by (intro sums_fold_once checksumNoFold_sums)
  ultimately show "sums 1 (unat (checksum e b initial)) (unat initial + besum b)" by simp
  show "unat (checksum e b initial) \<le> 65535"
    using unat_u16_less [of "checksum e b initial"] by simp
qed


section \<open>Storing and verifying a checksum\<close>

lemma u16_bytes: "256 * unat (ucast (drop_bit 8 v) :: byte) + unat (ucast v :: byte) = unat (v :: u16)"
  using unat_be16_of [of "ucast (drop_bit 8 v)" "ucast v"] by (simp add: be16_of_split)

lemma besum_update:
  fixes v :: u16
  assumes "even i" and "i + 1 < length xs"
  shows "besum (xs[i := ucast (drop_bit 8 v), i + 1 := ucast v]) + unat (be16_of (xs ! i) (xs ! (i + 1)))
         = besum xs + unat v"
proof -
  have even: "even (length (take i xs))" using assms by simp
  have "besum xs = besum (take i xs @ xs ! i # xs ! (i + 1) # drop (i + 2) xs)"
    using split_at2 [OF assms(2)] by simp
  then have old: "besum xs = besum (take i xs)
      + (256 * unat (xs ! i) + unat (xs ! (i + 1)) + besum (drop (i + 2) xs))"
    unfolding besum_append [OF even] besum.simps .
  have "besum (xs[i := ucast (drop_bit 8 v), i + 1 := ucast v]) = besum (take i xs)
      + (unat v + besum (drop (i + 2) xs))"
    unfolding update_at2 [OF assms(2)] besum_append [OF even] besum.simps u16_bytes ..
  with old show ?thesis unfolding unat_be16_of by linarith
qed

lemma unat_not_u16: "unat (NOT (c :: u16)) = 65535 - unat c"
proof -
  have "uint (NOT c) = 65535 - uint c"
    by (simp add: unsigned_not_eq take_bit_not_eq_mask_diff mask_eq_exp_minus_1 bintr_uint)
  then have "int (unat (NOT c)) = 65535 - int (unat c)" by simp
  then show ?thesis by linarith
qed

lemma ones16_complement: "ones16 (s + (65535 - ones16 s)) = 65535"
proof -
  have o: "ones16 s \<le> 65535" "ones16 s mod 65535 = s mod 65535" "ones16 s = 0 \<longleftrightarrow> s = 0"
    using ones16_le [of s] ones16_sums [of s] by (auto simp: sums_def)
  have "(s + (65535 - ones16 s)) mod 65535 = (ones16 s + (65535 - ones16 s)) mod 65535"
    by (rule mod_add_cong) (simp_all add: o)
  also have "\<dots> = 65535 mod 65535" using o(1) by simp
  finally have "ones16 (s + (65535 - ones16 s)) = ones16 65535"
    using o by (intro ones16_cong) auto
  then show ?thesis by (simp add: ones16_def)
qed

text \<open>
  A message whose zeroed checksum field receives the complement of its checksum verifies: the
  receiver's complemented checksum over the whole message is zero.
\<close>

lemma stored_checksum_verifies:
  assumes "even i" and "i + 1 < length xs" and "be16_of (xs ! i) (xs ! (i + 1)) = 0"
    and "v = NOT (checksum e xs initial)"
  shows "NOT (checksum e' (xs[i := ucast (drop_bit 8 v), i + 1 := ucast v]) initial) = 0"
proof -
  let ?ys = "xs[i := ucast (drop_bit 8 v), i + 1 := ucast v]"
  define s where "s = unat initial + besum xs"
  have "besum ?ys = besum xs + unat v"
    using besum_update [OF assms(1,2), of v] assms(3) by simp
  moreover have "unat v = 65535 - ones16 s"
    by (simp add: assms(4) unat_not_u16 unat_checksum s_def)
  ultimately have "unat (checksum e' ?ys initial) = ones16 (s + (65535 - ones16 s))"
    by (simp add: unat_checksum s_def add.assoc)
  then have "unat (NOT (checksum e' ?ys initial)) = 0"
    by (simp add: ones16_complement unat_not_u16)
  then show ?thesis by (simp add: unat_eq_zero)
qed

lemma unat_checksum_pseudo:
  "unat (checksum e b (pseudoHeaderChecksumNoFold e proto src dst len))
   = ones16 (besum src + besum dst + unat proto + unat len + besum b)"
proof -
  have ext: "sums 1 (unat (checksumNoFold e c s)) (n + besum c)" if "sums 1 (unat s) n" for c s n
    using that checksumNoFold_sums [of e c s] mod_add_cong [of "unat s" 65535 n "besum c" "besum c"]
    by (simp add: sums_def)
  have "sums 1 (unat (pseudoHeaderChecksumNoFold e proto src dst len))
      (besum src + besum dst + unat proto + unat len)"
    using ext [OF ext [OF ext [OF checksumNoFold_sums [of e src 0]]], of "[ucast (drop_bit 8 len), ucast len]" "[0, proto]" dst]
    by (simp add: pseudoHeaderChecksumNoFold_def Let_def u16_bytes)
  then show ?thesis
    unfolding unat_checksum by (intro ones16_cong) (auto simp: sums_def intro: mod_add_cong)
qed

section \<open>The reference loop\<close>

lemma unat_foldRef: "unat (foldRef ac) = ones16 (unat ac)"
proof (induction ac rule: foldRef.induct)
  case (1 ac)
  show ?case
  proof (cases "0 < drop_bit 16 ac")
    case True
    have "sums 1 (unat (fold_once ac)) (unat ac)"
      by (rule sums_fold_once) (simp add: sums_def)
    then have "ones16 (unat (fold_once ac)) = ones16 (unat ac)"
      by (intro ones16_cong) (auto simp: sums_def)
    with True 1 show ?thesis by (simp add: foldRef.simps [of ac])
  next
    case False
    then have "unat ac div 65536 = 0"
      by (simp add: word_less_nat_alt drop_bit_eq_div unat_div)
    then have "unat ac \<le> 65535" by linarith
    from ones16_unique [OF this, of "unat ac"] False show ?thesis
      by (simp add: foldRef.simps [of ac] sums_def)
  qed
qed

lemma unat_sumRef:
  "unat ac + 65536 * length b < 2 ^ 64 \<Longrightarrow> unat (sumRef b ac) = unat ac + besum b"
proof (induction b ac rule: sumRef.induct)
  case (1 a b bs ac)
  have "unat (be16_of a b) < 65536" by (rule unat_u16_less)
  then have step: "unat (ac + ucast (be16_of a b)) = unat ac + unat (be16_of a b)"
    using "1.prems" by (simp add: unat_word_ariths unat_ucast_u64)
  have "unat (ac + ucast (be16_of a b)) + 65536 * length bs < 2 ^ 64"
    using "1.prems" \<open>unat (be16_of a b) < 65536\<close> unfolding step by simp
  from "1.IH" [OF this] step show ?case by (simp add: unat_be16_of)
next
  case (2 a ac)
  have "unat a < 256" by (rule unat_byte_less)
  with "2.prems" show ?case
    by (simp add: unat_word_ariths unsigned_push_bit_eq take_bit_eq_mod push_bit_eq_mult
        unsigned_ucast_eq)
qed simp

text \<open>
  C5. The folded checksum is the RFC 1071 ones-complement sum of the initial
  value and the 16-bit big-endian words of the slice (an odd last byte padded with zero), for
  every length, every initial value and both host byte orders: the 128-, 64-, 32-, 16-, 8-, 4-,
  2- and 1-byte steps lose no carry and the four folds lose no bit.
\<close>

theorem checksum_rfc1071: "unat (checksum e b initial) = ones16 (unat initial + besum b)"
  by (rule unat_checksum)

text \<open>
  C19. The optimised checksum agrees with the reference loop \<open>checksumRef\<close> of the
  test-suite, whose 64-bit accumulator does not overflow on slices below \<open>2 ^ 40\<close> bytes.
\<close>

theorem checksum_eq_ref:
  assumes "length b < 2 ^ 40"
  shows "checksum e b (ucast initial) = checksumRef b initial"
proof -
  have init: "unat (ucast initial :: u64) = unat initial" by (rule unat_ucast_u64)
  have "unat (sumRef b (ucast initial)) = unat initial + besum b"
    using unat_sumRef [of "ucast initial" b] assms unat_u16_less [of initial] by (simp add: init)
  then have "unat (foldRef (sumRef b (ucast initial))) = ones16 (unat initial + besum b)"
    by (simp add: unat_foldRef)
  then have "unat (checksumRef b initial) = ones16 (unat initial + besum b)"
    using ones16_less [of "unat initial + besum b"]
    by (simp add: checksumRef_def unsigned_ucast_eq take_bit_eq_mod)
  then have "unat (checksum e b (ucast initial)) = unat (checksumRef b initial)"
    by (simp add: unat_checksum init)
  then show ?thesis by (simp only: word_unat_eq_iff)
qed

theorem checksum_eq_ref_witness:
  "length [0x45, 0, 0xff :: byte] < 2 ^ 40 \<and>
   checksum LittleE [0x45, 0, 0xff] (ucast (0x1234 :: u16)) = checksumRef [0x45, 0, 0xff] 0x1234"
  using checksum_eq_ref [where b = "[0x45, 0, 0xff]" and e = LittleE and initial = "0x1234"] by simp

text \<open>
  Chaining the unfolded sums of the source address, the destination
  address, the protocol and the length in front of a transport segment gives the ones-complement
  sum of all of them: the intermediate 64-bit sums may be passed on unfolded.
\<close>

theorem pseudo_header_checksum:
  "unat (checksum e b (pseudoHeaderChecksumNoFold e proto src dst len))
   = ones16 (besum src + besum dst + unat proto + unat len + besum b)"
  by (rule unat_checksum_pseudo)

end
