(* ===== verification/Virtio.thy ===== *)
theory Virtio
  imports Checksum
begin

text \<open>
  The data shared by both directions of the Linux offload path (\<open>src/tun/offload_linux.go\<close>):
  \<open>virtioNetHdr\<close> with its \<open>decode\<close> and \<open>encode\<close>, the constants of the file and of the
  Linux ABI it names, and the Go errors of the \<open>tun\<close> package.
\<close>

section \<open>Errors\<close>

text \<open>
  One constructor per error value the code builds, with the values it formats. \<open>FileError\<close>
  carries an error number of the system, of which the code inspects a few; \<open>ErrWrapped\<close> is an
  error wrapped with \<open>%w\<close>, with the text in front of it.
\<close>

datatype goerror =
    ErrShortBuffer
  | ErrTooManySegments
  | ErrInvalidOffset
  | ErrReadOverflow nat nat
  | ErrUnsupportedGSOType u8
  | ErrGSOTypeVersion u8 u8
  | ErrInvalidIPVersion u8
  | ErrPacketTooShort
  | ErrTCPHeaderLen u16
  | ErrLenBelowHdrLen nat u16
  | ErrHdrLenBelowCsumStart u16 u16
  | ErrChecksumOffset nat nat
  | ErrClosed
  | ErrEOF
  | ErrBadName
  | ErrNameTooLong
  | ErrInterfaceExists
  | ErrText string
  | FileError nat
  | ErrWrapped string goerror

section \<open>Constants\<close>

text \<open>
  The first group is the code's own; the second is the Linux ABI as \<open>golang.org/x/sys/unix\<close>
  names it.
\<close>

definition virtioNetHdrLen :: nat where "virtioNetHdrLen = 10"
definition tcpFlagsOffset :: nat where "tcpFlagsOffset = 13"
definition tcpFlagFIN :: u8 where "tcpFlagFIN = 0x01"
definition tcpFlagPSH :: u8 where "tcpFlagPSH = 0x08"
definition tcpFlagACK :: u8 where "tcpFlagACK = 0x10"
definition ipv4FlagMoreFragments :: u8 where "ipv4FlagMoreFragments = 0x20"
definition ipv4SrcAddrOffset :: nat where "ipv4SrcAddrOffset = 12"
definition ipv6SrcAddrOffset :: nat where "ipv6SrcAddrOffset = 8"
definition maxUint16 :: nat where "maxUint16 = 65535"
definition udphLen :: nat where "udphLen = 8"

definition IPPROTO_TCP :: u8 where "IPPROTO_TCP = 6"
definition IPPROTO_UDP :: u8 where "IPPROTO_UDP = 17"
definition VIRTIO_NET_HDR_F_NEEDS_CSUM :: u8 where "VIRTIO_NET_HDR_F_NEEDS_CSUM = 1"
definition VIRTIO_NET_HDR_GSO_NONE :: u8 where "VIRTIO_NET_HDR_GSO_NONE = 0"
definition VIRTIO_NET_HDR_GSO_TCPV4 :: u8 where "VIRTIO_NET_HDR_GSO_TCPV4 = 1"
definition VIRTIO_NET_HDR_GSO_TCPV6 :: u8 where "VIRTIO_NET_HDR_GSO_TCPV6 = 4"
definition VIRTIO_NET_HDR_GSO_UDP_L4 :: u8 where "VIRTIO_NET_HDR_GSO_UDP_L4 = 5"

lemmas offload_consts =
  virtioNetHdrLen_def tcpFlagsOffset_def tcpFlagFIN_def tcpFlagPSH_def tcpFlagACK_def
  ipv4FlagMoreFragments_def ipv4SrcAddrOffset_def ipv6SrcAddrOffset_def maxUint16_def udphLen_def
  IPPROTO_TCP_def IPPROTO_UDP_def VIRTIO_NET_HDR_F_NEEDS_CSUM_def VIRTIO_NET_HDR_GSO_NONE_def
  VIRTIO_NET_HDR_GSO_TCPV4_def VIRTIO_NET_HDR_GSO_TCPV6_def VIRTIO_NET_HDR_GSO_UDP_L4_def

section \<open>The header\<close>

record virtioNetHdr =
  flags :: u8
  gsoType :: u8
  hdrLen :: u16
  hdrGsoSize :: u16
  csumStart :: u16
  csumOffset :: u16

text \<open>
  The code copies the struct's memory, so a 16-bit field lies in the byte order of the host.
\<close>

definition native_bytes16 :: "endian \<Rightarrow> u16 \<Rightarrow> byte list" where
  "native_bytes16 e x =
     (case e of LittleE \<Rightarrow> [ucast x, ucast (drop_bit 8 x)] | BigE \<Rightarrow> [ucast (drop_bit 8 x), ucast x])"

definition native_get16 :: "endian \<Rightarrow> byte \<Rightarrow> byte \<Rightarrow> u16" where
  "native_get16 e a b = (case e of LittleE \<Rightarrow> be16_of b a | BigE \<Rightarrow> be16_of a b)"

definition hdr_bytes :: "endian \<Rightarrow> virtioNetHdr \<Rightarrow> byte list" where
  "hdr_bytes e v =
     [flags v, gsoType v] @ native_bytes16 e (hdrLen v) @ native_bytes16 e (hdrGsoSize v)
     @ native_bytes16 e (csumStart v) @ native_bytes16 e (csumOffset v)"

definition decode :: "endian \<Rightarrow> byte list \<Rightarrow> goerror + virtioNetHdr" where
  "decode e b =
     (if length b < virtioNetHdrLen then Inl ErrShortBuffer
      else Inr \<lparr>flags = b ! 0, gsoType = b ! 1,
                hdrLen = native_get16 e (b ! 2) (b ! 3),
                hdrGsoSize = native_get16 e (b ! 4) (b ! 5),
                csumStart = native_get16 e (b ! 6) (b ! 7),
                csumOffset = native_get16 e (b ! 8) (b ! 9)\<rparr>)"

definition encode :: "endian \<Rightarrow> virtioNetHdr \<Rightarrow> byte list \<Rightarrow> goerror + byte list" where
  "encode e v b =
     (if length b < virtioNetHdrLen then Inl ErrShortBuffer
      else Inr (hdr_bytes e v @ drop virtioNetHdrLen b))"

lemma length_hdr_bytes [simp]: "length (hdr_bytes e v) = 10"
  by (simp add: hdr_bytes_def native_bytes16_def split: endian.split)

lemma native_get16_bytes:
  "native_get16 LittleE (ucast x) (ucast (drop_bit 8 x)) = x"
  "native_get16 BigE (ucast (drop_bit 8 x)) (ucast x) = x"
  by (simp_all add: native_get16_def be16_of_split)

lemma decode_hdr_bytes: "decode e (hdr_bytes e v @ rest) = Inr v"
  by (cases e; cases v) (simp_all add: decode_def hdr_bytes_def native_bytes16_def
      virtioNetHdrLen_def native_get16_bytes)

lemma encode_ok: "virtioNetHdrLen \<le> length b \<Longrightarrow> encode e v b = Inr (hdr_bytes e v @ drop 10 b)"
  by (simp add: encode_def virtioNetHdrLen_def)

text \<open>
  On a buffer that can hold the header, \<open>encode\<close> succeeds, touches the
  first \<open>virtioNetHdrLen\<close> bytes only and \<open>decode\<close> reads back the same header; on a shorter
  buffer both directions report \<open>io.ErrShortBuffer\<close>.
\<close>

theorem virtio_hdr_roundtrip:
  "case encode e v b of
     Inl err \<Rightarrow> length b < virtioNetHdrLen \<and> err = ErrShortBuffer \<and> decode e b = Inl ErrShortBuffer
   | Inr b' \<Rightarrow> virtioNetHdrLen \<le> length b \<and> decode e b' = Inr v \<and> length b' = length b
       \<and> drop virtioNetHdrLen b' = drop virtioNetHdrLen b"
proof (cases "length b < virtioNetHdrLen")
  case True
  then show ?thesis by (simp add: encode_def decode_def)
next
  case False
  then show ?thesis
    by (simp add: encode_def decode_hdr_bytes) (simp add: virtioNetHdrLen_def)
qed

end
