(* ===== verification/GROTable.thy ===== *)
theory GROTable
  imports Virtio "HOL-Library.AList" "HOL-Library.Multiset"
begin

text \<open>
  The flow tables of \<open>src/tun/offload_linux.go\<close>: \<open>tcpGROTable\<close> and \<open>udpGROTable\<close> with
  their keys, their items and their operations. The two Go types have the same shape, so the
  tables share one record and the operations that do not read a packet; the operations that do
  are written out for each protocol.

  The Go map is an association list with distinct keys. Its order plays the part of Go's
  unspecified iteration order; a later theorem shows that no result depends on it. The pool
  holds the recycled item slices, all of length 0.
\<close>

section \<open>Keys, items, tables\<close>

record udpFlowKey =
  srcAddr :: "byte list"
  dstAddr :: "byte list"
  srcPort :: u16
  dstPort :: u16
  isV6 :: bool

record tcpFlowKey = udpFlowKey +
  rxAck :: u32

record 'k groItem =
  key :: 'k
  bufsIndex :: u16
  numMerged :: u16
  gsoSize :: u16
  iphLen :: u8

record tcpGROItem = "tcpFlowKey groItem" +
  sentSeq :: u32
  tcphLen :: u8
  pshSet :: bool

record udpGROItem = "udpFlowKey groItem" +
  cSumKnownInvalid :: bool

record ('k, 'i) groTable =
  itemsByFlow :: "('k \<times> 'i list) list"
  itemsPool :: "'i list list"

type_synonym tcpGROTable = "(tcpFlowKey, tcpGROItem) groTable"
type_synonym udpGROTable = "(udpFlowKey, udpGROItem) groTable"

text \<open>\<open>batch\<close> is \<open>conn.IdealBatchSize\<close> of the wireguard module, a parameter here.\<close>

definition newTCPGROTable :: "nat \<Rightarrow> tcpGROTable" where
  "newTCPGROTable batch = \<lparr>itemsByFlow = [], itemsPool = replicate batch []\<rparr>"

definition newUDPGROTable :: "nat \<Rightarrow> udpGROTable" where
  "newUDPGROTable batch = \<lparr>itemsByFlow = [], itemsPool = replicate batch []\<rparr>"

section \<open>Operations that do not read a packet\<close>

definition items_of :: "('k, 'i) groTable \<Rightarrow> 'k \<Rightarrow> 'i list option" where
  "items_of t k = map_of (itemsByFlow t) k"

definition set_items :: "'k \<Rightarrow> 'i list \<Rightarrow> ('k, 'i) groTable \<Rightarrow> ('k, 'i) groTable" where
  "set_items k xs t = t\<lparr>itemsByFlow := AList.update k xs (itemsByFlow t)\<rparr>"

text \<open>\<open>newItems\<close> takes the last pooled slice and panics when the pool is empty.\<close>

definition newItems :: "('k, 'i) groTable \<Rightarrow> ('i list \<times> ('k, 'i) groTable) option" where
  "newItems t =
     (if itemsPool t = [] then None
      else Some (last (itemsPool t), t\<lparr>itemsPool := butlast (itemsPool t)\<rparr>))"

definition append_item :: "'k \<Rightarrow> 'i \<Rightarrow> ('k, 'i) groTable \<Rightarrow> ('k, 'i) groTable option" where
  "append_item k item t = do {
     (items, t) \<leftarrow> (case items_of t k of Some items \<Rightarrow> Some (items, t) | None \<Rightarrow> newItems t);
     Some (set_items k (items @ [item]) t)
   }"

definition updateAt ::
  "('k, 'm) groItem_scheme \<Rightarrow> nat \<Rightarrow> ('k, ('k, 'm) groItem_scheme) groTable
    \<Rightarrow> ('k, ('k, 'm) groItem_scheme) groTable option" where
  "updateAt item i t = do {
     items \<leftarrow> set_at (case items_of t (key item) of Some items \<Rightarrow> items | None \<Rightarrow> []) i item;
     Some (set_items (key item) items t)
   }"

definition deleteAt :: "'k \<Rightarrow> nat \<Rightarrow> ('k, 'i) groTable \<Rightarrow> ('k, 'i) groTable option" where
  "deleteAt k i t = (let items = (case items_of t k of Some items \<Rightarrow> items | None \<Rightarrow> []) in do {
     before \<leftarrow> slice items 0 i;
     after \<leftarrow> slice_from items (i + 1);
     Some (set_items k (before @ after) t)
   })"

definition reset :: "('k, 'i) groTable \<Rightarrow> ('k, 'i) groTable" where
  "reset t = t\<lparr>itemsPool := itemsPool t @ map (\<lambda>(k, items). take 0 items) (itemsByFlow t),
               itemsByFlow := []\<rparr>"

section \<open>Operations that read a packet\<close>

text \<open>\<open>copy(key.srcAddr[:], src)\<close> into a zeroed \<open>[16]byte\<close>.\<close>

definition addr16 :: "byte list \<Rightarrow> byte list" where
  "addr16 src = take 16 src @ replicate (16 - length src) 0"

definition newTCPFlowKey :: "byte list \<Rightarrow> nat \<Rightarrow> nat \<Rightarrow> nat \<Rightarrow> tcpFlowKey option" where
  "newTCPFlowKey pkt srcAddrOffset dstAddrOffset tcphOffset = do {
     let addrSize = dstAddrOffset - srcAddrOffset;
     src \<leftarrow> slice pkt srcAddrOffset dstAddrOffset;
     dst \<leftarrow> slice pkt dstAddrOffset (dstAddrOffset + addrSize);
     sport \<leftarrow> get16 pkt tcphOffset;
     dport \<leftarrow> get16 pkt (tcphOffset + 2);
     ack \<leftarrow> get32 pkt (tcphOffset + 8);
     Some \<lparr>srcAddr = addr16 src, dstAddr = addr16 dst, srcPort = sport, dstPort = dport,
           isV6 = (addrSize = 16), rxAck = ack\<rparr>
   }"

definition newUDPFlowKey :: "byte list \<Rightarrow> nat \<Rightarrow> nat \<Rightarrow> nat \<Rightarrow> udpFlowKey option" where
  "newUDPFlowKey pkt srcAddrOffset dstAddrOffset udphOffset = do {
     let addrSize = dstAddrOffset - srcAddrOffset;
     src \<leftarrow> slice pkt srcAddrOffset dstAddrOffset;
     dst \<leftarrow> slice pkt dstAddrOffset (dstAddrOffset + addrSize);
     sport \<leftarrow> get16 pkt udphOffset;
     dport \<leftarrow> get16 pkt (udphOffset + 2);
     Some \<lparr>srcAddr = addr16 src, dstAddr = addr16 dst, srcPort = sport, dstPort = dport,
           isV6 = (addrSize = 16)\<rparr>
   }"

definition newTCPItem ::
  "byte list \<Rightarrow> tcpFlowKey \<Rightarrow> nat \<Rightarrow> nat \<Rightarrow> nat \<Rightarrow> tcpGROItem option" where
  "newTCPItem pkt k tcphOffset thLen bufI = do {
     payload \<leftarrow> slice_from pkt (tcphOffset + thLen);
     seq \<leftarrow> get32 pkt (tcphOffset + 4);
     tcpFlags \<leftarrow> idx pkt (tcphOffset + tcpFlagsOffset);
     Some \<lparr>key = k, bufsIndex = of_nat bufI, numMerged = 0,
           gsoSize = of_nat (length payload), iphLen = of_nat tcphOffset,
           sentSeq = seq, tcphLen = of_nat thLen, pshSet = (tcpFlags AND tcpFlagPSH \<noteq> 0)\<rparr>
   }"

definition tcp_insert ::
  "byte list \<Rightarrow> nat \<Rightarrow> nat \<Rightarrow> nat \<Rightarrow> nat \<Rightarrow> nat \<Rightarrow> tcpGROTable \<Rightarrow> tcpGROTable option" where
  "tcp_insert pkt srcAddrOffset dstAddrOffset tcphOffset thLen bufI t = do {
     k \<leftarrow> newTCPFlowKey pkt srcAddrOffset dstAddrOffset tcphOffset;
     item \<leftarrow> newTCPItem pkt k tcphOffset thLen bufI;
     append_item k item t
   }"

definition tcp_lookupOrInsert ::
  "byte list \<Rightarrow> nat \<Rightarrow> nat \<Rightarrow> nat \<Rightarrow> nat \<Rightarrow> nat \<Rightarrow> tcpGROTable
    \<Rightarrow> (tcpGROItem list option \<times> tcpGROTable) option" where
  "tcp_lookupOrInsert pkt srcAddrOffset dstAddrOffset tcphOffset thLen bufI t = do {
     k \<leftarrow> newTCPFlowKey pkt srcAddrOffset dstAddrOffset tcphOffset;
     case items_of t k of
       Some items \<Rightarrow> Some (Some items, t)
     | None \<Rightarrow> do {
         t \<leftarrow> tcp_insert pkt srcAddrOffset dstAddrOffset tcphOffset thLen bufI t;
         Some (None, t)
       }
   }"

definition newUDPItem :: "byte list \<Rightarrow> udpFlowKey \<Rightarrow> nat \<Rightarrow> nat \<Rightarrow> bool \<Rightarrow> udpGROItem option" where
  "newUDPItem pkt k udphOffset bufI knownInvalid = do {
     payload \<leftarrow> slice_from pkt (udphOffset + udphLen);
     Some \<lparr>key = k, bufsIndex = of_nat bufI, numMerged = 0,
           gsoSize = of_nat (length payload), iphLen = of_nat udphOffset,
           cSumKnownInvalid = knownInvalid\<rparr>
   }"

definition udp_insert ::
  "byte list \<Rightarrow> nat \<Rightarrow> nat \<Rightarrow> nat \<Rightarrow> nat \<Rightarrow> bool \<Rightarrow> udpGROTable \<Rightarrow> udpGROTable option" where
  "udp_insert pkt srcAddrOffset dstAddrOffset udphOffset bufI knownInvalid t = do {
     k \<leftarrow> newUDPFlowKey pkt srcAddrOffset dstAddrOffset udphOffset;
     item \<leftarrow> newUDPItem pkt k udphOffset bufI knownInvalid;
     append_item k item t
   }"

definition udp_lookupOrInsert ::
  "byte list \<Rightarrow> nat \<Rightarrow> nat \<Rightarrow> nat \<Rightarrow> nat \<Rightarrow> udpGROTable
    \<Rightarrow> (udpGROItem list option \<times> udpGROTable) option" where
  "udp_lookupOrInsert pkt srcAddrOffset dstAddrOffset udphOffset bufI t = do {
     k \<leftarrow> newUDPFlowKey pkt srcAddrOffset dstAddrOffset udphOffset;
     case items_of t k of
       Some items \<Rightarrow> Some (Some items, t)
     | None \<Rightarrow> do {
         t \<leftarrow> udp_insert pkt srcAddrOffset dstAddrOffset udphOffset bufI False t;
         Some (None, t)
       }
   }"

section \<open>The interface of a flow table\<close>

text \<open>All items of all flows, in the order of the map's iteration, and as a bag.\<close>

definition all_items :: "('k, 'i) groTable \<Rightarrow> 'i list" where
  "all_items t = concat (map snd (itemsByFlow t))"

definition tracked :: "('k, 'i) groTable \<Rightarrow> 'i multiset" where
  "tracked t = mset (all_items t)"

text \<open>
  What the coalescing code relies on. \<open>lookup\<close> is what a flow holds, \<open>bag\<close> all items of the
  table, \<open>free\<close> the number of pooled slices, \<open>inv\<close> what every operation keeps.
\<close>

locale flow_table =
  fixes lookup :: "'t \<Rightarrow> 'k \<Rightarrow> 'i list option"
    and bag :: "'t \<Rightarrow> 'i multiset"
    and add :: "'k \<Rightarrow> 'i \<Rightarrow> 't \<Rightarrow> 't option"
    and upd :: "'i \<Rightarrow> nat \<Rightarrow> 't \<Rightarrow> 't option"
    and del :: "'k \<Rightarrow> nat \<Rightarrow> 't \<Rightarrow> 't option"
    and clear_all :: "'t \<Rightarrow> 't"
    and free :: "'t \<Rightarrow> nat"
    and item_key :: "'i \<Rightarrow> 'k"
    and inv :: "'t \<Rightarrow> bool"
  assumes finite_flows: "inv t \<Longrightarrow> finite (dom (lookup t))"
    and bag_lookup: "inv t \<Longrightarrow> lookup t k = Some is \<Longrightarrow> mset is \<subseteq># bag t"
    and add_new: "inv t \<Longrightarrow> lookup t k = None \<Longrightarrow> 0 < free t \<Longrightarrow>
      \<exists>t'. add k i t = Some t' \<and> inv t' \<and> lookup t' = (lookup t)(k \<mapsto> [i])
        \<and> bag t' = add_mset i (bag t) \<and> free t' + 1 = free t"
    and add_old: "inv t \<Longrightarrow> lookup t k = Some is \<Longrightarrow>
      \<exists>t'. add k i t = Some t' \<and> inv t' \<and> lookup t' = (lookup t)(k \<mapsto> is @ [i])
        \<and> bag t' = add_mset i (bag t) \<and> free t' = free t"
    and upd: "inv t \<Longrightarrow> lookup t (item_key i) = Some is \<Longrightarrow> n < length is \<Longrightarrow>
      \<exists>t'. upd i n t = Some t' \<and> inv t' \<and> lookup t' = (lookup t)(item_key i \<mapsto> is[n := i])
        \<and> bag t' = add_mset i (bag t - {#is ! n#}) \<and> free t' = free t"
    and del: "inv t \<Longrightarrow> lookup t k = Some is \<Longrightarrow> n < length is \<Longrightarrow>
      \<exists>t'. del k n t = Some t' \<and> inv t' \<and> lookup t' = (lookup t)(k \<mapsto> take n is @ drop (n + 1) is)
        \<and> bag t' = bag t - {#is ! n#} \<and> free t' = free t"
    and clear_all: "inv t \<Longrightarrow>
      inv (clear_all t) \<and> lookup (clear_all t) = Map.empty \<and> bag (clear_all t) = {#}
      \<and> free (clear_all t) = free t + card (dom (lookup t))"
begin

text \<open>
  The number of flows the table can ever hold at once, which every operation keeps, and the
  invariant of its clients: an item lies in the flow of its key.
\<close>

definition capacity :: "'t \<Rightarrow> nat" where
  "capacity t = free t + card (dom (lookup t))"

definition keyed :: "'t \<Rightarrow> bool" where
  "keyed t \<longleftrightarrow> (\<forall>k is i. lookup t k = Some is \<longrightarrow> i \<in> set is \<longrightarrow> item_key i = k)"

definition good :: "'t \<Rightarrow> bool" where
  "good t \<longleftrightarrow> inv t \<and> keyed t"

lemma in_bag: "good t \<Longrightarrow> lookup t k = Some is \<Longrightarrow> i \<in> set is \<Longrightarrow> i \<in># bag t"
  using bag_lookup [of t k "is"] by (auto simp: good_def dest: mset_subset_eqD)

lemma good_key: "good t \<Longrightarrow> lookup t k = Some is \<Longrightarrow> i \<in> set is \<Longrightarrow> item_key i = k"
  by (auto simp: good_def keyed_def)

lemma add_total:
  assumes "good t" and "card (dom (lookup t)) < capacity t" and "item_key i = k"
  shows "\<exists>t'. add k i t = Some t' \<and> good t' \<and> capacity t' = capacity t
    \<and> lookup t' = (lookup t)(k \<mapsto> (case lookup t k of None \<Rightarrow> [] | Some is \<Rightarrow> is) @ [i])
    \<and> bag t' = add_mset i (bag t) \<and> card (dom (lookup t')) \<le> card (dom (lookup t)) + 1"
proof (cases "lookup t k")
  case None
  have t: "inv t" "0 < free t" using assms by (auto simp: capacity_def good_def)
  from add_new [OF t(1) None t(2), of i] obtain t' where
    t': "add k i t = Some t'" "inv t'" "lookup t' = (lookup t)(k \<mapsto> [i])" "free t' + 1 = free t"
      "bag t' = add_mset i (bag t)"
    by blast
  have "card (insert k (dom (lookup t))) = card (dom (lookup t)) + 1"
    using None finite_flows [OF t(1)] by (simp add: domIff)
  with t' None assms show ?thesis by (auto simp: capacity_def good_def keyed_def split: if_splits)
next
  case (Some xs)
  from add_old [of t k xs i] Some assms show ?thesis
    by (fastforce simp: capacity_def insert_absorb domI good_def keyed_def split: if_splits)
qed

lemma upd_total:
  assumes "good t" and "lookup t (item_key i) = Some is" and "n < length is"
  shows "\<exists>t'. upd i n t = Some t' \<and> good t' \<and> capacity t' = capacity t
    \<and> dom (lookup t') = dom (lookup t) \<and> lookup t' = (lookup t)(item_key i \<mapsto> is[n := i])
    \<and> bag t' = add_mset i (bag t - {#is ! n#})"
  using upd [of t i "is" n] assms
  by (fastforce simp: capacity_def insert_absorb domI good_def keyed_def
      split: if_splits dest: set_update_subset_insert [THEN subsetD])

lemma del_total:
  assumes "good t" and "lookup t k = Some is" and "n < length is"
  shows "\<exists>t'. del k n t = Some t' \<and> good t' \<and> capacity t' = capacity t
    \<and> dom (lookup t') = dom (lookup t) \<and> lookup t' = (lookup t)(k \<mapsto> take n is @ drop (n + 1) is)
    \<and> bag t' = bag t - {#is ! n#}"
  using del [of t k "is" n] assms
  by (fastforce simp: capacity_def insert_absorb domI good_def keyed_def
      split: if_splits dest: in_set_takeD in_set_dropD)

lemma clear_total:
  "good t \<Longrightarrow> good (clear_all t) \<and> capacity (clear_all t) = capacity t
    \<and> free (clear_all t) = capacity t \<and> lookup (clear_all t) = Map.empty \<and> bag (clear_all t) = {#}"
  using clear_all [of t] by (simp add: capacity_def good_def keyed_def)

end

section \<open>Both tables meet it\<close>

definition table_inv :: "('k, 'i) groTable \<Rightarrow> bool" where
  "table_inv t \<longleftrightarrow> distinct (map fst (itemsByFlow t)) \<and> set (itemsPool t) \<subseteq> {[]}"

definition pool_free :: "('k, 'i) groTable \<Rightarrow> nat" where
  "pool_free t = length (itemsPool t)"

lemma items_of_set_items: "items_of (set_items k xs t) = (items_of t)(k \<mapsto> xs)"
  by (rule ext) (simp add: items_of_def set_items_def update_conv')

lemma table_inv_set_items: "table_inv t \<Longrightarrow> table_inv (set_items k xs t)"
  by (simp add: table_inv_def set_items_def distinct_update)

lemma pool_free_set_items [simp]: "pool_free (set_items k xs t) = pool_free t"
  by (simp add: pool_free_def set_items_def)

lemma concat_update_old:
  "map_of al k = Some xs \<Longrightarrow>
   mset (concat (map snd (AList.update k ys al))) + mset xs = mset (concat (map snd al)) + mset ys"
  by (induction al) (auto split: if_splits simp: ac_simps)

lemma concat_update_new:
  "map_of al k = None \<Longrightarrow>
   mset (concat (map snd (AList.update k ys al))) = mset (concat (map snd al)) + mset ys"
  by (induction al) (auto split: if_splits simp: ac_simps)

lemma tracked_set_items_old:
  "items_of t k = Some xs \<Longrightarrow> tracked (set_items k ys t) + mset xs = tracked t + mset ys"
  by (simp add: items_of_def tracked_def all_items_def set_items_def concat_update_old)

lemma tracked_set_items_new:
  "items_of t k = None \<Longrightarrow> tracked (set_items k ys t) = tracked t + mset ys"
  by (simp add: items_of_def tracked_def all_items_def set_items_def concat_update_new)

lemma tracked_items_of: "items_of t k = Some xs \<Longrightarrow> mset xs \<subseteq># tracked t"
proof -
  assume "items_of t k = Some xs"
  from tracked_set_items_old [OF this, of "[]"] show ?thesis
    by (metis add.commute add.right_neutral mset.simps(1) mset_subset_eq_add_left)
qed

lemma append_item_old:
  assumes "table_inv t" and "items_of t k = Some xs"
  shows "\<exists>t'. append_item k i t = Some t' \<and> table_inv t' \<and> items_of t' = (items_of t)(k \<mapsto> xs @ [i])
     \<and> tracked t' = add_mset i (tracked t) \<and> pool_free t' = pool_free t"
  using assms tracked_set_items_old [OF assms(2), of "xs @ [i]"]
  by (simp add: append_item_def items_of_set_items table_inv_set_items)

lemma append_item_new:
  assumes "table_inv t" and "items_of t k = None" and "0 < pool_free t"
  shows "\<exists>t'. append_item k i t = Some t' \<and> table_inv t' \<and> items_of t' = (items_of t)(k \<mapsto> [i])
    \<and> tracked t' = add_mset i (tracked t) \<and> pool_free t' + 1 = pool_free t"
proof -
  from assms(3) have ne: "itemsPool t \<noteq> []" by (simp add: pool_free_def)
  define u where "u = t\<lparr>itemsPool := butlast (itemsPool t)\<rparr>"
  have "last (itemsPool t) = []" using assms(1) last_in_set [OF ne] by (auto simp: table_inv_def)
  moreover have "table_inv u"
    using assms(1) by (auto simp: table_inv_def u_def dest: in_set_butlastD)
  moreover have u: "items_of u = items_of t" by (rule ext) (simp add: items_of_def u_def)
  moreover have "tracked u = tracked t" by (simp add: tracked_def all_items_def u_def)
  moreover have "pool_free u + 1 = pool_free t" using assms(3) by (simp add: pool_free_def u_def)
  ultimately show ?thesis
    using ne assms(2) tracked_set_items_new [of u k "[i]"]
    by (simp add: append_item_def newItems_def u_def [symmetric]
        items_of_set_items table_inv_set_items)
qed

lemma card_flows: "table_inv t \<Longrightarrow> card (dom (items_of t)) = length (itemsByFlow t)"
proof -
  assume "table_inv t"
  then have "card (set (map fst (itemsByFlow t))) = length (map fst (itemsByFlow t))"
    unfolding table_inv_def by (intro distinct_card) simp
  moreover have "dom (items_of t) = set (map fst (itemsByFlow t))"
    unfolding items_of_def [abs_def] by (simp only: dom_map_of_conv_image_fst set_map)
  ultimately show ?thesis by simp
qed

lemma items_of_reset: "items_of (reset t) = Map.empty"
  by (rule ext) (simp add: items_of_def reset_def)

lemma reset_spec:
  "table_inv t \<Longrightarrow>
   table_inv (reset t) \<and> items_of (reset t) = Map.empty \<and> tracked (reset t) = {#}
   \<and> pool_free (reset t) = pool_free t + card (dom (items_of t))"
  unfolding items_of_reset card_flows
  by (auto simp: table_inv_def reset_def pool_free_def tracked_def all_items_def)

lemma finite_items_of: "finite (dom (items_of t))"
  by (simp add: items_of_def [abs_def] finite_dom_map_of)

lemma mset_remove_nth: "n < length xs \<Longrightarrow> add_mset (xs ! n) (mset (take n xs @ drop (n + 1) xs)) = mset xs"
  using arg_cong [OF id_take_nth_drop [of n xs], of mset] by simp

lemma updateAt_spec:
  assumes "table_inv t" and "items_of t (key i) = Some xs" and "n < length xs"
  shows "\<exists>t'. updateAt i n t = Some t' \<and> table_inv t' \<and> items_of t' = (items_of t)(key i \<mapsto> xs[n := i])
     \<and> tracked t' = add_mset i (tracked t - {#xs ! n#}) \<and> pool_free t' = pool_free t"
proof -
  obtain M where M: "tracked t = mset xs + M"
    using tracked_items_of [OF assms(2)] by (auto simp: mset_subset_eq_exists_conv)
  have "tracked (set_items (key i) (xs[n := i]) t) + mset xs
      = tracked t + add_mset i (mset xs - {#xs ! n#})"
    using tracked_set_items_old [OF assms(2), of "xs[n := i]"] assms(3) by (simp add: mset_update)
  also have "\<dots> = add_mset i (tracked t - {#xs ! n#}) + mset xs"
  proof -
    have "xs ! n \<in># mset xs" using assms(3) by simp
    then have "tracked t - {#xs ! n#} = M + (mset xs - {#xs ! n#})"
      unfolding M by (metis add.commute diff_union_single_conv)
    then show ?thesis by (simp add: M ac_simps)
  qed
  finally have "tracked (set_items (key i) (xs[n := i]) t) = add_mset i (tracked t - {#xs ! n#})"
    by simp
  with assms show ?thesis
    by (simp add: updateAt_def go_simps items_of_set_items table_inv_set_items)
qed

lemma deleteAt_spec:
  assumes "table_inv t" and "items_of t k = Some xs" and "n < length xs"
  shows "\<exists>t'. deleteAt k n t = Some t' \<and> table_inv t'
     \<and> items_of t' = (items_of t)(k \<mapsto> take n xs @ drop (n + 1) xs)
     \<and> tracked t' = tracked t - {#xs ! n#} \<and> pool_free t' = pool_free t"
proof -
  let ?ys = "take n xs @ drop (n + 1) xs"
  have "add_mset (xs ! n) (tracked (set_items k ?ys t) + mset ?ys) = tracked t + mset ?ys"
    using tracked_set_items_old [OF assms(2), of ?ys] mset_remove_nth [OF assms(3)]
    by (metis union_mset_add_mset_right)
  then have "add_mset (xs ! n) (tracked (set_items k ?ys t)) = tracked t"
    by (metis add_right_cancel union_mset_add_mset_left)
  then have "tracked (set_items k ?ys t) = tracked t - {#xs ! n#}"
    by (metis add_mset_remove_trivial)
  with assms show ?thesis
    by (simp add: deleteAt_def go_simps items_of_set_items table_inv_set_items)
qed

interpretation tcp: flow_table "items_of :: tcpGROTable \<Rightarrow> _" tracked append_item updateAt deleteAt
    reset pool_free key table_inv
  by unfold_locales
    (rule finite_items_of tracked_items_of append_item_new append_item_old updateAt_spec
      deleteAt_spec reset_spec; assumption)+

interpretation udp: flow_table "items_of :: udpGROTable \<Rightarrow> _" tracked append_item updateAt deleteAt
    reset pool_free key table_inv
  by unfold_locales
    (rule finite_items_of tracked_items_of append_item_new append_item_old updateAt_spec
      deleteAt_spec reset_spec; assumption)+

end
