(* ===== verification/Coalesce.thy ===== *)
theory Coalesce
  imports GROTable
begin

text \<open>
  Deciding whether two packets may be coalesced and coalescing them:
  \<open>ipHeadersCanCoalesce\<close>, \<open>udpPacketsCanCoalesce\<close>, \<open>tcpPacketsCanCoalesce\<close>,
  \<open>checksumValid\<close>, \<open>coalesceUDPPackets\<close> and \<open>coalesceTCPPackets\<close> of
  \<open>src/tun/offload_linux.go\<close>.

  The vector \<open>bufs\<close> is a list of buffers: the bytes of each slice and its capacity. The
  elements of \<open>bufs\<close> are distinct allocations, as the callers make them. The code passes
  \<open>pkt\<close> as a slice into \<open>bufs\<close>; here it is passed by value, which is the same because
  nothing writes the bytes of that packet between the reslice and their last use.
\<close>

section \<open>Buffers\<close>

record gobuf =
  data :: "byte list"
  capacity :: nat

text \<open>\<open>bufs[i][off:]\<close>.\<close>

definition pkt_at :: "gobuf list \<Rightarrow> nat \<Rightarrow> nat \<Rightarrow> byte list option" where
  "pkt_at bufs off i = do { b \<leftarrow> idx bufs i; slice_from (data b) off }"

text \<open>
  \<open>append(b, make([]byte, n)...)\<close>: in place while the capacity lasts, otherwise a fresh
  allocation (of at least the new length; the code is never in that case).
\<close>

definition append_zeros :: "gobuf \<Rightarrow> nat \<Rightarrow> gobuf" where
  "append_zeros b n =
     b\<lparr>data := data b @ replicate n 0, capacity := max (capacity b) (length (data b) + n)\<rparr>"

text \<open>\<open>bufs[i] = append(bufs[i], make([]byte, extendBy)...)\<close> and \<open>copy(bufs[i][at:], src)\<close>.\<close>

definition extend_buf :: "gobuf list \<Rightarrow> nat \<Rightarrow> int \<Rightarrow> gobuf list option" where
  "extend_buf bufs i extendBy = do {
     check (0 \<le> extendBy);
     b \<leftarrow> idx bufs i;
     set_at bufs i (append_zeros b (nat extendBy))
   }"

definition copy_buf :: "gobuf list \<Rightarrow> nat \<Rightarrow> nat \<Rightarrow> byte list \<Rightarrow> gobuf list option" where
  "copy_buf bufs i at src = do {
     b \<leftarrow> idx bufs i;
     d \<leftarrow> copy_at (data b) at src;
     set_at bufs i (b\<lparr>data := d\<rparr>)
   }"

text \<open>\<open>bufs[i][at] |= bits\<close>.\<close>

definition or_byte :: "gobuf list \<Rightarrow> nat \<Rightarrow> nat \<Rightarrow> byte \<Rightarrow> gobuf list option" where
  "or_byte bufs i at bits = do {
     b \<leftarrow> idx bufs i;
     x \<leftarrow> idx (data b) at;
     d \<leftarrow> set_at (data b) at (x OR bits);
     set_at bufs i (b\<lparr>data := d\<rparr>)
   }"

text \<open>\<open>bufs[i], bufs[j] = bufs[j], bufs[i]\<close>.\<close>

definition swap_bufs :: "gobuf list \<Rightarrow> nat \<Rightarrow> nat \<Rightarrow> gobuf list option" where
  "swap_bufs bufs i j = do {
     a \<leftarrow> idx bufs i;
     b \<leftarrow> idx bufs j;
     bufs \<leftarrow> set_at bufs i b;
     set_at bufs j a
   }"

text \<open>\<open>clear(bufs[i][off-virtioNetHdrLen:off])\<close>.\<close>

definition clear_buf :: "nat \<Rightarrow> gobuf \<Rightarrow> gobuf option" where
  "clear_buf off b = do {
     check (virtioNetHdrLen \<le> off);
     d \<leftarrow> clear_range (data b) (off - virtioNetHdrLen) off;
     Some (b\<lparr>data := d\<rparr>)
   }"

definition clear_hdr :: "gobuf list \<Rightarrow> nat \<Rightarrow> nat \<Rightarrow> gobuf list option" where
  "clear_hdr bufs off i = do {
     b \<leftarrow> idx bufs i;
     b \<leftarrow> clear_buf off b;
     set_at bufs i b
   }"

section \<open>May two packets be coalesced?\<close>

datatype canCoalesce = coalescePrepend | coalesceUnavailable | coalesceAppend

definition ipHeadersCanCoalesce :: "byte list \<Rightarrow> byte list \<Rightarrow> bool" where
  "ipHeadersCanCoalesce pktA pktB =
     (if length pktA < 9 \<or> length pktB < 9 then False
      else if drop_bit 4 (pktA ! 0) = 6 then
        (if pktA ! 0 \<noteq> pktB ! 0 \<or> drop_bit 4 (pktA ! 1) \<noteq> drop_bit 4 (pktB ! 1) then False
         else if pktA ! 7 \<noteq> pktB ! 7 then False
         else True)
      else
        (if pktA ! 1 \<noteq> pktB ! 1 then False
         else if drop_bit 5 (pktA ! 6) \<noteq> drop_bit 5 (pktB ! 6) then False
         else if pktA ! 8 \<noteq> pktB ! 8 then False
         else True))"

definition udpPacketsCanCoalesce ::
  "byte list \<Rightarrow> u8 \<Rightarrow> u16 \<Rightarrow> udpGROItem \<Rightarrow> gobuf list \<Rightarrow> nat \<Rightarrow> canCoalesce option" where
  "udpPacketsCanCoalesce pkt iphl gso item bufs bufsOffset = do {
     pktTarget \<leftarrow> pkt_at bufs bufsOffset (unat (bufsIndex item));
     if \<not> ipHeadersCanCoalesce pkt pktTarget then Some coalesceUnavailable
     else do {
       rest \<leftarrow> slice_from pktTarget (unat (iphl + of_nat udphLen));
       check (gsoSize item \<noteq> 0);
       if length rest mod unat (gsoSize item) \<noteq> 0 then Some coalesceUnavailable
       else if gsoSize item < gso then Some coalesceUnavailable
       else Some coalesceAppend
     }
   }"

text \<open>The sequence number that follows the item: \<open>item.sentSeq + uint32(lhsLen)\<close>.\<close>

definition lhsLen :: "tcpGROItem \<Rightarrow> u16" where
  "lhsLen item = gsoSize item + numMerged item * gsoSize item"

definition tcpPacketsCanCoalesce ::
  "byte list \<Rightarrow> u8 \<Rightarrow> u8 \<Rightarrow> u32 \<Rightarrow> bool \<Rightarrow> u16 \<Rightarrow> tcpGROItem \<Rightarrow> gobuf list \<Rightarrow> nat \<Rightarrow> canCoalesce option"
where
  "tcpPacketsCanCoalesce pkt iphl thl seq psh gso item bufs bufsOffset = do {
     pktTarget \<leftarrow> pkt_at bufs bufsOffset (unat (bufsIndex item));
     if thl \<noteq> tcphLen item then Some coalesceUnavailable
     else do {
       equalOpts \<leftarrow>
         (if 20 < thl then do {
            a \<leftarrow> slice pkt (unat (iphl + 20)) (unat (iphl + thl));
            b \<leftarrow> slice pktTarget (unat (iphLen item + 20)) (unat (iphl + thl));
            Some (a = b)
          }
          else Some True);
       if \<not> equalOpts then Some coalesceUnavailable
       else if \<not> ipHeadersCanCoalesce pkt pktTarget then Some coalesceUnavailable
       else if seq = sentSeq item + ucast (lhsLen item) then
         (if pshSet item then Some coalesceUnavailable
          else do {
            rest \<leftarrow> slice_from pktTarget (unat (iphl + thl));
            check (gsoSize item \<noteq> 0);
            if length rest mod unat (gsoSize item) \<noteq> 0 then Some coalesceUnavailable
            else if gsoSize item < gso then Some coalesceUnavailable
            else Some coalesceAppend
          })
       else if seq + ucast gso = sentSeq item then
         (if psh then Some coalesceUnavailable
          else if gso < gsoSize item then Some coalesceUnavailable
          else if gsoSize item < gso \<and> 0 < numMerged item then Some coalesceUnavailable
          else Some coalescePrepend)
       else Some coalesceUnavailable
     }
   }"

section \<open>Coalescing\<close>

definition checksumValid :: "endian \<Rightarrow> byte list \<Rightarrow> u8 \<Rightarrow> u8 \<Rightarrow> bool \<Rightarrow> bool option" where
  "checksumValid e pkt iphl proto v6 = do {
     let srcAddrAt = (if v6 then ipv6SrcAddrOffset else ipv4SrcAddrOffset);
     let addrSize = (if v6 then 16 else 4);
     let lenForPseudo = of_int (int (length pkt) - int (unat iphl));
     src \<leftarrow> slice pkt srcAddrAt (srcAddrAt + addrSize);
     dst \<leftarrow> slice pkt (srcAddrAt + addrSize) (srcAddrAt + addrSize * 2);
     let cSum = pseudoHeaderChecksumNoFold e proto src dst lenForPseudo;
     rest \<leftarrow> slice_from pkt (unat iphl);
     Some (NOT (checksum e rest cSum) = 0)
   }"

datatype coalesceResult =
    coalesceInsufficientCap | coalescePSHEnding | coalesceItemInvalidCSum
  | coalescePktInvalidCSum | coalesceSuccess

definition coalesceUDPPackets ::
  "endian \<Rightarrow> byte list \<Rightarrow> udpGROItem \<Rightarrow> gobuf list \<Rightarrow> nat \<Rightarrow> bool
    \<Rightarrow> (coalesceResult \<times> udpGROItem \<times> gobuf list) option" where
  "coalesceUDPPackets e pkt item bufs bufsOffset v6 = do {
     let itemI = unat (bufsIndex item);
     headBuf \<leftarrow> idx bufs itemI;
     pktHead \<leftarrow> slice_from (data headBuf) bufsOffset;
     let headersLen = iphLen item + of_nat udphLen;
     let coalescedLen = int (length pktHead) + int (length pkt) - int (unat headersLen);
     if int (capacity headBuf) - int bufsOffset - int bufsOffset < coalescedLen
     then Some (coalesceInsufficientCap, item, bufs)
     else do {
       itemOk \<leftarrow> (if numMerged item = 0 then
           (if cSumKnownInvalid item then Some False
            else checksumValid e pktHead (iphLen item) IPPROTO_UDP v6)
         else Some True);
       if \<not> itemOk then Some (coalesceItemInvalidCSum, item, bufs)
       else do {
         pktOk \<leftarrow> checksumValid e pkt (iphLen item) IPPROTO_UDP v6;
         if \<not> pktOk then Some (coalescePktInvalidCSum, item, bufs)
         else do {
           bufs \<leftarrow> extend_buf bufs itemI (int (length pkt) - int (unat headersLen));
           payload \<leftarrow> slice_from pkt (unat headersLen);
           bufs \<leftarrow> copy_buf bufs itemI (bufsOffset + length pktHead) payload;
           Some (coalesceSuccess, item\<lparr>numMerged := numMerged item + 1\<rparr>, bufs)
         }
       }
     }
   }"

text \<open>
  The two directions of \<open>coalesceTCPPackets\<close>. Both return the item and the buffers to go on
  with when the packets were merged, the reason otherwise.
\<close>

definition tcpPrepend ::
  "endian \<Rightarrow> byte list \<Rightarrow> nat \<Rightarrow> u32 \<Rightarrow> bool \<Rightarrow> tcpGROItem \<Rightarrow> gobuf list \<Rightarrow> nat \<Rightarrow> bool
    \<Rightarrow> (coalesceResult + tcpGROItem \<times> gobuf list) option" where
  "tcpPrepend e pkt pktBuffsIndex seq psh item bufs bufsOffset v6 = do {
     let itemI = unat (bufsIndex item);
     let headersLen = iphLen item + tcphLen item;
     itemPkt \<leftarrow> pkt_at bufs bufsOffset itemI;
     let coalescedLen = int (length itemPkt) + int (length pkt) - int (unat headersLen);
     pktBuf \<leftarrow> idx bufs pktBuffsIndex;
     if int (capacity pktBuf) - int bufsOffset - int bufsOffset < coalescedLen
     then Some (Inl coalesceInsufficientCap)
     else if psh then Some (Inl coalescePSHEnding)
     else do {
       itemOk \<leftarrow> (if numMerged item = 0 then checksumValid e itemPkt (iphLen item) IPPROTO_TCP v6
                  else Some True);
       if \<not> itemOk then Some (Inl coalesceItemInvalidCSum)
       else do {
         pktOk \<leftarrow> checksumValid e pkt (iphLen item) IPPROTO_TCP v6;
         if \<not> pktOk then Some (Inl coalescePktInvalidCSum)
         else do {
           bufs \<leftarrow> extend_buf bufs pktBuffsIndex (coalescedLen - int (length pkt));
           itemBuf \<leftarrow> idx bufs itemI;
           payload \<leftarrow> slice_from (data itemBuf) (bufsOffset + unat headersLen);
           bufs \<leftarrow> copy_buf bufs pktBuffsIndex (bufsOffset + length pkt) payload;
           bufs \<leftarrow> swap_bufs bufs itemI pktBuffsIndex;
           Some (Inr (item\<lparr>sentSeq := seq\<rparr>, bufs))
         }
       }
     }
   }"

definition tcpAppend ::
  "endian \<Rightarrow> byte list \<Rightarrow> bool \<Rightarrow> tcpGROItem \<Rightarrow> gobuf list \<Rightarrow> nat \<Rightarrow> bool
    \<Rightarrow> (coalesceResult + tcpGROItem \<times> gobuf list) option" where
  "tcpAppend e pkt psh item bufs bufsOffset v6 = do {
     let itemI = unat (bufsIndex item);
     let headersLen = iphLen item + tcphLen item;
     headBuf \<leftarrow> idx bufs itemI;
     pktHead \<leftarrow> slice_from (data headBuf) bufsOffset;
     let coalescedLen = int (length pktHead) + int (length pkt) - int (unat headersLen);
     if int (capacity headBuf) - int bufsOffset - int bufsOffset < coalescedLen
     then Some (Inl coalesceInsufficientCap)
     else do {
       itemOk \<leftarrow> (if numMerged item = 0 then checksumValid e pktHead (iphLen item) IPPROTO_TCP v6
                  else Some True);
       if \<not> itemOk then Some (Inl coalesceItemInvalidCSum)
       else do {
         pktOk \<leftarrow> checksumValid e pkt (iphLen item) IPPROTO_TCP v6;
         if \<not> pktOk then Some (Inl coalescePktInvalidCSum)
         else do {
           (item, bufs) \<leftarrow>
             (if psh then do {
                bufs \<leftarrow> or_byte bufs itemI
                  (bufsOffset + unat (iphLen item + of_nat tcpFlagsOffset)) tcpFlagPSH;
                Some (item\<lparr>pshSet := psh\<rparr>, bufs)
              }
              else Some (item, bufs));
           bufs \<leftarrow> extend_buf bufs itemI (int (length pkt) - int (unat headersLen));
           payload \<leftarrow> slice_from pkt (unat headersLen);
           bufs \<leftarrow> copy_buf bufs itemI (bufsOffset + length pktHead) payload;
           Some (Inr (item, bufs))
         }
       }
     }
   }"

definition coalesceTCPPackets ::
  "endian \<Rightarrow> canCoalesce \<Rightarrow> byte list \<Rightarrow> nat \<Rightarrow> u16 \<Rightarrow> u32 \<Rightarrow> bool \<Rightarrow> tcpGROItem \<Rightarrow> gobuf list
    \<Rightarrow> nat \<Rightarrow> bool \<Rightarrow> (coalesceResult \<times> tcpGROItem \<times> gobuf list) option" where
  "coalesceTCPPackets e mode pkt pktBuffsIndex gso seq psh item bufs bufsOffset v6 = do {
     r \<leftarrow> (if mode = coalescePrepend
           then tcpPrepend e pkt pktBuffsIndex seq psh item bufs bufsOffset v6
           else tcpAppend e pkt psh item bufs bufsOffset v6);
     case r of
       Inl reason \<Rightarrow> Some (reason, item, bufs)
     | Inr (item, bufs) \<Rightarrow> do {
         let item = (if gsoSize item < gso then item\<lparr>gsoSize := gso\<rparr> else item);
         Some (coalesceSuccess, item\<lparr>numMerged := numMerged item + 1\<rparr>, bufs)
       }
   }"

section \<open>The checks do not panic\<close>

lemma unat_add_u8: "unat a + unat b < 256 \<Longrightarrow> unat (a + b :: u8) = unat a + unat b"
  by (simp add: unat_word_ariths)

text \<open>
  The shape of a packet that got past the header checks: \<open>hl\<close> is where its transport payload
  begins.
\<close>

definition ip_len_ok :: "bool \<Rightarrow> u8 \<Rightarrow> bool" where
  "ip_len_ok v6 iphl \<longleftrightarrow> unat iphl = (if v6 then 40 else 20)"

definition tcp_hdr_ok :: "bool \<Rightarrow> u8 \<Rightarrow> u8 \<Rightarrow> bool" where
  "tcp_hdr_ok v6 iphl thl \<longleftrightarrow> ip_len_ok v6 iphl \<and> 20 \<le> unat thl \<and> unat thl \<le> 60"

definition tcp_hl :: "u8 \<Rightarrow> u8 \<Rightarrow> nat" where
  "tcp_hl iphl thl = unat iphl + unat thl"

lemma tcp_hdr_ok_sums:
  assumes "tcp_hdr_ok v6 iphl thl"
  shows "unat (iphl + thl) = tcp_hl iphl thl" and "unat (iphl + 20) = unat iphl + 20"
    and "unat (iphl + of_nat tcpFlagsOffset) = unat iphl + 13" and "40 \<le> tcp_hl iphl thl"
    and "unat iphl + 20 \<le> tcp_hl iphl thl" and "tcp_hl iphl thl \<le> 100"
  using assms
  by (auto simp: tcp_hdr_ok_def ip_len_ok_def tcp_hl_def tcpFlagsOffset_def unat_add_u8
      split: if_splits)

lemma checksumValid_total:
  "(if v6 then 40 else 20) \<le> length pkt \<Longrightarrow> unat iphl \<le> length pkt \<Longrightarrow>
   \<exists>b. checksumValid e pkt iphl proto v6 = Some b"
  by (auto simp: checksumValid_def Let_def go_simps offload_consts split: if_splits)

lemma pkt_at_in: "i < length bufs \<Longrightarrow> off \<le> length (data (bufs ! i)) \<Longrightarrow>
  pkt_at bufs off i = Some (drop off (data (bufs ! i)))"
  by (simp add: pkt_at_def go_simps)

text \<open>
  The verdict of \<open>tcpPacketsCanCoalesce\<close> on a packet and an item of the same flow: it is
  always reached, and each of the two directions is granted under its conditions only.
\<close>

lemma tcpPacketsCanCoalesce_spec:
  assumes i: "unat (bufsIndex item) < length bufs"
    and tgt: "tgt = drop off (data (bufs ! unat (bufsIndex item)))"
      "off + tcp_hl (iphLen item) (tcphLen item) \<le> length (data (bufs ! unat (bufsIndex item)))"
    and hdr: "tcp_hdr_ok v6 iphl thl" "iphLen item = iphl"
    and pkt: "tcp_hl iphl thl \<le> length pkt"
    and gs: "gsoSize item \<noteq> 0"
  obtains v where
    "tcpPacketsCanCoalesce pkt iphl thl seq psh gso item bufs off = Some v"
    "v \<noteq> coalesceUnavailable \<Longrightarrow> tcphLen item = thl \<and> ipHeadersCanCoalesce pkt tgt
       \<and> take (unat thl - 20) (drop (unat iphl + 20) pkt)
         = take (unat thl - 20) (drop (unat iphl + 20) tgt)"
    "v = coalesceAppend \<Longrightarrow> seq = sentSeq item + ucast (lhsLen item) \<and> \<not> pshSet item
       \<and> (length tgt - tcp_hl iphl thl) mod unat (gsoSize item) = 0 \<and> gso \<le> gsoSize item"
    "v = coalescePrepend \<Longrightarrow> seq + ucast gso = sentSeq item \<and> \<not> psh \<and> gsoSize item \<le> gso
       \<and> (gso \<noteq> gsoSize item \<longrightarrow> numMerged item = 0)"
proof -
  note sums = tcp_hdr_ok_sums [OF hdr(1)]
  have at: "pkt_at bufs off (unat (bufsIndex item)) = Some tgt"
    using i tgt by (simp add: pkt_at_in)
  have len: "tcp_hl iphl (tcphLen item) \<le> length tgt" using tgt hdr(2) by simp
  have opts: "tcphLen item = thl \<Longrightarrow> 20 < thl \<Longrightarrow>
      slice pkt (unat (iphl + 20)) (unat (iphl + thl)) \<noteq> None
      \<and> slice tgt (unat (iphLen item + 20)) (unat (iphl + thl)) \<noteq> None"
    using sums pkt len hdr(2) by (simp add: slice_def)
  let ?r = "tcpPacketsCanCoalesce pkt iphl thl seq psh gso item bufs off"
  have "?r \<noteq> None"
    using at opts len sums gs
    by (auto simp: tcpPacketsCanCoalesce_def go_simps split: if_splits)
  then obtain v where v: "?r = Some v" by blast
  show thesis
  proof (rule that [OF v])
    show "v \<noteq> coalesceUnavailable \<Longrightarrow> tcphLen item = thl \<and> ipHeadersCanCoalesce pkt tgt
       \<and> take (unat thl - 20) (drop (unat iphl + 20) pkt)
         = take (unat thl - 20) (drop (unat iphl + 20) tgt)"
    proof -
      assume "v \<noteq> coalesceUnavailable"
      then have eq: "tcphLen item = thl" "ipHeadersCanCoalesce pkt tgt"
        "20 < thl \<Longrightarrow> slice pkt (unat (iphl + 20)) (unat (iphl + thl))
           = slice tgt (unat (iphLen item + 20)) (unat (iphl + thl))"
        using v at by (auto simp: tcpPacketsCanCoalesce_def bind_Some_iff split: if_splits)
      show ?thesis
      proof (cases "20 < thl")
        case True
        moreover have "unat thl - 20 = unat (iphl + thl) - unat (iphl + 20)"
          using sums by (simp add: tcp_hl_def)
        ultimately show ?thesis
          using eq opts [OF eq(1)] sums hdr(2) by (auto simp: slice_def split: if_splits)
      next
        case False
        then have "unat thl - 20 = 0" by (simp add: word_less_nat_alt)
        then show ?thesis using eq by simp
      qed
    qed
    show "v = coalesceAppend \<Longrightarrow> seq = sentSeq item + ucast (lhsLen item) \<and> \<not> pshSet item
       \<and> (length tgt - tcp_hl iphl thl) mod unat (gsoSize item) = 0 \<and> gso \<le> gsoSize item"
      using v at sums by (auto simp: tcpPacketsCanCoalesce_def go_iff not_less split: if_splits)
    show "v = coalescePrepend \<Longrightarrow> seq + ucast gso = sentSeq item \<and> \<not> psh \<and> gsoSize item \<le> gso
       \<and> (gso \<noteq> gsoSize item \<longrightarrow> numMerged item = 0)"
      using v at by (auto simp: tcpPacketsCanCoalesce_def go_iff not_less word_neq_0_conv
          split: if_splits)
  qed
qed

section \<open>What a merge does to the buffers\<close>

text \<open>Appending \<open>src\<close> behind the bytes of a buffer whose capacity lasts.\<close>

definition join_buf :: "gobuf \<Rightarrow> byte list \<Rightarrow> gobuf" where
  "join_buf b src = b\<lparr>data := data b @ src\<rparr>"

lemma data_join_buf [simp]: "data (join_buf b src) = data b @ src"
  by (simp add: join_buf_def)

lemma capacity_join_buf [simp]: "capacity (join_buf b src) = capacity b"
  by (simp add: join_buf_def)

lemma append_zeros_fits:
  "length (data b) + n \<le> capacity b \<Longrightarrow> append_zeros b n = join_buf b (replicate n 0)"
  by (simp add: append_zeros_def join_buf_def)

lemma extend_buf_in:
  "i < length bufs \<Longrightarrow> 0 \<le> n \<Longrightarrow> length (data (bufs ! i)) + nat n \<le> capacity (bufs ! i) \<Longrightarrow>
   extend_buf bufs i n = Some (bufs[i := join_buf (bufs ! i) (replicate (nat n) 0)])"
  by (simp add: extend_buf_def go_simps append_zeros_fits)

lemma copy_buf_tail:
  assumes "i < length bufs" and "bufs ! i = join_buf b (replicate (length src) 0)"
    and "at = length (data b)"
  shows "copy_buf bufs i at src = Some (bufs[i := join_buf b src])"
  using assms by (simp add: copy_buf_def go_simps) (simp add: join_buf_def)

lemma tcpAppend_spec:
  fixes off :: nat
  assumes i: "i = unat (bufsIndex item)" "i < length bufs"
    and hdr: "tcp_hdr_ok v6 (iphLen item) (tcphLen item)"
    and hl: "hl = tcp_hl (iphLen item) (tcphLen item)"
      "off + hl \<le> length (data (bufs ! i))" "hl \<le> length pkt"
  obtains r where "tcpAppend e pkt psh item bufs off v6 = Some r"
    "r \<noteq> Inl coalesceSuccess" "r = Inl coalesceItemInvalidCSum \<Longrightarrow> numMerged item = 0"
    "\<And>item' bufs'. r = Inr (item', bufs') \<Longrightarrow>
       item' = (if psh then item\<lparr>pshSet := True\<rparr> else item)
       \<and> bufs' = bufs[i := join_buf (if psh then (bufs ! i)\<lparr>data := (data (bufs ! i))
              [off + unat (iphLen item) + 13 :=
                 data (bufs ! i) ! (off + unat (iphLen item) + 13) OR tcpFlagPSH]\<rparr>
            else bufs ! i) (drop hl pkt)]
       \<and> length (data (bufs ! i)) + (length pkt - hl) + off \<le> capacity (bufs ! i)
       \<and> checksumValid e pkt (iphLen item) IPPROTO_TCP v6 = Some True"
proof -
  let ?b = "bufs ! i" and ?f = "off + unat (iphLen item) + 13"
  let ?r = "tcpAppend e pkt psh item bufs off v6"
  define head where "head = drop off (data ?b)"
  note sums = tcp_hdr_ok_sums [OF hdr]
  have big: "(if v6 then 40 else 20) \<le> unat (iphLen item)" "unat (iphLen item) \<le> hl"
    "unat (iphLen item) + 13 < hl"
    using hdr by (auto simp: tcp_hdr_ok_def ip_len_ok_def hl(1) tcp_hl_def split: if_splits)
  have off: "off \<le> length (data ?b)" using hl by simp
  have lh: "length head = length (data ?b) - off" by (simp add: head_def)
  have hlen: "unat (iphLen item + tcphLen item) = hl" using sums hl by simp
  obtain b1 where b1: "checksumValid e head (iphLen item) IPPROTO_TCP v6 = Some b1"
    using checksumValid_total [of v6 head "iphLen item"] big hl lh by (metis add_leD2 le_diff_conv2
      le_trans off add.commute)
  obtain b2 where b2: "checksumValid e pkt (iphLen item) IPPROTO_TCP v6 = Some b2"
    using checksumValid_total [of v6 pkt "iphLen item"] big hl by (meson le_trans)
  define fits where
    "fits \<longleftrightarrow> \<not> int (capacity ?b) - int off - int off < int (length head) + int (length pkt) - int hl"
  define ok1 where "ok1 \<longleftrightarrow> (numMerged item = 0 \<longrightarrow> b1)"
  define b' where "b' = (if psh then ?b\<lparr>data := (data ?b)[?f := data ?b ! ?f OR tcpFlagPSH]\<rparr> else ?b)"
  define item' where "item' = (if psh then item\<lparr>pshSet := True\<rparr> else item)"
  have cap: "length (data ?b) + (length pkt - hl) + off \<le> capacity ?b" if fits
    using that off hl lh unfolding fits_def by linarith
  have flag: "(if psh then do {
                bufs \<leftarrow> or_byte bufs i (off + unat (iphLen item + of_nat tcpFlagsOffset)) tcpFlagPSH;
                Some (item\<lparr>pshSet := psh\<rparr>, bufs) } else Some (item, bufs))
      = Some (item', bufs[i := b'])"
    using i big hl by (simp add: b'_def item'_def or_byte_def go_simps sums add.assoc)
  define ext where "ext = bufs[i := join_buf b' (replicate (length pkt - hl) 0)]"
  have b': "length (data b') = length (data ?b)" "capacity b' = capacity ?b"
    by (simp_all add: b'_def)
  have extend: "extend_buf (bufs[i := b']) i (int (length pkt) - int hl) = Some ext" if fits
    using i hl b' cap [OF that] by (subst extend_buf_in) (auto simp: nat_diff_distrib ext_def)
  have copy: "copy_buf ext i (off + length head) (drop hl pkt)
      = Some (bufs[i := join_buf b' (drop hl pkt)])"
    using i off lh b' by (subst copy_buf_tail [where b = b']) (auto simp: ext_def)
  have cap_test: "(int (capacity ?b) - int off - int off < int (length head) + int (length pkt) - int hl)
      = (\<not> fits)"
    by (simp add: fits_def)
  have item_test: "(if numMerged item = 0 then Some b1 else Some True) = Some ok1"
    by (simp add: ok1_def)
  have r: "?r = Some (if \<not> fits then Inl coalesceInsufficientCap
      else if \<not> ok1 then Inl coalesceItemInvalidCSum
      else if \<not> b2 then Inl coalescePktInvalidCSum
      else Inr (item', bufs[i := join_buf b' (drop hl pkt)]))"
    unfolding tcpAppend_def Let_def i(1) [symmetric] idx_in [OF i(2)] bind.bind_lunit
      slice_from_in [OF off] head_def [symmetric] hlen cap_test b1 b2 flag prod.case
      item_test slice_from_in [OF hl(3)]
    by (cases fits; cases ok1; cases b2) (simp_all add: extend copy)
  show thesis
    by (rule that [OF r]) (auto simp: b'_def item'_def ok1_def dest: cap simp: b2 split: if_splits)
qed

lemma swap_bufs_in:
  "i < length bufs \<Longrightarrow> j < length bufs \<Longrightarrow> swap_bufs bufs i j = Some (bufs[i := bufs ! j, j := bufs ! i])"
  by (simp add: swap_bufs_def go_simps)

lemma tcpPrepend_spec:
  fixes off :: nat
  assumes i: "i = unat (bufsIndex item)" "i < length bufs" "j < length bufs" "i \<noteq> j"
    and hdr: "tcp_hdr_ok v6 (iphLen item) (tcphLen item)"
    and hl: "hl = tcp_hl (iphLen item) (tcphLen item)"
      "off + hl \<le> length (data (bufs ! i))" "off + hl \<le> length (data (bufs ! j))"
    and pkt: "pkt = drop off (data (bufs ! j))"
  obtains r where "tcpPrepend e pkt j seq psh item bufs off v6 = Some r"
    "r \<noteq> Inl coalesceSuccess" "r = Inl coalesceItemInvalidCSum \<Longrightarrow> numMerged item = 0"
    "\<And>item' bufs'. r = Inr (item', bufs') \<Longrightarrow>
       \<not> psh \<and> item' = item\<lparr>sentSeq := seq\<rparr>
       \<and> bufs' = bufs[i := join_buf (bufs ! j) (drop (off + hl) (data (bufs ! i))), j := bufs ! i]
       \<and> length (data (bufs ! j)) + (length (data (bufs ! i)) - (off + hl)) + off
          \<le> capacity (bufs ! j)
       \<and> checksumValid e pkt (iphLen item) IPPROTO_TCP v6 = Some True"
proof -
  let ?b = "bufs ! i" and ?p = "bufs ! j"
  let ?r = "tcpPrepend e pkt j seq psh item bufs off v6"
  define head where "head = drop off (data ?b)"
  note sums = tcp_hdr_ok_sums [OF hdr]
  have big: "(if v6 then 40 else 20) \<le> unat (iphLen item)" "unat (iphLen item) \<le> hl"
    using hdr by (auto simp: tcp_hdr_ok_def ip_len_ok_def hl(1) tcp_hl_def split: if_splits)
  have off: "off \<le> length (data ?b)" "off \<le> length (data ?p)" using hl by simp_all
  have lens: "length head = length (data ?b) - off" "length pkt = length (data ?p) - off"
    by (simp_all add: head_def pkt)
  have hlen: "unat (iphLen item + tcphLen item) = hl" using sums hl by simp
  have long: "hl \<le> length head" "hl \<le> length pkt" using hl lens by linarith+
  have valid: "\<exists>b. checksumValid e xs (iphLen item) IPPROTO_TCP v6 = Some b" if "hl \<le> length xs" for xs
    using that big by (intro checksumValid_total) auto
  obtain b1 where b1: "checksumValid e head (iphLen item) IPPROTO_TCP v6 = Some b1"
    using valid [OF long(1)] by blast
  obtain b2 where b2: "checksumValid e pkt (iphLen item) IPPROTO_TCP v6 = Some b2"
    using valid [OF long(2)] by blast
  define fits where
    "fits \<longleftrightarrow> \<not> int (capacity ?p) - int off - int off < int (length head) + int (length pkt) - int hl"
  define ok1 where "ok1 \<longleftrightarrow> (numMerged item = 0 \<longrightarrow> b1)"
  have cap: "length (data ?p) + (length (data ?b) - (off + hl)) + off \<le> capacity ?p" if fits
    using that off hl lens unfolding fits_def by linarith
  define rest where "rest = drop (off + hl) (data ?b)"
  define ext where "ext = bufs[j := join_buf ?p (replicate (length rest) 0)]"
  have extend: "extend_buf bufs j (int (length head) - int hl) = Some ext" if fits
  proof -
    have "int (length head) - int hl = int (length rest)"
      using hl lens by (simp add: rest_def)
    then show ?thesis
      using i cap [OF that] by (simp add: extend_buf_in ext_def rest_def)
  qed
  have item_buf: "idx ext i = Some ?b" using i by (simp add: ext_def go_simps)
  have payload: "slice_from (data ?b) (off + hl) = Some rest"
    using hl by (simp add: go_simps rest_def)
  have copy: "copy_buf ext j (off + length pkt) rest = Some (bufs[j := join_buf ?p rest])"
    using i off lens by (subst copy_buf_tail [where b = ?p]) (auto simp: ext_def)
  have swap: "swap_bufs (bufs[j := join_buf ?p rest]) i j
      = Some (bufs[i := join_buf ?p rest, j := ?b])"
    using i by (simp add: swap_bufs_in list_update_swap)
  have cap_test: "(int (capacity ?p) - int off - int off < int (length head) + int (length pkt) - int hl)
      = (\<not> fits)"
    by (simp add: fits_def)
  have item_test: "(if numMerged item = 0 then Some b1 else Some True) = Some ok1"
    by (simp add: ok1_def)
  have at: "pkt_at bufs off i = Some head" using i off by (simp add: pkt_at_in head_def)
  have r: "?r = Some (if \<not> fits then Inl coalesceInsufficientCap
      else if psh then Inl coalescePSHEnding
      else if \<not> ok1 then Inl coalesceItemInvalidCSum
      else if \<not> b2 then Inl coalescePktInvalidCSum
      else Inr (item\<lparr>sentSeq := seq\<rparr>, bufs[i := join_buf ?p rest, j := ?b]))"
    unfolding tcpPrepend_def Let_def i(1) [symmetric] idx_in [OF i(3)] bind.bind_lunit at
      hlen cap_test b1 b2 item_test
    by (cases fits; cases psh; cases ok1; cases b2)
      (simp_all add: extend item_buf payload copy swap)
  show thesis
    by (rule that [OF r]) (auto simp: rest_def ok1_def dest: cap simp: b2 split: if_splits)
qed

text \<open>The two directions together. \<open>merged\<close> is the vector after a merge.\<close>

definition set_psh :: "nat \<Rightarrow> gobuf \<Rightarrow> gobuf" where
  "set_psh at b = b\<lparr>data := (data b)[at := data b ! at OR tcpFlagPSH]\<rparr>"

lemma set_psh_simps [simp]:
  "length (data (set_psh at b)) = length (data b)" "capacity (set_psh at b) = capacity b"
  by (simp_all add: set_psh_def)

definition tcp_merged ::
  "canCoalesce \<Rightarrow> nat \<Rightarrow> nat \<Rightarrow> bool \<Rightarrow> tcpGROItem \<Rightarrow> nat \<Rightarrow> gobuf list \<Rightarrow> gobuf list" where
  "tcp_merged mode j hl psh item off bufs =
     (let i = unat (bufsIndex item) in
      if mode = coalescePrepend
      then bufs[i := join_buf (bufs ! j) (drop (off + hl) (data (bufs ! i))), j := bufs ! i]
      else bufs[i := join_buf (if psh then set_psh (off + unat (iphLen item) + 13) (bufs ! i) else bufs ! i)
                       (drop (off + hl) (data (bufs ! j)))])"

definition tcp_merged_item ::
  "canCoalesce \<Rightarrow> u16 \<Rightarrow> u32 \<Rightarrow> bool \<Rightarrow> tcpGROItem \<Rightarrow> tcpGROItem" where
  "tcp_merged_item mode gso seq psh item =
     item\<lparr>sentSeq := (if mode = coalescePrepend then seq else sentSeq item),
          pshSet := (pshSet item \<or> mode \<noteq> coalescePrepend \<and> psh),
          gsoSize := max (gsoSize item) gso, numMerged := numMerged item + 1\<rparr>"

lemma raise_gsoSize:
  "(if gsoSize item < gso then item\<lparr>gsoSize := gso\<rparr> else item)
   = item\<lparr>gsoSize := max (gsoSize item) gso\<rparr>"
  by (auto simp: max_def)

lemma coalesceTCPPackets_spec:
  fixes off :: nat
  assumes i: "i = unat (bufsIndex item)" "i < length bufs" "j < length bufs" "i \<noteq> j"
    and hdr: "tcp_hdr_ok v6 (iphLen item) (tcphLen item)"
    and hl: "hl = tcp_hl (iphLen item) (tcphLen item)"
      "off + hl \<le> length (data (bufs ! i))" "off + hl \<le> length (data (bufs ! j))"
    and pkt: "pkt = drop off (data (bufs ! j))"
  obtains r item' bufs' where
    "coalesceTCPPackets e mode pkt j gso seq psh item bufs off v6 = Some (r, item', bufs')"
    "r \<noteq> coalesceSuccess \<Longrightarrow> item' = item \<and> bufs' = bufs"
    "r = coalesceItemInvalidCSum \<Longrightarrow> numMerged item = 0"
    "r = coalesceSuccess \<Longrightarrow> item' = tcp_merged_item mode gso seq psh item
       \<and> bufs' = tcp_merged mode j hl psh item off bufs
       \<and> length (data (bufs' ! i)) + off \<le> capacity (bufs' ! i)
       \<and> checksumValid e pkt (iphLen item) IPPROTO_TCP v6 = Some True"
proof (cases "mode = coalescePrepend")
  case True
  obtain r where r: "tcpPrepend e pkt j seq psh item bufs off v6 = Some r"
    "r \<noteq> Inl coalesceSuccess" "r = Inl coalesceItemInvalidCSum \<Longrightarrow> numMerged item = 0"
    "\<And>item' bufs'. r = Inr (item', bufs') \<Longrightarrow>
       \<not> psh \<and> item' = item\<lparr>sentSeq := seq\<rparr>
       \<and> bufs' = bufs[i := join_buf (bufs ! j) (drop (off + hl) (data (bufs ! i))), j := bufs ! i]
       \<and> length (data (bufs ! j)) + (length (data (bufs ! i)) - (off + hl)) + off
          \<le> capacity (bufs ! j)
       \<and> checksumValid e pkt (iphLen item) IPPROTO_TCP v6 = Some True"
    using tcpPrepend_spec [OF i hdr hl pkt] by blast
  show thesis
  proof (cases r)
    case (Inl reason)
    with r True that show thesis by (auto simp: coalesceTCPPackets_def)
  next
    case (Inr ib)
    obtain item1 bufs1 where ib: "ib = (item1, bufs1)" by fastforce
    note m = r(4) [OF Inr [unfolded ib]]
    have run: "coalesceTCPPackets e mode pkt j gso seq psh item bufs off v6
        = Some (coalesceSuccess, tcp_merged_item mode gso seq psh item, bufs1)"
    proof -
      have "tcp_merged_item mode gso seq psh item
          = item1\<lparr>gsoSize := max (gsoSize item1) gso, numMerged := numMerged item1 + 1\<rparr>"
        using m True by (simp add: tcp_merged_item_def)
      then show ?thesis
        unfolding coalesceTCPPackets_def if_P [OF True] r(1) Inr ib bind.bind_lunit sum.case
          prod.case Let_def raise_gsoSize
        by simp
    qed
    show thesis
      by (rule that [OF run]) (use True m i(2-4) in \<open>auto simp: tcp_merged_def Let_def i(1) [symmetric]\<close>)
  qed
next
  case False
  have pl: "hl \<le> length pkt" using hl(3) pkt by simp
  obtain r where r: "tcpAppend e pkt psh item bufs off v6 = Some r"
    "r \<noteq> Inl coalesceSuccess" "r = Inl coalesceItemInvalidCSum \<Longrightarrow> numMerged item = 0"
    "\<And>item' bufs'. r = Inr (item', bufs') \<Longrightarrow>
       item' = (if psh then item\<lparr>pshSet := True\<rparr> else item)
       \<and> bufs' = bufs[i := join_buf (if psh then (bufs ! i)\<lparr>data := (data (bufs ! i))
              [off + unat (iphLen item) + 13 :=
                 data (bufs ! i) ! (off + unat (iphLen item) + 13) OR tcpFlagPSH]\<rparr>
            else bufs ! i) (drop hl pkt)]
       \<and> length (data (bufs ! i)) + (length pkt - hl) + off \<le> capacity (bufs ! i)
       \<and> checksumValid e pkt (iphLen item) IPPROTO_TCP v6 = Some True"
    using tcpAppend_spec [OF i(1,2) hdr hl(1,2) pl] by blast
  show thesis
  proof (cases r)
    case (Inl reason)
    with r False that show thesis by (auto simp: coalesceTCPPackets_def)
  next
    case (Inr ib)
    obtain item1 bufs1 where ib: "ib = (item1, bufs1)" by fastforce
    note m = r(4) [OF Inr [unfolded ib]]
    have run: "coalesceTCPPackets e mode pkt j gso seq psh item bufs off v6
        = Some (coalesceSuccess, tcp_merged_item mode gso seq psh item, bufs1)"
    proof -
      have "tcp_merged_item mode gso seq psh item
          = item1\<lparr>gsoSize := max (gsoSize item1) gso, numMerged := numMerged item1 + 1\<rparr>"
        using m False by (simp add: tcp_merged_item_def)
      then show ?thesis
        unfolding coalesceTCPPackets_def if_not_P [OF False] r(1) Inr ib bind.bind_lunit sum.case
          prod.case Let_def raise_gsoSize
        by simp
    qed
    have "drop hl pkt = drop (off + hl) (data (bufs ! j))"
      "length pkt - hl = length (data (bufs ! j)) - (off + hl)" by (simp_all add: pkt add.commute)
    then show thesis
      by (intro that [OF run])
        (use False m i(2-4) in \<open>auto simp: tcp_merged_def set_psh_def Let_def i(1) [symmetric]\<close>)
  qed
qed

section \<open>UDP\<close>

lemma udp_hdr_sums:
  "ip_len_ok v6 iphl \<Longrightarrow> unat (iphl + of_nat udphLen) = unat iphl + 8"
  by (auto simp: ip_len_ok_def udphLen_def unat_add_u8 split: if_splits)

lemma udpPacketsCanCoalesce_spec:
  assumes i: "unat (bufsIndex item) < length bufs"
    and tgt: "tgt = drop off (data (bufs ! unat (bufsIndex item)))"
      "off + unat iphl + 8 \<le> length (data (bufs ! unat (bufsIndex item)))"
    and hdr: "ip_len_ok v6 iphl"
    and gs: "gsoSize item \<noteq> 0"
  obtains v where "udpPacketsCanCoalesce pkt iphl gso item bufs off = Some v"
    "v \<noteq> coalescePrepend"
    "v = coalesceAppend \<Longrightarrow> ipHeadersCanCoalesce pkt tgt
       \<and> (length tgt - (unat iphl + 8)) mod unat (gsoSize item) = 0 \<and> gso \<le> gsoSize item"
proof -
  have at: "pkt_at bufs off (unat (bufsIndex item)) = Some tgt"
    using i tgt by (simp add: pkt_at_in)
  have rest: "slice_from tgt (unat iphl + 8) = Some (drop (unat iphl + 8) tgt)"
    using tgt by (simp add: go_simps)
  have run: "udpPacketsCanCoalesce pkt iphl gso item bufs off = Some
      (if \<not> ipHeadersCanCoalesce pkt tgt
          \<or> (length tgt - (unat iphl + 8)) mod unat (gsoSize item) \<noteq> 0 \<or> gsoSize item < gso
       then coalesceUnavailable else coalesceAppend)"
    unfolding udpPacketsCanCoalesce_def at bind.bind_lunit udp_hdr_sums [OF hdr] rest
    using gs by (simp add: go_simps)
  show thesis by (rule that [OF run]) (auto simp: not_less split: if_splits)
qed

lemma coalesceUDPPackets_spec:
  fixes off :: nat
  assumes i: "i = unat (bufsIndex item)" "i < length bufs"
    and hdr: "ip_len_ok v6 (iphLen item)"
    and hl: "hl = unat (iphLen item) + 8"
      "off + hl \<le> length (data (bufs ! i))" "hl \<le> length pkt"
  obtains r item' bufs' where
    "coalesceUDPPackets e pkt item bufs off v6 = Some (r, item', bufs')"
    "r \<noteq> coalesceSuccess \<Longrightarrow> item' = item \<and> bufs' = bufs"
    "r = coalesceSuccess \<Longrightarrow> item' = item\<lparr>numMerged := numMerged item + 1\<rparr>
       \<and> bufs' = bufs[i := join_buf (bufs ! i) (drop hl pkt)]
       \<and> length (data (bufs' ! i)) + off \<le> capacity (bufs' ! i)
       \<and> checksumValid e pkt (iphLen item) IPPROTO_UDP v6 = Some True"
proof -
  let ?b = "bufs ! i"
  define head where "head = drop off (data ?b)"
  have big: "(if v6 then 40 else 20) \<le> unat (iphLen item)" "unat (iphLen item) \<le> hl"
    using hdr by (auto simp: ip_len_ok_def hl(1) split: if_splits)
  have off: "off \<le> length (data ?b)" using hl by simp
  have lh: "length head = length (data ?b) - off" by (simp add: head_def)
  have hlen: "unat (iphLen item + of_nat udphLen) = hl" using udp_hdr_sums [OF hdr] hl by simp
  have valid: "\<exists>b. checksumValid e xs (iphLen item) IPPROTO_UDP v6 = Some b" if "hl \<le> length xs" for xs
    using that big by (intro checksumValid_total) auto
  have long: "hl \<le> length head" using hl lh by linarith
  obtain b1 where b1: "checksumValid e head (iphLen item) IPPROTO_UDP v6 = Some b1"
    using valid [OF long] by blast
  obtain b2 where b2: "checksumValid e pkt (iphLen item) IPPROTO_UDP v6 = Some b2"
    using valid [OF hl(3)] by blast
  define fits where
    "fits \<longleftrightarrow> \<not> int (capacity ?b) - int off - int off < int (length head) + int (length pkt) - int hl"
  define ok1 where "ok1 \<longleftrightarrow> (numMerged item = 0 \<longrightarrow> \<not> cSumKnownInvalid item \<and> b1)"
  have cap: "length (data ?b) + (length pkt - hl) + off \<le> capacity ?b" if fits
    using that off hl lh unfolding fits_def by linarith
  define ext where "ext = bufs[i := join_buf ?b (replicate (length pkt - hl) 0)]"
  have extend: "extend_buf bufs i (int (length pkt) - int hl) = Some ext" if fits
    using i(2) hl(3) cap [OF that] by (simp add: extend_buf_in ext_def nat_diff_distrib)
  have copy: "copy_buf ext i (off + length head) (drop hl pkt)
      = Some (bufs[i := join_buf ?b (drop hl pkt)])"
    using i off lh by (subst copy_buf_tail [where b = ?b]) (auto simp: ext_def)
  have cap_test: "(int (capacity ?b) - int off - int off < int (length head) + int (length pkt) - int hl)
      = (\<not> fits)"
    by (simp add: fits_def)
  have item_test: "(if numMerged item = 0
      then (if cSumKnownInvalid item then Some False else Some b1) else Some True) = Some ok1"
    by (simp add: ok1_def)
  have run: "coalesceUDPPackets e pkt item bufs off v6 = Some
     (if \<not> fits then (coalesceInsufficientCap, item, bufs)
      else if \<not> ok1 then (coalesceItemInvalidCSum, item, bufs)
      else if \<not> b2 then (coalescePktInvalidCSum, item, bufs)
      else (coalesceSuccess, item\<lparr>numMerged := numMerged item + 1\<rparr>,
            bufs[i := join_buf ?b (drop hl pkt)]))"
    unfolding coalesceUDPPackets_def Let_def i(1) [symmetric] idx_in [OF i(2)] bind.bind_lunit
      slice_from_in [OF off] head_def [symmetric] hlen cap_test b1 b2 prod.case
      item_test slice_from_in [OF hl(3)]
    by (cases fits; cases ok1; cases b2) (simp_all add: extend copy)
  show thesis
  proof (cases "fits \<and> ok1 \<and> b2")
    case True
    then have "coalesceUDPPackets e pkt item bufs off v6 = Some
        (coalesceSuccess, item\<lparr>numMerged := numMerged item + 1\<rparr>,
         bufs[i := join_buf ?b (drop hl pkt)])"
      using run by simp
    then show thesis by (rule that) (use cap b2 i(2) True in simp_all)
  next
    case False
    then have "\<exists>r. r \<noteq> coalesceSuccess \<and> coalesceUDPPackets e pkt item bufs off v6 = Some (r, item, bufs)"
      using run by (cases fits; cases ok1) simp_all
    then show thesis by (elim exE conjE) (rule that, assumption, simp_all)
  qed
qed

end
