(* ===== verification/GRO.thy ===== *)
theory GRO
  imports Coalesce
begin

text \<open>
  Generic receive offload: \<open>tcpGRO\<close>, \<open>udpGRO\<close>, \<open>packetIsGROCandidate\<close>, the two
  \<open>apply*CoalesceAccounting\<close> functions and \<open>handleGRO\<close> of \<open>src/tun/offload_linux.go\<close>.
\<close>

section \<open>One packet\<close>

datatype groResult = groResultNoop | groResultTableInsert | groResultCoalesced

text \<open>
  The loop of \<open>tcpGRO\<close> over the items of the flow, from the last to the first; \<open>i\<close> items are
  still to be looked at. The remaining parameters are the locals of the function.
\<close>

fun tcpGRO_loop ::
  "endian \<Rightarrow> byte list \<Rightarrow> nat \<Rightarrow> u8 \<Rightarrow> u8 \<Rightarrow> u32 \<Rightarrow> bool \<Rightarrow> u16 \<Rightarrow> nat \<Rightarrow> bool \<Rightarrow> tcpGROItem list
    \<Rightarrow> nat \<Rightarrow> gobuf list \<Rightarrow> tcpGROTable \<Rightarrow> (groResult option \<times> gobuf list \<times> tcpGROTable) option"
where
  "tcpGRO_loop e pkt pktI iphl thl seq psh gso offset v6 items 0 bufs t = Some (None, bufs, t)"
| "tcpGRO_loop e pkt pktI iphl thl seq psh gso offset v6 items (Suc i) bufs t = do {
     item \<leftarrow> idx items i;
     can \<leftarrow> tcpPacketsCanCoalesce pkt iphl thl seq psh gso item bufs offset;
     if can = coalesceUnavailable
     then tcpGRO_loop e pkt pktI iphl thl seq psh gso offset v6 items i bufs t
     else do {
       (result, item', bufs) \<leftarrow>
         coalesceTCPPackets e can pkt pktI gso seq psh item bufs offset v6;
       case result of
         coalesceSuccess \<Rightarrow> do {
           t \<leftarrow> updateAt item' i t;
           Some (Some groResultCoalesced, bufs, t)
         }
       | coalesceItemInvalidCSum \<Rightarrow> do {
           t \<leftarrow> deleteAt (key item') i t;
           bufs \<leftarrow> clear_hdr bufs offset (unat (bufsIndex item'));
           tcpGRO_loop e pkt pktI iphl thl seq psh gso offset v6 items i bufs t
         }
       | coalescePktInvalidCSum \<Rightarrow> Some (Some groResultNoop, bufs, t)
       | _ \<Rightarrow> tcpGRO_loop e pkt pktI iphl thl seq psh gso offset v6 items i bufs t
     }
   }"

text \<open>
  The checks on the IP header that \<open>tcpGRO\<close> and \<open>udpGRO\<close> share: the header length if the
  packet's length fields agree with the packet, nothing otherwise.
\<close>

definition gro_iph_len :: "byte list \<Rightarrow> bool \<Rightarrow> nat option option" where
  "gro_iph_len pkt v6 =
     (if maxUint16 < length pkt then Some None
      else do {
        b0 \<leftarrow> idx pkt 0;
        let iphl = (if v6 then 40 else unat ((b0 AND 0x0F) * 4));
        lenOk \<leftarrow>
          (if v6 then do {
             payloadLen \<leftarrow> get16 pkt 4;
             Some (int (unat payloadLen) = int (length pkt) - int iphl)
           }
           else do {
             totalLen \<leftarrow> get16 pkt 2;
             Some (unat totalLen = length pkt)
           });
        if \<not> lenOk then Some None
        else if length pkt < iphl then Some None
        else Some (Some iphl)
      })"

definition ipv4_fragmented :: "byte list \<Rightarrow> bool option" where
  "ipv4_fragmented pkt = do {
     b6 \<leftarrow> idx pkt 6;
     if b6 AND ipv4FlagMoreFragments \<noteq> 0 \<or> push_bit 3 b6 \<noteq> 0 then Some True
     else do { b7 \<leftarrow> idx pkt 7; Some (b7 \<noteq> 0) }
   }"

definition tcpGRO ::
  "endian \<Rightarrow> gobuf list \<Rightarrow> nat \<Rightarrow> nat \<Rightarrow> tcpGROTable \<Rightarrow> bool
    \<Rightarrow> (groResult \<times> gobuf list \<times> tcpGROTable) option" where
  "tcpGRO e bufs offset pktI t v6 = do {
     pkt \<leftarrow> pkt_at bufs offset pktI;
     hdr \<leftarrow> gro_iph_len pkt v6;
     case hdr of
       None \<Rightarrow> Some (groResultNoop, bufs, t)
     | Some iphl \<Rightarrow> do {
         b \<leftarrow> idx pkt (iphl + 12);
         let thl = unat (drop_bit 4 b * 4);
         if thl < 20 \<or> 60 < thl then Some (groResultNoop, bufs, t)
         else if length pkt < iphl + thl then Some (groResultNoop, bufs, t)
         else do {
           fragmented \<leftarrow> (if v6 then Some False else ipv4_fragmented pkt);
           if fragmented then Some (groResultNoop, bufs, t)
           else do {
             tcpFlags \<leftarrow> idx pkt (iphl + tcpFlagsOffset);
             if tcpFlags \<noteq> tcpFlagACK \<and> tcpFlags \<noteq> tcpFlagACK OR tcpFlagPSH
             then Some (groResultNoop, bufs, t)
             else do {
               let psh = (tcpFlags \<noteq> tcpFlagACK);
               let gso = (of_int (int (length pkt) - int thl - int iphl) :: u16);
               if gso < 1 then Some (groResultNoop, bufs, t)
               else do {
                 seq \<leftarrow> get32 pkt (iphl + 4);
                 let srcAddrOffset = (if v6 then ipv6SrcAddrOffset else ipv4SrcAddrOffset);
                 let addrLen = (if v6 then 16 else 4);
                 (existing, t) \<leftarrow> tcp_lookupOrInsert pkt srcAddrOffset (srcAddrOffset + addrLen)
                    iphl thl pktI t;
                 case existing of
                   None \<Rightarrow> Some (groResultTableInsert, bufs, t)
                 | Some items \<Rightarrow> do {
                     (done, bufs, t) \<leftarrow> tcpGRO_loop e pkt pktI (of_nat iphl) (of_nat thl) seq psh
                        gso offset v6 items (length items) bufs t;
                     case done of
                       Some result \<Rightarrow> Some (result, bufs, t)
                     | None \<Rightarrow> do {
                         t \<leftarrow> tcp_insert pkt srcAddrOffset (srcAddrOffset + addrLen) iphl thl pktI t;
                         Some (groResultTableInsert, bufs, t)
                       }
                   }
               }
             }
           }
         }
       }
   }"

definition udpGRO ::
  "endian \<Rightarrow> gobuf list \<Rightarrow> nat \<Rightarrow> nat \<Rightarrow> udpGROTable \<Rightarrow> bool
    \<Rightarrow> (groResult \<times> gobuf list \<times> udpGROTable) option" where
  "udpGRO e bufs offset pktI t v6 = do {
     pkt \<leftarrow> pkt_at bufs offset pktI;
     hdr \<leftarrow> gro_iph_len pkt v6;
     case hdr of
       None \<Rightarrow> Some (groResultNoop, bufs, t)
     | Some iphl \<Rightarrow>
         if length pkt < iphl + udphLen then Some (groResultNoop, bufs, t)
         else do {
           fragmented \<leftarrow> (if v6 then Some False else ipv4_fragmented pkt);
           if fragmented then Some (groResultNoop, bufs, t)
           else do {
             let gso = (of_int (int (length pkt) - int udphLen - int iphl) :: u16);
             if gso < 1 then Some (groResultNoop, bufs, t)
             else do {
               let srcAddrOffset = (if v6 then ipv6SrcAddrOffset else ipv4SrcAddrOffset);
               let addrLen = (if v6 then 16 else 4);
               (existing, t) \<leftarrow> udp_lookupOrInsert pkt srcAddrOffset (srcAddrOffset + addrLen)
                  iphl pktI t;
               case existing of
                 None \<Rightarrow> Some (groResultTableInsert, bufs, t)
               | Some items \<Rightarrow> do {
                   check (items \<noteq> []);
                   let item = last items;
                   can \<leftarrow> udpPacketsCanCoalesce pkt (of_nat iphl) gso item bufs offset;
                   (result, item, bufs) \<leftarrow>
                     (if can = coalesceAppend then coalesceUDPPackets e pkt item bufs offset v6
                      else Some (coalesceInsufficientCap, item, bufs));
                   if result = coalesceSuccess
                   then do {
                     t \<leftarrow> updateAt item (length items - 1) t;
                     Some (groResultCoalesced, bufs, t)
                   }
                   else do {
                     t \<leftarrow> udp_insert pkt srcAddrOffset (srcAddrOffset + addrLen) iphl pktI
                        (result = coalescePktInvalidCSum) t;
                     Some (groResultTableInsert, bufs, t)
                   }
                 }
             }
           }
         }
   }"

section \<open>Accounting\<close>

text \<open>
  The body of the loops of \<open>apply*CoalesceAccounting\<close> for one item. \<open>thl\<close> is the length of
  the transport header, \<open>csumOff\<close> the offset of its checksum. The two functions differ in
  these, in the GSO type and in the UDP length field.
\<close>

definition account_ip :: "endian \<Rightarrow> bool \<Rightarrow> nat \<Rightarrow> byte list \<Rightarrow> byte list option" where
  "account_ip e v6 iphl pkt =
     (if v6 then put16 pkt 4 (of_nat (length pkt) - of_nat iphl)
      else do {
        pkt \<leftarrow> set_at pkt 10 0;
        pkt \<leftarrow> set_at pkt 11 0;
        pkt \<leftarrow> put16 pkt 2 (of_nat (length pkt));
        hdr \<leftarrow> slice pkt 0 iphl;
        put16 pkt 10 (NOT (checksum e hdr 0))
      })"

definition account_pseudo ::
  "endian \<Rightarrow> u8 \<Rightarrow> bool \<Rightarrow> nat \<Rightarrow> u16 \<Rightarrow> byte list \<Rightarrow> byte list option" where
  "account_pseudo e proto v6 iphl csumAt pkt = do {
     let addrLen = (if v6 then 16 else 4);
     let addrOffset = (if v6 then ipv6SrcAddrOffset else ipv4SrcAddrOffset);
     src \<leftarrow> slice pkt addrOffset (addrOffset + addrLen);
     dst \<leftarrow> slice pkt (addrOffset + addrLen) (addrOffset + addrLen * 2);
     let psum = pseudoHeaderChecksumNoFold e proto src dst (of_int (int (length pkt) - int iphl));
     put16 pkt (unat csumAt) (checksum e [] psum)
   }"

text \<open>
  The header and the packet share one buffer: the bytes before \<open>offset - virtioNetHdrLen\<close> stay,
  the header is encoded in front of the rewritten packet.
\<close>

definition write_account ::
  "endian \<Rightarrow> virtioNetHdr \<Rightarrow> nat \<Rightarrow> gobuf \<Rightarrow> byte list \<Rightarrow> (goerror option \<times> gobuf) option" where
  "write_account e hdr offset b pkt = do {
     check (virtioNetHdrLen \<le> offset);
     let d = take offset (data b) @ pkt;
     tl \<leftarrow> slice_from d (offset - virtioNetHdrLen);
     Some (case encode e hdr tl of
         Inl err \<Rightarrow> (Some err, b\<lparr>data := d\<rparr>)
       | Inr tl \<Rightarrow> (None, b\<lparr>data := take (offset - virtioNetHdrLen) d @ tl\<rparr>))
   }"

definition account_tcp_buf ::
  "endian \<Rightarrow> nat \<Rightarrow> tcpGROItem \<Rightarrow> gobuf \<Rightarrow> (goerror option \<times> gobuf) option" where
  "account_tcp_buf e offset item b =
     (let v6 = isV6 (key item) in
      if 0 < numMerged item then do {
        let hdr = \<lparr>flags = VIRTIO_NET_HDR_F_NEEDS_CSUM,
                   gsoType = (if v6 then VIRTIO_NET_HDR_GSO_TCPV6 else VIRTIO_NET_HDR_GSO_TCPV4),
                   hdrLen = ucast (iphLen item + tcphLen item), hdrGsoSize = gsoSize item,
                   csumStart = ucast (iphLen item), csumOffset = 16\<rparr>;
        pkt \<leftarrow> slice_from (data b) offset;
        pkt \<leftarrow> account_ip e v6 (unat (iphLen item)) pkt;
        (err, b) \<leftarrow> write_account e hdr offset b pkt;
        if err \<noteq> None then Some (err, b)
        else do {
          pkt \<leftarrow> account_pseudo e IPPROTO_TCP v6 (unat (iphLen item))
             (csumStart hdr + csumOffset hdr) pkt;
          Some (None, b\<lparr>data := take offset (data b) @ pkt\<rparr>)
        }
      }
      else map_option (Pair None) (clear_buf offset b))"

definition account_udp_buf ::
  "endian \<Rightarrow> nat \<Rightarrow> udpGROItem \<Rightarrow> gobuf \<Rightarrow> (goerror option \<times> gobuf) option" where
  "account_udp_buf e offset item b =
     (let v6 = isV6 (key item) in
      if 0 < numMerged item then do {
        let hdr = \<lparr>flags = VIRTIO_NET_HDR_F_NEEDS_CSUM, gsoType = VIRTIO_NET_HDR_GSO_UDP_L4,
                   hdrLen = ucast (iphLen item + of_nat udphLen), hdrGsoSize = gsoSize item,
                   csumStart = ucast (iphLen item), csumOffset = 6\<rparr>;
        pkt \<leftarrow> slice_from (data b) offset;
        pkt \<leftarrow> account_ip e v6 (unat (iphLen item)) pkt;
        (err, b) \<leftarrow> write_account e hdr offset b pkt;
        if err \<noteq> None then Some (err, b)
        else do {
          udp \<leftarrow> slice_from pkt (unat (iphLen item));
          pkt \<leftarrow> put16 pkt (unat (iphLen item + 4)) (of_nat (length udp));
          pkt \<leftarrow> account_pseudo e IPPROTO_UDP v6 (unat (iphLen item))
             (csumStart hdr + csumOffset hdr) pkt;
          Some (None, b\<lparr>data := take offset (data b) @ pkt\<rparr>)
        }
      }
      else map_option (Pair None) (clear_buf offset b))"

text \<open>\<open>bufs[item.bufsIndex]\<close> is the only buffer the body touches.\<close>

definition account_at ::
  "(gobuf \<Rightarrow> (goerror option \<times> gobuf) option) \<Rightarrow> nat \<Rightarrow> gobuf list
    \<Rightarrow> (goerror option \<times> gobuf list) option" where
  "account_at f i bufs = do {
     b \<leftarrow> idx bufs i;
     (err, b) \<leftarrow> f b;
     bufs \<leftarrow> set_at bufs i b;
     Some (err, bufs)
   }"

definition account_tcp_item ::
  "endian \<Rightarrow> nat \<Rightarrow> tcpGROItem \<Rightarrow> gobuf list \<Rightarrow> (goerror option \<times> gobuf list) option" where
  "account_tcp_item e offset item =
     account_at (account_tcp_buf e offset item) (unat (bufsIndex item))"

definition account_udp_item ::
  "endian \<Rightarrow> nat \<Rightarrow> udpGROItem \<Rightarrow> gobuf list \<Rightarrow> (goerror option \<times> gobuf list) option" where
  "account_udp_item e offset item =
     account_at (account_udp_buf e offset item) (unat (bufsIndex item))"

text \<open>The loops over all items of all flows, stopped by the first error.\<close>

fun account_all ::
  "('i \<Rightarrow> gobuf list \<Rightarrow> (goerror option \<times> gobuf list) option) \<Rightarrow> 'i list \<Rightarrow> gobuf list
    \<Rightarrow> (goerror option \<times> gobuf list) option" where
  "account_all f [] bufs = Some (None, bufs)"
| "account_all f (item # items) bufs =
     (case f item bufs of
        None \<Rightarrow> None
      | Some (Some err, bufs) \<Rightarrow> Some (Some err, bufs)
      | Some (None, bufs) \<Rightarrow> account_all f items bufs)"

definition applyTCPCoalesceAccounting ::
  "endian \<Rightarrow> gobuf list \<Rightarrow> nat \<Rightarrow> tcpGROTable \<Rightarrow> (goerror option \<times> gobuf list) option" where
  "applyTCPCoalesceAccounting e bufs offset t =
     account_all (account_tcp_item e offset) (all_items t) bufs"

definition applyUDPCoalesceAccounting ::
  "endian \<Rightarrow> gobuf list \<Rightarrow> nat \<Rightarrow> udpGROTable \<Rightarrow> (goerror option \<times> gobuf list) option" where
  "applyUDPCoalesceAccounting e bufs offset t =
     account_all (account_udp_item e offset) (all_items t) bufs"

section \<open>A vector of packets\<close>

datatype groCandidateType =
  notGROCandidate | tcp4GROCandidate | tcp6GROCandidate | udp4GROCandidate | udp6GROCandidate

definition packetIsGROCandidate :: "byte list \<Rightarrow> bool \<Rightarrow> groCandidateType" where
  "packetIsGROCandidate b canUDPGRO =
     (if length b < 28 then notGROCandidate
      else if drop_bit 4 (b ! 0) = 4 then
        (if b ! 0 AND 0x0F \<noteq> 5 then notGROCandidate
         else if b ! 9 = IPPROTO_TCP \<and> 40 \<le> length b then tcp4GROCandidate
         else if b ! 9 = IPPROTO_UDP \<and> canUDPGRO then udp4GROCandidate
         else notGROCandidate)
      else if drop_bit 4 (b ! 0) = 6 then
        (if b ! 6 = IPPROTO_TCP \<and> 60 \<le> length b then tcp6GROCandidate
         else if b ! 6 = IPPROTO_UDP \<and> 48 \<le> length b \<and> canUDPGRO then udp6GROCandidate
         else notGROCandidate)
      else notGROCandidate)"

record groState =
  bufs :: "gobuf list"
  tcpTable :: tcpGROTable
  udpTable :: udpGROTable
  toWrite :: "nat list"

definition gro_packet :: "endian \<Rightarrow> nat \<Rightarrow> bool \<Rightarrow> nat \<Rightarrow> groState \<Rightarrow> (groResult \<times> groState) option" where
  "gro_packet e offset canUDPGRO i s = do {
     pkt \<leftarrow> pkt_at (bufs s) offset i;
     let tcp = (\<lambda>v6. do {
           (r, bs, t) \<leftarrow> tcpGRO e (bufs s) offset i (tcpTable s) v6;
           Some (r, s\<lparr>bufs := bs, tcpTable := t\<rparr>)
         });
     let udp = (\<lambda>v6. do {
           (r, bs, t) \<leftarrow> udpGRO e (bufs s) offset i (udpTable s) v6;
           Some (r, s\<lparr>bufs := bs, udpTable := t\<rparr>)
         });
     case packetIsGROCandidate pkt canUDPGRO of
       tcp4GROCandidate \<Rightarrow> tcp False
     | tcp6GROCandidate \<Rightarrow> tcp True
     | udp4GROCandidate \<Rightarrow> udp False
     | udp6GROCandidate \<Rightarrow> udp True
     | notGROCandidate \<Rightarrow> Some (groResultNoop, s)
   }"

text \<open>
  The body of the loop of \<open>handleGRO\<close> at index \<open>i\<close>: the offset check, the evaluation of the
  packet, and the switch over the result with its fallthrough. \<open>offset\<close> is a Go \<open>int\<close>.
\<close>

definition gro_step :: "endian \<Rightarrow> int \<Rightarrow> bool \<Rightarrow> nat \<Rightarrow> groState \<Rightarrow> (goerror + groState) option" where
  "gro_step e offset canUDPGRO i s = do {
     b \<leftarrow> idx (bufs s) i;
     if offset < int virtioNetHdrLen \<or> offset > int (length (data b)) - 1
     then Some (Inl ErrInvalidOffset)
     else do {
       (result, s) \<leftarrow> gro_packet e (nat offset) canUDPGRO i s;
       case result of
         groResultNoop \<Rightarrow> do {
           bs \<leftarrow> clear_hdr (bufs s) (nat offset) i;
           Some (Inr (s\<lparr>bufs := bs, toWrite := toWrite s @ [i]\<rparr>))
         }
       | groResultTableInsert \<Rightarrow> Some (Inr (s\<lparr>toWrite := toWrite s @ [i]\<rparr>))
       | groResultCoalesced \<Rightarrow> Some (Inr s)
     }
   }"

fun gro_loop ::
  "endian \<Rightarrow> int \<Rightarrow> bool \<Rightarrow> nat list \<Rightarrow> groState \<Rightarrow> (goerror option \<times> groState) option" where
  "gro_loop e offset canUDPGRO [] s = Some (None, s)"
| "gro_loop e offset canUDPGRO (i # is) s =
     (case gro_step e offset canUDPGRO i s of
        None \<Rightarrow> None
      | Some (Inl err) \<Rightarrow> Some (Some err, s)
      | Some (Inr s) \<Rightarrow> gro_loop e offset canUDPGRO is s)"

definition handleGRO :: "endian \<Rightarrow> int \<Rightarrow> bool \<Rightarrow> groState \<Rightarrow> (goerror list \<times> groState) option" where
  "handleGRO e offset canUDPGRO s = do {
     (err, s) \<leftarrow> gro_loop e offset canUDPGRO [0..<length (bufs s)] s;
     case err of
       Some err \<Rightarrow> Some ([err], s)
     | None \<Rightarrow> do {
         (errTCP, bs) \<leftarrow> applyTCPCoalesceAccounting e (bufs s) (nat offset) (tcpTable s);
         (errUDP, bs) \<leftarrow> applyUDPCoalesceAccounting e bs (nat offset) (udpTable s);
         Some ((case errTCP of None \<Rightarrow> [] | Some err \<Rightarrow> [err])
               @ (case errUDP of None \<Rightarrow> [] | Some err \<Rightarrow> [err]),
               s\<lparr>bufs := bs\<rparr>)
       }
   }"

end
