(* ===== verification/GROInv.thy ===== *)
theory GROInv
  imports GRO
begin

text \<open>
  What \<open>handleGRO\<close> keeps while it goes through the vector. \<open>orig\<close> is the vector as it was
  handed in, \<open>bs\<close> the vector now, \<open>n\<close> the number of packets looked at. \<open>parts k\<close> lists the
  packets, by their original index, whose payloads the packet to be written at \<open>k\<close> now holds. The
  tracked items of both tables are one bag of entries; four steps on it cover all that the code
  does to a packet: leave it alone, insert it, delete an item, merge a packet into an item.
\<close>

section \<open>Original packets and cleared buffers\<close>

definition opkt :: "gobuf list \<Rightarrow> nat \<Rightarrow> nat \<Rightarrow> byte list" where
  "opkt orig off p = drop off (data (orig ! p))"

definition cleared :: "nat \<Rightarrow> gobuf \<Rightarrow> gobuf" where
  "cleared off b = b\<lparr>data := take (off - 10) (data b) @ replicate 10 0 @ drop off (data b)\<rparr>"

lemma capacity_cleared [simp]: "capacity (cleared off b) = capacity b"
  by (simp add: cleared_def)

lemma drop_cleared [simp]:
  "10 \<le> off \<Longrightarrow> off \<le> length (data b) \<Longrightarrow> drop off (data (cleared off b)) = drop off (data b)"
  by (simp add: cleared_def)

lemma length_cleared [simp]:
  "10 \<le> off \<Longrightarrow> off \<le> length (data b) \<Longrightarrow> length (data (cleared off b)) = length (data b)"
  by (simp add: cleared_def)

lemma clear_hdr_in:
  "10 \<le> off \<Longrightarrow> i < length bs \<Longrightarrow> off \<le> length (data (bs ! i)) \<Longrightarrow>
   clear_hdr bs off i = Some (bs[i := cleared off (bs ! i)])"
  by (simp add: clear_hdr_def clear_buf_def go_simps virtioNetHdrLen_def cleared_def)

section \<open>What a buffer made of several packets holds\<close>

text \<open>
  \<open>segments\<close>: the bytes of \<open>b\<close> past the headers are the payloads of the packets \<open>ps\<close>, one after
  the other; every packet but the last carries \<open>g\<close> bytes, the last at least one and at most \<open>g\<close>.
\<close>

definition segments :: "gobuf list \<Rightarrow> nat \<Rightarrow> gobuf \<Rightarrow> nat \<Rightarrow> nat \<Rightarrow> nat list \<Rightarrow> bool" where
  "segments orig off b hl g ps \<longleftrightarrow>
     ps \<noteq> [] \<and> off + hl \<le> length (data b)
     \<and> drop (off + hl) (data b) = concat (map (\<lambda>p. drop hl (opkt orig off p)) ps)
     \<and> (\<forall>p \<in> set ps. hl < length (opkt orig off p))
     \<and> (\<forall>p \<in> set (butlast ps). length (opkt orig off p) = hl + g)
     \<and> length (opkt orig off (last ps)) \<le> hl + g
     \<and> length (data b) \<le> off + 65535"

text \<open>The headers of \<open>b\<close> are those of its first packet, but for the TCP flags.\<close>

definition same_hdr :: "gobuf list \<Rightarrow> nat \<Rightarrow> gobuf \<Rightarrow> nat \<Rightarrow> nat \<Rightarrow> nat list \<Rightarrow> bool" where
  "same_hdr orig off b hl flagsAt ps \<longleftrightarrow>
     (take hl (drop off (data b)))[flagsAt := 0] = (take hl (opkt orig off (hd ps)))[flagsAt := 0]"

text \<open>What the header checks of \<open>tcpGRO\<close> and \<open>udpGRO\<close> have established of a packet.\<close>

definition src_at :: "bool \<Rightarrow> nat" where "src_at v6 = (if v6 then 8 else 12)"
definition addr_len :: "bool \<Rightarrow> nat" where "addr_len v6 = (if v6 then 16 else 4)"
definition ip_version :: "byte list \<Rightarrow> u8" where "ip_version pkt = drop_bit 4 (pkt ! 0)"

definition psh_of :: "nat \<Rightarrow> byte list \<Rightarrow> bool" where
  "psh_of iphl pkt \<longleftrightarrow> pkt ! (iphl + 13) = tcpFlagACK OR tcpFlagPSH"

definition tcp_seq :: "nat \<Rightarrow> byte list \<Rightarrow> u32" where
  "tcp_seq iphl pkt =
     be32_of (pkt ! (iphl + 4)) (pkt ! (iphl + 5)) (pkt ! (iphl + 6)) (pkt ! (iphl + 7))"

text \<open>The fields of the headers that packets must share to be coalesced.\<close>

definition ip_class :: "byte list \<Rightarrow> byte list" where
  "ip_class pkt = (if ip_version pkt = 6 then [pkt ! 0, drop_bit 4 (pkt ! 1), pkt ! 7]
                   else [pkt ! 1, drop_bit 5 (pkt ! 6), pkt ! 8])"

definition tcp_opts :: "u8 \<Rightarrow> u8 \<Rightarrow> byte list \<Rightarrow> byte list" where
  "tcp_opts iphl thl pkt = take (unat thl - 20) (drop (unat iphl + 20) pkt)"

definition tcp_cand :: "bool \<Rightarrow> u8 \<Rightarrow> u8 \<Rightarrow> tcpFlowKey \<Rightarrow> byte list \<Rightarrow> bool" where
  "tcp_cand v6 iphl thl k pkt \<longleftrightarrow>
     tcp_hdr_ok v6 iphl thl \<and> tcp_hl iphl thl < length pkt \<and> length pkt \<le> 65535
     \<and> ip_version pkt = (if v6 then 6 else 4)
     \<and> pkt ! (unat iphl + 13) \<in> {tcpFlagACK, tcpFlagACK OR tcpFlagPSH}
     \<and> drop_bit 4 (pkt ! (unat iphl + 12)) * 4 = thl
     \<and> newTCPFlowKey pkt (src_at v6) (src_at v6 + addr_len v6) (unat iphl) = Some k"

definition udp_cand :: "bool \<Rightarrow> u8 \<Rightarrow> udpFlowKey \<Rightarrow> byte list \<Rightarrow> bool" where
  "udp_cand v6 iphl k pkt \<longleftrightarrow>
     ip_len_ok v6 iphl \<and> unat iphl + 8 < length pkt \<and> length pkt \<le> 65535
     \<and> ip_version pkt = (if v6 then 6 else 4)
     \<and> newUDPFlowKey pkt (src_at v6) (src_at v6 + addr_len v6) (unat iphl) = Some k"

section \<open>Entries\<close>

datatype entry = TcpE tcpGROItem | UdpE udpGROItem

fun ent_idx :: "entry \<Rightarrow> nat" where
  "ent_idx (TcpE item) = unat (bufsIndex item)"
| "ent_idx (UdpE item) = unat (bufsIndex item)"

definition tcp_ent_ok :: "gobuf list \<Rightarrow> nat \<Rightarrow> gobuf \<Rightarrow> nat list \<Rightarrow> tcpGROItem \<Rightarrow> bool" where
  "tcp_ent_ok orig off b ps item \<longleftrightarrow>
     (let v6 = isV6 (key item); iphl = iphLen item; thl = tcphLen item;
          hl = tcp_hl iphl thl; g = unat (gsoSize item); P = opkt orig off in
        gsoSize item \<noteq> 0 \<and> segments orig off b hl g ps
        \<and> length ps = unat (numMerged item) + 1
        \<and> (numMerged item = 0 \<longrightarrow> ps = [unat (bufsIndex item)] \<and> data b = data (orig ! unat (bufsIndex item))
             \<and> length (P (last ps)) = hl + g)
        \<and> same_hdr orig off b hl (unat iphl + 13) ps
        \<and> (\<forall>p \<in> set ps. tcp_cand v6 iphl thl (key item) (P p) \<and> ip_class (P p) = ip_class (P (hd ps))
             \<and> tcp_opts iphl thl (P p) = tcp_opts iphl thl (P (hd ps)))
        \<and> (\<forall>m < length ps. tcp_seq (unat iphl) (P (ps ! m)) = sentSeq item + of_nat (m * g))
        \<and> (\<forall>p \<in> set (butlast ps). \<not> psh_of (unat iphl) (P p))
        \<and> pshSet item = psh_of (unat iphl) (P (last ps)))"

definition udp_ent_ok :: "gobuf list \<Rightarrow> nat \<Rightarrow> gobuf \<Rightarrow> nat list \<Rightarrow> udpGROItem \<Rightarrow> bool" where
  "udp_ent_ok orig off b ps item \<longleftrightarrow>
     (let v6 = isV6 (key item); iphl = iphLen item;
          hl = unat iphl + 8; g = unat (gsoSize item); P = opkt orig off in
        gsoSize item \<noteq> 0 \<and> segments orig off b hl g ps
        \<and> length ps = unat (numMerged item) + 1
        \<and> (numMerged item = 0 \<longrightarrow> ps = [unat (bufsIndex item)] \<and> data b = data (orig ! unat (bufsIndex item)))
        \<and> take hl (drop off (data b)) = take hl (P (hd ps))
        \<and> (\<forall>p \<in> set ps. udp_cand v6 iphl (key item) (P p) \<and> ip_class (P p) = ip_class (P (hd ps)))
        \<and> sorted_wrt (<) ps)"

fun ent_ok :: "gobuf list \<Rightarrow> nat \<Rightarrow> gobuf \<Rightarrow> nat list \<Rightarrow> entry \<Rightarrow> bool" where
  "ent_ok orig off b ps (TcpE item) = tcp_ent_ok orig off b ps item"
| "ent_ok orig off b ps (UdpE item) = udp_ent_ok orig off b ps item"

section \<open>The invariant\<close>

definition core :: "gobuf list \<Rightarrow> nat \<Rightarrow> nat \<Rightarrow> gobuf list \<Rightarrow> nat list \<Rightarrow> (nat \<Rightarrow> nat list)
    \<Rightarrow> entry multiset \<Rightarrow> bool" where
  "core orig off n bs tw parts E \<longleftrightarrow>
     length bs = length orig \<and> n \<le> length orig
     \<and> (\<forall>k < length orig. n \<le> k \<longrightarrow> bs ! k = orig ! k)
     \<and> (\<forall>k < length orig. capacity (bs ! k) \<le> 2 * off + 65535)
     \<and> (\<forall>k < n. off < length (data (orig ! k)))
     \<and> sorted_wrt (<) tw \<and> set tw \<subseteq> {..<n}
     \<and> mset (concat (map parts tw)) = mset [0..<n]
     \<and> image_mset ent_idx E \<subseteq># mset tw
     \<and> (\<forall>x \<in># E. ent_ok orig off (bs ! ent_idx x) (parts (ent_idx x)) x)
     \<and> (\<forall>k \<in> set tw. k \<notin># image_mset ent_idx E \<longrightarrow>
          parts k = [k] \<and> data (bs ! k) = data (cleared off (orig ! k)))"

lemma core_empty:
  "\<forall>k < length orig. capacity (orig ! k) \<le> 2 * off + 65535 \<Longrightarrow> core orig off 0 orig [] parts {#}"
  by (simp add: core_def)

lemma core_idx:
  assumes "core orig off n bs tw parts E" and "x \<in># E"
  shows "ent_idx x \<in> set tw" and "ent_idx x < n" and "ent_idx x < length bs"
    and "ent_ok orig off (bs ! ent_idx x) (parts (ent_idx x)) x"
proof -
  have "image_mset ent_idx E \<subseteq># mset tw" using assms(1) by (simp add: core_def)
  moreover have "ent_idx x \<in># image_mset ent_idx E" using assms(2) by simp
  ultimately have "ent_idx x \<in># mset tw" by (rule mset_subset_eqD)
  then show "ent_idx x \<in> set tw" by simp
  then show "ent_idx x < n" "ent_idx x < length bs" using assms(1) by (auto simp: core_def)
  show "ent_ok orig off (bs ! ent_idx x) (parts (ent_idx x)) x"
    using assms by (simp add: core_def)
qed

lemma core_unique:
  assumes "core orig off n bs tw parts E" and "x \<in># E"
  shows "ent_idx x \<notin># image_mset ent_idx (E - {#x#})"
proof
  assume a: "ent_idx x \<in># image_mset ent_idx (E - {#x#})"
  have "distinct tw" using assms(1) by (auto simp: core_def strict_sorted_iff)
  then have "count (mset tw) (ent_idx x) \<le> 1" by (simp add: distinct_count_atmost_1)
  moreover have "image_mset ent_idx E = add_mset (ent_idx x) (image_mset ent_idx (E - {#x#}))"
    using assms(2) by (metis image_mset_add_mset insert_DiffM)
  then have "count (image_mset ent_idx E) (ent_idx x) \<ge> 2"
    using a by (simp add: Suc_le_eq del: image_mset_diff_if_inj)
  moreover have "count (image_mset ent_idx E) (ent_idx x) \<le> count (mset tw) (ent_idx x)"
    using assms(1) by (simp add: core_def subseteq_mset_def)
  ultimately show False by simp
qed

lemma core_other:
  "core orig off n bs tw parts E \<Longrightarrow> x \<in># E \<Longrightarrow> y \<in># E - {#x#} \<Longrightarrow> ent_idx y \<noteq> ent_idx x"
  by (metis core_unique image_eqI set_image_mset)

lemma map_parts_upd: "k \<notin> set tw \<Longrightarrow> map (parts(k := ps)) tw = map parts tw"
  by simp

text \<open>A packet that is written as it is.\<close>

lemma core_noop:
  assumes c: "core orig off n bs tw parts E"
    and n: "n < length orig" "10 \<le> off" "off < length (data (orig ! n))"
  shows "core orig off (Suc n) (bs[n := cleared off (bs ! n)]) (tw @ [n]) (parts(n := [n])) E"
proof -
  have n': "n \<notin> set tw" using c by (auto simp: core_def)
  have idx: "ent_idx x \<noteq> n" if "x \<in># E" for x using core_idx(2) [OF c that] by simp
  have sub: "image_mset ent_idx E \<subseteq># add_mset n (mset tw)"
  proof (rule subset_mset.order_trans)
    show "image_mset ent_idx E \<subseteq># mset tw" using c by (simp add: core_def)
  qed (simp add: subseteq_mset_def)
  show ?thesis
    using c n n' idx sub
    by (auto simp: core_def sorted_wrt_append less_Suc_eq nth_list_update)
qed

text \<open>A packet that becomes an item.\<close>

lemma core_insert:
  assumes c: "core orig off n bs tw parts E"
    and n: "n < length orig" "off < length (data (orig ! n))"
    and x: "ent_idx x = n" "ent_ok orig off (orig ! n) [n] x"
  shows "core orig off (Suc n) bs (tw @ [n]) (parts(n := [n])) (add_mset x E)"
proof -
  have n': "n \<notin> set tw" using c by (auto simp: core_def)
  have idx: "ent_idx x \<noteq> n" if "x \<in># E" for x using core_idx(2) [OF c that] by simp
  show ?thesis
    using c n n' idx x by (auto simp: core_def sorted_wrt_append less_Suc_eq)
qed

text \<open>An item of one packet that is given up.\<close>

lemma core_delete:
  assumes c: "core orig off n bs tw parts E" and x: "x \<in># E" and off: "10 \<le> off"
    and single: "parts (ent_idx x) = [ent_idx x]" "data (bs ! ent_idx x) = data (orig ! ent_idx x)"
  shows "core orig off n (bs[ent_idx x := cleared off (bs ! ent_idx x)]) tw parts (E - {#x#})"
proof -
  let ?i = "ent_idx x"
  have i: "?i \<in> set tw" "?i < n" "?i < length bs" by (rule core_idx [OF c x])+
  have other: "ent_idx y \<noteq> ?i" if "y \<in># E - {#x#}" for y by (rule core_other [OF c x that])
  have img: "image_mset ent_idx E = add_mset ?i (image_mset ent_idx (E - {#x#}))"
    using x by (metis image_mset_add_mset insert_DiffM)
  have sub: "image_mset ent_idx (E - {#x#}) \<subseteq># mset tw"
    using c unfolding core_def img by (meson mset_subset_eq_insertD subset_mset.less_imp_le)
  have "data (cleared off (bs ! ?i)) = data (cleared off (orig ! ?i))"
    by (simp add: cleared_def single)
  moreover have "ent_ok orig off (bs[?i := cleared off (bs ! ?i)] ! ent_idx y) (parts (ent_idx y)) y"
    if "y \<in># E - {#x#}" for y
    using other [OF that] core_idx(4) [OF c in_diffD [OF that]] by simp
  moreover have "parts k = [k] \<and> data (bs ! k) = data (cleared off (orig ! k))"
    if "k \<in> set tw" "k \<noteq> ?i" "k \<notin># image_mset ent_idx (E - {#x#})" for k
    using that c unfolding core_def img by simp
  ultimately show ?thesis
    using c i sub single(1) unfolding core_def by (auto simp: nth_list_update)
qed

text \<open>A packet that is merged into an item.\<close>

lemma core_merge:
  assumes c: "core orig off n bs tw parts E" and x: "x \<in># E"
    and n: "n < length orig" "off < length (data (orig ! n))"
    and bs': "length bs' = length bs" "\<And>k. k < length bs \<Longrightarrow> k \<noteq> ent_idx x \<Longrightarrow> k \<noteq> n \<Longrightarrow> bs' ! k = bs ! k"
      "capacity (bs' ! ent_idx x) \<le> 2 * off + 65535" "capacity (bs' ! n) \<le> 2 * off + 65535"
    and x': "ent_idx x' = ent_idx x" "ent_ok orig off (bs' ! ent_idx x) ps x'"
    and ps: "mset ps = add_mset n (mset (parts (ent_idx x)))"
  shows "core orig off (Suc n) bs' tw (parts(ent_idx x := ps)) (add_mset x' (E - {#x#}))"
proof -
  let ?i = "ent_idx x"
  have i: "?i \<in> set tw" "?i < n" "?i < length bs" by (rule core_idx [OF c x])+
  have other: "ent_idx y \<noteq> ?i \<and> ent_idx y < n" if "y \<in># E - {#x#}" for y
    using core_other [OF c x that] core_idx(2) [OF c in_diffD [OF that]] by simp
  have img: "image_mset ent_idx E = add_mset ?i (image_mset ent_idx (E - {#x#}))"
    using x by (metis image_mset_add_mset insert_DiffM)
  have dist: "distinct tw" using c by (auto simp: core_def strict_sorted_iff)
  obtain us vs where tw: "tw = us @ ?i # vs" using split_list [OF i(1)] by blast
  have "mset (concat (map (parts(?i := ps)) tw)) = add_mset n (mset (concat (map parts tw)))"
    using dist by (simp add: tw map_parts_upd ps)
  then have all: "mset (concat (map (parts(?i := ps)) tw)) = mset [0..<Suc n]"
    using c by (simp add: core_def)
  have keep: "bs' ! k = bs ! k" if "k < n" "k \<noteq> ?i" for k
    using bs'(2) [of k] that c by (auto simp: core_def)
  have later: "bs' ! k = orig ! k" if "k < length orig" "Suc n \<le> k" for k
    using bs'(2) [of k] that c i(2) by (auto simp: core_def)
  have caps: "capacity (bs' ! k) \<le> 2 * off + 65535" if "k < length orig" for k
    using bs'(2) [of k] bs'(3,4) that c by (cases "k = ?i \<or> k = n") (auto simp: core_def)
  have ents: "ent_ok orig off (bs' ! ent_idx y) ((parts(?i := ps)) (ent_idx y)) y"
    if "y \<in># add_mset x' (E - {#x#})" for y
  proof (cases "y = x'")
    case True
    then show ?thesis by (simp add: x')
  next
    case False
    then have y: "y \<in># E - {#x#}" using that by simp
    then show ?thesis
      using other [OF y] keep core_idx(4) [OF c in_diffD [OF y]] by simp
  qed
  have rest: "(parts(?i := ps)) k = [k] \<and> data (bs' ! k) = data (cleared off (orig ! k))"
    if "k \<in> set tw" "k \<notin># image_mset ent_idx (add_mset x' (E - {#x#}))" for k
  proof -
    have "k \<noteq> ?i" "k \<notin># image_mset ent_idx E" "k < n" using that c by (auto simp: img x'(1) core_def)
    then show ?thesis using keep c that(1) by (auto simp: core_def)
  qed
  have img': "image_mset ent_idx (add_mset x' (E - {#x#})) = image_mset ent_idx E"
    by (simp add: img x'(1))
  show ?thesis
    unfolding core_def img'
    using c n bs'(1) all later caps ents rest [unfolded img'] by (auto simp: core_def less_Suc_eq)
qed

section \<open>Segments under a merge\<close>

lemma drop_opkt: "drop hl (opkt orig off n) = drop (off + hl) (data (orig ! n))"
  by (simp add: opkt_def add.commute)

lemma in_set_butlast_or_last: "p \<in> set ps \<Longrightarrow> p \<in> set (butlast ps) \<or> p = last ps"
  by (cases ps rule: rev_cases) auto

lemma length_equal_parts:
  "\<forall>p \<in> set ps. length (f p) = g \<Longrightarrow> length (concat (map f ps)) = length ps * g"
  by (induction ps) auto

lemma segments_length:
  assumes "segments orig off b hl g ps"
  shows "length (data b) - (off + hl)
    = (length ps - 1) * g + (length (opkt orig off (last ps)) - hl)"
proof -
  let ?f = "\<lambda>p. drop hl (opkt orig off p)"
  have ps: "ps \<noteq> []" "drop (off + hl) (data b) = concat (map ?f ps)"
    and full: "\<forall>p \<in> set (butlast ps). length (?f p) = g"
    using assms by (auto simp: segments_def)
  have "ps = butlast ps @ [last ps]" using ps(1) by simp
  then have "concat (map ?f ps) = concat (map ?f (butlast ps)) @ ?f (last ps)"
    by (metis (no_types) concat_append concat.simps append_Nil2 list.map(1,2) map_append)
  then have "length (concat (map ?f ps)) = length (butlast ps) * g + length (?f (last ps))"
    by (simp add: length_equal_parts [OF full])
  moreover have "length (data b) - (off + hl) = length (concat (map ?f ps))"
    unfolding ps(2) [symmetric] by simp
  ultimately show ?thesis by simp
qed

lemma segments_full:
  assumes s: "segments orig off b hl g ps" and m: "(length (drop off (data b)) - hl) mod g = 0"
  shows "length (opkt orig off (last ps)) = hl + g"
proof -
  define l where "l = length (opkt orig off (last ps)) - hl"
  have l: "0 < l" "l \<le> g" using s by (auto simp: segments_def l_def)
  have "(length ps - 1) * g + l = length (drop off (data b)) - hl"
    using segments_length [OF s] by (simp add: l_def)
  then have "l mod g = 0" using m by (metis add.commute mod_mult_self1)
  with l have "l = g" by (auto simp: mod_eq_0_iff_dvd dest: dvd_imp_le)
  then show ?thesis using l(1) by (simp add: l_def)
qed

lemma segments_append:
  assumes s: "segments orig off b hl g ps" and full: "length (opkt orig off (last ps)) = hl + g"
    and n: "hl < length (opkt orig off n)" "length (opkt orig off n) \<le> hl + g"
    and fits: "length (data (join_buf b (drop (off + hl) (data (orig ! n))))) \<le> off + 65535"
  shows "segments orig off (join_buf b (drop (off + hl) (data (orig ! n)))) hl g (ps @ [n])"
proof -
  have "length (opkt orig off p) = hl + g" if "p \<in> set ps" for p
    using that s full by (auto simp: segments_def dest: in_set_butlast_or_last)
  then show ?thesis
    using s n fits by (auto simp: segments_def drop_opkt)
qed

lemma segments_prepend:
  assumes s: "segments orig off b hl g ps"
    and n: "length (opkt orig off n) = hl + g'" "off + hl < length (data (orig ! n))"
    and g: "g' = g \<or> length ps = 1 \<and> g \<le> g'"
    and fits: "length (data (join_buf (orig ! n) (drop (off + hl) (data b)))) \<le> off + 65535"
  shows "segments orig off (join_buf (orig ! n) (drop (off + hl) (data b))) hl g' (n # ps)"
proof -
  have "hl < length (opkt orig off n)" using n(2) by (simp add: opkt_def)
  moreover have "\<forall>p \<in> set (butlast ps). length (opkt orig off p) = hl + g'"
    using s g by (cases ps rule: rev_cases) (auto simp: segments_def)
  moreover have "length (opkt orig off (last ps)) \<le> hl + g'" using s g by (auto simp: segments_def)
  ultimately show ?thesis
    using s n fits by (auto simp: segments_def drop_opkt)
qed

lemma segments_set_psh:
  "segments orig off b hl g ps \<Longrightarrow> at < off + hl \<Longrightarrow> segments orig off (set_psh at b) hl g ps"
  by (simp add: segments_def set_psh_def)

lemma same_hdr_set_psh:
  "off + hl \<le> length (data b) \<Longrightarrow>
   same_hdr orig off (set_psh (off + f) b) hl f ps = same_hdr orig off b hl f ps"
  by (simp add: same_hdr_def set_psh_def drop_update_swap take_update_swap)

lemma take_hdr_join:
  "off + hl \<le> length (data b) \<Longrightarrow> take hl (drop off (data (join_buf b src))) = take hl (drop off (data b))"
  by simp

lemma same_hdr_append:
  "off + hl \<le> length (data b) \<Longrightarrow> ps \<noteq> [] \<Longrightarrow> same_hdr orig off b hl f ps \<Longrightarrow>
   same_hdr orig off (join_buf b src) hl f (ps @ [n])"
  by (simp add: same_hdr_def)

lemma same_hdr_first:
  "off + hl \<le> length (data (orig ! n)) \<Longrightarrow> same_hdr orig off (join_buf (orig ! n) src) hl f (n # ps)"
  by (simp add: same_hdr_def opkt_def)

end
