(* ===== verification/GROSteps.thy ===== *)
theory GROSteps
  imports GROInv
begin

text \<open>
  The steps of \<open>tcpGRO\<close> and \<open>udpGRO\<close> on the invariant: a merge that succeeds leaves an item whose
  buffer holds the segments in order, an insertion starts an item with one segment, and the
  functions as a whole neither panic nor lose a packet.
\<close>

section \<open>Headers\<close>

lemma same_hdr_nth:
  assumes "same_hdr orig off b hl f ps" and "m < hl" and "m \<noteq> f"
    and "off + hl \<le> length (data b)" and "hl \<le> length (opkt orig off (hd ps))"
  shows "drop off (data b) ! m = opkt orig off (hd ps) ! m"
proof -
  have "(take hl (drop off (data b)))[f := 0] ! m = (take hl (opkt orig off (hd ps)))[f := 0] ! m"
    using assms(1) by (simp add: same_hdr_def)
  with assms(2-5) show ?thesis by simp
qed

lemma same_hdr_opts:
  assumes "same_hdr orig off b hl f ps" and "f < a" and "a + n \<le> hl"
    and "off + hl \<le> length (data b)" and "hl \<le> length (opkt orig off (hd ps))"
  shows "take n (drop a (drop off (data b))) = take n (drop a (opkt orig off (hd ps)))"
proof -
  define xs where "xs = drop off (data b)"
  have "hl \<le> length xs" using assms(4) by (simp add: xs_def)
  moreover have "xs ! m = opkt orig off (hd ps) ! m" if "a \<le> m" "m < a + n" for m
    unfolding xs_def using that assms by (intro same_hdr_nth [OF assms(1)]) auto
  ultimately have "take n (drop a xs) = take n (drop a (opkt orig off (hd ps)))"
    using assms(3,5) by (intro nth_equalityI) auto
  then show ?thesis by (simp add: xs_def)
qed

lemma ip_class_cong:
  assumes "a ! 0 = b ! 0" "a ! 1 = b ! 1" "a ! 6 = b ! 6" "a ! 7 = b ! 7" "a ! 8 = b ! 8"
  shows "ip_class a = ip_class b" and "ip_version a = ip_version b"
  using assms by (simp_all add: ip_class_def ip_version_def)

lemma ipHeaders_class:
  assumes "ipHeadersCanCoalesce a b" and "(ip_version a = 6) = (ip_version b = 6)"
  shows "ip_class a = ip_class b"
  using assms by (auto simp: ipHeadersCanCoalesce_def ip_class_def ip_version_def split: if_splits)

lemma tcp_key_v6: "newTCPFlowKey pkt (src_at v6) (src_at v6 + addr_len v6) i = Some k \<Longrightarrow> isV6 k = v6"
  by (auto simp: newTCPFlowKey_def bind_Some_iff src_at_def addr_len_def split: if_splits)

lemma udp_key_v6: "newUDPFlowKey pkt (src_at v6) (src_at v6 + addr_len v6) i = Some k \<Longrightarrow> isV6 k = v6"
  by (auto simp: newUDPFlowKey_def bind_Some_iff src_at_def addr_len_def split: if_splits)

lemma ip_len_ok_unique: "ip_len_ok v6 a \<Longrightarrow> ip_len_ok v6 b \<Longrightarrow> a = b"
  by (metis ip_len_ok_def word_unat_eq_iff)

lemma cand_iph: "tcp_cand v6 iphl thl k pkt \<Longrightarrow> tcp_hdr_ok v6' iphl' thl' \<Longrightarrow> v6' = v6 \<Longrightarrow> iphl' = iphl"
  by (auto simp: tcp_cand_def tcp_hdr_ok_def intro: ip_len_ok_unique)

section \<open>A TCP packet merged into an item\<close>

lemma segments_count:
  assumes "segments orig off b hl g ps"
  shows "length ps \<le> length (data b) - (off + hl)"
proof -
  have "length ps \<le> length (concat (map (\<lambda>p. drop hl (opkt orig off p)) ps))"
    if "\<forall>p \<in> set ps. hl < length (opkt orig off p)" for ps
    using that by (induction ps) auto
  with assms have "length ps \<le> length (drop (off + hl) (data b))" by (simp add: segments_def)
  then show ?thesis by simp
qed

lemma unat_u16_of_nat: "n < 65536 \<Longrightarrow> unat (of_nat n :: u16) = n"
  by (simp add: unsigned_of_nat take_bit_nat_eq_self)

lemma lhsLen_total:
  assumes "unat (numMerged item) + 1 = n" and "n * unat (gsoSize item) < 65536"
  shows "ucast (lhsLen item) = (of_nat (n * unat (gsoSize item)) :: u32)"
proof -
  have "unat (lhsLen item) = n * unat (gsoSize item)"
  proof -
    have "lhsLen item = of_nat (n * unat (gsoSize item))"
      by (simp add: lhsLen_def assms(1) [symmetric] distrib_right)
    then show ?thesis using unat_u16_of_nat [OF assms(2)] by metis
  qed
  then show ?thesis by (metis of_nat_unat)
qed


text \<open>
  \<open>tcp_parts\<close> is the list of parts after the merge of packet \<open>n\<close>. The hypotheses are what
  \<open>tcpPacketsCanCoalesce\<close> and \<open>coalesceTCPPackets\<close> have checked.
\<close>

definition tcp_parts :: "canCoalesce \<Rightarrow> nat \<Rightarrow> nat list \<Rightarrow> nat list" where
  "tcp_parts mode n ps = (if mode = coalescePrepend then n # ps else ps @ [n])"

lemma mset_tcp_parts: "mset (tcp_parts mode n ps) = add_mset n (mset ps)"
  by (simp add: tcp_parts_def)

lemma numMerged_step:
  assumes "segments orig off b hl g ps" and "length ps = unat m + 2"
  shows "length ps = unat (m + 1 :: u16) + 1" and "m + 1 \<noteq> 0"
proof -
  have "length (data b) \<le> off + 65535" using assms(1) by (simp add: segments_def)
  then have "unat m + 2 \<le> 65535" using segments_count [OF assms(1)] assms(2) by linarith
  then have "unat (m + 1) = unat m + 1" by (simp add: unat_word_ariths)
  then show "length ps = unat (m + 1) + 1" "m + 1 \<noteq> 0" using assms(2) by auto
qed

lemma tcp_merged_item_simps [simp]:
  "key (tcp_merged_item mode gso seq psh item) = key item"
  "bufsIndex (tcp_merged_item mode gso seq psh item) = bufsIndex item"
  "iphLen (tcp_merged_item mode gso seq psh item) = iphLen item"
  "tcphLen (tcp_merged_item mode gso seq psh item) = tcphLen item"
  "numMerged (tcp_merged_item mode gso seq psh item) = numMerged item + 1"
  "gsoSize (tcp_merged_item mode gso seq psh item) = max (gsoSize item) gso"
  "sentSeq (tcp_merged_item mode gso seq psh item)
     = (if mode = coalescePrepend then seq else sentSeq item)"
  "pshSet (tcp_merged_item mode gso seq psh item)
     = (pshSet item \<or> mode \<noteq> coalescePrepend \<and> psh)"
  by (simp_all add: tcp_merged_item_def)

text \<open>An item of several packets, clause by clause.\<close>

lemma tcp_ent_okI:
  assumes "hl = tcp_hl (iphLen item) (tcphLen item)" and "g = unat (gsoSize item)"
    and "iphl = iphLen item" and "thl = tcphLen item" and "k = key item"
    and "gsoSize item \<noteq> 0" and "segments orig off b hl g ps"
    and "length ps = unat (numMerged item) + 1" and "numMerged item \<noteq> 0"
    and "same_hdr orig off b hl (unat iphl + 13) ps"
    and "\<And>p. p \<in> set ps \<Longrightarrow> tcp_cand (isV6 k) iphl thl k (opkt orig off p)"
    and "\<And>p. p \<in> set ps \<Longrightarrow> ip_class (opkt orig off p) = ip_class (opkt orig off (hd ps))
           \<and> tcp_opts iphl thl (opkt orig off p) = tcp_opts iphl thl (opkt orig off (hd ps))"
    and "\<And>m. m < length ps \<Longrightarrow> tcp_seq (unat iphl) (opkt orig off (ps ! m)) = sentSeq item + of_nat (m * g)"
    and "\<And>p. p \<in> set (butlast ps) \<Longrightarrow> \<not> psh_of (unat iphl) (opkt orig off p)"
    and "pshSet item = psh_of (unat iphl) (opkt orig off (last ps))"
  shows "tcp_ent_ok orig off b ps item"
  using assms unfolding tcp_ent_ok_def Let_def by blast

lemma tcp_ent_okD:
  assumes "tcp_ent_ok orig off b ps item"
  shows "gsoSize item \<noteq> 0"
    and "segments orig off b (tcp_hl (iphLen item) (tcphLen item)) (unat (gsoSize item)) ps"
    and "length ps = unat (numMerged item) + 1"
    and "numMerged item = 0 \<Longrightarrow> ps = [unat (bufsIndex item)]
           \<and> data b = data (orig ! unat (bufsIndex item))"
    and "same_hdr orig off b (tcp_hl (iphLen item) (tcphLen item)) (unat (iphLen item) + 13) ps"
    and "p \<in> set ps \<Longrightarrow>
           tcp_cand (isV6 (key item)) (iphLen item) (tcphLen item) (key item) (opkt orig off p)"
    and "p \<in> set ps \<Longrightarrow> ip_class (opkt orig off p) = ip_class (opkt orig off (hd ps))
           \<and> tcp_opts (iphLen item) (tcphLen item) (opkt orig off p)
             = tcp_opts (iphLen item) (tcphLen item) (opkt orig off (hd ps))"
    and "m < length ps \<Longrightarrow> tcp_seq (unat (iphLen item)) (opkt orig off (ps ! m))
           = sentSeq item + of_nat (m * unat (gsoSize item))"
    and "p \<in> set (butlast ps) \<Longrightarrow> \<not> psh_of (unat (iphLen item)) (opkt orig off p)"
    and "pshSet item = psh_of (unat (iphLen item)) (opkt orig off (last ps))"
    and "ps \<noteq> []"
    and "numMerged item = 0 \<Longrightarrow> length (opkt orig off (last ps))
           = tcp_hl (iphLen item) (tcphLen item) + unat (gsoSize item)"
  using assms unfolding tcp_ent_ok_def Let_def by (blast, blast, blast, blast, blast, blast, blast,
      blast, blast, blast, auto)

lemma tcp_append_ok:
  fixes item :: tcpGROItem
  assumes ok: "tcp_ent_ok orig off b ps item"
    and cand: "tcp_cand (isV6 (key item)) (iphLen item) (tcphLen item) (key item) (opkt orig off n)"
    and cls: "ip_class (opkt orig off n) = ip_class (opkt orig off (hd ps))"
      "tcp_opts (iphLen item) (tcphLen item) (opkt orig off n)
        = tcp_opts (iphLen item) (tcphLen item) (opkt orig off (hd ps))"
    and hl: "hl = tcp_hl (iphLen item) (tcphLen item)"
    and sq: "tcp_seq (unat (iphLen item)) (opkt orig off n) = sentSeq item + ucast (lhsLen item)"
    and psh: "\<not> pshSet item"
    and full: "(length (drop off (data b)) - hl) mod unat (gsoSize item) = 0"
    and gso: "gso = of_nat (length (opkt orig off n) - hl)" "gso \<le> gsoSize item"
    and b': "b' = (if psh then set_psh (off + unat (iphLen item) + 13) b else b)"
    and fits: "length (data (join_buf b' (drop (off + hl) (data (orig ! n))))) \<le> off + 65535"
    and p: "psh = psh_of (unat (iphLen item)) (opkt orig off n)"
  shows "tcp_ent_ok orig off (join_buf b' (drop (off + hl) (data (orig ! n)))) (ps @ [n])
    (tcp_merged_item coalesceAppend gso seq psh item)"
proof -
  let ?P = "opkt orig off" and ?g = "unat (gsoSize item)" and ?i = "unat (iphLen item)"
  let ?new = "join_buf b' (drop (off + hl) (data (orig ! n)))"
  note o = tcp_ent_okD [OF ok, folded hl]
  have seg: "segments orig off b hl ?g ps" by (rule o(2))
  have ne: "ps \<noteq> []" "off + hl \<le> length (data b)" using seg by (auto simp: segments_def)
  have n: "hl < length (?P n)" "length (?P n) \<le> 65535" using cand by (auto simp: tcp_cand_def hl)
  have at: "?i + 13 < hl"
    using cand by (auto simp: tcp_cand_def tcp_hdr_ok_def tcp_hl_def hl)
  have "unat gso = length (?P n) - hl"
    unfolding gso(1) using n by (intro unat_u16_of_nat) linarith
  then have len: "length (?P n) \<le> hl + ?g" using gso(2) by (simp add: word_le_nat_alt)
  have last: "length (?P (last ps)) = hl + ?g" by (rule segments_full [OF seg full])
  have seg_b': "segments orig off b' hl ?g ps"
    using seg at by (simp add: b' segments_set_psh)
  have seg': "segments orig off ?new hl ?g (ps @ [n])"
    by (rule segments_append [OF seg_b' last n(1) len fits])
  have count: "length (ps @ [n]) = unat (numMerged item + 1) + 1" "numMerged item + 1 \<noteq> 0"
    using numMerged_step [OF seg', of "numMerged item"] o(3) by simp_all
  have total: "length ps * ?g < 65536"
  proof -
    have "length ps * ?g = (length ps - 1) * ?g + (length (?P (last ps)) - hl)"
      using last ne(1) by (cases ps) simp_all
    also have "\<dots> = length (data b) - (off + hl)" by (rule segments_length [OF seg, symmetric])
    finally have eq: "length ps * ?g = length (data b) - (off + hl)" .
    have "length (data b) \<le> off + 65535" using seg by (simp add: segments_def)
    then show ?thesis unfolding eq by linarith
  qed
  have sq': "tcp_seq ?i (?P n) = sentSeq item + of_nat (length ps * ?g)"
  proof -
    have "ucast (lhsLen item) = (of_nat (length ps * ?g) :: u32)"
      by (rule lhsLen_total) (use o(3) total in simp_all)
    then show ?thesis by (simp only: sq)
  qed
  have hdr: "same_hdr orig off ?new hl (?i + 13) (ps @ [n])"
  proof (rule same_hdr_append)
    show "same_hdr orig off b' hl (?i + 13) ps"
      using o(5) same_hdr_set_psh [OF ne(2), where f = "?i + 13"] by (simp add: b' add.assoc)
  qed (use ne in \<open>simp_all add: b'\<close>)
  have seqs: "tcp_seq ?i (?P ((ps @ [n]) ! m)) = sentSeq item + of_nat (m * ?g)"
    if "m < length (ps @ [n])" for m
    using that o(8) sq' by (cases "m < length ps") (simp_all add: nth_append less_Suc_eq)
  have pshs: "\<not> psh_of ?i (?P q)" if "q \<in> set ps" for q
    using o(9,10) psh in_set_butlast_or_last [OF that] by auto
  have g: "max (gsoSize item) gso = gsoSize item" using gso(2) by (simp add: max_absorb1)
  show ?thesis
  proof (rule tcp_ent_okI [where hl = hl and g = ?g and iphl = "iphLen item"
        and thl = "tcphLen item" and k = "key item"])
    show "gsoSize (tcp_merged_item coalesceAppend gso seq psh item) \<noteq> 0" using o(1) g by simp
    show "tcp_cand (isV6 (key item)) (iphLen item) (tcphLen item) (key item) (?P q)"
      if "q \<in> set (ps @ [n])" for q
      using that o(6) cand by auto
    show "ip_class (?P q) = ip_class (?P (hd (ps @ [n])))
      \<and> tcp_opts (iphLen item) (tcphLen item) (?P q) = tcp_opts (iphLen item) (tcphLen item) (?P (hd (ps @ [n])))"
      if "q \<in> set (ps @ [n])" for q
      using that o(7) [of q] cls ne(1) by (cases "q = n") simp_all
    show "segments orig off ?new hl ?g (ps @ [n])" "same_hdr orig off ?new hl (?i + 13) (ps @ [n])"
      by (fact seg' hdr)+
    show "tcp_seq ?i (?P ((ps @ [n]) ! m))
        = sentSeq (tcp_merged_item coalesceAppend gso seq psh item) + of_nat (m * ?g)"
      if "m < length (ps @ [n])" for m
      using seqs [OF that] by simp
    show "\<not> psh_of ?i (?P q)" if "q \<in> set (butlast (ps @ [n]))" for q
      using that pshs by simp
    show "pshSet (tcp_merged_item coalesceAppend gso seq psh item) = psh_of ?i (?P (last (ps @ [n])))"
      using psh p by simp
    show "length (ps @ [n]) = unat (numMerged (tcp_merged_item coalesceAppend gso seq psh item)) + 1"
      "numMerged (tcp_merged_item coalesceAppend gso seq psh item) \<noteq> 0"
      using count by (simp_all only: tcp_merged_item_simps not_False_eq_True)
  qed (simp_all only: tcp_merged_item_simps g hl)
qed

lemma tcp_prepend_ok:
  fixes item :: tcpGROItem
  assumes ok: "tcp_ent_ok orig off b ps item"
    and cand: "tcp_cand (isV6 (key item)) (iphLen item) (tcphLen item) (key item) (opkt orig off n)"
    and cls: "ip_class (opkt orig off n) = ip_class (opkt orig off (hd ps))"
      "tcp_opts (iphLen item) (tcphLen item) (opkt orig off n)
        = tcp_opts (iphLen item) (tcphLen item) (opkt orig off (hd ps))"
    and hl: "hl = tcp_hl (iphLen item) (tcphLen item)"
    and sq: "seq = tcp_seq (unat (iphLen item)) (opkt orig off n)" "seq + ucast gso = sentSeq item"
    and p: "\<not> psh" "psh = psh_of (unat (iphLen item)) (opkt orig off n)"
    and gso: "gso = of_nat (length (opkt orig off n) - hl)" "gsoSize item \<le> gso"
      "gso \<noteq> gsoSize item \<longrightarrow> numMerged item = 0"
    and fits: "length (data (join_buf (orig ! n) (drop (off + hl) (data b)))) \<le> off + 65535"
  shows "tcp_ent_ok orig off (join_buf (orig ! n) (drop (off + hl) (data b))) (n # ps)
    (tcp_merged_item coalescePrepend gso seq psh item)"
proof -
  let ?P = "opkt orig off" and ?i = "unat (iphLen item)"
  let ?new = "join_buf (orig ! n) (drop (off + hl) (data b))"
  note o = tcp_ent_okD [OF ok, folded hl]
  have n: "hl < length (?P n)" "length (?P n) \<le> 65535" using cand by (auto simp: tcp_cand_def hl)
  have long: "off + hl < length (data (orig ! n))" using n(1) by (simp add: opkt_def)
  have ugso: "unat gso = length (?P n) - hl"
    unfolding gso(1) using n by (intro unat_u16_of_nat) linarith
  have single: "length ps = 1" if "gso \<noteq> gsoSize item" using gso(3) that o(3) by simp
  have same: "unat gso = unat (gsoSize item) \<or> length ps = 1 \<and> unat (gsoSize item) \<le> unat gso"
    using single gso(2) by (cases "gso = gsoSize item") (simp_all add: word_le_nat_alt)
  have seg': "segments orig off ?new hl (unat gso) (n # ps)"
    by (rule segments_prepend [OF o(2) _ long same fits]) (use ugso n in simp)
  have count: "length (n # ps) = unat (numMerged item + 1) + 1" "numMerged item + 1 \<noteq> 0"
    using numMerged_step [OF seg', of "numMerged item"] o(3) by simp_all
  have seqs: "tcp_seq ?i (?P ((n # ps) ! m)) = seq + of_nat (m * unat gso)" if "m < length (n # ps)" for m
  proof (cases m)
    case 0
    then show ?thesis by (simp add: sq)
  next
    case (Suc l)
    then have l: "l < length ps" using that by simp
    have step: "of_nat (l * unat (gsoSize item)) = (of_nat (l * unat gso) :: u32)"
      using single l by (cases "gso = gsoSize item") simp_all
    have "tcp_seq ?i (?P (ps ! l)) = (seq + ucast gso) + of_nat (l * unat gso)"
      unfolding sq(2) step [symmetric] by (rule o(8) [OF l])
    also have "\<dots> = seq + of_nat (m * unat gso)"
      by (simp add: Suc distrib_right)
    finally show ?thesis by (simp add: Suc)
  qed
  have pshs: "\<not> psh_of ?i (?P q)" if "q \<in> set (butlast (n # ps))" for q
    using that o(9) o(11) p by auto
  have g: "max (gsoSize item) gso = gso" using gso(2) by (simp add: max_absorb2)
  show ?thesis
  proof (rule tcp_ent_okI [where hl = hl and g = "unat gso" and iphl = "iphLen item"
        and thl = "tcphLen item" and k = "key item"])
    have "unat gso \<noteq> 0" using ugso n(1) by simp
    then show "gsoSize (tcp_merged_item coalescePrepend gso seq psh item) \<noteq> 0"
      unfolding tcp_merged_item_simps g by auto
    show "tcp_cand (isV6 (key item)) (iphLen item) (tcphLen item) (key item) (?P q)"
      if "q \<in> set (n # ps)" for q
      using that o(6) cand by auto
    show "ip_class (?P q) = ip_class (?P (hd (n # ps)))
      \<and> tcp_opts (iphLen item) (tcphLen item) (?P q) = tcp_opts (iphLen item) (tcphLen item) (?P (hd (n # ps)))"
      if "q \<in> set (n # ps)" for q
      using that o(7) [of q] cls by (cases "q = n") simp_all
    show "segments orig off ?new hl (unat gso) (n # ps)" by (fact seg')
    show "same_hdr orig off ?new hl (?i + 13) (n # ps)"
      using long by (intro same_hdr_first) simp
    show "tcp_seq ?i (?P ((n # ps) ! m))
        = sentSeq (tcp_merged_item coalescePrepend gso seq psh item) + of_nat (m * unat gso)"
      if "m < length (n # ps)" for m
      using seqs [OF that] by simp
    show "\<not> psh_of ?i (?P q)" if "q \<in> set (butlast (n # ps))" for q
      using that by (rule pshs)
    show "pshSet (tcp_merged_item coalescePrepend gso seq psh item) = psh_of ?i (?P (last (n # ps)))"
      using o(10,11) by simp
    show "length (n # ps) = unat (numMerged (tcp_merged_item coalescePrepend gso seq psh item)) + 1"
      "numMerged (tcp_merged_item coalescePrepend gso seq psh item) \<noteq> 0"
      using count by (simp_all only: tcp_merged_item_simps not_False_eq_True)
  qed (simp_all only: tcp_merged_item_simps g hl)
qed

section \<open>One item against one packet\<close>

text \<open>
  The item of the flow and the packet have IP headers of the same length, since both agree with
  the flow key on the version.
\<close>

lemma tcp_same_iph:
  assumes "tcp_ent_ok orig off b ps item" and "tcp_cand v6 iphl thl (key item) pkt"
  shows "iphLen item = iphl" and "isV6 (key item) = v6"
proof -
  have v6: "isV6 (key item) = v6" using assms(2) by (auto simp: tcp_cand_def dest: tcp_key_v6)
  have "hd ps \<in> set ps" using tcp_ent_okD(11) [OF assms(1)] by simp
  from tcp_ent_okD(6) [OF assms(1) this] v6 assms(2) show "iphLen item = iphl" "isV6 (key item) = v6"
    by (auto simp: tcp_cand_def tcp_hdr_ok_def intro: ip_len_ok_unique)
qed

lemma tcp_can_merge:
  fixes item :: tcpGROItem
  assumes ok: "tcp_ent_ok orig off b ps item" and b: "b = bs ! unat (bufsIndex item)"
    and i: "unat (bufsIndex item) < length bs"
    and cand: "tcp_cand v6 iphl thl (key item) (opkt orig off n)"
  obtains v where
    "tcpPacketsCanCoalesce (opkt orig off n) iphl thl seq psh gso item bs off = Some v"
    "v \<noteq> coalesceUnavailable \<Longrightarrow> tcphLen item = thl
       \<and> ip_class (opkt orig off n) = ip_class (opkt orig off (hd ps))
       \<and> tcp_opts iphl thl (opkt orig off n) = tcp_opts iphl thl (opkt orig off (hd ps))"
    "v = coalesceAppend \<Longrightarrow> seq = sentSeq item + ucast (lhsLen item) \<and> \<not> pshSet item
       \<and> (length (drop off (data b)) - tcp_hl iphl thl) mod unat (gsoSize item) = 0 \<and> gso \<le> gsoSize item"
    "v = coalescePrepend \<Longrightarrow> seq + ucast gso = sentSeq item \<and> \<not> psh \<and> gsoSize item \<le> gso
       \<and> (gso \<noteq> gsoSize item \<longrightarrow> numMerged item = 0)"
proof -
  note o = tcp_ent_okD [OF ok]
  let ?tgt = "drop off (data (bs ! unat (bufsIndex item)))" and ?hd = "opkt orig off (hd ps)"
  let ?hl = "tcp_hl (iphLen item) (tcphLen item)"
  have iph: "iphLen item = iphl" "isV6 (key item) = v6" by (rule tcp_same_iph [OF ok cand])+
  have long: "off + ?hl \<le> length (data (bs ! unat (bufsIndex item)))"
    using o(2) by (simp add: segments_def b)
  have hdr: "tcp_hdr_ok v6 iphl thl" "tcp_hl iphl thl \<le> length (opkt orig off n)"
    using cand by (auto simp: tcp_cand_def)
  have hcand: "tcp_cand v6 iphl (tcphLen item) (key item) ?hd"
    using o(6) [of "hd ps"] o(11) iph by simp
  obtain v where v: "tcpPacketsCanCoalesce (opkt orig off n) iphl thl seq psh gso item bs off = Some v"
    "v \<noteq> coalesceUnavailable \<Longrightarrow> tcphLen item = thl \<and> ipHeadersCanCoalesce (opkt orig off n) ?tgt
       \<and> take (unat thl - 20) (drop (unat iphl + 20) (opkt orig off n))
         = take (unat thl - 20) (drop (unat iphl + 20) ?tgt)"
    "v = coalesceAppend \<Longrightarrow> seq = sentSeq item + ucast (lhsLen item) \<and> \<not> pshSet item
       \<and> (length ?tgt - tcp_hl iphl thl) mod unat (gsoSize item) = 0 \<and> gso \<le> gsoSize item"
    "v = coalescePrepend \<Longrightarrow> seq + ucast gso = sentSeq item \<and> \<not> psh \<and> gsoSize item \<le> gso
       \<and> (gso \<noteq> gsoSize item \<longrightarrow> numMerged item = 0)"
    using tcpPacketsCanCoalesce_spec [OF i refl long hdr(1) iph(1) hdr(2) o(1)] by blast
  have big: "20 \<le> unat iphl" "20 \<le> unat (tcphLen item)" "?hl = unat iphl + unat (tcphLen item)"
    using hcand by (auto simp: tcp_cand_def tcp_hdr_ok_def ip_len_ok_def iph tcp_hl_def split: if_splits)
  have hdl: "?hl \<le> length ?hd" using hcand by (simp add: tcp_cand_def iph)
  have same: "?tgt ! m = ?hd ! m" if "m < 20" for m
    using big that by (intro same_hdr_nth [OF o(5) [unfolded b] _ _ long hdl]) (simp_all add: iph)
  have cls: "ip_class ?tgt = ip_class ?hd" "ip_version ?tgt = ip_version ?hd"
    by (rule ip_class_cong; simp add: same)+
  have opts: "take (unat thl - 20) (drop (unat iphl + 20) ?tgt) = tcp_opts iphl thl ?hd"
    if "tcphLen item = thl"
    unfolding tcp_opts_def using big that
    by (intro same_hdr_opts [OF o(5) [unfolded b] _ _ long hdl]) (simp_all add: iph)
  show thesis
  proof (rule that [OF v(1)])
    assume a: "v \<noteq> coalesceUnavailable"
    then have thl: "tcphLen item = thl" using v(2) by blast
    have "(ip_version (opkt orig off n) = 6) = (ip_version ?tgt = 6)"
      using cand hcand cls(2) by (simp add: tcp_cand_def)
    then have "ip_class (opkt orig off n) = ip_class ?hd"
      using v(2) [OF a] cls(1) ipHeaders_class by metis
    moreover have "tcp_opts iphl thl (opkt orig off n) = tcp_opts iphl thl ?hd"
      using v(2) [OF a] opts [OF thl] by (simp add: tcp_opts_def)
    ultimately show "tcphLen item = thl \<and> ip_class (opkt orig off n) = ip_class ?hd
       \<and> tcp_opts iphl thl (opkt orig off n) = tcp_opts iphl thl ?hd"
      using thl by blast
  qed (use v(3,4) b in simp_all)
qed

text \<open>
  The whole of what the loop of \<open>tcpGRO\<close> does with one item it may coalesce with: a merge gives
  the next state of the invariant, anything else changes nothing.
\<close>

lemma tcp_merge_core:
  fixes item :: tcpGROItem
  assumes c: "core orig off n bs tw parts E" and x: "TcpE item \<in># E"
    and n: "n < length orig" "off < length (data (orig ! n))"
    and cand: "tcp_cand v6 iphl thl (key item) (opkt orig off n)"
    and sq: "seq = tcp_seq (unat iphl) (opkt orig off n)"
    and p: "psh = psh_of (unat iphl) (opkt orig off n)"
    and gso: "gso = of_nat (length (opkt orig off n) - tcp_hl iphl thl)"
    and can: "tcpPacketsCanCoalesce (opkt orig off n) iphl thl seq psh gso item bs off = Some mode"
      "mode \<noteq> coalesceUnavailable"
  obtains r item' bs' where
    "coalesceTCPPackets e mode (opkt orig off n) n gso seq psh item bs off v6 = Some (r, item', bs')"
    "r \<noteq> coalesceSuccess \<Longrightarrow> item' = item \<and> bs' = bs"
    "r = coalesceItemInvalidCSum \<Longrightarrow> numMerged item = 0"
    "r = coalesceSuccess \<Longrightarrow> key item' = key item \<and> (\<exists>parts'.
       core orig off (Suc n) bs' tw parts' (add_mset (TcpE item') (E - {#TcpE item#})))"
proof -
  define i where "i = unat (bufsIndex item)"
  have idx: "i < n" "i < length bs" "tcp_ent_ok orig off (bs ! i) (parts i) item"
    using core_idx [OF c x] by (simp_all add: i_def)
  note o = tcp_ent_okD [OF idx(3)]
  have iph: "iphLen item = iphl" "isV6 (key item) = v6" by (rule tcp_same_iph [OF idx(3) cand])+
  have at: "bs ! i = bs ! unat (bufsIndex item)" "unat (bufsIndex item) < length bs"
    using idx(2) by (simp_all add: i_def)
  have bn: "bs ! n = orig ! n" and len: "length bs = length orig" using c n by (auto simp: core_def)
  obtain v where v: "tcpPacketsCanCoalesce (opkt orig off n) iphl thl seq psh gso item bs off = Some v"
    "v \<noteq> coalesceUnavailable \<Longrightarrow> tcphLen item = thl
       \<and> ip_class (opkt orig off n) = ip_class (opkt orig off (hd (parts i)))
       \<and> tcp_opts iphl thl (opkt orig off n) = tcp_opts iphl thl (opkt orig off (hd (parts i)))"
    "v = coalesceAppend \<Longrightarrow> seq = sentSeq item + ucast (lhsLen item) \<and> \<not> pshSet item
       \<and> (length (drop off (data (bs ! i))) - tcp_hl iphl thl) mod unat (gsoSize item) = 0 \<and> gso \<le> gsoSize item"
    "v = coalescePrepend \<Longrightarrow> seq + ucast gso = sentSeq item \<and> \<not> psh \<and> gsoSize item \<le> gso
       \<and> (gso \<noteq> gsoSize item \<longrightarrow> numMerged item = 0)"
    using tcp_can_merge [OF idx(3) at cand] by blast
  have vm: "v = mode" using v(1) can(1) by simp
  have thl: "tcphLen item = thl" using v(2) vm can(2) by blast
  define hl where "hl = tcp_hl (iphLen item) (tcphLen item)"
  have "hl < length (opkt orig off n)" using cand by (simp add: tcp_cand_def hl_def iph thl)
  then have hlen: "off + hl \<le> length (data (bs ! i))" "off + hl \<le> length (data (bs ! n))"
    using o(2) by (simp_all add: hl_def [symmetric] segments_def opkt_def bn)
  have hdr: "tcp_hdr_ok v6 (iphLen item) (tcphLen item)"
    using cand by (simp add: tcp_cand_def iph thl)
  have nl: "n < length bs" and ne: "i \<noteq> n" using n len idx(1) by simp_all
  have pkt: "opkt orig off n = drop off (data (bs ! n))" by (simp add: opkt_def bn)
  obtain r item' bs' where run:
    "coalesceTCPPackets e mode (opkt orig off n) n gso seq psh item bs off v6 = Some (r, item', bs')"
    "r \<noteq> coalesceSuccess \<Longrightarrow> item' = item \<and> bs' = bs"
    "r = coalesceItemInvalidCSum \<Longrightarrow> numMerged item = 0"
    "r = coalesceSuccess \<Longrightarrow> item' = tcp_merged_item mode gso seq psh item
       \<and> bs' = tcp_merged mode n hl psh item off bs
       \<and> length (data (bs' ! i)) + off \<le> capacity (bs' ! i)
       \<and> checksumValid e (opkt orig off n) (iphLen item) IPPROTO_TCP v6 = Some True"
    using coalesceTCPPackets_spec [OF i_def idx(2) nl ne hdr hl_def hlen pkt] by blast
  have caps: "capacity (bs ! i) \<le> 2 * off + 65535" "capacity (bs ! n) \<le> 2 * off + 65535"
    using c idx n by (auto simp: core_def)
  show thesis
  proof (rule that [OF run(1-3)])
    assume "r = coalesceSuccess"
    note m = run(4) [OF this]
    have fit: "length (data (bs' ! i)) + off \<le> capacity (bs' ! i)"
      and item': "item' = tcp_merged_item mode gso seq psh item" using m by blast+
    have cls: "ip_class (opkt orig off n) = ip_class (opkt orig off (hd (parts i)))"
      "tcp_opts (iphLen item) (tcphLen item) (opkt orig off n)
        = tcp_opts (iphLen item) (tcphLen item) (opkt orig off (hd (parts i)))"
      using v(2) vm can(2) iph thl by blast+
    have cand': "tcp_cand (isV6 (key item)) (iphLen item) (tcphLen item) (key item) (opkt orig off n)"
      using cand by (simp add: iph thl)
    have "\<exists>ps. tcp_ent_ok orig off (bs' ! i) ps item' \<and> mset ps = add_mset n (mset (parts i))
       \<and> length bs' = length bs \<and> (\<forall>k < length bs. k \<noteq> i \<longrightarrow> k \<noteq> n \<longrightarrow> bs' ! k = bs ! k)
       \<and> capacity (bs' ! i) \<le> 2 * off + 65535 \<and> capacity (bs' ! n) \<le> 2 * off + 65535"
    proof (cases "mode = coalescePrepend")
      case True
      have bs': "bs' = bs[i := join_buf (orig ! n) (drop (off + hl) (data (bs ! i))), n := bs ! i]"
        using m True by (simp add: tcp_merged_def i_def [symmetric] bn Let_def)
      have new: "bs' ! i = join_buf (orig ! n) (drop (off + hl) (data (bs ! i)))"
        using bs' idx(2) ne by simp
      then have "length (data (bs' ! i)) \<le> off + 65535"
        using fit caps(2) bn by (simp only: capacity_join_buf)
      then have "tcp_ent_ok orig off (bs' ! i) (n # parts i) item'"
        unfolding item' True new
        by (intro tcp_prepend_ok [OF idx(3) cand' cls hl_def])
          (use v(4) vm True gso sq p in \<open>simp_all add: iph thl hl_def\<close>)
      then show ?thesis
        using caps bs' idx(2) nl ne bn by (intro exI [of _ "n # parts i"]) simp
    next
      case False
      then have mode: "mode = coalesceAppend" using can(2) by (cases mode) simp_all
      define b' where
        "b' = (if psh then set_psh (off + unat (iphLen item) + 13) (bs ! i) else bs ! i)"
      have bs': "bs' = bs[i := join_buf b' (drop (off + hl) (data (orig ! n)))]"
        using m False by (simp add: tcp_merged_def i_def [symmetric] bn Let_def b'_def)
      have capb: "capacity b' = capacity (bs ! i)" by (simp add: b'_def)
      have new: "bs' ! i = join_buf b' (drop (off + hl) (data (orig ! n)))"
        using bs' idx(2) by simp
      then have "length (data (bs' ! i)) \<le> off + 65535"
        using fit caps(1) capb by (simp only: capacity_join_buf)
      then have "tcp_ent_ok orig off (bs' ! i) (parts i @ [n]) item'"
        unfolding item' mode new
        by (intro tcp_append_ok [OF idx(3) cand' cls hl_def _ _ _ _ _ b'_def])
          (use v(3) vm mode gso sq p in \<open>simp_all add: iph thl hl_def\<close>)
      then show ?thesis
        using caps bs' idx(2) nl ne capb by (intro exI [of _ "parts i @ [n]"]) simp
    qed
    then obtain ps where ps: "tcp_ent_ok orig off (bs' ! i) ps item'" "mset ps = add_mset n (mset (parts i))"
      "length bs' = length bs" "\<And>k. k < length bs \<Longrightarrow> k \<noteq> i \<Longrightarrow> k \<noteq> n \<Longrightarrow> bs' ! k = bs ! k"
      "capacity (bs' ! i) \<le> 2 * off + 65535" "capacity (bs' ! n) \<le> 2 * off + 65535"
      by blast
    have ei: "ent_idx (TcpE item) = i" "ent_idx (TcpE item') = i" "key item' = key item"
      using item' by (simp_all add: i_def)
    have "core orig off (Suc n) bs' tw (parts(i := ps)) (add_mset (TcpE item') (E - {#TcpE item#}))"
      using core_merge [OF c x n, unfolded ei, where x' = "TcpE item'", unfolded ei ent_ok.simps,
          OF ps(3,4,5,6) refl ps(1,2)] .
    then show "key item' = key item \<and> (\<exists>parts'.
        core orig off (Suc n) bs' tw parts' (add_mset (TcpE item') (E - {#TcpE item#})))"
      using ei(3) by blast
  qed
qed

section \<open>The loop of tcpGRO\<close>

text \<open>The entries of a TCP table beside other entries \<open>F\<close>, and how they follow the table.\<close>

abbreviation tcp_entries :: "tcpGROTable \<Rightarrow> entry multiset" where
  "tcp_entries t \<equiv> image_mset TcpE (tracked t)"

abbreviation udp_entries :: "udpGROTable \<Rightarrow> entry multiset" where
  "udp_entries t \<equiv> image_mset UdpE (tracked t)"

lemma entries_remove:
  "x \<in># M \<Longrightarrow> image_mset f (M - {#x#}) + F = image_mset f M + F - {#f x#}"
  by (simp add: image_mset_Diff)

definition advance :: "nat \<Rightarrow> groResult option \<Rightarrow> nat" where
  "advance n r = (if r = Some groResultCoalesced then Suc n else n)"

lemma tcp_delete_core:
  assumes c: "core orig off n bs tw parts (tcp_entries t + F)" and t: "tcp.good t"
    and l: "items_of t (key item) = Some xs" "i < length xs" "xs ! i = item"
    and m: "numMerged item = 0" and off: "10 \<le> off"
  obtains t' bs' where "deleteAt (key item) i t = Some t'"
    "clear_hdr bs off (unat (bufsIndex item)) = Some bs'"
    "core orig off n bs' tw parts (tcp_entries t' + F)"
    "tcp.good t'" "tcp.capacity t' = tcp.capacity t" "dom (items_of t') = dom (items_of t)"
    "items_of t' (key item) = Some (take i xs @ drop (i + 1) xs)"
proof -
  have it: "item \<in># tracked t" using tcp.in_bag [OF t l(1)] l(2,3) by auto
  then have x: "TcpE item \<in># tcp_entries t + F" by simp
  note idx = core_idx [OF c x]
  have ok: "tcp_ent_ok orig off (bs ! unat (bufsIndex item)) (parts (unat (bufsIndex item))) item"
    using idx(4) by simp
  have fit: "off \<le> length (data (bs ! unat (bufsIndex item)))"
    using tcp_ent_okD(2) [OF ok] by (simp add: segments_def)
  obtain t' where t': "deleteAt (key item) i t = Some t'" "tcp.good t'" "tcp.capacity t' = tcp.capacity t"
    "dom (items_of t') = dom (items_of t)"
    "items_of t' = (items_of t)(key item \<mapsto> take i xs @ drop (i + 1) xs)"
    "tracked t' = tracked t - {#xs ! i#}"
    using tcp.del_total [OF t l(1,2)] by blast
  have single: "parts (ent_idx (TcpE item)) = [ent_idx (TcpE item)]"
    "data (bs ! ent_idx (TcpE item)) = data (orig ! ent_idx (TcpE item))"
    using tcp_ent_okD(4) [OF ok m] by simp_all
  have "core orig off n (bs[ent_idx (TcpE item) := cleared off (bs ! ent_idx (TcpE item))]) tw parts
      (tcp_entries t' + F)"
    unfolding t'(6) l(3) entries_remove [OF it] by (rule core_delete [OF c x off single])
  moreover have "clear_hdr bs off (unat (bufsIndex item))
      = Some (bs[ent_idx (TcpE item) := cleared off (bs ! ent_idx (TcpE item))])"
    using clear_hdr_in [OF off _ fit] idx(3) by simp
  ultimately show thesis using that t' by simp
qed

lemma tcp_loop_core:
  fixes t :: tcpGROTable
  assumes "core orig off n bs tw parts (tcp_entries t + F)" and "tcp.good t"
    and "items_of t k = Some xs" and "i \<le> length xs" and "i \<le> length items"
    and "take i xs = take i items"
    and n: "n < length orig" "off < length (data (orig ! n))" "10 \<le> off"
    and cand: "tcp_cand v6 iphl thl k (opkt orig off n)"
    and sq: "seq = tcp_seq (unat iphl) (opkt orig off n)"
    and p: "psh = psh_of (unat iphl) (opkt orig off n)"
    and gso: "gso = of_nat (length (opkt orig off n) - tcp_hl iphl thl)"
  shows "\<exists>r bs' t' parts'.
    tcpGRO_loop e (opkt orig off n) n iphl thl seq psh gso off v6 items i bs t = Some (r, bs', t')
    \<and> core orig off (advance n r) bs' tw parts' (tcp_entries t' + F)
    \<and> r \<noteq> Some groResultTableInsert \<and> tcp.good t' \<and> tcp.capacity t' = tcp.capacity t
    \<and> dom (items_of t') = dom (items_of t)"
  using assms(1-6)
proof (induction i arbitrary: bs t parts xs)
  case 0
  then show ?case by (auto simp: advance_def)
next
  case (Suc i)
  define item where "item = items ! i"
  have lx: "i < length xs" "i < length items" using Suc.prems by simp_all
  have xi: "xs ! i = item"
    using Suc.prems(6) lx unfolding item_def by (metis lessI nth_take)
  have ti: "take i xs = take i items"
    using Suc.prems(6) by (metis min.absorb1 le_SucI order_refl take_take)
  have it: "item \<in># tracked t" "key item = k"
    using tcp.in_bag [OF Suc.prems(2,3)] tcp.good_key [OF Suc.prems(2,3)] lx(1) xi by auto
  note l = Suc.prems(3) [folded it(2)]
  have x: "TcpE item \<in># tcp_entries t + F" using it(1) by simp
  note c = Suc.prems(1)
  note idx = core_idx [OF c x]
  note cand' = cand [folded it(2)]
  obtain v where v: "tcpPacketsCanCoalesce (opkt orig off n) iphl thl seq psh gso item bs off = Some v"
    using tcp_can_merge [OF _ refl _ cand'] idx(3,4) by (metis ent_idx.simps(1) ent_ok.simps(1))
  have step: "tcpGRO_loop e (opkt orig off n) n iphl thl seq psh gso off v6 items (Suc i) bs t
    = (if v = coalesceUnavailable
       then tcpGRO_loop e (opkt orig off n) n iphl thl seq psh gso off v6 items i bs t
       else do {
         (result, item', bs') \<leftarrow> coalesceTCPPackets e v (opkt orig off n) n gso seq psh item bs off v6;
         case result of
           coalesceSuccess \<Rightarrow> do {
             t \<leftarrow> updateAt item' i t;
             Some (Some groResultCoalesced, bs', t)
           }
         | coalesceItemInvalidCSum \<Rightarrow> do {
             t \<leftarrow> deleteAt (key item') i t;
             bs' \<leftarrow> clear_hdr bs' off (unat (bufsIndex item'));
             tcpGRO_loop e (opkt orig off n) n iphl thl seq psh gso off v6 items i bs' t
           }
         | coalescePktInvalidCSum \<Rightarrow> Some (Some groResultNoop, bs', t)
         | _ \<Rightarrow> tcpGRO_loop e (opkt orig off n) n iphl thl seq psh gso off v6 items i bs' t
       })"
    by (simp add: idx_in [OF lx(2)] item_def [symmetric] v)
  have rest: "\<exists>r bs' t' parts'.
      tcpGRO_loop e (opkt orig off n) n iphl thl seq psh gso off v6 items i bs t = Some (r, bs', t')
      \<and> core orig off (advance n r) bs' tw parts' (tcp_entries t' + F)
      \<and> r \<noteq> Some groResultTableInsert \<and> tcp.good t' \<and> tcp.capacity t' = tcp.capacity t
      \<and> dom (items_of t') = dom (items_of t)"
    using Suc.IH [OF Suc.prems(1-3) _ _ ti] lx by simp
  show ?case
  proof (cases "v = coalesceUnavailable")
    case True
    show ?thesis unfolding step if_P [OF True] by (rule rest)
  next
    case False
    obtain r item' bs' where run:
      "coalesceTCPPackets e v (opkt orig off n) n gso seq psh item bs off v6 = Some (r, item', bs')"
      "r \<noteq> coalesceSuccess \<Longrightarrow> item' = item \<and> bs' = bs"
      "r = coalesceItemInvalidCSum \<Longrightarrow> numMerged item = 0"
      "r = coalesceSuccess \<Longrightarrow> key item' = key item \<and> (\<exists>parts'.
         core orig off (Suc n) bs' tw parts' (add_mset (TcpE item') (tcp_entries t + F - {#TcpE item#})))"
      using tcp_merge_core [OF c x n(1,2) cand' sq p gso v False] by blast
    note step' = step [unfolded if_not_P [OF False] run(1) bind.bind_lunit prod.case]
    show ?thesis
    proof (cases r)
      case coalesceSuccess
      obtain parts' where k': "key item' = key item" and
        c': "core orig off (Suc n) bs' tw parts' (add_mset (TcpE item') (tcp_entries t + F - {#TcpE item#}))"
        using run(4) [OF coalesceSuccess] by blast
      obtain t' where t': "updateAt item' i t = Some t'" "tcp.good t'" "tcp.capacity t' = tcp.capacity t"
        "dom (items_of t') = dom (items_of t)" "tracked t' = add_mset item' (tracked t - {#xs ! i#})"
        using tcp.upd_total [OF Suc.prems(2), of item' xs i] l k' lx(1) by auto
      have "tcp_entries t' + F = add_mset (TcpE item') (tcp_entries t + F - {#TcpE item#})"
        unfolding t'(5) xi by (simp add: entries_remove [OF it(1), symmetric])
      then show ?thesis
        using c' t' unfolding step' coalesceSuccess by (auto simp: advance_def)
    next
      case coalesceItemInvalidCSum
      then have m: "numMerged item = 0" and same: "item' = item" "bs' = bs" using run by simp_all
      obtain t' bs'' where d: "deleteAt (key item) i t = Some t'"
        "clear_hdr bs off (unat (bufsIndex item)) = Some bs''"
        "core orig off n bs'' tw parts (tcp_entries t' + F)"
        "tcp.good t'" "tcp.capacity t' = tcp.capacity t" "dom (items_of t') = dom (items_of t)"
        "items_of t' (key item) = Some (take i xs @ drop (i + 1) xs)"
        using tcp_delete_core [OF c Suc.prems(2) l lx(1) xi m n(3)] by blast
      have "take i (take i xs @ drop (i + 1) xs) = take i items" using ti lx by simp
      from Suc.IH [OF d(3,4) d(7) [unfolded it(2)] _ _ this] lx d(5,6)
      show ?thesis unfolding step' coalesceItemInvalidCSum same by (simp add: d(1,2))
    next
      case coalescePktInvalidCSum
      then have "bs' = bs" using run(2) by simp
      then show ?thesis
        using c Suc.prems(2) unfolding step' coalescePktInvalidCSum by (auto simp: advance_def)
    next
      case coalesceInsufficientCap
      then have "bs' = bs" using run(2) by simp
      then show ?thesis using rest unfolding step' coalesceInsufficientCap by simp
    next
      case coalescePSHEnding
      then have "bs' = bs" using run(2) by simp
      then show ?thesis using rest unfolding step' coalescePSHEnding by simp
    qed
  qed
qed

end
