(* ===== verification/GROPacket.thy ===== *)
theory GROPacket
  imports GROSteps
begin

text \<open>
  \<open>tcpGRO\<close> and \<open>udpGRO\<close> as a whole on the invariant: whatever the packet, they do not panic, and
  they leave the packet to be written as it is, make an item of it, or merge it into one.
\<close>

section \<open>The header checks\<close>

lemma candidate_facts:
  assumes "packetIsGROCandidate pkt canUDP = c"
  shows "c = tcp4GROCandidate \<Longrightarrow> 40 \<le> length pkt \<and> ip_version pkt = 4 \<and> pkt ! 0 AND 0x0F = 5"
    and "c = tcp6GROCandidate \<Longrightarrow> 60 \<le> length pkt \<and> ip_version pkt = 6"
    and "c = udp4GROCandidate \<Longrightarrow> 28 \<le> length pkt \<and> ip_version pkt = 4 \<and> pkt ! 0 AND 0x0F = 5"
    and "c = udp6GROCandidate \<Longrightarrow> 48 \<le> length pkt \<and> ip_version pkt = 6"
  using assms by (auto simp: packetIsGROCandidate_def ip_version_def split: if_splits)

text \<open>The packets \<open>tcpGRO\<close> and \<open>udpGRO\<close> are called on; \<open>m\<close> is their least transport header.\<close>

definition gro_input :: "bool \<Rightarrow> nat \<Rightarrow> byte list \<Rightarrow> bool" where
  "gro_input v6 m pkt \<longleftrightarrow> (if v6 then 40 else 20) + m \<le> length pkt \<and> ip_version pkt = (if v6 then 6 else 4)
     \<and> (\<not> v6 \<longrightarrow> pkt ! 0 AND 0x0F = 5)"

lemma candidate_input:
  "packetIsGROCandidate pkt canUDP = (if v6 then tcp6GROCandidate else tcp4GROCandidate) \<Longrightarrow>
   gro_input v6 20 pkt"
  "packetIsGROCandidate pkt canUDP = (if v6 then udp6GROCandidate else udp4GROCandidate) \<Longrightarrow>
   gro_input v6 8 pkt"
  using candidate_facts [of pkt canUDP] by (cases v6; simp add: gro_input_def)+

definition iph_of :: "bool \<Rightarrow> nat" where "iph_of v6 = (if v6 then 40 else 20)"

lemma iph_of_ok: "ip_len_ok v6 (of_nat (iph_of v6))" "unat (of_nat (iph_of v6) :: u8) = iph_of v6"
  by (simp_all add: ip_len_ok_def iph_of_def)

lemma gro_iph_len_total:
  assumes "gro_input v6 m pkt"
  obtains "gro_iph_len pkt v6 = Some None"
  | "gro_iph_len pkt v6 = Some (Some (iph_of v6))" "length pkt \<le> 65535"
proof -
  have len: "20 \<le> length pkt" "\<not> length pkt < iph_of v6"
    using assms by (auto simp: gro_input_def iph_of_def split: if_splits)
  have hl: "(if v6 then 40 else unat ((pkt ! 0 AND 0x0F) * 4)) = iph_of v6"
    using assms by (simp add: gro_input_def iph_of_def)
  have acc: "idx pkt 0 = Some (pkt ! 0)" "get16 pkt 4 = Some (be16_of (pkt ! 4) (pkt ! 5))"
    "get16 pkt 2 = Some (be16_of (pkt ! 2) (pkt ! 3))"
    using len(1) by (auto simp: idx_def get16_def)
  have "gro_iph_len pkt v6 \<in> {Some None, Some (Some (iph_of v6))}"
    unfolding gro_iph_len_def Let_def acc bind.bind_lunit hl using len(2) by (cases v6) auto
  moreover have "length pkt \<le> 65535" if "gro_iph_len pkt v6 = Some (Some x)" for x
    using that by (auto simp: gro_iph_len_def maxUint16_def split: if_splits)
  ultimately show thesis using that by blast
qed

lemma fragmented_total:
  "20 \<le> length pkt \<Longrightarrow> \<exists>b. (if v6 then Some False else ipv4_fragmented pkt) = Some b"
  by (cases v6) (auto simp: ipv4_fragmented_def go_simps)

lemma tcp_key_total:
  assumes "iph_of v6 + 20 \<le> length pkt"
  shows "\<exists>k. newTCPFlowKey pkt (src_at v6) (src_at v6 + addr_len v6) (iph_of v6) = Some k"
  using assms by (auto simp: newTCPFlowKey_def go_simps src_at_def addr_len_def iph_of_def split: if_splits)

lemma udp_key_total:
  assumes "iph_of v6 + 8 \<le> length pkt"
  shows "\<exists>k. newUDPFlowKey pkt (src_at v6) (src_at v6 + addr_len v6) (iph_of v6) = Some k"
  using assms by (auto simp: newUDPFlowKey_def go_simps src_at_def addr_len_def iph_of_def split: if_splits)

section \<open>A packet that starts an item\<close>

lemma segments_single:
  assumes "hl < length (opkt orig off n)" and "length (opkt orig off n) \<le> 65535"
    and "g = length (opkt orig off n) - hl"
  shows "segments orig off (orig ! n) hl g [n]"
  using assms by (auto simp: segments_def opkt_def add.commute)

lemma psh_bit:
  "f \<in> {tcpFlagACK, tcpFlagACK OR tcpFlagPSH} \<Longrightarrow>
   (f AND tcpFlagPSH \<noteq> 0) = (f = tcpFlagACK OR tcpFlagPSH)"
  by (auto simp: offload_consts)

lemma newTCPItem_ok:
  assumes cand: "tcp_cand v6 iphl thl k (opkt orig off n)" and n: "n < 65536"
  obtains item where
    "newTCPItem (opkt orig off n) k (unat iphl) (unat thl) n = Some item"
    "key item = k" "ent_idx (TcpE item) = n" "tcp_ent_ok orig off (orig ! n) [n] item"
proof -
  let ?pkt = "opkt orig off n"
  have hl: "unat iphl + unat thl < length ?pkt" "length ?pkt \<le> 65535" "20 \<le> unat thl"
    using cand by (auto simp: tcp_cand_def tcp_hl_def tcp_hdr_ok_def)
  have v6: "isV6 k = v6" using cand by (auto simp: tcp_cand_def dest: tcp_key_v6)
  have acc: "slice_from ?pkt (unat iphl + unat thl) = Some (drop (unat iphl + unat thl) ?pkt)"
    "get32 ?pkt (unat iphl + 4) = Some (tcp_seq (unat iphl) ?pkt)"
    "idx ?pkt (unat iphl + tcpFlagsOffset) = Some (?pkt ! (unat iphl + 13))"
    using hl by (auto simp: slice_from_def get32_def idx_def tcp_seq_def tcpFlagsOffset_def ac_simps)
  define sz where "sz = length (drop (unat iphl + unat thl) ?pkt)"
  have sz: "unat (of_nat sz :: u16) = sz" using hl by (intro unat_u16_of_nat) (simp add: sz_def)
  define item :: tcpGROItem where
    "item = \<lparr>key = k, bufsIndex = of_nat n, numMerged = 0, gsoSize = of_nat sz, iphLen = iphl,
             sentSeq = tcp_seq (unat iphl) ?pkt, tcphLen = thl,
             pshSet = psh_of (unat iphl) ?pkt\<rparr>"
  have run: "newTCPItem ?pkt k (unat iphl) (unat thl) n = Some item"
    using cand unfolding newTCPItem_def acc bind.bind_lunit sz_def [symmetric]
    by (simp add: item_def psh_of_def tcp_cand_def psh_bit)
  have bi: "unat (bufsIndex item) = n" using n by (simp add: item_def unat_u16_of_nat)
  have gs: "unat (gsoSize item) = length ?pkt - (unat iphl + unat thl)"
    using sz by (simp add: item_def sz_def)
  have seg: "segments orig off (orig ! n) (tcp_hl iphl thl) (unat (gsoSize item)) [n]"
    using hl gs by (intro segments_single) (simp_all add: tcp_hl_def)
  have "gsoSize item \<noteq> 0" using gs hl by auto
  then have "tcp_ent_ok orig off (orig ! n) [n] item"
    using cand seg bi gs hl v6
    by (simp add: tcp_ent_ok_def item_def same_hdr_def opkt_def tcp_hl_def)
  then show thesis using that run bi by (simp add: item_def)
qed

lemma tcp_insert_core:
  fixes t :: tcpGROTable
  assumes c: "core orig off n bs tw parts (tcp_entries t + F)" and t: "tcp.good t"
    and n: "n < length orig" "off < length (data (orig ! n))" "n < 65536"
    and cand: "tcp_cand v6 iphl thl k (opkt orig off n)"
    and room: "card (dom (items_of t)) < tcp.capacity t"
  obtains t' where
    "tcp_insert (opkt orig off n) (src_at v6) (src_at v6 + addr_len v6) (unat iphl) (unat thl) n t = Some t'"
    "tcp.good t'" "tcp.capacity t' = tcp.capacity t"
    "card (dom (items_of t')) \<le> card (dom (items_of t)) + 1"
    "core orig off (Suc n) bs (tw @ [n]) (parts(n := [n])) (tcp_entries t' + F)"
proof -
  obtain item where item:
    "newTCPItem (opkt orig off n) k (unat iphl) (unat thl) n = Some item"
    "key item = k" "ent_idx (TcpE item) = n" "tcp_ent_ok orig off (orig ! n) [n] item"
    using newTCPItem_ok [OF cand n(3)] .
  obtain t' where t': "append_item k item t = Some t'" "tcp.good t'" "tcp.capacity t' = tcp.capacity t"
    "tracked t' = add_mset item (tracked t)" "card (dom (items_of t')) \<le> card (dom (items_of t)) + 1"
    using tcp.add_total [OF t room item(2)] by blast
  have "core orig off (Suc n) bs (tw @ [n]) (parts(n := [n])) (add_mset (TcpE item) (tcp_entries t + F))"
    by (rule core_insert [OF c n(1,2) item(3)]) (simp add: item(4))
  then show thesis
    using that t' item(1) cand by (simp add: tcp_insert_def tcp_cand_def)
qed

section \<open>tcpGRO\<close>

text \<open>
  What the result of \<open>tcpGRO\<close> or \<open>udpGRO\<close> on packet \<open>n\<close> says about the vector.
\<close>

definition gro_post :: "gobuf list \<Rightarrow> nat \<Rightarrow> nat \<Rightarrow> nat list \<Rightarrow> groResult \<Rightarrow> gobuf list
    \<Rightarrow> entry multiset \<Rightarrow> bool" where
  "gro_post orig off n tw r bs E \<longleftrightarrow> (\<exists>parts.
     case r of
       groResultNoop \<Rightarrow> core orig off n bs tw parts E
     | groResultTableInsert \<Rightarrow> core orig off (Suc n) bs (tw @ [n]) parts E
     | groResultCoalesced \<Rightarrow> core orig off (Suc n) bs tw parts E)"

lemma gro_noop:
  "core orig off n bs tw parts E \<Longrightarrow> gro_post orig off n tw groResultNoop bs E"
  by (auto simp: gro_post_def)

lemma tcp_found_core:
  fixes t :: tcpGROTable
  assumes c: "core orig off n bs tw parts (tcp_entries t + F)" and t: "tcp.good t"
    and n: "n < length orig" "off < length (data (orig ! n))" "n < 65536" "10 \<le> off"
    and cand: "tcp_cand v6 iphl thl k (opkt orig off n)"
    and room: "card (dom (items_of t)) < tcp.capacity t"
    and sq: "seq = tcp_seq (unat iphl) (opkt orig off n)"
    and p: "psh = psh_of (unat iphl) (opkt orig off n)"
    and gso: "gso = of_nat (length (opkt orig off n) - tcp_hl iphl thl)"
  shows "\<exists>r bs' t'. do {
      (existing, t) \<leftarrow> tcp_lookupOrInsert (opkt orig off n) (src_at v6) (src_at v6 + addr_len v6)
         (unat iphl) (unat thl) n t;
      case existing of
        None \<Rightarrow> Some (groResultTableInsert, bs, t)
      | Some items \<Rightarrow> do {
          (done, bs, t) \<leftarrow> tcpGRO_loop e (opkt orig off n) n iphl thl seq psh gso off v6 items
             (length items) bs t;
          case done of
            Some result \<Rightarrow> Some (result, bs, t)
          | None \<Rightarrow> do {
              t \<leftarrow> tcp_insert (opkt orig off n) (src_at v6) (src_at v6 + addr_len v6)
                 (unat iphl) (unat thl) n t;
              Some (groResultTableInsert, bs, t)
            }
        }
    } = Some (r, bs', t') \<and> gro_post orig off n tw r bs' (tcp_entries t' + F)
      \<and> tcp.good t' \<and> tcp.capacity t' = tcp.capacity t
      \<and> card (dom (items_of t')) \<le> card (dom (items_of t)) + 1"
proof -
  let ?pkt = "opkt orig off n"
  have k: "newTCPFlowKey ?pkt (src_at v6) (src_at v6 + addr_len v6) (unat iphl) = Some k"
    using cand by (simp add: tcp_cand_def)
  show ?thesis
  proof (cases "items_of t k")
    case None
    obtain t' where t':
      "tcp_insert ?pkt (src_at v6) (src_at v6 + addr_len v6) (unat iphl) (unat thl) n t = Some t'"
      "tcp.good t'" "tcp.capacity t' = tcp.capacity t"
      "card (dom (items_of t')) \<le> card (dom (items_of t)) + 1"
      "core orig off (Suc n) bs (tw @ [n]) (parts(n := [n])) (tcp_entries t' + F)"
      using tcp_insert_core [OF c t n(1-3) cand room] .
    then show ?thesis
      unfolding tcp_lookupOrInsert_def k bind.bind_lunit None option.case
      by (auto simp: gro_post_def)
  next
    case (Some items)
    obtain r bs1 t1 parts1 where loop:
      "tcpGRO_loop e ?pkt n iphl thl seq psh gso off v6 items (length items) bs t = Some (r, bs1, t1)"
      "core orig off (advance n r) bs1 tw parts1 (tcp_entries t1 + F)" "r \<noteq> Some groResultTableInsert"
      "tcp.good t1" "tcp.capacity t1 = tcp.capacity t" "dom (items_of t1) = dom (items_of t)"
      using tcp_loop_core [OF c t Some order_refl order_refl refl n(1,2,4) cand sq p gso] by blast
    note step = tcp_lookupOrInsert_def k bind.bind_lunit Some option.case prod.case loop(1)
    show ?thesis
    proof (cases r)
      case None
      obtain t' where t':
        "tcp_insert ?pkt (src_at v6) (src_at v6 + addr_len v6) (unat iphl) (unat thl) n t1 = Some t'"
        "tcp.good t'" "tcp.capacity t' = tcp.capacity t1"
        "card (dom (items_of t')) \<le> card (dom (items_of t1)) + 1"
        "core orig off (Suc n) bs1 (tw @ [n]) (parts1(n := [n])) (tcp_entries t' + F)"
        by (rule tcp_insert_core [OF _ loop(4) n(1-3) cand])
          (use loop(2,5,6) None room in \<open>auto simp: advance_def\<close>)
      then show ?thesis unfolding step None option.case using loop(5,6) by (auto simp: gro_post_def)
    next
      case (Some result)
      then have "gro_post orig off n tw result bs1 (tcp_entries t1 + F)"
        using loop(2,3) by (cases result) (auto simp: gro_post_def advance_def)
      then show ?thesis unfolding step Some option.case using loop(4-6) by auto
    qed
  qed
qed

lemma unat_u8_of_nat: "n < 256 \<Longrightarrow> unat (of_nat n :: u8) = n"
  by (simp add: unsigned_of_nat take_bit_nat_eq_self)

lemma pkt_at_core:
  "core orig off n bs tw parts E \<Longrightarrow> n < length orig \<Longrightarrow> off < length (data (orig ! n)) \<Longrightarrow>
   pkt_at bs off n = Some (opkt orig off n)"
  by (simp add: core_def pkt_at_in opkt_def)

lemma tcpGRO_core:
  fixes t :: tcpGROTable
  assumes c: "core orig off n bs tw parts (tcp_entries t + F)" and t: "tcp.good t"
    and n: "n < length orig" "off < length (data (orig ! n))" "n < 65536" "10 \<le> off"
    and inp: "gro_input v6 20 (opkt orig off n)"
    and room: "card (dom (items_of t)) < tcp.capacity t"
  shows "\<exists>r bs' t'. tcpGRO e bs off n t v6 = Some (r, bs', t')
      \<and> gro_post orig off n tw r bs' (tcp_entries t' + F)
      \<and> tcp.good t' \<and> tcp.capacity t' = tcp.capacity t
      \<and> card (dom (items_of t')) \<le> card (dom (items_of t)) + 1"
    (is "\<exists>r bs' t'. _ = Some (r, bs', t') \<and> ?post r bs' t'")
proof -
  let ?pkt = "opkt orig off n"
  have noop: "?post groResultNoop bs t" using gro_noop [OF c] t by simp
  note at = pkt_at_core [OF c n(1,2)]
  consider (none) "gro_iph_len ?pkt v6 = Some None"
    | (hdr) "gro_iph_len ?pkt v6 = Some (Some (iph_of v6))" "length ?pkt \<le> 65535"
    using gro_iph_len_total [OF inp] by blast
  then show ?thesis
  proof cases
    case none
    then show ?thesis unfolding tcpGRO_def at using noop by simp
  next
    case hdr
    define b where "b = ?pkt ! (iph_of v6 + 12)"
    define iphl thl :: u8 where "iphl = of_nat (iph_of v6)" and "thl = drop_bit 4 b * 4"
    have iphl: "unat iphl = iph_of v6" "ip_len_ok v6 iphl" using iph_of_ok by (simp_all add: iphl_def)
    have long: "iph_of v6 + 20 \<le> length ?pkt" using inp by (simp add: gro_input_def iph_of_def)
    have acc: "idx ?pkt (iph_of v6 + 12) = Some b"
      "idx ?pkt (iph_of v6 + tcpFlagsOffset) = Some (?pkt ! (unat iphl + 13))"
      "get32 ?pkt (iph_of v6 + 4) = Some (tcp_seq (unat iphl) ?pkt)"
      using long by (auto simp: idx_def get32_def b_def iphl(1) tcp_seq_def tcpFlagsOffset_def ac_simps)
    obtain fr where fr: "(if v6 then Some False else ipv4_fragmented ?pkt) = Some fr"
      using fragmented_total [of ?pkt v6] long by (auto simp: iph_of_def split: if_splits)
    obtain k where k: "newTCPFlowKey ?pkt (src_at v6) (src_at v6 + addr_len v6) (iph_of v6) = Some k"
      using tcp_key_total [OF long] by blast
    let ?gso = "of_int (int (length ?pkt) - int (unat thl) - int (iph_of v6)) :: u16"
    note step = tcpGRO_def at bind.bind_lunit hdr(1) option.case acc(1) thl_def [symmetric] Let_def
      fr acc(2,3)
    show ?thesis
    proof (cases "unat thl < 20 \<or> 60 < unat thl \<or> length ?pkt < iph_of v6 + unat thl \<or> fr
        \<or> ?pkt ! (unat iphl + 13) \<notin> {tcpFlagACK, tcpFlagACK OR tcpFlagPSH} \<or> ?gso < 1")
      case True
      then have "tcpGRO e bs off n t v6 = Some (groResultNoop, bs, t)"
        unfolding step by auto
      then show ?thesis using noop by blast
    next
      case False
      have gso: "?gso = of_nat (length ?pkt - tcp_hl iphl thl)"
        using False by (simp add: tcp_hl_def iphl(1) of_nat_diff)
      have pos: "tcp_hl iphl thl < length ?pkt"
      proof (rule ccontr)
        assume "\<not> ?thesis"
        then have "?gso = 0" unfolding gso by simp
        then show False using False by simp
      qed
      have cand: "tcp_cand v6 iphl thl k ?pkt"
        using False pos hdr(2) k inp iphl
        by (auto simp: tcp_cand_def tcp_hdr_ok_def gro_input_def thl_def b_def)
      have psh: "(?pkt ! (unat iphl + 13) \<noteq> tcpFlagACK) = psh_of (unat iphl) ?pkt"
        using False by (auto simp: psh_of_def offload_consts)
      have same: "of_nat (unat thl) = thl" "of_nat (iph_of v6) = iphl" "src_at v6 = (if v6 then ipv6SrcAddrOffset else ipv4SrcAddrOffset)"
        "addr_len v6 = (if v6 then 16 else 4)"
        by (simp_all add: iphl_def src_at_def addr_len_def offload_consts)
      have ifs: "\<not> (unat thl < 20 \<or> 60 < unat thl)" "\<not> length ?pkt < iph_of v6 + unat thl" "\<not> fr"
        "\<not> (?pkt ! (unat iphl + 13) \<noteq> tcpFlagACK \<and> ?pkt ! (unat iphl + 13) \<noteq> tcpFlagACK OR tcpFlagPSH)"
        "\<not> ?gso < 1"
        using False by auto
      show ?thesis
        unfolding step unfolding ifs [THEN if_not_P] unfolding psh gso
        unfolding same(1,2) iphl(1)
        by (rule tcp_found_core [OF c t n cand room refl refl refl, unfolded same(3,4) iphl(1)])
    qed
  qed
qed

section \<open>udpGRO\<close>

lemma core_parts_less:
  assumes "core orig off n bs tw parts E" and "k \<in> set tw" and "p \<in> set (parts k)"
  shows "p < n"
proof -
  have "set (concat (map parts tw)) = set [0..<n]"
    using assms(1) unfolding core_def by (metis set_mset_mset)
  then show ?thesis using assms(2,3) by auto
qed

lemma udp_ent_okD:
  assumes "udp_ent_ok orig off b ps item"
  shows "gsoSize item \<noteq> 0"
    and "segments orig off b (unat (iphLen item) + 8) (unat (gsoSize item)) ps"
    and "length ps = unat (numMerged item) + 1"
    and "numMerged item = 0 \<Longrightarrow> ps = [unat (bufsIndex item)]
           \<and> data b = data (orig ! unat (bufsIndex item))"
    and "take (unat (iphLen item) + 8) (drop off (data b))
           = take (unat (iphLen item) + 8) (opkt orig off (hd ps))"
    and "p \<in> set ps \<Longrightarrow> udp_cand (isV6 (key item)) (iphLen item) (key item) (opkt orig off p)"
    and "p \<in> set ps \<Longrightarrow> ip_class (opkt orig off p) = ip_class (opkt orig off (hd ps))"
    and "sorted_wrt (<) ps" and "ps \<noteq> []"
  using assms unfolding udp_ent_ok_def Let_def
  by (blast, blast, blast, blast, blast, blast, blast, blast, auto)

lemma udp_ent_okI:
  assumes "hl = unat (iphLen item) + 8" and "g = unat (gsoSize item)"
    and "iphl = iphLen item" and "k = key item"
    and "gsoSize item \<noteq> 0" and "segments orig off b hl g ps"
    and "length ps = unat (numMerged item) + 1" and "numMerged item \<noteq> 0"
    and "take hl (drop off (data b)) = take hl (opkt orig off (hd ps))"
    and "\<And>p. p \<in> set ps \<Longrightarrow> udp_cand (isV6 k) iphl k (opkt orig off p)"
    and "\<And>p. p \<in> set ps \<Longrightarrow> ip_class (opkt orig off p) = ip_class (opkt orig off (hd ps))"
    and "sorted_wrt (<) ps"
  shows "udp_ent_ok orig off b ps item"
  using assms unfolding udp_ent_ok_def Let_def by blast

lemma udp_same_iph:
  assumes "udp_ent_ok orig off b ps item" and "udp_cand v6 iphl (key item) pkt"
  shows "iphLen item = iphl" and "isV6 (key item) = v6"
proof -
  have v6: "isV6 (key item) = v6" using assms(2) by (auto simp: udp_cand_def dest: udp_key_v6)
  have "hd ps \<in> set ps" using udp_ent_okD(9) [OF assms(1)] by simp
  from udp_ent_okD(6) [OF assms(1) this] v6 assms(2) show "iphLen item = iphl" "isV6 (key item) = v6"
    by (auto simp: udp_cand_def intro: ip_len_ok_unique)
qed

lemma udp_append_ok:
  fixes item :: udpGROItem
  assumes ok: "udp_ent_ok orig off b ps item"
    and cand: "udp_cand (isV6 (key item)) (iphLen item) (key item) (opkt orig off n)"
    and cls: "ip_class (opkt orig off n) = ip_class (opkt orig off (hd ps))"
    and hl: "hl = unat (iphLen item) + 8"
    and full: "(length (drop off (data b)) - hl) mod unat (gsoSize item) = 0"
    and len: "length (opkt orig off n) \<le> hl + unat (gsoSize item)"
    and fits: "length (data (join_buf b (drop (off + hl) (data (orig ! n))))) \<le> off + 65535"
    and n: "\<And>p. p \<in> set ps \<Longrightarrow> p < n"
  shows "udp_ent_ok orig off (join_buf b (drop (off + hl) (data (orig ! n)))) (ps @ [n])
    (item\<lparr>numMerged := numMerged item + 1\<rparr>)"
proof -
  let ?new = "join_buf b (drop (off + hl) (data (orig ! n)))"
  note o = udp_ent_okD [OF ok, folded hl]
  have "hl < length (opkt orig off n)" using cand by (simp add: udp_cand_def hl)
  then have seg: "segments orig off ?new hl (unat (gsoSize item)) (ps @ [n])"
    using segments_append [OF o(2) segments_full [OF o(2) full] _ len fits] by simp
  have count: "length (ps @ [n]) = unat (numMerged item + 1) + 1" "numMerged item + 1 \<noteq> 0"
    using numMerged_step [OF seg, of "numMerged item"] o(3) by simp_all
  have long: "off + hl \<le> length (data b)" using o(2) by (simp add: segments_def)
  show ?thesis
  proof (rule udp_ent_okI [where hl = hl and g = "unat (gsoSize item)" and iphl = "iphLen item"
        and k = "key item"])
    show "take hl (drop off (data ?new)) = take hl (opkt orig off (hd (ps @ [n])))"
      using o(5,9) long by simp
    show "udp_cand (isV6 (key item)) (iphLen item) (key item) (opkt orig off q)"
      if "q \<in> set (ps @ [n])" for q
      using that o(6) cand by auto
    show "ip_class (opkt orig off q) = ip_class (opkt orig off (hd (ps @ [n])))"
      if "q \<in> set (ps @ [n])" for q
      using that o(7) [of q] o(9) cls by (cases "q = n") simp_all
    show "sorted_wrt (<) (ps @ [n])" using o(8) n by (simp add: sorted_wrt_append)
    show "segments orig off ?new hl (unat (gsoSize item)) (ps @ [n])" by (fact seg)
    show "length (ps @ [n]) = unat (numMerged (item\<lparr>numMerged := numMerged item + 1\<rparr>)) + 1"
      "numMerged (item\<lparr>numMerged := numMerged item + 1\<rparr>) \<noteq> 0"
      using count by simp_all
    show "gsoSize (item\<lparr>numMerged := numMerged item + 1\<rparr>) \<noteq> 0" using o(1) by simp
  qed (simp_all add: hl)
qed

lemma newUDPItem_ok:
  assumes cand: "udp_cand v6 iphl k (opkt orig off n)" and n: "n < 65536"
  obtains item where
    "newUDPItem (opkt orig off n) k (unat iphl) n bad = Some item"
    "key item = k" "ent_idx (UdpE item) = n" "udp_ent_ok orig off (orig ! n) [n] item"
proof -
  let ?pkt = "opkt orig off n"
  have hl: "unat iphl + 8 < length ?pkt" "length ?pkt \<le> 65535"
    using cand by (auto simp: udp_cand_def)
  have v6: "isV6 k = v6" using cand by (auto simp: udp_cand_def dest: udp_key_v6)
  have acc: "slice_from ?pkt (unat iphl + udphLen) = Some (drop (unat iphl + 8) ?pkt)"
    using hl by (simp add: slice_from_def udphLen_def)
  define sz where "sz = length (drop (unat iphl + 8) ?pkt)"
  have sz: "unat (of_nat sz :: u16) = sz" using hl by (intro unat_u16_of_nat) (simp add: sz_def)
  define item :: udpGROItem where
    "item = \<lparr>key = k, bufsIndex = of_nat n, numMerged = 0, gsoSize = of_nat sz, iphLen = iphl,
             cSumKnownInvalid = bad\<rparr>"
  have run: "newUDPItem ?pkt k (unat iphl) n bad = Some item"
    unfolding newUDPItem_def acc bind.bind_lunit sz_def [symmetric] by (simp add: item_def)
  have bi: "unat (bufsIndex item) = n" using n by (simp add: item_def unat_u16_of_nat)
  have gs: "unat (gsoSize item) = length ?pkt - (unat iphl + 8)"
    using sz by (simp add: item_def sz_def)
  have seg: "segments orig off (orig ! n) (unat iphl + 8) (unat (gsoSize item)) [n]"
    using hl gs by (intro segments_single) simp_all
  have "gsoSize item \<noteq> 0" using gs hl by auto
  then have "udp_ent_ok orig off (orig ! n) [n] item"
    using cand seg bi v6 by (simp add: udp_ent_ok_def item_def opkt_def)
  then show thesis using that run bi by (simp add: item_def)
qed

text \<open>No flow of a UDP table is without an item; the code indexes the last one.\<close>

definition no_empty_flow :: "('k, 'i) groTable \<Rightarrow> bool" where
  "no_empty_flow t \<longleftrightarrow> (\<forall>k. items_of t k \<noteq> Some [])"

lemma udp_insert_core:
  fixes t :: udpGROTable
  assumes c: "core orig off n bs tw parts (F + udp_entries t)" and t: "udp.good t" "no_empty_flow t"
    and n: "n < length orig" "off < length (data (orig ! n))" "n < 65536"
    and cand: "udp_cand v6 iphl k (opkt orig off n)"
    and room: "card (dom (items_of t)) < udp.capacity t"
  obtains t' where
    "udp_insert (opkt orig off n) (src_at v6) (src_at v6 + addr_len v6) (unat iphl) n bad t = Some t'"
    "udp.good t'" "no_empty_flow t'" "udp.capacity t' = udp.capacity t"
    "card (dom (items_of t')) \<le> card (dom (items_of t)) + 1"
    "core orig off (Suc n) bs (tw @ [n]) (parts(n := [n])) (F + udp_entries t')"
proof -
  obtain item where item:
    "newUDPItem (opkt orig off n) k (unat iphl) n bad = Some item"
    "key item = k" "ent_idx (UdpE item) = n" "udp_ent_ok orig off (orig ! n) [n] item"
    using newUDPItem_ok [OF cand n(3)] .
  obtain t' where t': "append_item k item t = Some t'" "udp.good t'" "udp.capacity t' = udp.capacity t"
    "tracked t' = add_mset item (tracked t)" "card (dom (items_of t')) \<le> card (dom (items_of t)) + 1"
    "items_of t' = (items_of t)(k \<mapsto> (case items_of t k of None \<Rightarrow> [] | Some is \<Rightarrow> is) @ [item])"
    using udp.add_total [OF t(1) room item(2)] by blast
  have ne: "no_empty_flow t'" using t(2) t'(6) by (simp add: no_empty_flow_def)
  have "core orig off (Suc n) bs (tw @ [n]) (parts(n := [n])) (add_mset (UdpE item) (F + udp_entries t))"
    by (rule core_insert [OF c n(1,2) item(3)]) (simp add: item(4))
  then show thesis
    using that t' ne item(1) cand by (simp add: udp_insert_def udp_cand_def)
qed

lemma udp_merge_core:
  fixes item :: udpGROItem
  assumes c: "core orig off n bs tw parts E" and x: "UdpE item \<in># E"
    and n: "n < length orig" "off < length (data (orig ! n))"
    and cand: "udp_cand v6 iphl (key item) (opkt orig off n)"
    and gso: "gso = of_nat (length (opkt orig off n) - (unat iphl + 8))"
  obtains can r item' bs' where
    "udpPacketsCanCoalesce (opkt orig off n) iphl gso item bs off = Some can"
    "(if can = coalesceAppend then coalesceUDPPackets e (opkt orig off n) item bs off v6
      else Some (coalesceInsufficientCap, item, bs)) = Some (r, item', bs')"
    "r \<noteq> coalesceSuccess \<Longrightarrow> item' = item \<and> bs' = bs"
    "r = coalesceSuccess \<Longrightarrow> key item' = key item \<and> (\<exists>parts'.
       core orig off (Suc n) bs' tw parts' (add_mset (UdpE item') (E - {#UdpE item#})))"
proof -
  define i where "i = unat (bufsIndex item)"
  let ?pkt = "opkt orig off n"
  have idx: "i \<in> set tw" "i < n" "i < length bs" "udp_ent_ok orig off (bs ! i) (parts i) item"
    using core_idx [OF c x] by (simp_all add: i_def)
  note o = udp_ent_okD [OF idx(4)]
  have iph: "iphLen item = iphl" "isV6 (key item) = v6" by (rule udp_same_iph [OF idx(4) cand])+
  define hl where "hl = unat (iphLen item) + 8"
  have hlp: "ip_len_ok v6 (iphLen item)" "hl < length ?pkt" "length ?pkt \<le> 65535"
    using cand by (simp_all add: udp_cand_def hl_def iph)
  have long: "off + hl \<le> length (data (bs ! i))" using o(2) by (simp add: segments_def hl_def)
  have at: "i < length bs" "off + unat iphl + 8 \<le> length (data (bs ! unat (bufsIndex item)))"
    using idx long by (simp_all add: i_def [symmetric] hl_def iph add.assoc)
  obtain can where can: "udpPacketsCanCoalesce ?pkt iphl gso item bs off = Some can"
    "can = coalesceAppend \<Longrightarrow> ipHeadersCanCoalesce ?pkt (drop off (data (bs ! i)))
       \<and> (length (drop off (data (bs ! i))) - (unat iphl + 8)) mod unat (gsoSize item) = 0
       \<and> gso \<le> gsoSize item"
    using udpPacketsCanCoalesce_spec [OF at(1) [unfolded i_def] refl at(2) hlp(1) [unfolded iph] o(1)]
    by (metis i_def)
  show thesis
  proof (cases "can = coalesceAppend")
    case False
    then show thesis using can(1) by (intro that [of can coalesceInsufficientCap item bs]) simp_all
  next
    case True
    note ver = can(2) [OF True]
    obtain r item' bs' where run:
      "coalesceUDPPackets e ?pkt item bs off v6 = Some (r, item', bs')"
      "r \<noteq> coalesceSuccess \<Longrightarrow> item' = item \<and> bs' = bs"
      "r = coalesceSuccess \<Longrightarrow> item' = item\<lparr>numMerged := numMerged item + 1\<rparr>
         \<and> bs' = bs[i := join_buf (bs ! i) (drop hl ?pkt)]
         \<and> length (data (bs' ! i)) + off \<le> capacity (bs' ! i)
         \<and> checksumValid e ?pkt (iphLen item) IPPROTO_UDP v6 = Some True"
      using coalesceUDPPackets_spec [OF i_def idx(3) hlp(1) hl_def long less_imp_le [OF hlp(2)]] by blast
    show thesis
    proof (rule that [OF can(1) _ run(2)])
      show "(if can = coalesceAppend then coalesceUDPPackets e ?pkt item bs off v6
          else Some (coalesceInsufficientCap, item, bs)) = Some (r, item', bs')"
        using run(1) True by simp
      assume "r = coalesceSuccess"
      note m = run(3) [OF this]
      have it: "item' = item\<lparr>numMerged := numMerged item + 1\<rparr>"
        and bs': "bs' = bs[i := join_buf (bs ! i) (drop (off + hl) (data (orig ! n)))]"
        and fit: "length (data (bs' ! i)) + off \<le> capacity (bs' ! i)"
        using m by (blast, simp add: drop_opkt, blast)
      have new: "bs' ! i = join_buf (bs ! i) (drop (off + hl) (data (orig ! n)))"
        using bs' idx(3) by simp
      have caps: "capacity (bs ! i) \<le> 2 * off + 65535" "capacity (bs ! n) \<le> 2 * off + 65535"
        using c idx n by (auto simp: core_def)
      have fit': "length (data (join_buf (bs ! i) (drop (off + hl) (data (orig ! n))))) \<le> off + 65535"
        using fit caps(1) unfolding new by (simp only: capacity_join_buf)
      have hcand: "udp_cand v6 iphl (key item) (opkt orig off (hd (parts i)))"
        using o(6) [of "hd (parts i)"] o(9) iph by simp
      have tgt: "drop off (data (bs ! i)) ! j = opkt orig off (hd (parts i)) ! j" if "j < 20" for j
      proof -
        have "j < hl" using that hlp(1) by (auto simp: ip_len_ok_def hl_def split: if_splits)
        then show ?thesis using arg_cong [OF o(5), of "\<lambda>xs. xs ! j"] by (simp add: hl_def)
      qed
      have same: "ip_class (drop off (data (bs ! i))) = ip_class (opkt orig off (hd (parts i)))"
        "ip_version (drop off (data (bs ! i))) = ip_version (opkt orig off (hd (parts i)))"
        by (rule ip_class_cong; simp add: tgt)+
      have cls: "ip_class ?pkt = ip_class (opkt orig off (hd (parts i)))"
      proof -
        have "(ip_version ?pkt = 6) = (ip_version (drop off (data (bs ! i))) = 6)"
          using cand hcand same(2) by (simp add: udp_cand_def)
        then show ?thesis using ipHeaders_class ver same(1) by metis
      qed
      have len: "length ?pkt \<le> hl + unat (gsoSize item)"
      proof -
        have "unat gso = length ?pkt - hl"
          unfolding gso using hlp by (simp only: hl_def iph) (intro unat_u16_of_nat, linarith)
        then have "length ?pkt - hl \<le> unat (gsoSize item)" using ver by (simp add: word_le_nat_alt)
        then show ?thesis by linarith
      qed
      have "udp_ent_ok orig off (bs' ! i) (parts i @ [n]) item'"
        unfolding it new
      proof (rule udp_append_ok [OF idx(4) _ cls hl_def _ len fit'])
        show "udp_cand (isV6 (key item)) (iphLen item) (key item) ?pkt" using cand by (simp add: iph)
        show "(length (drop off (data (bs ! i))) - hl) mod unat (gsoSize item) = 0"
          using ver by (simp add: hl_def iph)
        show "p < n" if "p \<in> set (parts i)" for p using core_parts_less [OF c idx(1) that] .
      qed
      then have ok: "ent_ok orig off (bs' ! ent_idx (UdpE item)) (parts i @ [n]) (UdpE item')"
        by (simp add: i_def)
      have other: "\<And>k. k < length bs \<Longrightarrow> k \<noteq> ent_idx (UdpE item) \<Longrightarrow> k \<noteq> n \<Longrightarrow> bs' ! k = bs ! k"
        "capacity (bs' ! ent_idx (UdpE item)) \<le> 2 * off + 65535" "capacity (bs' ! n) \<le> 2 * off + 65535"
        using caps bs' idx(2,3) by (simp_all add: i_def)
      have "core orig off (Suc n) bs' tw (parts(ent_idx (UdpE item) := parts i @ [n]))
          (add_mset (UdpE item') (E - {#UdpE item#}))"
        using core_merge [OF c x n _ other _ ok] bs' by (simp add: it i_def)
      then show "key item' = key item \<and> (\<exists>parts'.
          core orig off (Suc n) bs' tw parts' (add_mset (UdpE item') (E - {#UdpE item#})))"
        using it by auto
    qed
  qed
qed

lemma udp_found_core:
  fixes t :: udpGROTable
  assumes c: "core orig off n bs tw parts (F + udp_entries t)" and t: "udp.good t" "no_empty_flow t"
    and n: "n < length orig" "off < length (data (orig ! n))" "n < 65536"
    and cand: "udp_cand v6 iphl k (opkt orig off n)"
    and room: "card (dom (items_of t)) < udp.capacity t"
    and gso: "gso = of_nat (length (opkt orig off n) - (unat iphl + 8))"
  shows "\<exists>r bs' t'. do {
      (existing, t) \<leftarrow> udp_lookupOrInsert (opkt orig off n) (src_at v6) (src_at v6 + addr_len v6)
         (unat iphl) n t;
      case existing of
        None \<Rightarrow> Some (groResultTableInsert, bs, t)
      | Some items \<Rightarrow> do {
          check (items \<noteq> []);
          let item = last items;
          can \<leftarrow> udpPacketsCanCoalesce (opkt orig off n) iphl gso item bs off;
          (result, item, bs) \<leftarrow>
            (if can = coalesceAppend then coalesceUDPPackets e (opkt orig off n) item bs off v6
             else Some (coalesceInsufficientCap, item, bs));
          if result = coalesceSuccess
          then do {
            t \<leftarrow> updateAt item (length items - 1) t;
            Some (groResultCoalesced, bs, t)
          }
          else do {
            t \<leftarrow> udp_insert (opkt orig off n) (src_at v6) (src_at v6 + addr_len v6) (unat iphl) n
               (result = coalescePktInvalidCSum) t;
            Some (groResultTableInsert, bs, t)
          }
        }
    } = Some (r, bs', t') \<and> gro_post orig off n tw r bs' (F + udp_entries t')
      \<and> udp.good t' \<and> no_empty_flow t' \<and> udp.capacity t' = udp.capacity t
      \<and> card (dom (items_of t')) \<le> card (dom (items_of t)) + 1"
proof -
  let ?pkt = "opkt orig off n"
  have k: "newUDPFlowKey ?pkt (src_at v6) (src_at v6 + addr_len v6) (unat iphl) = Some k"
    using cand by (simp add: udp_cand_def)
  have insert: "\<exists>t'. udp_insert ?pkt (src_at v6) (src_at v6 + addr_len v6) (unat iphl) n bad t = Some t'
      \<and> gro_post orig off n tw groResultTableInsert bs (F + udp_entries t')
      \<and> udp.good t' \<and> no_empty_flow t' \<and> udp.capacity t' = udp.capacity t
      \<and> card (dom (items_of t')) \<le> card (dom (items_of t)) + 1" for bad
    by (rule udp_insert_core [OF c t n cand room, where bad = bad]) (auto simp: gro_post_def)
  show ?thesis
  proof (cases "items_of t k")
    case None
    then show ?thesis
      using insert [of False] unfolding udp_lookupOrInsert_def k bind.bind_lunit None option.case by auto
  next
    case (Some items)
    then have ne: "items \<noteq> []" using t(2) by (auto simp: no_empty_flow_def)
    then have li: "length items - 1 < length items" "items ! (length items - 1) = last items"
      by (simp_all add: last_conv_nth)
    define item where "item = last items"
    have it: "item \<in># tracked t" "key item = k"
      using udp.in_bag [OF t(1) Some] udp.good_key [OF t(1) Some] ne by (simp_all add: item_def)
    have x: "UdpE item \<in># F + udp_entries t" using it(1) by simp
    obtain can r item' bs' where run:
      "udpPacketsCanCoalesce ?pkt iphl gso item bs off = Some can"
      "(if can = coalesceAppend then coalesceUDPPackets e ?pkt item bs off v6
        else Some (coalesceInsufficientCap, item, bs)) = Some (r, item', bs')"
      "r \<noteq> coalesceSuccess \<Longrightarrow> item' = item \<and> bs' = bs"
      "r = coalesceSuccess \<Longrightarrow> key item' = key item \<and> (\<exists>parts'.
         core orig off (Suc n) bs' tw parts' (add_mset (UdpE item') (F + udp_entries t - {#UdpE item#})))"
      using udp_merge_core [OF c x n(1,2) cand [folded it(2)] gso] by blast
    note step = udp_lookupOrInsert_def k bind.bind_lunit Some option.case prod.case
      check_in [OF ne] Let_def item_def [symmetric] run(1,2)
    show ?thesis
    proof (cases "r = coalesceSuccess")
      case True
      obtain parts' where k': "key item' = key item" and
        c': "core orig off (Suc n) bs' tw parts' (add_mset (UdpE item') (F + udp_entries t - {#UdpE item#}))"
        using run(4) [OF True] by blast
      obtain t' where t': "updateAt item' (length items - 1) t = Some t'" "udp.good t'"
        "udp.capacity t' = udp.capacity t" "dom (items_of t') = dom (items_of t)"
        "tracked t' = add_mset item' (tracked t - {#item#})"
        "items_of t' = (items_of t)(k \<mapsto> items[length items - 1 := item'])"
        using udp.upd_total [OF t(1), of item' items "length items - 1"] Some k' it(2) li
        by (auto simp: item_def)
      have "F + udp_entries t' = add_mset (UdpE item') (F + udp_entries t - {#UdpE item#})"
        unfolding t'(5) using entries_remove [OF it(1), of UdpE F] by (simp add: add.commute)
      then have "gro_post orig off n tw groResultCoalesced bs' (F + udp_entries t')"
        using c' by (auto simp: gro_post_def)
      moreover have "no_empty_flow t'" using t(2) ne t'(6) by (simp add: no_empty_flow_def)
      ultimately show ?thesis
        using t' True unfolding step by simp
    next
      case False
      then have "bs' = bs" using run(3) by simp
      then show ?thesis
        using insert [of "r = coalescePktInvalidCSum"] False unfolding step by auto
    qed
  qed
qed

lemma udpGRO_core:
  fixes t :: udpGROTable
  assumes c: "core orig off n bs tw parts (F + udp_entries t)" and t: "udp.good t" "no_empty_flow t"
    and n: "n < length orig" "off < length (data (orig ! n))" "n < 65536"
    and inp: "gro_input v6 8 (opkt orig off n)"
    and room: "card (dom (items_of t)) < udp.capacity t"
  shows "\<exists>r bs' t'. udpGRO e bs off n t v6 = Some (r, bs', t')
      \<and> gro_post orig off n tw r bs' (F + udp_entries t')
      \<and> udp.good t' \<and> no_empty_flow t' \<and> udp.capacity t' = udp.capacity t
      \<and> card (dom (items_of t')) \<le> card (dom (items_of t)) + 1"
    (is "\<exists>r bs' t'. _ = Some (r, bs', t') \<and> ?post r bs' t'")
proof -
  let ?pkt = "opkt orig off n"
  have noop: "?post groResultNoop bs t" using gro_noop [OF c] t by simp
  note at = pkt_at_core [OF c n(1,2)]
  consider (none) "gro_iph_len ?pkt v6 = Some None"
    | (hdr) "gro_iph_len ?pkt v6 = Some (Some (iph_of v6))" "length ?pkt \<le> 65535"
    using gro_iph_len_total [OF inp] by blast
  then show ?thesis
  proof cases
    case none
    then show ?thesis unfolding udpGRO_def at using noop by simp
  next
    case hdr
    define iphl :: u8 where "iphl = of_nat (iph_of v6)"
    have iphl: "unat iphl = iph_of v6" "ip_len_ok v6 iphl" using iph_of_ok by (simp_all add: iphl_def)
    have long: "iph_of v6 + 8 \<le> length ?pkt" using inp by (simp add: gro_input_def iph_of_def)
    obtain fr where fr: "(if v6 then Some False else ipv4_fragmented ?pkt) = Some fr"
      using fragmented_total [of ?pkt v6] long by (auto simp: iph_of_def split: if_splits)
    obtain k where k: "newUDPFlowKey ?pkt (src_at v6) (src_at v6 + addr_len v6) (iph_of v6) = Some k"
      using udp_key_total [OF long] by blast
    let ?gso = "of_int (int (length ?pkt) - int udphLen - int (iph_of v6)) :: u16"
    note step = udpGRO_def at bind.bind_lunit hdr(1) option.case Let_def fr
    show ?thesis
    proof (cases "length ?pkt < iph_of v6 + udphLen \<or> fr \<or> ?gso < 1")
      case True
      then have "udpGRO e bs off n t v6 = Some (groResultNoop, bs, t)"
        unfolding step by auto
      then show ?thesis using noop by blast
    next
      case False
      have gso: "?gso = of_nat (length ?pkt - (iph_of v6 + 8))"
        using False by (simp add: of_nat_diff udphLen_def)
      have pos: "iph_of v6 + 8 < length ?pkt"
      proof (rule ccontr)
        assume "\<not> ?thesis"
        then have "?gso = 0" unfolding gso by simp
        then show False using False by simp
      qed
      have cand: "udp_cand v6 iphl k ?pkt"
        using pos hdr(2) k inp iphl by (auto simp: udp_cand_def gro_input_def)
      have same: "of_nat (iph_of v6) = iphl" "src_at v6 = (if v6 then ipv6SrcAddrOffset else ipv4SrcAddrOffset)"
        "addr_len v6 = (if v6 then 16 else 4)"
        by (simp_all add: iphl_def src_at_def addr_len_def offload_consts)
      have ifs: "\<not> length ?pkt < iph_of v6 + udphLen" "\<not> fr" "\<not> ?gso < 1"
        using False by auto
      show ?thesis
        unfolding step unfolding ifs [THEN if_not_P] unfolding gso unfolding same(1)
        by (rule udp_found_core [OF c t n cand room refl, unfolded same(2,3) iphl(1) Let_def])
    qed
  qed
qed

end
