(* ===== verification/GROAccount.thy ===== *)
theory GROAccount
  imports GROPacket
begin

text \<open>
  The accounting that \<open>handleGRO\<close> ends with: the headers of every merged packet are brought up
  to date, the packets that were never merged get an empty \<open>virtioNetHdr\<close>, and since every item
  has a buffer of its own the order in which Go iterates over the maps does not matter.
\<close>

section \<open>One packet\<close>

definition ip_fixed :: "bool \<Rightarrow> nat set" where
  "ip_fixed v6 = (if v6 then {4, 5} else {2, 3, 10, 11})"

text \<open>The length fields of the IP header agree with the packet and its checksum verifies.\<close>

definition ip_done :: "endian \<Rightarrow> bool \<Rightarrow> nat \<Rightarrow> byte list \<Rightarrow> bool" where
  "ip_done e v6 iphl pkt \<longleftrightarrow>
     (if v6 then get16 pkt 4 = Some (of_nat (length pkt) - of_nat iphl)
      else get16 pkt 2 = Some (of_nat (length pkt)) \<and> NOT (checksum e (take iphl pkt) 0) = 0)"

lemma account_ip_spec:
  assumes "iphl = iph_of v6" and "iphl \<le> length pkt"
  obtains pkt' where "account_ip e v6 iphl pkt = Some pkt'" "length pkt' = length pkt"
    "\<And>m. m \<notin> ip_fixed v6 \<Longrightarrow> pkt' ! m = pkt ! m" "ip_done e v6 iphl pkt'"
proof (cases v6)
  case True
  define w :: u16 where "w = of_nat (length pkt) - of_nat iphl"
  have len: "5 < length pkt" using assms True by (simp add: iph_of_def)
  have run: "account_ip e v6 iphl pkt = Some (pkt[4 := ucast (drop_bit 8 w), 5 := ucast w])"
    using True len by (simp add: account_ip_def put16_def w_def [symmetric])
  have "get16 (pkt[4 := ucast (drop_bit 8 w), 5 := ucast w]) 4 = Some w"
    using len by (simp add: get16_def be16_of_split)
  then show thesis
    by (intro that [OF run]) (use True w_def in \<open>auto simp: ip_fixed_def ip_done_def\<close>)
next
  case False
  have len: "20 \<le> length pkt" "iphl = 20" using assms False by (simp_all add: iph_of_def)
  define w :: u16 where "w = of_nat (length pkt)"
  define q where "q = pkt[10 := 0, 11 := 0, 2 := ucast (drop_bit 8 w), 3 := ucast w]"
  define v where "v = NOT (checksum e (take iphl q) 0)"
  define r where "r = q[10 := ucast (drop_bit 8 v), 11 := ucast v]"
  have lq: "length q = length pkt" by (simp add: q_def)
  have run: "account_ip e v6 iphl pkt = Some r"
    using False len by (simp add: account_ip_def go_simps q_def [symmetric] w_def [symmetric]
        v_def r_def set_at_def put16_def slice_def lq)
  have get: "get16 r 2 = Some w"
    using len by (simp add: get16_def r_def q_def be16_of_split)
  have "NOT (checksum e ((take iphl q)[10 := ucast (drop_bit 8 v), 10 + 1 := ucast v]) 0) = 0"
    by (rule stored_checksum_verifies [OF _ _ _ v_def])
      (use len in \<open>simp_all add: lq, simp add: q_def be16_of_def\<close>)
  then have sum: "NOT (checksum e (take iphl r) 0) = 0" by (simp add: r_def take_update_swap)
  show thesis
    by (intro that [OF run])
      (use False sum get in \<open>auto simp: r_def q_def ip_fixed_def ip_done_def w_def\<close>)
qed

definition pseudo_sum :: "endian \<Rightarrow> u8 \<Rightarrow> bool \<Rightarrow> nat \<Rightarrow> byte list \<Rightarrow> u64" where
  "pseudo_sum e proto v6 iphl pkt =
     pseudoHeaderChecksumNoFold e proto (take (addr_len v6) (drop (src_at v6) pkt))
       (take (addr_len v6) (drop (src_at v6 + addr_len v6) pkt))
       (of_int (int (length pkt) - int iphl))"

lemma account_pseudo_spec:
  assumes "iph_of v6 \<le> length pkt" and "unat at + 1 < length pkt"
  shows "account_pseudo e proto v6 iphl at pkt
    = Some (pkt[unat at := ucast (drop_bit 8 (checksum e [] (pseudo_sum e proto v6 iphl pkt))),
                unat at + 1 := ucast (checksum e [] (pseudo_sum e proto v6 iphl pkt))])"
proof -
  have "src_at v6 + addr_len v6 * 2 \<le> length pkt"
    using assms(1) by (auto simp: iph_of_def src_at_def addr_len_def split: if_splits)
  then show ?thesis
    using assms(2)
    by (cases v6) (simp_all add: account_pseudo_def Let_def slice_def put16_def pseudo_sum_def
        src_at_def addr_len_def offload_consts)
qed

lemma write_account_spec:
  assumes "10 \<le> off" and "off \<le> length (data b)"
  shows "write_account e hdr off b pkt
    = Some (None, b\<lparr>data := take (off - 10) (data b) @ hdr_bytes e hdr @ pkt\<rparr>)"
proof -
  have "take (off - 10) (take off (data b) @ pkt) = take (off - 10) (data b)"
    "drop 10 (drop (off - 10) (take off (data b) @ pkt)) = pkt"
    using assms by simp_all
  then show ?thesis
    using assms by (simp add: write_account_def go_simps virtioNetHdrLen_def Let_def encode_ok)
qed

text \<open>
  The header a merged packet gets, and what \<open>apply*CoalesceAccounting\<close> makes of its buffer: the
  header in front, the fields of the IP and transport header up to date, nothing else touched.
\<close>

definition tcp_hdr :: "tcpGROItem \<Rightarrow> virtioNetHdr" where
  "tcp_hdr item = \<lparr>flags = VIRTIO_NET_HDR_F_NEEDS_CSUM,
     gsoType = (if isV6 (key item) then VIRTIO_NET_HDR_GSO_TCPV6 else VIRTIO_NET_HDR_GSO_TCPV4),
     hdrLen = ucast (iphLen item + tcphLen item), hdrGsoSize = gsoSize item,
     csumStart = ucast (iphLen item), csumOffset = 16\<rparr>"

definition udp_hdr :: "udpGROItem \<Rightarrow> virtioNetHdr" where
  "udp_hdr item = \<lparr>flags = VIRTIO_NET_HDR_F_NEEDS_CSUM, gsoType = VIRTIO_NET_HDR_GSO_UDP_L4,
     hdrLen = ucast (iphLen item + of_nat udphLen), hdrGsoSize = gsoSize item,
     csumStart = ucast (iphLen item), csumOffset = 6\<rparr>"

definition accounted :: "endian \<Rightarrow> nat \<Rightarrow> u8 \<Rightarrow> bool \<Rightarrow> virtioNetHdr \<Rightarrow> nat set \<Rightarrow> gobuf \<Rightarrow> gobuf \<Rightarrow> bool" where
  "accounted e off proto v6 hdr fixed b b' \<longleftrightarrow>
     (let pkt = drop off (data b); pkt' = drop off (data b'); iphl = iph_of v6;
          at = unat (csumStart hdr) + unat (csumOffset hdr) in
        length (data b') = length (data b)
        \<and> decode e (drop (off - 10) (data b')) = Inr hdr
        \<and> (\<forall>m. m \<notin> ip_fixed v6 \<union> fixed \<union> {at, at + 1} \<longrightarrow> pkt' ! m = pkt ! m)
        \<and> ip_done e v6 iphl pkt'
        \<and> get16 pkt' at = Some (checksum e [] (pseudo_sum e proto v6 iphl pkt')))"

lemma take_upd_outside: "n \<le> i \<Longrightarrow> take n (drop m (xs[m + i := x])) = take n (drop m xs)"
  by (simp add: drop_update_swap)

lemma pseudo_sum_cong:
  assumes "length xs = length ys" and "\<And>m. m < iph_of v6 \<Longrightarrow> m < length ys \<Longrightarrow> xs ! m = ys ! m"
  shows "pseudo_sum e proto v6 iphl xs = pseudo_sum e proto v6 iphl ys"
proof -
  have take: "take n (drop m xs) = take n (drop m ys)" if "m + n \<le> iph_of v6" for m n
    using that assms by (intro nth_equalityI) auto
  have "src_at v6 + addr_len v6 + addr_len v6 \<le> iph_of v6"
    by (simp add: src_at_def addr_len_def iph_of_def)
  then show ?thesis
    using take [of "src_at v6" "addr_len v6"] take [of "src_at v6 + addr_len v6" "addr_len v6"] assms(1)
    by (simp add: pseudo_sum_def)
qed

lemma ip_done_cong:
  assumes "length xs = length ys" and "iphl \<le> length ys" "20 \<le> iphl" "\<And>m. m < iphl \<Longrightarrow> xs ! m = ys ! m"
  shows "ip_done e v6 iphl xs = ip_done e v6 iphl ys"
proof -
  have "take iphl xs = take iphl ys" using assms by (intro nth_equalityI) auto
  moreover have "get16 xs 4 = get16 ys 4" "get16 xs 2 = get16 ys 2"
    using assms by (auto simp: get16_def)
  ultimately show ?thesis using assms(1) by (simp add: ip_done_def)
qed

text \<open>
  The end of both loops: from a packet whose IP header is done to the written buffer. \<open>q\<close> is the
  packet after the transport length field, if there is one, has been set.
\<close>

lemma accounted_end:
  assumes off: "10 \<le> off" "off \<le> length (data b)"
    and q: "length q = length (drop off (data b))"
      "\<And>m. m \<notin> ip_fixed v6 \<union> fixed \<Longrightarrow> q ! m = drop off (data b) ! m"
      "ip_done e v6 (iph_of v6) q"
    and at: "at = unat (csumStart hdr) + unat (csumOffset hdr)" "iph_of v6 \<le> at" "at + 1 < length q"
    and c: "c = checksum e [] (pseudo_sum e proto v6 (iph_of v6) q)"
    and b': "data b' = take (off - 10) (data b) @ hdr_bytes e hdr
      @ q[at := ucast (drop_bit 8 c), at + 1 := ucast c]"
  shows "accounted e off proto v6 hdr fixed b b'"
proof -
  let ?r = "q[at := ucast (drop_bit 8 c), at + 1 := ucast c]"
  have d: "drop off (data b') = ?r" "drop (off - 10) (data b') = hdr_bytes e hdr @ ?r"
    using off by (simp_all add: b')
  have iph: "20 \<le> iph_of v6" by (simp add: iph_of_def)
  have same: "?r ! m = q ! m" if "m < iph_of v6" for m using that at by simp
  have "pseudo_sum e proto v6 (iph_of v6) ?r = pseudo_sum e proto v6 (iph_of v6) q"
    by (rule pseudo_sum_cong) (use same in simp_all)
  then have "get16 ?r at = Some (checksum e [] (pseudo_sum e proto v6 (iph_of v6) ?r))"
    using at by (simp add: get16_def be16_of_split c)
  moreover have "ip_done e v6 (iph_of v6) ?r"
    using q(3) ip_done_cong [of ?r q "iph_of v6" e v6] same at iph by simp
  moreover have "length (data b') = length (data b)" using off q(1) by (simp add: b')
  moreover have "?r ! m = drop off (data b) ! m" if "m \<notin> ip_fixed v6 \<union> fixed \<union> {at, at + 1}" for m
    using that q(2) by simp
  ultimately show ?thesis
    unfolding accounted_def Let_def d at(1) [symmetric] by (auto simp: decode_hdr_bytes)
qed

lemma unat_u16_ucast_u8: "unat (ucast (x :: u8) :: u16) = unat x"
  by (simp add: unsigned_ucast_eq take_bit_nat_eq_self unat_byte_less less_trans [OF unat_byte_less])

lemma unat_csum_at:
  assumes "unat (x :: u8) \<le> 40" and "unat (y :: u16) \<le> 100"
  shows "unat (ucast x + y) = unat (ucast x :: u16) + unat y"
  using assms by (simp add: unat_word_ariths unat_u16_ucast_u8)

lemma clear_buf_in:
  "10 \<le> off \<Longrightarrow> off \<le> length (data b) \<Longrightarrow> clear_buf off b = Some (cleared off b)"
  by (simp add: clear_buf_def go_simps virtioNetHdrLen_def cleared_def)

lemma iph_of_unat: "ip_len_ok v6 iphl \<Longrightarrow> unat iphl = iph_of v6"
  by (simp add: ip_len_ok_def iph_of_def)

lemma account_tcp_buf_spec:
  fixes item :: tcpGROItem
  assumes off: "10 \<le> off" and hdr: "tcp_hdr_ok (isV6 (key item)) (iphLen item) (tcphLen item)"
    and long: "off + tcp_hl (iphLen item) (tcphLen item) \<le> length (data b)"
  shows "\<exists>b'. account_tcp_buf e off item b = Some (None, b')
    \<and> (if numMerged item = 0 then b' = cleared off b
       else accounted e off IPPROTO_TCP (isV6 (key item)) (tcp_hdr item) {} b b')"
proof (cases "numMerged item = 0")
  case True
  then show ?thesis using off long by (simp add: account_tcp_buf_def clear_buf_in)
next
  case False
  let ?v6 = "isV6 (key item)" and ?pkt = "drop off (data b)"
  have iph: "unat (iphLen item) = iph_of ?v6" and thl: "20 \<le> unat (tcphLen item)"
    using hdr by (simp_all add: tcp_hdr_ok_def iph_of_unat)
  have offl: "off \<le> length (data b)" "iph_of ?v6 + 20 \<le> length ?pkt"
    using long thl iph by (simp_all add: tcp_hl_def)
  obtain q where q: "account_ip e ?v6 (iph_of ?v6) ?pkt = Some q" "length q = length ?pkt"
    "\<And>m. m \<notin> ip_fixed ?v6 \<Longrightarrow> q ! m = ?pkt ! m" "ip_done e ?v6 (iph_of ?v6) q"
    using account_ip_spec [OF refl, of ?v6 ?pkt e] offl(2) by auto
  define at where "at = unat (csumStart (tcp_hdr item)) + unat (csumOffset (tcp_hdr item))"
  have "unat (iphLen item) \<le> 40" using iph by (simp add: iph_of_def)
  then have csum: "unat (csumStart (tcp_hdr item) + csumOffset (tcp_hdr item)) = at" "at = iph_of ?v6 + 16"
    unfolding at_def by (simp_all add: tcp_hdr_def unat_csum_at unat_u16_ucast_u8 iph)
  define c where "c = checksum e [] (pseudo_sum e IPPROTO_TCP ?v6 (iph_of ?v6) q)"
  define b' where "b' = b\<lparr>data := take (off - 10) (data b) @ hdr_bytes e (tcp_hdr item)
      @ q[at := ucast (drop_bit 8 c), at + 1 := ucast c]\<rparr>"
  have pseudo: "account_pseudo e IPPROTO_TCP ?v6 (iph_of ?v6)
      (csumStart (tcp_hdr item) + csumOffset (tcp_hdr item)) q
      = Some (q[at := ucast (drop_bit 8 c), at + 1 := ucast c])"
    unfolding csum(1) [symmetric] c_def
    by (rule account_pseudo_spec) (use q(2) offl(2) csum in simp_all)
  have pos: "0 < numMerged item" using False by (simp add: word_neq_0_conv)
  have take: "take off (take (off - 10) (data b) @ hdr_bytes e (tcp_hdr item) @ q)
      = take (off - 10) (data b) @ hdr_bytes e (tcp_hdr item)"
    using off offl by simp
  have "account_tcp_buf e off item b = Some (None, b')"
    unfolding account_tcp_buf_def Let_def if_P [OF pos] slice_from_in [OF offl(1)] bind.bind_lunit
      iph q(1) tcp_hdr_def [symmetric] write_account_spec [OF off offl(1)] prod.case pseudo
    using take by (simp add: b'_def)
  moreover have "accounted e off IPPROTO_TCP ?v6 (tcp_hdr item) {} b b'"
    by (rule accounted_end [OF off offl(1) q(2) _ q(4) at_def _ _ c_def])
      (use q offl csum in \<open>simp_all add: b'_def\<close>)
  ultimately show ?thesis using False by simp
qed

lemma account_udp_buf_spec:
  fixes item :: udpGROItem
  assumes off: "10 \<le> off" and hdr: "ip_len_ok (isV6 (key item)) (iphLen item)"
    and long: "off + unat (iphLen item) + 8 \<le> length (data b)"
  shows "\<exists>b'. account_udp_buf e off item b = Some (None, b')
    \<and> (if numMerged item = 0 then b' = cleared off b
       else accounted e off IPPROTO_UDP (isV6 (key item)) (udp_hdr item)
              {iph_of (isV6 (key item)) + 4, iph_of (isV6 (key item)) + 5} b b'
            \<and> get16 (drop off (data b')) (iph_of (isV6 (key item)) + 4)
              = Some (of_nat (length (drop off (data b')) - iph_of (isV6 (key item)))))"
proof (cases "numMerged item = 0")
  case True
  then show ?thesis using off long by (simp add: account_udp_buf_def clear_buf_in)
next
  case False
  let ?v6 = "isV6 (key item)" and ?pkt = "drop off (data b)"
  have iph: "unat (iphLen item) = iph_of ?v6" using hdr by (simp add: iph_of_unat)
  have offl: "off \<le> length (data b)" "iph_of ?v6 + 8 \<le> length ?pkt"
    using long iph by simp_all
  obtain p where p: "account_ip e ?v6 (iph_of ?v6) ?pkt = Some p" "length p = length ?pkt"
    "\<And>m. m \<notin> ip_fixed ?v6 \<Longrightarrow> p ! m = ?pkt ! m" "ip_done e ?v6 (iph_of ?v6) p"
    using account_ip_spec [OF refl, of ?v6 ?pkt e] offl(2) by auto
  have small: "iph_of ?v6 \<le> 40" "20 \<le> iph_of ?v6" by (simp_all add: iph_of_def)
  have iph4: "unat (iphLen item + 4) = iph_of ?v6 + 4"
    using unat_add_u8 [of "iphLen item" 4] iph small by simp
  define w :: u16 where "w = of_nat (length (drop (iph_of ?v6) p))"
  have w': "of_nat (length p - iph_of ?v6) = w" by (simp add: w_def)
  define q where "q = p[iph_of ?v6 + 4 := ucast (drop_bit 8 w), iph_of ?v6 + 4 + 1 := ucast w]"
  have put: "put16 p (iph_of ?v6 + 4) w = Some q"
    using p(2) offl(2) by (simp add: put16_def q_def)
  have lq: "length q = length ?pkt" by (simp add: q_def p(2))
  have qd: "ip_done e ?v6 (iph_of ?v6) q"
    using p(4) ip_done_cong [of q p "iph_of ?v6" e ?v6] p(2) offl(2) small by (simp add: q_def)
  define at where "at = unat (csumStart (udp_hdr item)) + unat (csumOffset (udp_hdr item))"
  have "unat (iphLen item) \<le> 40" using iph by (simp add: iph_of_def)
  then have csum: "unat (csumStart (udp_hdr item) + csumOffset (udp_hdr item)) = at" "at = iph_of ?v6 + 6"
    unfolding at_def by (simp_all add: udp_hdr_def unat_csum_at unat_u16_ucast_u8 iph)
  define c where "c = checksum e [] (pseudo_sum e IPPROTO_UDP ?v6 (iph_of ?v6) q)"
  define b' where "b' = b\<lparr>data := take (off - 10) (data b) @ hdr_bytes e (udp_hdr item)
      @ q[at := ucast (drop_bit 8 c), at + 1 := ucast c]\<rparr>"
  have pseudo: "account_pseudo e IPPROTO_UDP ?v6 (iph_of ?v6)
      (csumStart (udp_hdr item) + csumOffset (udp_hdr item)) q
      = Some (q[at := ucast (drop_bit 8 c), at + 1 := ucast c])"
    unfolding csum(1) [symmetric] c_def
    by (rule account_pseudo_spec) (use lq offl(2) csum in simp_all)
  have pos: "0 < numMerged item" using False by (simp add: word_neq_0_conv)
  have pl: "iph_of ?v6 \<le> length p" using p(2) offl(2) by simp
  have take: "take off (take (off - 10) (data b) @ hdr_bytes e (udp_hdr item) @ p)
      = take (off - 10) (data b) @ hdr_bytes e (udp_hdr item)"
    using off offl by simp
  have run: "account_udp_buf e off item b = Some (None, b')"
    unfolding account_udp_buf_def Let_def if_P [OF pos] slice_from_in [OF offl(1)] bind.bind_lunit
      iph p(1) udp_hdr_def [symmetric] write_account_spec [OF off offl(1)] prod.case
    using take pseudo put by (simp add: b'_def slice_from_in [OF pl] iph4 w')
  have "q ! m = ?pkt ! m" if "m \<notin> ip_fixed ?v6 \<union> {iph_of ?v6 + 4, iph_of ?v6 + 5}" for m
    using that p(3) by (simp add: q_def)
  then have acc: "accounted e off IPPROTO_UDP ?v6 (udp_hdr item) {iph_of ?v6 + 4, iph_of ?v6 + 5} b b'"
    by (intro accounted_end [OF off offl(1) lq _ qd at_def _ _ c_def])
      (use lq offl csum in \<open>simp_all add: b'_def\<close>)
  have "get16 (drop off (data b')) (iph_of ?v6 + 4) = Some w"
    using off offl lq csum(2) by (simp add: b'_def get16_def q_def be16_of_split)
  moreover have "length (data b') = length (data b)"
    using acc by (simp add: accounted_def Let_def)
  then have "length (drop off (data b')) - iph_of ?v6 = length p - iph_of ?v6" using p(2) by simp
  ultimately show ?thesis using run acc False by (simp add: w_def)
qed

section \<open>All packets\<close>

text \<open>
  The loop over items with a buffer each: every buffer becomes what the body makes of it, the
  others stay.
\<close>

definition each_buf :: "('i \<Rightarrow> gobuf \<Rightarrow> (goerror option \<times> gobuf) option) \<Rightarrow> ('i \<Rightarrow> nat) \<Rightarrow> 'i set
    \<Rightarrow> gobuf list \<Rightarrow> gobuf list \<Rightarrow> bool" where
  "each_buf f at S bs bs' \<longleftrightarrow> length bs' = length bs
     \<and> (\<forall>x \<in> S. f x (bs ! at x) = Some (None, bs' ! at x))
     \<and> (\<forall>k < length bs. k \<notin> at ` S \<longrightarrow> bs' ! k = bs ! k)"

lemma each_buf_unique: "each_buf f at S bs bs' \<Longrightarrow> each_buf f at S bs bs'' \<Longrightarrow> bs' = bs''"
  by (rule nth_equalityI) (auto simp: each_buf_def, metis image_iff option.inject prod.inject)

lemma account_all_each:
  assumes "\<And>x. x \<in> set xs \<Longrightarrow> at x < length bs \<and> (\<exists>b'. f x (bs ! at x) = Some (None, b'))"
    and "distinct (map at xs)"
  shows "\<exists>bs'. account_all (\<lambda>x. account_at (f x) (at x)) xs bs = Some (None, bs')
    \<and> each_buf f at (set xs) bs bs'"
  using assms
proof (induction xs arbitrary: bs)
  case Nil
  then show ?case by (simp add: each_buf_def)
next
  case (Cons x xs)
  obtain b' where b': "f x (bs ! at x) = Some (None, b')" "at x < length bs" using Cons.prems(1) by auto
  let ?bs = "bs[at x := b']"
  have ne: "at y \<noteq> at x" if "y \<in> set xs" for y using Cons.prems(2) that by (metis distinct.simps(2) image_eqI image_set list.simps(9))
  have "\<exists>bs'. account_all (\<lambda>x. account_at (f x) (at x)) xs ?bs = Some (None, bs')
    \<and> each_buf f at (set xs) ?bs bs'"
  proof (rule Cons.IH)
    fix y assume y: "y \<in> set xs"
    then show "at y < length ?bs \<and> (\<exists>b'. f y (?bs ! at y) = Some (None, b'))"
      using Cons.prems(1) [of y] ne [OF y] by simp
  qed (use Cons.prems(2) in simp)
  then obtain bs' where bs': "account_all (\<lambda>x. account_at (f x) (at x)) xs ?bs = Some (None, bs')"
    "each_buf f at (set xs) ?bs bs'" by blast
  have "account_at (f x) (at x) bs = Some (None, ?bs)"
    using b' by (simp add: account_at_def go_simps)
  moreover have "each_buf f at (set (x # xs)) bs bs'"
    unfolding each_buf_def
  proof (intro conjI ballI allI impI)
    show "length bs' = length bs" using bs'(2) by (simp add: each_buf_def)
    have out: "at x \<notin> at ` set xs" using ne by force
    show "f y (bs ! at y) = Some (None, bs' ! at y)" if "y \<in> set (x # xs)" for y
    proof (cases "y \<in> set xs")
      case True
      then show ?thesis using bs'(2) ne [OF True] by (auto simp: each_buf_def)
    next
      case False
      then show ?thesis using that b' bs'(2) out by (simp add: each_buf_def)
    qed
    show "bs' ! k = bs ! k" if "k < length bs" "k \<notin> at ` set (x # xs)" for k
      using that bs'(2) by (auto simp: each_buf_def)
  qed
  ultimately show ?case using bs'(1) by simp
qed

lemma account_all_perm:
  assumes "\<And>x. x \<in> set xs \<Longrightarrow> at x < length bs \<and> (\<exists>b'. f x (bs ! at x) = Some (None, b'))"
    and "distinct (map at xs)" and "mset xs = mset ys"
  shows "account_all (\<lambda>x. account_at (f x) (at x)) xs bs = account_all (\<lambda>x. account_at (f x) (at x)) ys bs"
proof -
  have eq: "set xs = set ys" using assms(3) by (rule mset_eq_setD)
  have "mset (map at xs) = mset (map at ys)" using assms(3) by simp
  then have dist: "distinct (map at ys)" using assms(2) by (metis mset_eq_imp_distinct_iff)
  obtain bs' where bs': "account_all (\<lambda>x. account_at (f x) (at x)) xs bs = Some (None, bs')"
    "each_buf f at (set xs) bs bs'"
    using account_all_each [of xs at bs f] assms(1,2) by blast
  obtain bs'' where bs'': "account_all (\<lambda>x. account_at (f x) (at x)) ys bs = Some (None, bs'')"
    "each_buf f at (set ys) bs bs''"
    using account_all_each [of ys at bs f] assms(1) dist eq by blast
  show ?thesis using bs' bs'' each_buf_unique eq by metis
qed

end
