(* ===== verification/GROVector.thy ===== *)
theory GROVector
  imports GROAccount
begin

text \<open>
  \<open>handleGRO\<close> on a whole vector: it never panics, it writes every packet exactly once, alone or
  merged with others, and what it writes carries the payloads of its packets in order.
\<close>

section \<open>The loop\<close>

definition gro_inv :: "gobuf list \<Rightarrow> nat \<Rightarrow> nat \<Rightarrow> nat \<Rightarrow> nat \<Rightarrow> groState \<Rightarrow> bool" where
  "gro_inv orig off ct cu n s \<longleftrightarrow>
     (\<exists>parts. core orig off n (bufs s) (toWrite s) parts
        (tcp_entries (tcpTable s) + udp_entries (udpTable s)))
     \<and> tcp.good (tcpTable s) \<and> udp.good (udpTable s) \<and> no_empty_flow (udpTable s)
     \<and> tcp.capacity (tcpTable s) = ct \<and> udp.capacity (udpTable s) = cu
     \<and> card (dom (items_of (tcpTable s))) \<le> n \<and> card (dom (items_of (udpTable s))) \<le> n"

definition vector_ok :: "gobuf list \<Rightarrow> nat \<Rightarrow> nat \<Rightarrow> nat \<Rightarrow> bool" where
  "vector_ok orig off ct cu \<longleftrightarrow>
     10 \<le> off \<and> length orig \<le> ct \<and> length orig \<le> cu \<and> length orig \<le> 65536"

lemma gro_packet_inv:
  assumes inv: "gro_inv orig off ct cu n s" and v: "vector_ok orig off ct cu"
    and n: "n < length orig" "off < length (data (orig ! n))"
  shows "\<exists>r s'. gro_packet e off canUDP n s = Some (r, s')
    \<and> toWrite s' = toWrite s
    \<and> gro_post orig off n (toWrite s) r (bufs s') (tcp_entries (tcpTable s') + udp_entries (udpTable s'))
    \<and> tcp.good (tcpTable s') \<and> udp.good (udpTable s') \<and> no_empty_flow (udpTable s')
    \<and> tcp.capacity (tcpTable s') = ct \<and> udp.capacity (udpTable s') = cu
    \<and> card (dom (items_of (tcpTable s'))) \<le> Suc n \<and> card (dom (items_of (udpTable s'))) \<le> Suc n"
proof -
  obtain parts where c: "core orig off n (bufs s) (toWrite s) parts
      (tcp_entries (tcpTable s) + udp_entries (udpTable s))"
    using inv by (auto simp: gro_inv_def)
  have g: "tcp.good (tcpTable s)" "udp.good (udpTable s)" "no_empty_flow (udpTable s)"
    "tcp.capacity (tcpTable s) = ct" "udp.capacity (udpTable s) = cu"
    "card (dom (items_of (tcpTable s))) \<le> n" "card (dom (items_of (udpTable s))) \<le> n"
    using inv by (auto simp: gro_inv_def)
  have n': "n < 65536" "10 \<le> off" "card (dom (items_of (tcpTable s))) < tcp.capacity (tcpTable s)"
    "card (dom (items_of (udpTable s))) < udp.capacity (udpTable s)"
    using v n(1) g by (auto simp: vector_ok_def)
  note at = pkt_at_core [OF c n]
  let ?c = "packetIsGROCandidate (opkt orig off n) canUDP"
  consider (none) "?c = notGROCandidate" | (tcp) v6 where "?c = (if v6 then tcp6GROCandidate else tcp4GROCandidate)"
    | (udp) v6 where "?c = (if v6 then udp6GROCandidate else udp4GROCandidate)"
    by (cases ?c) (metis (full_types))+
  then show ?thesis
  proof cases
    case none
    then show ?thesis using g gro_noop [OF c] by (auto simp: gro_packet_def at)
  next
    case tcp
    obtain r bs' t' where r: "tcpGRO e (bufs s) off n (tcpTable s) v6 = Some (r, bs', t')"
      "gro_post orig off n (toWrite s) r bs' (tcp_entries t' + udp_entries (udpTable s))"
      "tcp.good t'" "tcp.capacity t' = tcp.capacity (tcpTable s)"
      "card (dom (items_of t')) \<le> card (dom (items_of (tcpTable s))) + 1"
      using tcpGRO_core [OF c g(1) n n'(1,2) candidate_input(1) [OF tcp] n'(3)] by blast
    then have "gro_packet e off canUDP n s = Some (r, s\<lparr>bufs := bs', tcpTable := t'\<rparr>)"
      using tcp by (cases v6) (simp_all add: gro_packet_def at)
    then show ?thesis using r g by simp
  next
    case udp
    obtain r bs' t' where r: "udpGRO e (bufs s) off n (udpTable s) v6 = Some (r, bs', t')"
      "gro_post orig off n (toWrite s) r bs' (tcp_entries (tcpTable s) + udp_entries t')"
      "udp.good t'" "no_empty_flow t'" "udp.capacity t' = udp.capacity (udpTable s)"
      "card (dom (items_of t')) \<le> card (dom (items_of (udpTable s))) + 1"
      using udpGRO_core [OF c g(2,3) n n'(1) candidate_input(2) [OF udp] n'(4)] by blast
    then have "gro_packet e off canUDP n s = Some (r, s\<lparr>bufs := bs', udpTable := t'\<rparr>)"
      using udp by (cases v6) (simp_all add: gro_packet_def at)
    then show ?thesis using r g by simp
  qed
qed

lemma gro_step_inv:
  assumes inv: "gro_inv orig off ct cu n s" and v: "vector_ok orig off ct cu"
    and n: "n < length orig"
  shows "if off < length (data (orig ! n))
    then \<exists>s'. gro_step e (int off) canUDP n s = Some (Inr s') \<and> gro_inv orig off ct cu (Suc n) s'
    else gro_step e (int off) canUDP n s = Some (Inl ErrInvalidOffset)"
proof -
  have b: "idx (bufs s) n = Some (orig ! n)"
    using inv n by (auto simp: gro_inv_def core_def idx_def)
  have ten: "10 \<le> off" using v by (simp add: vector_ok_def)
  show ?thesis
  proof (cases "off < length (data (orig ! n))")
    case False
    then show ?thesis by (simp add: gro_step_def b virtioNetHdrLen_def)
  next
    case True
    have guard: "\<not> (int off < int virtioNetHdrLen \<or> int off > int (length (data (orig ! n))) - 1)"
      using True ten by (simp add: virtioNetHdrLen_def)
    obtain r s' where r: "gro_packet e off canUDP n s = Some (r, s')" "toWrite s' = toWrite s"
      "gro_post orig off n (toWrite s) r (bufs s') (tcp_entries (tcpTable s') + udp_entries (udpTable s'))"
      "tcp.good (tcpTable s')" "udp.good (udpTable s')" "no_empty_flow (udpTable s')"
      "tcp.capacity (tcpTable s') = ct" "udp.capacity (udpTable s') = cu"
      "card (dom (items_of (tcpTable s'))) \<le> Suc n" "card (dom (items_of (udpTable s'))) \<le> Suc n"
      using gro_packet_inv [OF inv v n True] by blast
    note step = gro_step_def b bind.bind_lunit if_not_P [OF guard] nat_int r(1) prod.case
    have "\<exists>s''. gro_step e (int off) canUDP n s = Some (Inr s'') \<and> gro_inv orig off ct cu (Suc n) s''"
    proof (cases r)
      case groResultNoop
      then obtain parts where c: "core orig off n (bufs s') (toWrite s) parts
          (tcp_entries (tcpTable s') + udp_entries (udpTable s'))"
        using r(3) by (auto simp: gro_post_def)
      have "n < length (bufs s')" "bufs s' ! n = orig ! n" using c n by (auto simp: core_def)
      then have clr: "clear_hdr (bufs s') off n = Some ((bufs s')[n := cleared off (bufs s' ! n)])"
        using ten True by (intro clear_hdr_in) simp_all
      show ?thesis
        unfolding step groResultNoop groResult.case clr using core_noop [OF c n ten True] r
        by (auto simp: gro_inv_def)
    next
      case groResultTableInsert
      then show ?thesis
        unfolding step groResultTableInsert groResult.case
        using r(3) [unfolded gro_post_def groResultTableInsert groResult.case] r(2,4-10) by (auto simp: gro_inv_def)
    next
      case groResultCoalesced
      then show ?thesis
        unfolding step groResultCoalesced groResult.case
        using r(3) [unfolded gro_post_def groResultCoalesced groResult.case] r(2,4-10) by (auto simp: gro_inv_def)
    qed
    then show ?thesis using True by simp
  qed
qed

lemma gro_loop_inv:
  assumes v: "vector_ok orig off ct cu" and "gro_inv orig off ct cu n s" and "n \<le> length orig"
  shows "\<exists>n' s'. gro_loop e (int off) canUDP [n..<length orig] s
      = Some (if n' < length orig then Some ErrInvalidOffset else None, s')
    \<and> n' \<le> length orig \<and> gro_inv orig off ct cu n' s'
    \<and> (\<forall>k. n \<le> k \<longrightarrow> k < n' \<longrightarrow> off < length (data (orig ! k)))
    \<and> (n' < length orig \<longrightarrow> length (data (orig ! n')) \<le> off)"
  using assms(2,3)
proof (induction "length orig - n" arbitrary: n s)
  case 0
  then show ?case by (intro exI [of _ n]) auto
next
  case (Suc d)
  then have n: "n < length orig" by simp
  note step = gro_step_inv [OF Suc.prems(1) v n, of e canUDP]
  show ?case
  proof (cases "off < length (data (orig ! n))")
    case False
    then show ?thesis
      using step n Suc.prems(1) by (intro exI [of _ n]) (simp add: upt_conv_Cons)
  next
    case True
    then obtain s1 where s1: "gro_step e (int off) canUDP n s = Some (Inr s1)"
      "gro_inv orig off ct cu (Suc n) s1"
      using step by auto
    have d: "d = length orig - Suc n" and le: "Suc n \<le> length orig" using Suc.hyps(2) n by simp_all
    obtain n' s' where r: "gro_loop e (int off) canUDP [Suc n..<length orig] s1
        = Some (if n' < length orig then Some ErrInvalidOffset else None, s')"
      "n' \<le> length orig" "gro_inv orig off ct cu n' s'"
      "\<forall>k. Suc n \<le> k \<longrightarrow> k < n' \<longrightarrow> off < length (data (orig ! k))"
      "n' < length orig \<longrightarrow> length (data (orig ! n')) \<le> off"
      using Suc.hyps(1) [OF d s1(2) le] by blast
    have "\<forall>k. n \<le> k \<longrightarrow> k < n' \<longrightarrow> off < length (data (orig ! k))"
      using r(4) True by (metis Suc_leI le_neq_implies_less)
    then show ?thesis
      using r s1 n by (intro exI [of _ n'] exI [of _ s']) (simp add: upt_conv_Cons)
  qed
qed

section \<open>The accounting of all items\<close>

text \<open>What is written at \<open>k\<close>, made of the packets \<open>ps\<close>: a packet on its own or a merged one.\<close>

definition written_tcp :: "endian \<Rightarrow> nat \<Rightarrow> gobuf list \<Rightarrow> nat list \<Rightarrow> gobuf \<Rightarrow> bool" where
  "written_tcp e off orig ps b' \<longleftrightarrow> (\<exists>item b. numMerged item \<noteq> 0 \<and> tcp_ent_ok orig off b ps item
     \<and> accounted e off IPPROTO_TCP (isV6 (key item)) (tcp_hdr item) {} b b')"

definition written_udp :: "endian \<Rightarrow> nat \<Rightarrow> gobuf list \<Rightarrow> nat list \<Rightarrow> gobuf \<Rightarrow> bool" where
  "written_udp e off orig ps b' \<longleftrightarrow> (\<exists>item b. numMerged item \<noteq> 0 \<and> udp_ent_ok orig off b ps item
     \<and> accounted e off IPPROTO_UDP (isV6 (key item)) (udp_hdr item)
         {iph_of (isV6 (key item)) + 4, iph_of (isV6 (key item)) + 5} b b'
     \<and> get16 (drop off (data b')) (iph_of (isV6 (key item)) + 4)
         = Some (of_nat (length (drop off (data b')) - iph_of (isV6 (key item)))))"

definition written :: "endian \<Rightarrow> nat \<Rightarrow> gobuf list \<Rightarrow> nat list \<Rightarrow> nat \<Rightarrow> gobuf \<Rightarrow> bool" where
  "written e off orig ps k b' \<longleftrightarrow>
     ps = [k] \<and> data b' = data (cleared off (orig ! k))
     \<or> written_tcp e off orig ps b' \<or> written_udp e off orig ps b'"

lemma tcp_ent_hdr:
  "tcp_ent_ok orig off b ps item \<Longrightarrow> tcp_hdr_ok (isV6 (key item)) (iphLen item) (tcphLen item)"
  using tcp_ent_okD(6) [of orig off b ps item "hd ps"] tcp_ent_okD(11) [of orig off b ps item]
  by (simp add: tcp_cand_def)

lemma udp_ent_hdr:
  "udp_ent_ok orig off b ps item \<Longrightarrow> ip_len_ok (isV6 (key item)) (iphLen item)"
  using udp_ent_okD(6) [of orig off b ps item "hd ps"] udp_ent_okD(9) [of orig off b ps item]
  by (simp add: udp_cand_def)

lemma cleared_written:
  assumes "parts = [k]" and "data b = data (orig ! k)"
  shows "written e off orig parts k (cleared off b)"
  using assms by (simp add: written_def cleared_def)

lemma account_tcp_entry:
  assumes ok: "tcp_ent_ok orig off b ps item" and off: "10 \<le> off" and k: "k = unat (bufsIndex item)"
  obtains b' where "account_tcp_buf e off item b = Some (None, b')" "written e off orig ps k b'"
proof -
  have long: "off + tcp_hl (iphLen item) (tcphLen item) \<le> length (data b)"
    using tcp_ent_okD(2) [OF ok] by (simp add: segments_def)
  obtain b' where b': "account_tcp_buf e off item b = Some (None, b')"
    "if numMerged item = 0 then b' = cleared off b
     else accounted e off IPPROTO_TCP (isV6 (key item)) (tcp_hdr item) {} b b'"
    using account_tcp_buf_spec [OF off tcp_ent_hdr [OF ok] long] by blast
  have "written e off orig ps k b'"
  proof (cases "numMerged item = 0")
    case True
    then show ?thesis
      using tcp_ent_okD(4) [OF ok True] b'(2) k by (simp add: cleared_written)
  next
    case False
    then show ?thesis using ok b'(2) by (auto simp: written_def written_tcp_def)
  qed
  with b'(1) show thesis by (rule that)
qed

lemma account_udp_entry:
  assumes ok: "udp_ent_ok orig off b ps item" and off: "10 \<le> off" and k: "k = unat (bufsIndex item)"
  obtains b' where "account_udp_buf e off item b = Some (None, b')" "written e off orig ps k b'"
proof -
  have long: "off + unat (iphLen item) + 8 \<le> length (data b)"
    using udp_ent_okD(2) [OF ok] by (simp add: segments_def add.assoc)
  obtain b' where b': "account_udp_buf e off item b = Some (None, b')"
    "if numMerged item = 0 then b' = cleared off b
     else accounted e off IPPROTO_UDP (isV6 (key item)) (udp_hdr item)
              {iph_of (isV6 (key item)) + 4, iph_of (isV6 (key item)) + 5} b b'
            \<and> get16 (drop off (data b')) (iph_of (isV6 (key item)) + 4)
              = Some (of_nat (length (drop off (data b')) - iph_of (isV6 (key item))))"
    using account_udp_buf_spec [OF off udp_ent_hdr [OF ok] long] by blast
  have "written e off orig ps k b'"
  proof (cases "numMerged item = 0")
    case True
    then show ?thesis
      using udp_ent_okD(4) [OF ok True] b'(2) k by (simp add: cleared_written)
  next
    case False
    then show ?thesis using ok b'(2) by (auto simp: written_def written_udp_def)
  qed
  with b'(1) show thesis by (rule that)
qed

abbreviation buf_at :: "('k, 'm) groItem_scheme \<Rightarrow> nat" where
  "buf_at item \<equiv> unat (bufsIndex item)"

lemma distinct_sub_mset:
  assumes "mset xs \<subseteq># mset ys" and "distinct ys"
  shows "distinct xs"
proof -
  obtain M where "mset ys = mset xs + M" using assms(1) by (auto simp: mset_subset_eq_exists_conv)
  moreover obtain zs where "mset zs = M" using ex_mset by blast
  ultimately have "mset ys = mset (xs @ zs)" by simp
  then have "distinct (xs @ zs)" using assms(2) mset_eq_imp_distinct_iff by blast
  then show ?thesis by simp
qed

text \<open>The items of both tables have a buffer each.\<close>

lemma core_distinct:
  assumes "core orig off n bs tw parts (tcp_entries t + udp_entries u)"
  shows "distinct (map buf_at (all_items t) @ map buf_at (all_items u))"
proof -
  have "mset (map buf_at (all_items t) @ map buf_at (all_items u))
      = image_mset ent_idx (tcp_entries t + udp_entries u)"
    by (simp add: tracked_def multiset.map_comp comp_def)
  also have "\<dots> \<subseteq># mset tw" using assms by (simp add: core_def)
  finally have "mset (map buf_at (all_items t) @ map buf_at (all_items u)) \<subseteq># mset tw" .
  moreover have "distinct tw" using assms by (auto simp: core_def strict_sorted_iff)
  ultimately show ?thesis by (rule distinct_sub_mset)
qed

lemma accounting_spec:
  assumes c: "core orig off n bs tw parts (tcp_entries t + udp_entries u)" and off: "10 \<le> off"
  obtains bs1 bs2 where "applyTCPCoalesceAccounting e bs off t = Some (None, bs1)"
    "applyUDPCoalesceAccounting e bs1 off u = Some (None, bs2)"
    "length bs2 = length bs" "\<And>k. k \<in> set tw \<Longrightarrow> written e off orig (parts k) k (bs2 ! k)"
    "\<And>k. k < length bs \<Longrightarrow> k \<notin> set tw \<Longrightarrow> bs2 ! k = bs ! k"
proof -
  let ?T = "set (all_items t)" and ?U = "set (all_items u)"
  have E: "TcpE x \<in># tcp_entries t + udp_entries u" if "x \<in> ?T" for x
    using that by (simp add: tracked_def)
  have F: "UdpE x \<in># tcp_entries t + udp_entries u" if "x \<in> ?U" for x
    using that by (simp add: tracked_def)
  have dist: "distinct (map buf_at (all_items t))" "distinct (map buf_at (all_items u))"
    "buf_at ` ?T \<inter> buf_at ` ?U = {}"
    using core_distinct [OF c] by auto
  have T: "buf_at x \<in> set tw" "buf_at x < length bs" "tcp_ent_ok orig off (bs ! buf_at x) (parts (buf_at x)) x"
    if "x \<in> ?T" for x
    using core_idx [OF c E [OF that]] by simp_all
  have U: "buf_at x \<in> set tw" "buf_at x < length bs" "udp_ent_ok orig off (bs ! buf_at x) (parts (buf_at x)) x"
    if "x \<in> ?U" for x
    using core_idx [OF c F [OF that]] by simp_all
  have "buf_at x < length bs \<and> (\<exists>b'. account_tcp_buf e off x (bs ! buf_at x) = Some (None, b'))"
    if "x \<in> ?T" for x
    using T(2) [OF that] account_tcp_entry [OF T(3) [OF that] off refl] by blast
  then obtain bs1 where bs1: "applyTCPCoalesceAccounting e bs off t = Some (None, bs1)"
    "each_buf (account_tcp_buf e off) buf_at ?T bs bs1"
    unfolding applyTCPCoalesceAccounting_def account_tcp_item_def
    using account_all_each [of "all_items t" buf_at bs "account_tcp_buf e off"] dist(1) by blast
  have keep: "bs1 ! buf_at x = bs ! buf_at x" if "x \<in> ?U" for x
  proof -
    have "buf_at x \<notin> buf_at ` ?T" using that dist(3) by blast
    then show ?thesis using bs1(2) U(2) [OF that] by (simp add: each_buf_def)
  qed
  have len1: "length bs1 = length bs" using bs1(2) by (simp add: each_buf_def)
  have "buf_at x < length bs1 \<and> (\<exists>b'. account_udp_buf e off x (bs1 ! buf_at x) = Some (None, b'))"
    if "x \<in> ?U" for x
    using U(2) [OF that] account_udp_entry [OF U(3) [OF that] off refl] keep [OF that] len1 by metis
  then obtain bs2 where bs2: "applyUDPCoalesceAccounting e bs1 off u = Some (None, bs2)"
    "each_buf (account_udp_buf e off) buf_at ?U bs1 bs2"
    unfolding applyUDPCoalesceAccounting_def account_udp_item_def
    using account_all_each [of "all_items u" buf_at bs1 "account_udp_buf e off"] dist(2) by blast
  have len2: "length bs2 = length bs" using bs2(2) len1 by (simp add: each_buf_def)
  have rest: "bs2 ! k = bs ! k" if "k < length bs" "k \<notin> buf_at ` ?T" "k \<notin> buf_at ` ?U" for k
    using bs1(2) bs2(2) that by (simp add: each_buf_def)
  have wr: "written e off orig (parts k) k (bs2 ! k)" if k: "k \<in> set tw" for k
  proof -
    have kl: "k < length bs" using k c by (auto simp: core_def)
    consider (tcp) x where "x \<in> ?T" "k = buf_at x" | (udp) x where "x \<in> ?U" "k = buf_at x"
      | (none) "k \<notin> buf_at ` ?T" "k \<notin> buf_at ` ?U" by blast
    then show ?thesis
    proof cases
      case tcp
      have "k \<notin> buf_at ` ?U" using tcp dist(3) by blast
      then have "bs2 ! k = bs1 ! k" using bs2(2) kl len1 by (simp add: each_buf_def)
      moreover have "account_tcp_buf e off x (bs ! buf_at x) = Some (None, bs1 ! k)"
        using bs1(2) tcp by (simp add: each_buf_def)
      ultimately show ?thesis
        using account_tcp_entry [OF T(3) [OF tcp(1)] off tcp(2)] tcp(2) by (metis option.inject prod.inject)
    next
      case udp
      have "account_udp_buf e off x (bs ! buf_at x) = Some (None, bs2 ! k)"
        using bs2(2) udp(1) unfolding each_buf_def udp(2) keep [OF udp(1), symmetric] by blast
      then show ?thesis
        using account_udp_entry [OF U(3) [OF udp(1)] off udp(2)] udp(2) by (metis option.inject prod.inject)
    next
      case none
      have "k \<notin># image_mset ent_idx (tcp_entries t + udp_entries u)"
        using none by (auto simp: tracked_def)
      then have "parts k = [k] \<and> data (bs ! k) = data (cleared off (orig ! k))"
        using c k unfolding core_def by blast
      then show ?thesis using rest [OF kl none] by (simp add: written_def)
    qed
  qed
  have "bs2 ! k = bs ! k" if "k < length bs" "k \<notin> set tw" for k
    using rest [OF that(1)] T(1) U(1) that(2) by blast
  then show thesis using that bs1(1) bs2(1) len2 wr by blast
qed

end
