(* ===== verification/GROProps.thy ===== *)
theory GROProps
  imports GROVector
begin

text \<open>
  The properties of \<open>handleGRO\<close>, stated over the vector before and after.
\<close>

section \<open>The state Write calls it in\<close>

text \<open>
  The tables are empty, with at least as many pooled slices as there are packets, indices fit
  \<open>uint16\<close>, and no buffer is larger than the code's own bound allows for packets of 64 KiB.
\<close>

definition fresh_table :: "('k, 'i) groTable \<Rightarrow> bool" where
  "fresh_table t \<longleftrightarrow> itemsByFlow t = [] \<and> set (itemsPool t) \<subseteq> {[]}"

definition gro_ready :: "int \<Rightarrow> groState \<Rightarrow> bool" where
  "gro_ready offset s \<longleftrightarrow> toWrite s = [] \<and> fresh_table (tcpTable s) \<and> fresh_table (udpTable s)
     \<and> length (bufs s) \<le> length (itemsPool (tcpTable s))
     \<and> length (bufs s) \<le> length (itemsPool (udpTable s))
     \<and> length (bufs s) \<le> 65536
     \<and> (\<forall>b \<in> set (bufs s). int (capacity b) \<le> 2 * offset + 65535)"

definition offsets_ok :: "int \<Rightarrow> groState \<Rightarrow> bool" where
  "offsets_ok offset s \<longleftrightarrow> (\<forall>b \<in> set (bufs s). 10 \<le> offset \<and> offset < int (length (data b)))"

text \<open>
  A small instance: two IPv4 TCP segments with consecutive sequence numbers and a packet too short
  to be looked at, behind ten bytes of headroom.
\<close>

definition demo_segment :: "byte \<Rightarrow> byte \<Rightarrow> byte list" where
  "demo_segment sq x = [0x45, 0, 0, 42, 0, 0, 0, 0, 64, 6, 0, 0, 192, 0, 2, 1, 192, 0, 2, 2,
     0, 1, 0, 2, 0, 0, 0, sq, 0, 0, 0, 1, 0x50, 0x10, 1, 0, 0, 0, 0, 0, x, x]"

definition demo_state :: groState where
  "demo_state = \<lparr>bufs = [\<lparr>data = replicate 10 0 @ demo_segment 1 7, capacity = 100\<rparr>,
       \<lparr>data = replicate 10 0 @ demo_segment 3 8, capacity = 100\<rparr>,
       \<lparr>data = replicate 10 1 @ [1, 2, 3], capacity = 100\<rparr>],
     tcpTable = newTCPGROTable 3, udpTable = newUDPGROTable 3, toWrite = []\<rparr>"

lemma demo_ready: "gro_ready 10 demo_state"
  by (simp add: gro_ready_def demo_state_def fresh_table_def newTCPGROTable_def newUDPGROTable_def)

lemma demo_offsets: "offsets_ok 10 demo_state"
  by (simp add: offsets_ok_def demo_state_def demo_segment_def)

lemma demo_vector: "[0..<length (bufs demo_state)] = [0, 1, 2]"
  by (simp add: demo_state_def upt_rec)

lemma items_of_fresh: "fresh_table t \<Longrightarrow> items_of t = Map.empty"
  by (rule ext) (simp add: items_of_def fresh_table_def)

lemma fresh_good_tcp:
  fixes t :: tcpGROTable
  assumes "fresh_table t"
  shows "tcp.good t" and "tcp.capacity t = length (itemsPool t)" and "tracked t = {#}"
  using assms items_of_fresh [OF assms]
  by (auto simp: tcp.good_def tcp.keyed_def tcp.capacity_def table_inv_def fresh_table_def
      pool_free_def tracked_def all_items_def)

lemma fresh_good_udp:
  fixes t :: udpGROTable
  assumes "fresh_table t"
  shows "udp.good t" and "udp.capacity t = length (itemsPool t)" and "tracked t = {#}" "no_empty_flow t"
  using assms items_of_fresh [OF assms]
  by (auto simp: udp.good_def udp.keyed_def udp.capacity_def table_inv_def fresh_table_def
      pool_free_def tracked_def all_items_def no_empty_flow_def)

lemma ready_inv:
  assumes r: "gro_ready (int off) s" and off: "10 \<le> off"
  shows "gro_inv (bufs s) off (length (itemsPool (tcpTable s))) (length (itemsPool (udpTable s))) 0 s"
    and "vector_ok (bufs s) off (length (itemsPool (tcpTable s))) (length (itemsPool (udpTable s)))"
proof -
  have t: "fresh_table (tcpTable s)" "fresh_table (udpTable s)" "toWrite s = []"
    using r by (auto simp: gro_ready_def)
  have "\<forall>k < length (bufs s). capacity (bufs s ! k) \<le> 2 * off + 65535"
  proof (intro allI impI)
    fix k assume "k < length (bufs s)"
    then have "int (capacity (bufs s ! k)) \<le> 2 * int off + 65535"
      using r nth_mem unfolding gro_ready_def by blast
    then show "capacity (bufs s ! k) \<le> 2 * off + 65535" by linarith
  qed
  then have "core (bufs s) off 0 (bufs s) [] (\<lambda>_. []) {#}" by (rule core_empty)
  then show "gro_inv (bufs s) off (length (itemsPool (tcpTable s))) (length (itemsPool (udpTable s))) 0 s"
    using t fresh_good_tcp [OF t(1)] fresh_good_udp [OF t(2)]
    by (auto simp: gro_inv_def items_of_fresh)
  show "vector_ok (bufs s) off (length (itemsPool (tcpTable s))) (length (itemsPool (udpTable s)))"
    using r off by (auto simp: gro_ready_def vector_ok_def)
qed

section \<open>What handleGRO returns\<close>

text \<open>The tables it leaves: well formed, every slice of the pools accounted for.\<close>

definition tables_kept :: "groState \<Rightarrow> groState \<Rightarrow> bool" where
  "tables_kept s s' \<longleftrightarrow> tcp.good (tcpTable s') \<and> udp.good (udpTable s')
     \<and> tcp.capacity (tcpTable s') = length (itemsPool (tcpTable s))
     \<and> udp.capacity (udpTable s') = length (itemsPool (udpTable s))"

lemma handleGRO_ok:
  assumes r: "gro_ready (int off) s" and off: "10 \<le> off"
    and valid: "\<forall>b \<in> set (bufs s). off < length (data b)"
  obtains s' parts where "handleGRO e (int off) canUDP s = Some ([], s')"
    "sorted_wrt (<) (toWrite s')" "set (toWrite s') \<subseteq> {..<length (bufs s)}"
    "mset (concat (map parts (toWrite s'))) = mset [0..<length (bufs s)]"
    "\<And>k. k \<in> set (toWrite s') \<Longrightarrow> written e off (bufs s) (parts k) k (bufs s' ! k)"
    "length (bufs s') = length (bufs s)" "tables_kept s s'"
proof -
  note i = ready_inv [OF r off]
  obtain n' s1 where l: "gro_loop e (int off) canUDP [0..<length (bufs s)] s
      = Some (if n' < length (bufs s) then Some ErrInvalidOffset else None, s1)"
    "n' \<le> length (bufs s)"
    "gro_inv (bufs s) off (length (itemsPool (tcpTable s))) (length (itemsPool (udpTable s))) n' s1"
    "\<forall>k. 0 \<le> k \<longrightarrow> k < n' \<longrightarrow> off < length (data (bufs s ! k))"
    "n' < length (bufs s) \<longrightarrow> length (data (bufs s ! n')) \<le> off"
    using gro_loop_inv [OF i(2,1) le0, of e canUDP] by (elim exE conjE) (erule (4) that)
  have n': "n' = length (bufs s)"
  proof (rule ccontr)
    assume "n' \<noteq> length (bufs s)"
    then have "n' < length (bufs s)" using l(2) by simp
    then show False using l(5) valid nth_mem [of n' "bufs s"] by fastforce
  qed
  obtain parts where c: "core (bufs s) off n' (bufs s1) (toWrite s1) parts
      (tcp_entries (tcpTable s1) + udp_entries (udpTable s1))"
    using l(3) by (auto simp: gro_inv_def)
  have inv: "sorted_wrt (<) (toWrite s1)" "set (toWrite s1) \<subseteq> {..<length (bufs s)}"
    "mset (concat (map parts (toWrite s1))) = mset [0..<length (bufs s)]"
    "length (bufs s1) = length (bufs s)"
    using c unfolding core_def n' by blast+
  have kept: "tables_kept s (s1\<lparr>bufs := bs2\<rparr>)" for bs2
    using l(3) by (simp add: gro_inv_def tables_kept_def)
  show thesis
  proof (rule accounting_spec [OF c off, of e])
    fix bs1 bs2
    assume a: "applyTCPCoalesceAccounting e (bufs s1) off (tcpTable s1) = Some (None, bs1)"
      "applyUDPCoalesceAccounting e bs1 off (udpTable s1) = Some (None, bs2)"
      "length bs2 = length (bufs s1)"
      and w: "\<And>k. k \<in> set (toWrite s1) \<Longrightarrow> written e off (bufs s) (parts k) k (bs2 ! k)"
    have run: "handleGRO e (int off) canUDP s = Some ([], s1\<lparr>bufs := bs2\<rparr>)"
      using l(1) n' a(1,2) by (simp add: handleGRO_def)
    show thesis
      by (rule that [OF run, of parts]) (use inv a(3) w kept in simp_all)
  qed
qed

lemma handleGRO_bad_offset:
  assumes r: "gro_ready offset s" and bad: "\<not> offsets_ok offset s"
  obtains s' where "handleGRO e offset canUDP s = Some ([ErrInvalidOffset], s')" "tables_kept s s'"
proof (cases "10 \<le> offset")
  case False
  have t: "fresh_table (tcpTable s)" "fresh_table (udpTable s)" using r by (auto simp: gro_ready_def)
  have ne: "bufs s \<noteq> []" using bad by (auto simp: offsets_ok_def)
  then have "[0..<length (bufs s)] = 0 # [1..<length (bufs s)]" by (simp add: upt_conv_Cons)
  moreover have "gro_step e offset canUDP 0 s = Some (Inl ErrInvalidOffset)"
    using False ne by (simp add: gro_step_def idx_def virtioNetHdrLen_def)
  ultimately have "handleGRO e offset canUDP s = Some ([ErrInvalidOffset], s)"
    by (simp add: handleGRO_def)
  moreover have "tables_kept s s"
    using fresh_good_tcp [OF t(1)] fresh_good_udp [OF t(2)] by (simp add: tables_kept_def)
  ultimately show thesis by (rule that)
next
  case True
  define off where "off = nat offset"
  have o: "offset = int off" "10 \<le> off" using True by (simp_all add: off_def)
  note i = ready_inv [OF r [unfolded o(1)] o(2)]
  obtain n' s1 where l: "gro_loop e (int off) canUDP [0..<length (bufs s)] s
      = Some (if n' < length (bufs s) then Some ErrInvalidOffset else None, s1)"
    "n' \<le> length (bufs s)"
    "gro_inv (bufs s) off (length (itemsPool (tcpTable s))) (length (itemsPool (udpTable s))) n' s1"
    "\<forall>k. 0 \<le> k \<longrightarrow> k < n' \<longrightarrow> off < length (data (bufs s ! k))"
    "n' < length (bufs s) \<longrightarrow> length (data (bufs s ! n')) \<le> off"
    using gro_loop_inv [OF i(2,1) le0, of e canUDP] by (elim exE conjE) (erule (4) that)
  obtain k where "k < length (bufs s)" "length (data (bufs s ! k)) \<le> off"
    using bad o by (auto simp: offsets_ok_def in_set_conv_nth not_less)
  then have "n' < length (bufs s)" using l(4) by (meson leI le_less_trans less_irrefl zero_le)
  then have "handleGRO e offset canUDP s = Some ([ErrInvalidOffset], s1)"
    using l(1) o by (simp add: handleGRO_def)
  moreover have "tables_kept s s1" using l(3) by (auto simp: gro_inv_def tables_kept_def)
  ultimately show thesis by (rule that)
qed

definition gro_outcome :: "endian \<Rightarrow> nat \<Rightarrow> groState \<Rightarrow> groState \<Rightarrow> (nat \<Rightarrow> nat list) \<Rightarrow> bool" where
  "gro_outcome e off s s' parts \<longleftrightarrow>
     sorted_wrt (<) (toWrite s') \<and> set (toWrite s') \<subseteq> {..<length (bufs s)}
     \<and> mset (concat (map parts (toWrite s'))) = mset [0..<length (bufs s)]
     \<and> (\<forall>k \<in> set (toWrite s'). written e off (bufs s) (parts k) k (bufs s' ! k))
     \<and> length (bufs s') = length (bufs s) \<and> tables_kept s s'"

lemma handleGRO_outcome:
  assumes r: "gro_ready offset s" and ok: "offsets_ok offset s"
  obtains s' parts where "handleGRO e offset canUDP s = Some ([], s')"
    "gro_outcome e (nat offset) s s' parts"
proof (cases "bufs s = []")
  case True
  have t: "fresh_table (tcpTable s)" "fresh_table (udpTable s)" "toWrite s = []"
    using r by (auto simp: gro_ready_def)
  have run: "handleGRO e offset canUDP s = Some ([], s)"
    using True t by (simp add: handleGRO_def applyTCPCoalesceAccounting_def
        applyUDPCoalesceAccounting_def all_items_def fresh_table_def)
  have "gro_outcome e (nat offset) s s (\<lambda>_. [])"
    using True t fresh_good_tcp [OF t(1)] fresh_good_udp [OF t(2)]
    by (simp add: gro_outcome_def tables_kept_def)
  with run show thesis by (rule that)
next
  case False
  define off where "off = nat offset"
  have "10 \<le> offset" using False ok by (auto simp: offsets_ok_def neq_Nil_conv)
  then have o: "offset = int off" "10 \<le> off" by (simp_all add: off_def)
  have valid: "\<forall>b \<in> set (bufs s). off < length (data b)" using ok o by (simp add: offsets_ok_def)
  show thesis
  proof (rule handleGRO_ok [OF r [unfolded o(1)] o(2) valid, of e canUDP])
    fix s' parts
    assume a: "handleGRO e (int off) canUDP s = Some ([], s')"
      "sorted_wrt (<) (toWrite s')" "set (toWrite s') \<subseteq> {..<length (bufs s)}"
      "mset (concat (map parts (toWrite s'))) = mset [0..<length (bufs s)]"
      "\<And>k. k \<in> set (toWrite s') \<Longrightarrow> written e off (bufs s) (parts k) k (bufs s' ! k)"
      "length (bufs s') = length (bufs s)" "tables_kept s s'"
    then have "gro_outcome e (nat offset) s s' parts"
      by (simp add: gro_outcome_def off_def [symmetric])
    with a(1) o(1) show thesis by (intro that) simp_all
  qed
qed

lemma handleGRO_outcome_of:
  assumes r: "gro_ready offset s" and run: "handleGRO e offset canUDP s = Some ([], s')"
  obtains parts where "gro_outcome e (nat offset) s s' parts"
proof (cases "offsets_ok offset s")
  case True
  show thesis
    by (rule handleGRO_outcome [OF r True, of e canUDP]) (use run that in simp)
next
  case False
  show thesis
    by (rule handleGRO_bad_offset [OF r False, of e canUDP]) (use run in simp)
qed

lemma written_cases:
  assumes "written e off orig ps k b'"
  obtains (single) "ps = [k]" "data b' = data (cleared off (orig ! k))"
  | (tcp) item b where "2 \<le> length ps" "tcp_ent_ok orig off b ps item"
      "accounted e off IPPROTO_TCP (isV6 (key item)) (tcp_hdr item) {} b b'"
  | (udp) item b where "2 \<le> length ps" "udp_ent_ok orig off b ps item"
      "accounted e off IPPROTO_UDP (isV6 (key item)) (udp_hdr item)
         {iph_of (isV6 (key item)) + 4, iph_of (isV6 (key item)) + 5} b b'"
proof -
  have two: "2 \<le> length ps" if "length ps = unat (m :: u16) + 1" "m \<noteq> 0" for m
    using that by (simp add: unat_gt_0 Suc_le_eq word_neq_0_conv)
  consider "ps = [k]" "data b' = data (cleared off (orig ! k))"
    | "written_tcp e off orig ps b'" | "written_udp e off orig ps b'"
    using assms by (auto simp: written_def)
  then show thesis
  proof cases
    case 1
    then show thesis by (rule single)
  next
    case 2
    then show thesis
      unfolding written_tcp_def using tcp tcp_ent_okD(3) two by blast
  next
    case 3
    then show thesis
      unfolding written_udp_def using udp udp_ent_okD(3) two by blast
  qed
qed

section \<open>Totality\<close>

text \<open>
  C8. On every vector, whatever bytes its packets hold, \<open>handleGRO\<close> returns: no
  index, reslice or division of it or of the functions it calls panics. It fails if and only if
  \<open>offset\<close> does not leave room for the header or lies past the end of some buffer, with
  \<open>errInvalidOffset\<close> alone. The tables it leaves are well formed and have lost no pooled slice.
\<close>

theorem handleGRO_total:
  assumes "gro_ready offset s"
  shows "\<exists>errs s'. handleGRO e offset canUDP s = Some (errs, s')
    \<and> errs = (if offsets_ok offset s then [] else [ErrInvalidOffset])
    \<and> tcp.good (tcpTable s') \<and> udp.good (udpTable s')
    \<and> tcp.capacity (tcpTable s') = length (itemsPool (tcpTable s))
    \<and> udp.capacity (udpTable s') = length (itemsPool (udpTable s))"
proof (cases "offsets_ok offset s")
  case True
  show ?thesis
    by (rule handleGRO_outcome [OF assms True, of e canUDP])
      (use True in \<open>auto simp: gro_outcome_def tables_kept_def\<close>)
next
  case False
  show ?thesis
    by (rule handleGRO_bad_offset [OF assms False, of e canUDP])
      (use False in \<open>auto simp: tables_kept_def\<close>)
qed

theorem handleGRO_total_witness:
  "\<exists>errs s'. handleGRO LittleE 10 True demo_state = Some (errs, s')
    \<and> errs = (if offsets_ok 10 demo_state then [] else [ErrInvalidOffset])
    \<and> tcp.good (tcpTable s') \<and> udp.good (udpTable s')
    \<and> tcp.capacity (tcpTable s') = length (itemsPool (tcpTable demo_state))
    \<and> udp.capacity (udpTable s') = length (itemsPool (udpTable demo_state))"
  by (rule handleGRO_total [OF demo_ready, of LittleE True])

section \<open>Every packet is written exactly once\<close>

lemma accounted_drop:
  assumes "accounted e off proto v6 hdr fixed b b'" and "off + hl \<le> length (data b)"
    and "\<And>m. hl \<le> m \<Longrightarrow> m \<notin> ip_fixed v6 \<union> fixed
           \<union> {unat (csumStart hdr) + unat (csumOffset hdr), unat (csumStart hdr) + unat (csumOffset hdr) + 1}"
  shows "drop (off + hl) (data b') = drop (off + hl) (data b)"
proof (rule nth_equalityI)
  have len: "length (data b') = length (data b)" using assms(1) by (simp add: accounted_def Let_def)
  then show "length (drop (off + hl) (data b')) = length (drop (off + hl) (data b))" by simp
  fix m assume "m < length (drop (off + hl) (data b'))"
  then have m: "off + (hl + m) < length (data b)" using len by simp
  have "drop off (data b') ! (hl + m) = drop off (data b) ! (hl + m)"
    using assms(1,3) unfolding accounted_def Let_def by auto
  then show "drop (off + hl) (data b') ! m = drop (off + hl) (data b) ! m"
    using m len by (simp add: add.assoc)
qed

lemma tcp_accounted_drop:
  assumes "tcp_ent_ok orig off b ps item"
    and "accounted e off IPPROTO_TCP (isV6 (key item)) (tcp_hdr item) {} b b'"
  shows "drop (off + tcp_hl (iphLen item) (tcphLen item)) (data b')
    = concat (map (\<lambda>p. drop (off + tcp_hl (iphLen item) (tcphLen item)) (data (orig ! p))) ps)"
proof -
  let ?hl = "tcp_hl (iphLen item) (tcphLen item)"
  have seg: "segments orig off b ?hl (unat (gsoSize item)) ps" by (rule tcp_ent_okD(2) [OF assms(1)])
  have h: "unat (iphLen item) = iph_of (isV6 (key item))" "20 \<le> unat (tcphLen item)"
    "unat (iphLen item) + 20 \<le> ?hl"
    using tcp_ent_hdr [OF assms(1)] by (auto simp: tcp_hdr_ok_def iph_of_unat tcp_hl_def)
  have at: "unat (csumStart (tcp_hdr item)) + unat (csumOffset (tcp_hdr item)) = unat (iphLen item) + 16"
    by (simp add: tcp_hdr_def unat_u16_ucast_u8)
  have "drop (off + ?hl) (data b') = drop (off + ?hl) (data b)"
  proof (rule accounted_drop [OF assms(2)])
    show "off + ?hl \<le> length (data b)" using seg by (simp add: segments_def)
    show "m \<notin> ip_fixed (isV6 (key item)) \<union> {} \<union> {unat (csumStart (tcp_hdr item)) + unat (csumOffset (tcp_hdr item)),
        unat (csumStart (tcp_hdr item)) + unat (csumOffset (tcp_hdr item)) + 1}" if "?hl \<le> m" for m
      unfolding at using that h by (auto simp: ip_fixed_def iph_of_def split: if_splits)
  qed
  then show ?thesis using seg by (simp add: segments_def drop_opkt)
qed

lemma udp_accounted_drop:
  assumes "udp_ent_ok orig off b ps item"
    and "accounted e off IPPROTO_UDP (isV6 (key item)) (udp_hdr item)
         {iph_of (isV6 (key item)) + 4, iph_of (isV6 (key item)) + 5} b b'"
  shows "drop (off + (unat (iphLen item) + 8)) (data b')
    = concat (map (\<lambda>p. drop (off + (unat (iphLen item) + 8)) (data (orig ! p))) ps)"
proof -
  let ?hl = "unat (iphLen item) + 8" and ?v6 = "isV6 (key item)"
  have seg: "segments orig off b ?hl (unat (gsoSize item)) ps" by (rule udp_ent_okD(2) [OF assms(1)])
  have h: "unat (iphLen item) = iph_of ?v6" using udp_ent_hdr [OF assms(1)] by (simp add: iph_of_unat)
  have at: "unat (csumStart (udp_hdr item)) + unat (csumOffset (udp_hdr item)) = unat (iphLen item) + 6"
    by (simp add: udp_hdr_def unat_u16_ucast_u8)
  have "drop (off + ?hl) (data b') = drop (off + ?hl) (data b)"
  proof (rule accounted_drop [OF assms(2)])
    show "off + ?hl \<le> length (data b)" using seg by (simp add: segments_def)
    show "m \<notin> ip_fixed ?v6 \<union> {iph_of ?v6 + 4, iph_of ?v6 + 5}
        \<union> {unat (csumStart (udp_hdr item)) + unat (csumOffset (udp_hdr item)),
           unat (csumStart (udp_hdr item)) + unat (csumOffset (udp_hdr item)) + 1}" if "?hl \<le> m" for m
      unfolding at using that h by (auto simp: ip_fixed_def iph_of_def split: if_splits)
  qed
  then show ?thesis using seg by (simp add: segments_def drop_opkt)
qed

text \<open>
  C1. No packet is lost, duplicated or torn. The indices to be written are
  strictly increasing; a list of original packets goes with each of them, and together these lists
  hold every packet of the vector exactly once. What is written at an index is either its own
  packet, unchanged behind an empty header, or headers of some length \<open>hl\<close> followed by the
  payloads of its packets, in the order of the list and nothing else.
\<close>

theorem handleGRO_partition:
  assumes "gro_ready offset s" and "offsets_ok offset s"
  shows "\<exists>s' parts. handleGRO e offset canUDP s = Some ([], s')
    \<and> sorted_wrt (<) (toWrite s')
    \<and> mset (concat (map parts (toWrite s'))) = mset [0..<length (bufs s)]
    \<and> (\<forall>k \<in> set (toWrite s'). let old = \<lambda>p. data (bufs s ! p); new = data (bufs s' ! k); off = nat offset in
         parts k = [k] \<and> new = take (off - 10) (old k) @ replicate 10 0 @ drop off (old k)
         \<or> 2 \<le> length (parts k)
           \<and> (\<exists>hl. (\<forall>p \<in> set (parts k). off + hl < length (old p))
                \<and> drop (off + hl) new = concat (map (\<lambda>p. drop (off + hl) (old p)) (parts k))))"
proof (rule handleGRO_outcome [OF assms, of e canUDP])
  fix s' parts
  assume run: "handleGRO e offset canUDP s = Some ([], s')" and o: "gro_outcome e (nat offset) s s' parts"
  let ?off = "nat offset"
  have "parts k = [k] \<and> data (bufs s' ! k) = data (cleared ?off (bufs s ! k))
         \<or> 2 \<le> length (parts k)
           \<and> (\<exists>hl. (\<forall>p \<in> set (parts k). ?off + hl < length (data (bufs s ! p)))
                \<and> drop (?off + hl) (data (bufs s' ! k))
                  = concat (map (\<lambda>p. drop (?off + hl) (data (bufs s ! p))) (parts k)))"
    if "k \<in> set (toWrite s')" for k
  proof -
    have w: "written e ?off (bufs s) (parts k) k (bufs s' ! k)" using o that by (simp add: gro_outcome_def)
    have long: "?off + hl < length (data (bufs s ! p))" if "segments (bufs s) ?off b hl g (parts k)" "p \<in> set (parts k)"
      for hl g b p using that by (auto simp: segments_def opkt_def)
    show ?thesis
      using w
    proof (cases rule: written_cases)
      case single
      then show ?thesis by simp
    next
      case (tcp item b)
      then show ?thesis using tcp_accounted_drop [OF tcp(2,3)] long [OF tcp_ent_okD(2) [OF tcp(2)]] by blast
    next
      case (udp item b)
      then show ?thesis using udp_accounted_drop [OF udp(2,3)] long [OF udp_ent_okD(2) [OF udp(2)]] by blast
    qed
  qed
  then show ?thesis using run o by (auto simp: gro_outcome_def cleared_def Let_def)
qed

theorem handleGRO_partition_witness:
  "\<exists>s' parts. handleGRO LittleE 10 True demo_state = Some ([], s')
    \<and> sorted_wrt (<) (toWrite s')
    \<and> mset (concat (map parts (toWrite s'))) = mset [0, 1, 2 :: nat]"
  using handleGRO_partition [OF demo_ready demo_offsets, of LittleE True] unfolding demo_vector by blast

section \<open>What is merged with what\<close>

text \<open>
  A run of TCP segments: all of one flow and of one header shape, each starting at the sequence
  number where the one before it ends, all of \<open>g\<close> bytes but the last, which may be shorter, and
  none but the last with the PSH flag. A run of UDP datagrams: the same without sequence numbers.
\<close>

definition tcp_run :: "nat \<Rightarrow> byte list list \<Rightarrow> bool" where
  "tcp_run g pkts \<longleftrightarrow> (\<exists>v6 iphl thl k. let hl = tcp_hl iphl thl in
     (\<forall>x \<in> set pkts. tcp_cand v6 iphl thl k x \<and> ip_class x = ip_class (hd pkts)
        \<and> tcp_opts iphl thl x = tcp_opts iphl thl (hd pkts))
     \<and> (\<forall>m. Suc m < length pkts \<longrightarrow> length (pkts ! m) = hl + g \<and> \<not> psh_of (unat iphl) (pkts ! m)
          \<and> tcp_seq (unat iphl) (pkts ! Suc m) = tcp_seq (unat iphl) (pkts ! m) + of_nat (length (pkts ! m) - hl))
     \<and> length (last pkts) \<le> hl + g)"

definition udp_run :: "nat \<Rightarrow> byte list list \<Rightarrow> bool" where
  "udp_run g pkts \<longleftrightarrow> (\<exists>v6 iphl k. let hl = unat iphl + 8 in
     (\<forall>x \<in> set pkts. udp_cand v6 iphl k x \<and> ip_class x = ip_class (hd pkts))
     \<and> (\<forall>m. Suc m < length pkts \<longrightarrow> length (pkts ! m) = hl + g)
     \<and> length (last pkts) \<le> hl + g)"

lemma decode_empty:
  "decode e (replicate 10 0 @ rest) = Inr \<lparr>flags = 0, gsoType = VIRTIO_NET_HDR_GSO_NONE, hdrLen = 0,
     hdrGsoSize = 0, csumStart = 0, csumOffset = 0\<rparr>"
proof -
  have "replicate 10 0 = hdr_bytes e \<lparr>flags = 0, gsoType = VIRTIO_NET_HDR_GSO_NONE, hdrLen = 0,
     hdrGsoSize = 0, csumStart = 0, csumOffset = 0\<rparr>"
    by (simp add: hdr_bytes_def native_bytes16_def eval_nat_numeral VIRTIO_NET_HDR_GSO_NONE_def
        split: endian.split)
  then show ?thesis by (simp only: decode_hdr_bytes)
qed

lemma nth_butlast_set: "Suc m < length xs \<Longrightarrow> xs ! m \<in> set (butlast xs)"
  by (metis Suc_lessE diff_Suc_1 length_butlast nth_butlast nth_mem)

lemma tcp_ent_run:
  assumes ok: "tcp_ent_ok orig off b ps item"
  shows "tcp_run (unat (gsoSize item)) (map (opkt orig off) ps)"
proof -
  let ?hl = "tcp_hl (iphLen item) (tcphLen item)" and ?g = "unat (gsoSize item)"
    and ?i = "unat (iphLen item)" and ?P = "opkt orig off"
  note o = tcp_ent_okD [OF ok]
  have sizes: "length (?P p) = ?hl + ?g" if "p \<in> set (butlast ps)" for p
    using o(2) that by (simp add: segments_def)
  have step: "length (?P (ps ! m)) = ?hl + ?g \<and> \<not> psh_of ?i (?P (ps ! m))
      \<and> tcp_seq ?i (?P (ps ! Suc m)) = tcp_seq ?i (?P (ps ! m)) + of_nat (length (?P (ps ! m)) - ?hl)"
    if "Suc m < length ps" for m
  proof -
    note b = nth_butlast_set [OF that]
    have "tcp_seq ?i (?P (ps ! Suc m)) = tcp_seq ?i (?P (ps ! m)) + of_nat ?g"
    proof -
      have "tcp_seq ?i (?P (ps ! Suc m)) = sentSeq item + of_nat (Suc m * ?g)" by (rule o(8) [OF that])
      also have "\<dots> = (sentSeq item + of_nat (m * ?g)) + of_nat ?g" by simp
      also have "sentSeq item + of_nat (m * ?g) = tcp_seq ?i (?P (ps ! m))"
        using o(8) [of m] that by simp
      finally show ?thesis .
    qed
    then show ?thesis using sizes [OF b] o(9) [OF b] by simp
  qed
  have last: "length (?P (last ps)) \<le> ?hl + ?g" using o(2) by (simp add: segments_def)
  have all: "tcp_cand (isV6 (key item)) (iphLen item) (tcphLen item) (key item) x
      \<and> ip_class x = ip_class (hd (map ?P ps))
      \<and> tcp_opts (iphLen item) (tcphLen item) x = tcp_opts (iphLen item) (tcphLen item) (hd (map ?P ps))"
    if x: "x \<in> set (map ?P ps)" for x
  proof -
    obtain p where p: "p \<in> set ps" "x = ?P p" using x by auto
    show ?thesis using o(6) [OF p(1)] o(7) [OF p(1)] o(11) by (simp add: p(2) hd_map)
  qed
  have steps: "\<forall>m. Suc m < length (map ?P ps) \<longrightarrow> length (map ?P ps ! m) = ?hl + ?g
      \<and> \<not> psh_of ?i (map ?P ps ! m) \<and> tcp_seq ?i (map ?P ps ! Suc m)
        = tcp_seq ?i (map ?P ps ! m) + of_nat (length (map ?P ps ! m) - ?hl)"
    using step by simp
  have "length (last (map ?P ps)) \<le> ?hl + ?g" using last o(11) by (simp add: last_map)
  then show ?thesis unfolding tcp_run_def Let_def using steps all by blast
qed

lemma udp_ent_run:
  assumes ok: "udp_ent_ok orig off b ps item"
  shows "udp_run (unat (gsoSize item)) (map (opkt orig off) ps)"
proof -
  let ?hl = "unat (iphLen item) + 8" and ?g = "unat (gsoSize item)" and ?P = "opkt orig off"
  note o = udp_ent_okD [OF ok]
  have sizes: "length (?P (ps ! m)) = ?hl + ?g" if "Suc m < length ps" for m
    using o(2) nth_butlast_set [OF that] by (simp add: segments_def)
  have last: "length (?P (last ps)) \<le> ?hl + ?g" using o(2) by (simp add: segments_def)
  have all: "udp_cand (isV6 (key item)) (iphLen item) (key item) x \<and> ip_class x = ip_class (hd (map ?P ps))"
    if x: "x \<in> set (map ?P ps)" for x
  proof -
    obtain p where p: "p \<in> set ps" "x = ?P p" using x by auto
    show ?thesis using o(6) [OF p(1)] o(7) [OF p(1)] o(9) by (simp add: p(2) hd_map)
  qed
  have steps: "\<forall>m. Suc m < length (map ?P ps) \<longrightarrow> length (map ?P ps ! m) = ?hl + ?g"
    using sizes by simp
  have "length (last (map ?P ps)) \<le> ?hl + ?g" using last o(9) by (simp add: last_map)
  then show ?thesis unfolding udp_run_def Let_def using steps all by blast
qed

text \<open>
  How a \<open>virtioNetHdr\<close> tells the kernel to cut a packet with the headers of \<open>x\<close>: the type names the transport protocol
  and, for TCP, the version that the first byte of \<open>x\<close> carries; the checksum is completed from the end of the IP header
  on, which has 20 bytes or 40, at the place of the protocol's checksum; and the headers end where the data offset of
  the TCP header says, or after the 8 bytes of a UDP header.
\<close>

definition cuts :: "bool \<Rightarrow> virtioNetHdr \<Rightarrow> byte list \<Rightarrow> bool" where
  "cuts tcp h x \<longleftrightarrow>
     (let version = drop_bit 4 (x ! 0); iphl = (if version = 6 then 40 else 20) in
        (version = 4 \<or> version = 6)
        \<and> gsoType h = (if \<not> tcp then VIRTIO_NET_HDR_GSO_UDP_L4
                       else if version = 6 then VIRTIO_NET_HDR_GSO_TCPV6 else VIRTIO_NET_HDR_GSO_TCPV4)
        \<and> unat (csumStart h) = iphl \<and> csumOffset h = (if tcp then 16 else 6)
        \<and> unat (hdrLen h) = iphl + (if tcp then 4 * unat (drop_bit 4 (x ! (iphl + 12))) else 8))"

lemma tcp_cuts:
  assumes "tcp_cand (isV6 (key item)) (iphLen item) (tcphLen item) k x"
  shows "cuts True (tcp_hdr item) x"
proof -
  let ?v6 = "isV6 (key item)"
  have h: "tcp_hdr_ok ?v6 (iphLen item) (tcphLen item)" and v: "drop_bit 4 (x ! 0) = (if ?v6 then 6 else 4)"
    and t: "drop_bit 4 (x ! (unat (iphLen item) + 12)) * 4 = tcphLen item"
    using assms by (simp_all add: tcp_cand_def ip_version_def)
  have i: "unat (iphLen item) = (if ?v6 then 40 else 20)" using h by (simp add: tcp_hdr_ok_def ip_len_ok_def)
  have "unat (drop_bit 4 (x ! (unat (iphLen item) + 12))) = unat (x ! (unat (iphLen item) + 12)) div 16"
    by (simp add: unat_div_distrib drop_bit_eq_div)
  then have "unat (drop_bit 4 (x ! (unat (iphLen item) + 12))) < 16"
    using unat_byte_less [of "x ! (unat (iphLen item) + 12)"] by simp
  then have "unat (tcphLen item) = 4 * unat (drop_bit 4 (x ! (unat (iphLen item) + 12)))"
    unfolding t [symmetric] by (simp add: unat_word_ariths)
  moreover have "unat (iphLen item + tcphLen item) = unat (iphLen item) + unat (tcphLen item)"
    using tcp_hdr_ok_sums(1) [OF h] by (simp add: tcp_hl_def)
  ultimately show ?thesis using i v by (simp add: cuts_def tcp_hdr_def unat_u16_ucast_u8)
qed

lemma udp_cuts:
  assumes "udp_cand (isV6 (key item)) (iphLen item) k x"
  shows "cuts False (udp_hdr item) x"
proof -
  let ?v6 = "isV6 (key item)"
  have i: "unat (iphLen item) = (if ?v6 then 40 else 20)" and v: "drop_bit 4 (x ! 0) = (if ?v6 then 6 else 4)"
    using assms by (simp_all add: udp_cand_def ip_version_def ip_len_ok_def)
  then have "unat (iphLen item + of_nat udphLen) = unat (iphLen item) + 8"
    using unat_add_u8 [of "iphLen item" 8] by (simp add: udphLen_def)
  then show ?thesis using i v by (simp add: cuts_def udp_hdr_def unat_u16_ucast_u8)
qed



section \<open>The headers of a merged packet\<close>

definition merged_headers :: "endian \<Rightarrow> byte list \<Rightarrow> byte list \<Rightarrow> bool" where
  "merged_headers e first x \<longleftrightarrow> (\<exists>v6 hl. let iphl = iph_of v6 in
     ip_done e v6 iphl x \<and> iphl < hl \<and> hl < length first \<and> hl < length x
     \<and> (get16 x (iphl + 16) = Some (checksum e [] (pseudo_sum e IPPROTO_TCP v6 iphl x))
          \<and> (\<forall>m < hl. m \<notin> ip_fixed v6 \<union> {iphl + 13, iphl + 16, iphl + 17} \<longrightarrow> x ! m = first ! m)
        \<or> get16 x (iphl + 6) = Some (checksum e [] (pseudo_sum e IPPROTO_UDP v6 iphl x))
          \<and> get16 x (iphl + 4) = Some (of_nat (length x - iphl))
          \<and> (\<forall>m < hl. m \<notin> ip_fixed v6 \<union> {iphl + 4, iphl + 5, iphl + 6, iphl + 7} \<longrightarrow> x ! m = first ! m)))"

lemma tcp_merged_nth:
  assumes ok: "tcp_ent_ok orig off b ps item"
    and acc: "accounted e off IPPROTO_TCP (isV6 (key item)) (tcp_hdr item) {} b b'"
    and m: "m < tcp_hl (iphLen item) (tcphLen item)"
      "m \<notin> ip_fixed (isV6 (key item)) \<union> {iph_of (isV6 (key item)) + 13, iph_of (isV6 (key item)) + 16,
         iph_of (isV6 (key item)) + 17}"
  shows "drop off (data b') ! m = opkt orig off (hd ps) ! m"
proof -
  note o = tcp_ent_okD [OF ok]
  have h: "unat (iphLen item) = iph_of (isV6 (key item))"
    using tcp_ent_hdr [OF ok] by (simp add: tcp_hdr_ok_def iph_of_unat)
  have at: "unat (csumStart (tcp_hdr item)) + unat (csumOffset (tcp_hdr item)) = iph_of (isV6 (key item)) + 16"
    by (simp add: tcp_hdr_def unat_u16_ucast_u8 h)
  have "drop off (data b') ! m = drop off (data b) ! m"
    using acc m(2) unfolding accounted_def Let_def at by auto
  moreover have "off + tcp_hl (iphLen item) (tcphLen item) \<le> length (data b)"
    "tcp_hl (iphLen item) (tcphLen item) < length (opkt orig off (hd ps))"
    using o(2,11) by (simp_all add: segments_def)
  then have "drop off (data b) ! m = opkt orig off (hd ps) ! m"
    using m(2) by (intro same_hdr_nth [OF o(5) m(1)]) (simp_all add: h)
  ultimately show ?thesis by simp
qed

lemma udp_merged_nth:
  assumes ok: "udp_ent_ok orig off b ps item"
    and acc: "accounted e off IPPROTO_UDP (isV6 (key item)) (udp_hdr item)
         {iph_of (isV6 (key item)) + 4, iph_of (isV6 (key item)) + 5} b b'"
    and m: "m < unat (iphLen item) + 8"
      "m \<notin> ip_fixed (isV6 (key item)) \<union> {iph_of (isV6 (key item)) + 4, iph_of (isV6 (key item)) + 5,
         iph_of (isV6 (key item)) + 6, iph_of (isV6 (key item)) + 7}"
  shows "drop off (data b') ! m = opkt orig off (hd ps) ! m"
proof -
  note o = udp_ent_okD [OF ok]
  have h: "unat (iphLen item) = iph_of (isV6 (key item))" using udp_ent_hdr [OF ok] by (simp add: iph_of_unat)
  have at: "unat (csumStart (udp_hdr item)) + unat (csumOffset (udp_hdr item)) = iph_of (isV6 (key item)) + 6"
    by (simp add: udp_hdr_def unat_u16_ucast_u8 h)
  have "drop off (data b') ! m = drop off (data b) ! m"
    using acc m(2) unfolding accounted_def Let_def at by auto
  moreover have "drop off (data b) ! m = opkt orig off (hd ps) ! m"
    using arg_cong [OF o(5), of "\<lambda>xs. xs ! m"] m(1) o(2,9) by (simp add: segments_def)
  ultimately show ?thesis by simp
qed

lemma tcp_merged_length:
  assumes ok: "tcp_ent_ok orig off b ps item"
    and acc: "accounted e off IPPROTO_TCP (isV6 (key item)) (tcp_hdr item) {} b b'"
  shows "tcp_hl (iphLen item) (tcphLen item) < length (drop off (data b'))"
    and "length (drop off (data b')) \<le> 65535"
proof -
  note o = tcp_ent_okD [OF ok]
  have "length ps \<le> length (data b) - (off + tcp_hl (iphLen item) (tcphLen item))"
    by (rule segments_count [OF o(2)])
  moreover have "0 < length ps" using o(11) by simp
  moreover have "length (data b') = length (data b)" using acc by (simp add: accounted_def Let_def)
  ultimately show "tcp_hl (iphLen item) (tcphLen item) < length (drop off (data b'))"
    by (simp del: length_greater_0_conv)
  show "length (drop off (data b')) \<le> 65535"
  proof -
    have "length (data b) \<le> off + 65535" using o(2) by (simp add: segments_def)
    then show ?thesis
      unfolding length_drop \<open>length (data b') = length (data b)\<close> by linarith
  qed
qed

lemma udp_merged_length:
  assumes ok: "udp_ent_ok orig off b ps item"
    and acc: "accounted e off IPPROTO_UDP (isV6 (key item)) (udp_hdr item)
         {iph_of (isV6 (key item)) + 4, iph_of (isV6 (key item)) + 5} b b'"
  shows "unat (iphLen item) + 8 < length (drop off (data b'))" and "length (drop off (data b')) \<le> 65535"
proof -
  note o = udp_ent_okD [OF ok]
  have "length ps \<le> length (data b) - (off + (unat (iphLen item) + 8))"
    by (rule segments_count [OF o(2)])
  moreover have "0 < length ps" using o(9) by simp
  moreover have "length (data b') = length (data b)" using acc by (simp add: accounted_def Let_def)
  ultimately show "unat (iphLen item) + 8 < length (drop off (data b'))"
    by (simp del: length_greater_0_conv)
  show "length (drop off (data b')) \<le> 65535"
  proof -
    have "length (data b) \<le> off + 65535" using o(2) by (simp add: segments_def)
    then show ?thesis
      unfolding length_drop \<open>length (data b') = length (data b)\<close> by linarith
  qed
qed

lemma tcp_merged_headers:
  assumes ok: "tcp_ent_ok orig off b ps item"
    and acc: "accounted e off IPPROTO_TCP (isV6 (key item)) (tcp_hdr item) {} b b'"
  shows "merged_headers e (opkt orig off (hd ps)) (drop off (data b'))"
proof -
  let ?v6 = "isV6 (key item)" and ?x = "drop off (data b')" and ?hl = "tcp_hl (iphLen item) (tcphLen item)"
  note o = tcp_ent_okD [OF ok]
  have h: "unat (iphLen item) = iph_of ?v6" "20 \<le> unat (tcphLen item)"
    using tcp_ent_hdr [OF ok] by (simp_all add: tcp_hdr_ok_def iph_of_unat)
  have at: "unat (csumStart (tcp_hdr item)) + unat (csumOffset (tcp_hdr item)) = iph_of ?v6 + 16"
    by (simp add: tcp_hdr_def unat_u16_ucast_u8 h)
  have a: "ip_done e ?v6 (iph_of ?v6) ?x"
    "get16 ?x (iph_of ?v6 + 16) = Some (checksum e [] (pseudo_sum e IPPROTO_TCP ?v6 (iph_of ?v6) ?x))"
    using acc unfolding accounted_def Let_def at by auto
  have "?hl < length (opkt orig off (hd ps))" "iph_of ?v6 < ?hl"
    using o(2,11) h by (simp_all add: segments_def tcp_hl_def)
  then show ?thesis
    unfolding merged_headers_def Let_def
    using a tcp_merged_length(1) [OF ok acc] tcp_merged_nth [OF ok acc] by blast
qed

lemma udp_merged_headers:
  assumes ok: "udp_ent_ok orig off b ps item"
    and acc: "accounted e off IPPROTO_UDP (isV6 (key item)) (udp_hdr item)
         {iph_of (isV6 (key item)) + 4, iph_of (isV6 (key item)) + 5} b b'"
    and len: "get16 (drop off (data b')) (iph_of (isV6 (key item)) + 4)
         = Some (of_nat (length (drop off (data b')) - iph_of (isV6 (key item))))"
  shows "merged_headers e (opkt orig off (hd ps)) (drop off (data b'))"
proof -
  let ?v6 = "isV6 (key item)" and ?x = "drop off (data b')" and ?hl = "unat (iphLen item) + 8"
  note o = udp_ent_okD [OF ok]
  have h: "unat (iphLen item) = iph_of ?v6" using udp_ent_hdr [OF ok] by (simp add: iph_of_unat)
  have at: "unat (csumStart (udp_hdr item)) + unat (csumOffset (udp_hdr item)) = iph_of ?v6 + 6"
    by (simp add: udp_hdr_def unat_u16_ucast_u8 h)
  have a: "ip_done e ?v6 (iph_of ?v6) ?x"
    "get16 ?x (iph_of ?v6 + 6) = Some (checksum e [] (pseudo_sum e IPPROTO_UDP ?v6 (iph_of ?v6) ?x))"
    using acc unfolding accounted_def Let_def at by auto
  have "?hl < length (opkt orig off (hd ps))" "iph_of ?v6 < ?hl" using o(2,9) h by (simp_all add: segments_def)
  then show ?thesis
    unfolding merged_headers_def Let_def
    using a len udp_merged_length(1) [OF ok acc] udp_merged_nth [OF ok acc] by blast
qed



section \<open>Map iteration order\<close>

text \<open>
  Go iterates over a map in an unspecified order. The outcome of the accounting
  does not depend on it: any reordering of the flows of the tables that the loop of \<open>handleGRO\<close>
  has filled gives the same buffers and the same errors.
\<close>

theorem accounting_order:
  assumes "gro_ready offset s" and "10 \<le> offset"
    and "gro_loop e offset canUDP [0..<length (bufs s)] s = Some (None, s1)"
    and "mset (itemsByFlow t) = mset (itemsByFlow (tcpTable s1))"
    and "mset (itemsByFlow u) = mset (itemsByFlow (udpTable s1))"
  shows "applyTCPCoalesceAccounting e (bufs s1) (nat offset) t
      = applyTCPCoalesceAccounting e (bufs s1) (nat offset) (tcpTable s1)
    \<and> applyUDPCoalesceAccounting e (bufs s1) (nat offset) u
      = applyUDPCoalesceAccounting e (bufs s1) (nat offset) (udpTable s1)"
proof -
  define off where "off = nat offset"
  have o: "offset = int off" "10 \<le> off" using assms(2) by (simp_all add: off_def)
  note i = ready_inv [OF assms(1) [unfolded o(1)] o(2)]
  obtain n where "gro_inv (bufs s) off (length (itemsPool (tcpTable s))) (length (itemsPool (udpTable s))) n s1"
    using gro_loop_inv [OF i(2,1) le0, of e canUDP] assms(3) unfolding o(1) by auto
  then obtain parts where c: "core (bufs s) off n (bufs s1) (toWrite s1) parts
      (tcp_entries (tcpTable s1) + udp_entries (udpTable s1))"
    by (auto simp: gro_inv_def)
  have all: "mset (all_items t) = mset (all_items t')" if "mset (itemsByFlow t) = mset (itemsByFlow t')"
    for t t' :: "('k, 'i) groTable"
  proof -
    have "mset (all_items t) = sum_mset (image_mset (mset \<circ> snd) (mset (itemsByFlow t)))"
      for t :: "('k, 'i) groTable"
      by (simp add: all_items_def mset_concat comp_def flip: sum_mset_sum_list)
    then show ?thesis using that by simp
  qed
  note eqs = all [OF assms(4)] all [OF assms(5)]
  have dist: "distinct (map buf_at (all_items t))" "distinct (map buf_at (all_items u))"
  proof -
    have "mset (map buf_at (all_items t)) = mset (map buf_at (all_items (tcpTable s1)))"
      "mset (map buf_at (all_items u)) = mset (map buf_at (all_items (udpTable s1)))"
      using eqs by simp_all
    then show "distinct (map buf_at (all_items t))" "distinct (map buf_at (all_items u))"
      using core_distinct [OF c] mset_eq_imp_distinct_iff by (metis distinct_append)+
  qed
  have sets: "set (all_items t) = set (all_items (tcpTable s1))" "set (all_items u) = set (all_items (udpTable s1))"
    using eqs by (auto dest: mset_eq_setD)
  have T: "buf_at x < length (bufs s1) \<and> (\<exists>b'. account_tcp_buf e off x (bufs s1 ! buf_at x) = Some (None, b'))"
    if "x \<in> set (all_items t)" for x
  proof -
    have "TcpE x \<in># tcp_entries (tcpTable s1) + udp_entries (udpTable s1)"
      using that sets by (simp add: tracked_def)
    from core_idx [OF c this] account_tcp_entry [OF _ o(2) refl] show ?thesis by simp blast
  qed
  have U: "buf_at x < length (bufs s1) \<and> (\<exists>b'. account_udp_buf e off x (bufs s1 ! buf_at x) = Some (None, b'))"
    if "x \<in> set (all_items u)" for x
  proof -
    have "UdpE x \<in># tcp_entries (tcpTable s1) + udp_entries (udpTable s1)"
      using that sets by (simp add: tracked_def)
    from core_idx [OF c this] account_udp_entry [OF _ o(2) refl] show ?thesis by simp blast
  qed
  show ?thesis
    unfolding applyTCPCoalesceAccounting_def applyUDPCoalesceAccounting_def account_tcp_item_def
      account_udp_item_def off_def [symmetric]
    using account_all_perm [of "all_items t" buf_at "bufs s1" "account_tcp_buf e off" "all_items (tcpTable s1)"]
      account_all_perm [of "all_items u" buf_at "bufs s1" "account_udp_buf e off" "all_items (udpTable s1)"]
      T U dist eqs by blast
qed

theorem accounting_order_witness:
  "\<exists>s1. gro_loop LittleE 10 True [0, 1, 2] demo_state = Some (None, s1)
    \<and> applyTCPCoalesceAccounting LittleE (bufs s1) 10 ((tcpTable s1)\<lparr>itemsByFlow := rev (itemsByFlow (tcpTable s1))\<rparr>)
      = applyTCPCoalesceAccounting LittleE (bufs s1) 10 (tcpTable s1)"
proof -
  obtain s' where "handleGRO LittleE 10 True demo_state = Some ([], s')"
    using handleGRO_outcome [OF demo_ready demo_offsets, of LittleE True] by blast
  then obtain s1 where "gro_loop LittleE 10 True [0, 1, 2] demo_state = Some (None, s1)"
    by (auto simp: handleGRO_def demo_vector bind_Some_iff split: option.splits)
  with accounting_order [OF demo_ready, of LittleE True s1
      "(tcpTable s1)\<lparr>itemsByFlow := rev (itemsByFlow (tcpTable s1))\<rparr>" "udpTable s1"]
  show ?thesis by (auto simp: demo_vector)
qed

end
