(* ===== verification/GSO.thy ===== *)
theory GSO
  imports Coalesce
begin

text \<open>
  Generic segmentation offload, the way back from the kernel: \<open>gsoSplit\<close> and \<open>gsoNoneChecksum\<close>
  of \<open>src/tun/offload_linux.go\<close> and \<open>handleVirtioRead\<close> of \<open>src/tun/tun_linux.go\<close>.

  \<open>inn\<close> is the packet that was read, \<open>outs\<close> the buffers it is split into, with \<open>outOffset\<close> bytes
  left in front of each. \<open>inn\<close> lies in the device's read buffer, apart from every output buffer.
  The code clears its checksum fields in place (\<open>virtio_in_after\<close>).

  A Go slice has a capacity besides its length: \<open>x[a:b]\<close> may reach beyond the length of \<open>x\<close> up to its capacity, and
  then shows what the memory there holds, while \<open>x[a:]\<close>, an index and \<open>copy\<close> keep to the length. The list of a slice
  is its part within the length; the memory behind it, up to the capacity, is an argument. The code reads that memory
  and never writes to it: where it would (a transport header longer than a buffer), it panics later in the same
  round, at \<open>out[hdr.hdrLen:]\<close>.
\<close>

section \<open>Slices with a capacity\<close>

text \<open>\<open>x[a:b]\<close> of a slice with the memory \<open>spare\<close> between its length and its capacity.\<close>

definition reslice :: "'a list \<Rightarrow> 'a list \<Rightarrow> nat \<Rightarrow> nat \<Rightarrow> 'a list option" where
  "reslice x spare a b = slice (x @ spare) a b"

lemma reslice_in: "b \<le> length x \<Longrightarrow> reslice x spare a b = slice x a b"
  by (simp add: reslice_def slice_def)

lemma reslice_full [simp]: "reslice x [] a b = slice x a b"
  by (simp add: reslice_def)

text \<open>The memory behind \<open>in\<close>, and behind each of the output buffers.\<close>

record spareMem =
  inSpare :: "byte list"
  outSpare :: "nat \<Rightarrow> byte list"

text \<open>Slices whose capacity is their length.\<close>

definition no_spare :: spareMem where
  "no_spare = \<lparr>inSpare = [], outSpare = \<lambda>_. []\<rparr>"

section \<open>One segment\<close>

text \<open>
  The IPv4 part of the loop body: the ID field counts up, the total length and the header checksum
  are computed anew.
\<close>

definition gso_ipv4 :: "endian \<Rightarrow> nat \<Rightarrow> nat \<Rightarrow> nat \<Rightarrow> byte list \<Rightarrow> byte list \<Rightarrow> byte list option" where
  "gso_ipv4 e iphl i totalLen spare out = do {
     out \<leftarrow> (if 0 < i then do {
               ident \<leftarrow> get16 out 4;
               put16 out 4 (ident + of_nat i)
             }
             else Some out);
     out \<leftarrow> put16 out 2 (of_nat totalLen);
     h \<leftarrow> reslice out spare 0 iphl;
     put16 out 10 (NOT (checksum e h 0))
   }"

text \<open>
  The transport header: the TCP sequence number, with FIN and PSH on the last segment only, or the
  UDP length.
\<close>

definition gso_transport ::
  "virtioNetHdr \<Rightarrow> u8 \<Rightarrow> u32 \<Rightarrow> nat \<Rightarrow> bool \<Rightarrow> nat \<Rightarrow> byte list \<Rightarrow> byte list option" where
  "gso_transport hdr proto firstSeq i atEnd segmentDataLen out =
     (if proto = IPPROTO_TCP then do {
        let tcpSeq = firstSeq + ucast (hdrGsoSize hdr * of_nat i);
        out \<leftarrow> put32 out (unat (csumStart hdr + 4)) tcpSeq;
        if \<not> atEnd then do {
          f \<leftarrow> idx out (unat (csumStart hdr + of_nat tcpFlagsOffset));
          set_at out (unat (csumStart hdr + of_nat tcpFlagsOffset))
            (f AND NOT (tcpFlagFIN OR tcpFlagPSH))
        }
        else Some out
      }
      else put16 out (unat (csumStart hdr + 4))
             (of_nat segmentDataLen + (hdrLen hdr - csumStart hdr)))"

definition gso_segment ::
  "endian \<Rightarrow> spareMem \<Rightarrow> virtioNetHdr \<Rightarrow> u8 \<Rightarrow> u32 \<Rightarrow> bool \<Rightarrow> byte list \<Rightarrow> nat \<Rightarrow> nat \<Rightarrow> nat \<Rightarrow> byte list
    \<Rightarrow> byte list option" where
  "gso_segment e sp hdr proto firstSeq v6 inn i dataAt dataEnd out = do {
     let iphl = unat (csumStart hdr);
     let segmentDataLen = dataEnd - dataAt;
     let totalLen = unat (hdrLen hdr) + segmentDataLen;
     ip \<leftarrow> reslice inn (inSpare sp) 0 iphl;
     out \<leftarrow> copy_at out 0 ip;
     out \<leftarrow> (if \<not> v6 then gso_ipv4 e iphl i totalLen (outSpare sp i) out
             else put16 out 4 (of_int (int totalLen - int iphl)));
     th \<leftarrow> reslice inn (inSpare sp) iphl (unat (hdrLen hdr));
     check (unat (hdrLen hdr) \<le> length out);
     out \<leftarrow> copy_at out iphl th;
     out \<leftarrow> gso_transport hdr proto firstSeq i (dataEnd = length inn) segmentDataLen out;
     payload \<leftarrow> reslice inn (inSpare sp) dataAt dataEnd;
     out \<leftarrow> copy_at out (unat (hdrLen hdr)) payload;
     let transportHeaderLen = unat (hdrLen hdr - csumStart hdr);
     let lenForPseudo = (of_nat (transportHeaderLen + segmentDataLen) :: u16);
     let srcAddrOffset = (if v6 then ipv6SrcAddrOffset else ipv4SrcAddrOffset);
     let addrLen = (if v6 then 16 else 4);
     src \<leftarrow> reslice inn (inSpare sp) srcAddrOffset (srcAddrOffset + addrLen);
     dst \<leftarrow> reslice inn (inSpare sp) (srcAddrOffset + addrLen) (srcAddrOffset + addrLen * 2);
     let psum = pseudoHeaderChecksumNoFold e proto src dst lenForPseudo;
     seg \<leftarrow> reslice out (outSpare sp i) iphl totalLen;
     put16 out (unat (csumStart hdr + csumOffset hdr)) (NOT (checksum e seg psum))
   }"

section \<open>The loop\<close>

text \<open>
  The result of \<open>gsoSplit\<close>: the number it reports, the error if any, the buffers and \<open>sizes\<close>. When
  the buffers run out the code reports \<open>i - 1\<close>.
\<close>

type_synonym splitResult = "int \<times> goerror option \<times> byte list list \<times> nat list"

function gso_loop ::
  "endian \<Rightarrow> spareMem \<Rightarrow> virtioNetHdr \<Rightarrow> u8 \<Rightarrow> u32 \<Rightarrow> bool \<Rightarrow> byte list \<Rightarrow> nat \<Rightarrow> nat \<Rightarrow> nat
    \<Rightarrow> byte list list \<Rightarrow> nat list \<Rightarrow> splitResult option" where
  "gso_loop e sp hdr proto firstSeq v6 inn outOffset i dataAt outs sizes =
     (if dataAt < length inn then
        if i = length outs then Some (int i - 1, Some ErrTooManySegments, outs, sizes)
        else do {
          let dataEnd = (let next = dataAt + unat (hdrGsoSize hdr)
                         in if length inn < next then length inn else next);
          sizes \<leftarrow> set_at sizes i (unat (hdrLen hdr) + (dataEnd - dataAt));
          b \<leftarrow> idx outs i;
          out \<leftarrow> slice_from b outOffset;
          out \<leftarrow> gso_segment e sp hdr proto firstSeq v6 inn i dataAt dataEnd out;
          outs \<leftarrow> set_at outs i (take outOffset b @ out);
          gso_loop e sp hdr proto firstSeq v6 inn outOffset (Suc i)
            (dataAt + unat (hdrGsoSize hdr)) outs sizes
        }
      else Some (int i, None, outs, sizes))"
  by pat_completeness auto

termination
  by (relation "measure (\<lambda>(e, sp, hdr, proto, firstSeq, v6, inn, outOffset, i, dataAt, outs, sizes).
      length outs - i)") (auto simp: go_iff)

declare gso_loop.simps [simp del]

text \<open>The checksum fields of \<open>in\<close> are cleared first.\<close>

definition gso_clear :: "virtioNetHdr \<Rightarrow> bool \<Rightarrow> byte list \<Rightarrow> byte list option" where
  "gso_clear hdr v6 inn = do {
     inn \<leftarrow> (if \<not> v6 then do { inn \<leftarrow> set_at inn 10 0; set_at inn 11 0 } else Some inn);
     let transportCsumAt = unat (csumStart hdr + csumOffset hdr);
     inn \<leftarrow> set_at inn transportCsumAt 0;
     set_at inn (transportCsumAt + 1) 0
   }"

definition gsoSplit ::
  "endian \<Rightarrow> spareMem \<Rightarrow> byte list \<Rightarrow> virtioNetHdr \<Rightarrow> byte list list \<Rightarrow> nat list \<Rightarrow> nat \<Rightarrow> bool \<Rightarrow> splitResult option"
where
  "gsoSplit e sp inn hdr outs sizes outOffset v6 = do {
     inn \<leftarrow> gso_clear hdr v6 inn;
     (proto, firstSeq) \<leftarrow>
       (if gsoType hdr = VIRTIO_NET_HDR_GSO_TCPV4 \<or> gsoType hdr = VIRTIO_NET_HDR_GSO_TCPV6
        then do { sq \<leftarrow> get32 inn (unat (csumStart hdr + 4)); Some (IPPROTO_TCP, sq) }
        else Some (IPPROTO_UDP, 0));
     gso_loop e sp hdr proto firstSeq v6 inn outOffset 0 (unat (hdrLen hdr)) outs sizes
   }"

definition gsoNoneChecksum :: "endian \<Rightarrow> byte list \<Rightarrow> u16 \<Rightarrow> u16 \<Rightarrow> byte list option" where
  "gsoNoneChecksum e inn cSumStart cSumOffset = do {
     let cSumAt = unat (cSumStart + cSumOffset);
     initial \<leftarrow> get16 inn cSumAt;
     inn \<leftarrow> set_at inn cSumAt 0;
     inn \<leftarrow> set_at inn (cSumAt + 1) 0;
     rest \<leftarrow> slice_from inn (unat cSumStart);
     put16 inn cSumAt (NOT (checksum e rest (ucast initial)))
   }"

section \<open>handleVirtioRead\<close>

text \<open>
  The checks between the GSO type and the split. The result is the header with its \<open>hdrLen\<close>
  recomputed, and whether the packet is IPv6.
\<close>

definition read_gso_hdr :: "virtioNetHdr \<Rightarrow> byte list \<Rightarrow> (goerror + virtioNetHdr \<times> bool) option" where
  "read_gso_hdr hdr inn = do {
     b0 \<leftarrow> idx inn 0;
     let ipVersion = drop_bit 4 b0;
     let t = gsoType hdr;
     if ipVersion = 4 \<and> t \<noteq> VIRTIO_NET_HDR_GSO_TCPV4 \<and> t \<noteq> VIRTIO_NET_HDR_GSO_UDP_L4
     then Some (Inl (ErrGSOTypeVersion ipVersion t))
     else if ipVersion = 6 \<and> t \<noteq> VIRTIO_NET_HDR_GSO_TCPV6 \<and> t \<noteq> VIRTIO_NET_HDR_GSO_UDP_L4
     then Some (Inl (ErrGSOTypeVersion ipVersion t))
     else if ipVersion \<noteq> 4 \<and> ipVersion \<noteq> 6 then Some (Inl (ErrInvalidIPVersion ipVersion))
     else do {
       r \<leftarrow> (if t = VIRTIO_NET_HDR_GSO_UDP_L4 then Some (Inr (hdr\<lparr>hdrLen := csumStart hdr + 8\<rparr>))
             else if length inn \<le> unat (csumStart hdr + 12) then Some (Inl ErrPacketTooShort)
             else do {
               b \<leftarrow> idx inn (unat (csumStart hdr + 12));
               let tcpHLen = (ucast (drop_bit 4 b * 4) :: u16);
               Some (if tcpHLen < 20 \<or> 60 < tcpHLen then Inl (ErrTCPHeaderLen tcpHLen)
                     else Inr (hdr\<lparr>hdrLen := csumStart hdr + tcpHLen\<rparr>))
             });
       case r of
         Inl err \<Rightarrow> Some (Inl err)
       | Inr hdr \<Rightarrow>
           if length inn < unat (hdrLen hdr) then Some (Inl (ErrLenBelowHdrLen (length inn) (hdrLen hdr)))
           else if hdrLen hdr < csumStart hdr
           then Some (Inl (ErrHdrLenBelowCsumStart (hdrLen hdr) (csumStart hdr)))
           else let cSumAt = unat (csumStart hdr + csumOffset hdr) in
             if length inn \<le> cSumAt + 1 then Some (Inl (ErrChecksumOffset (cSumAt + 1) (length inn)))
             else Some (Inr (hdr, ipVersion = 6))
     }
   }"

definition handleVirtioRead ::
  "endian \<Rightarrow> spareMem \<Rightarrow> byte list \<Rightarrow> byte list list \<Rightarrow> nat list \<Rightarrow> nat \<Rightarrow> splitResult option" where
  "handleVirtioRead e sp inn bs sizes offset =
     (case decode e inn of
        Inl err \<Rightarrow> Some (0, Some err, bs, sizes)
      | Inr hdr \<Rightarrow> do {
          inn \<leftarrow> slice_from inn virtioNetHdrLen;
          if gsoType hdr = VIRTIO_NET_HDR_GSO_NONE then do {
            inn \<leftarrow> (if flags hdr AND VIRTIO_NET_HDR_F_NEEDS_CSUM \<noteq> 0
                    then gsoNoneChecksum e inn (csumStart hdr) (csumOffset hdr) else Some inn);
            b \<leftarrow> idx bs 0;
            dst \<leftarrow> slice_from b offset;
            if length dst < length inn
            then Some (0, Some (ErrReadOverflow (length inn) (length dst)), bs, sizes)
            else do {
              b \<leftarrow> copy_at b offset inn;
              bs \<leftarrow> set_at bs 0 b;
              sizes \<leftarrow> set_at sizes 0 (length inn);
              Some (1, None, bs, sizes)
            }
          }
          else if gsoType hdr \<noteq> VIRTIO_NET_HDR_GSO_TCPV4 \<and> gsoType hdr \<noteq> VIRTIO_NET_HDR_GSO_TCPV6
            \<and> gsoType hdr \<noteq> VIRTIO_NET_HDR_GSO_UDP_L4
          then Some (0, Some (ErrUnsupportedGSOType (gsoType hdr)), bs, sizes)
          else do {
            r \<leftarrow> read_gso_hdr hdr inn;
            case r of
              Inl err \<Rightarrow> Some (0, Some err, bs, sizes)
            | Inr (hdr, v6) \<Rightarrow> gsoSplit e sp inn hdr bs sizes offset v6
          }
        })"

text \<open>
  What \<open>in\<close> holds after a call that returns: \<open>gsoNoneChecksum\<close> and \<open>gsoSplit\<close> write to it.
\<close>

definition virtio_in_after :: "endian \<Rightarrow> byte list \<Rightarrow> byte list" where
  "virtio_in_after e inn =
     (case decode e inn of
        Inl err \<Rightarrow> inn
      | Inr hdr \<Rightarrow>
          let pkt = drop virtioNetHdrLen inn; after = (\<lambda>r. take virtioNetHdrLen inn @ (case r of None \<Rightarrow> pkt | Some pkt \<Rightarrow> pkt)) in
          if gsoType hdr = VIRTIO_NET_HDR_GSO_NONE
          then (if flags hdr AND VIRTIO_NET_HDR_F_NEEDS_CSUM \<noteq> 0
                then after (gsoNoneChecksum e pkt (csumStart hdr) (csumOffset hdr)) else inn)
          else if gsoType hdr \<noteq> VIRTIO_NET_HDR_GSO_TCPV4 \<and> gsoType hdr \<noteq> VIRTIO_NET_HDR_GSO_TCPV6
            \<and> gsoType hdr \<noteq> VIRTIO_NET_HDR_GSO_UDP_L4
          then inn
          else (case read_gso_hdr hdr pkt of
                  Some (Inr (hdr, v6)) \<Rightarrow> after (gso_clear hdr v6 pkt)
                | _ \<Rightarrow> inn))"

end
