(* ===== verification/GSOSplit.thy ===== *)
theory GSOSplit
  imports GSO GROAccount
begin

text \<open>
  What \<open>gsoSplit\<close> makes of a well-formed packet: each segment has correct lengths, sequence
  numbers and checksums, and the segments carry the payload of the packet in order.
\<close>

section \<open>A segment\<close>

lemma get16_id: "i + 1 < length xs \<Longrightarrow> get16 (xs[i := ucast (drop_bit 8 v), i + 1 := ucast v]) i = Some v"
  by (simp add: get16_def be16_of_split)

lemma gso_ipv4_spec:
  assumes len: "20 \<le> length out" and zero: "out ! 10 = 0" "out ! 11 = 0"
    and ident: "get16 out 4 = Some ident"
  obtains out' where "gso_ipv4 e 20 i totalLen spare out = Some out'" "length out' = length out"
    "\<And>m. m \<notin> {2, 3, 4, 5, 10, 11} \<Longrightarrow> out' ! m = out ! m"
    "get16 out' 4 = Some (ident + of_nat i)" "get16 out' 2 = Some (of_nat totalLen)"
    "NOT (checksum e (take 20 out') 0) = 0"
proof -
  define w where "w = ident + of_nat i"
  define t :: u16 where "t = of_nat totalLen"
  define a where "a = (if 0 < i then out[4 := ucast (drop_bit 8 w), 5 := ucast w] else out)"
  have la: "length a = length out" by (simp add: a_def)
  have ga: "get16 a 4 = Some w"
    using ident len get16_id [of 4 out w] by (simp add: a_def w_def)
  define q where "q = a[2 := ucast (drop_bit 8 t), 3 := ucast t]"
  define v where "v = NOT (checksum e (take 20 q) 0)"
  define r where "r = q[10 := ucast (drop_bit 8 v), 11 := ucast v]"
  have lens: "length q = length out" "length r = length out" by (simp_all add: q_def r_def la)
  have p4: "(if 0 < i then do { ident \<leftarrow> get16 out 4; put16 out 4 (ident + of_nat i) } else Some out) = Some a"
    using ident len by (simp add: a_def put16_def w_def)
  have p2: "put16 a 2 t = Some q" using len by (simp add: put16_def q_def la)
  have sl: "reslice q spare 0 20 = Some (take 20 q)" using len by (simp add: reslice_in slice_def lens)
  have p10: "put16 q 10 v = Some r" using len by (simp add: put16_def r_def lens)
  have run: "gso_ipv4 e 20 i totalLen spare out = Some r"
    unfolding gso_ipv4_def p4 bind.bind_lunit t_def [symmetric] p2 sl v_def [symmetric] p10 ..
  have z: "q ! 10 = 0" "q ! 11 = 0" using zero by (simp_all add: q_def a_def)
  have "NOT (checksum e ((take 20 q)[10 := ucast (drop_bit 8 v), 10 + 1 := ucast v]) 0) = 0"
    by (rule stored_checksum_verifies [OF _ _ _ v_def]) (use len z in \<open>simp_all add: lens be16_of_def\<close>)
  then have sum: "NOT (checksum e (take 20 r) 0) = 0" by (simp add: r_def take_update_swap)
  have g2: "get16 r 2 = Some t" using len by (simp add: get16_def r_def q_def la be16_of_split)
  have g4: "get16 r 4 = Some w" using ga len by (simp add: get16_def r_def q_def la)
  show thesis
    by (rule that [OF run lens(2) _ _ _ sum])
      (use g2 g4 in \<open>auto simp: t_def w_def r_def q_def a_def\<close>)
qed

text \<open>The headers \<open>gsoSplit\<close> is called with; \<open>tcp\<close> tells the two protocols apart.\<close>

definition split_hdr :: "bool \<Rightarrow> bool \<Rightarrow> virtioNetHdr \<Rightarrow> bool" where
  "split_hdr tcp v6 hdr \<longleftrightarrow> unat (csumStart hdr) = iph_of v6 \<and> hdrGsoSize hdr \<noteq> 0
     \<and> (if tcp then gsoType hdr \<in> {VIRTIO_NET_HDR_GSO_TCPV4, VIRTIO_NET_HDR_GSO_TCPV6}
            \<and> csumOffset hdr = 16 \<and> iph_of v6 + 20 \<le> unat (hdrLen hdr) \<and> unat (hdrLen hdr) \<le> iph_of v6 + 60
        else gsoType hdr = VIRTIO_NET_HDR_GSO_UDP_L4 \<and> csumOffset hdr = 6
            \<and> unat (hdrLen hdr) = iph_of v6 + 8)"

definition hdr_proto :: "bool \<Rightarrow> u8" where
  "hdr_proto tcp = (if tcp then IPPROTO_TCP else IPPROTO_UDP)"

text \<open>The bytes of a segment's headers that differ from those of the packet.\<close>

definition seg_fixed :: "bool \<Rightarrow> bool \<Rightarrow> nat set" where
  "seg_fixed tcp v6 = (if v6 then {4, 5} else {2, 3, 4, 5, 10, 11})
     \<union> (if tcp then {iph_of v6 + 4..iph_of v6 + 7} \<union> {iph_of v6 + 13, iph_of v6 + 16, iph_of v6 + 17}
        else {iph_of v6 + 4..iph_of v6 + 7})"

text \<open>
  Segment \<open>i\<close> of \<open>inn\<close>: \<open>chunk\<close> is its share of the payload, \<open>final\<close> whether it is the last one.
\<close>

definition segment_of ::
  "endian \<Rightarrow> bool \<Rightarrow> bool \<Rightarrow> virtioNetHdr \<Rightarrow> byte list \<Rightarrow> nat \<Rightarrow> byte list \<Rightarrow> bool \<Rightarrow> byte list \<Rightarrow> bool"
where
  "segment_of e tcp v6 hdr inn i chunk final x \<longleftrightarrow>
     (let iphl = iph_of v6; hl = unat (hdrLen hdr); g = unat (hdrGsoSize hdr) in
        length x = hl + length chunk \<and> drop hl x = chunk
        \<and> (\<forall>m < hl. m \<notin> seg_fixed tcp v6 \<longrightarrow> x ! m = inn ! m)
        \<and> ip_done e v6 iphl x
        \<and> (\<not> v6 \<longrightarrow> get16 x 4 = Some (be16_of (inn ! 4) (inn ! 5) + of_nat i))
        \<and> NOT (checksum e (drop iphl x) (pseudo_sum e (hdr_proto tcp) v6 iphl x)) = 0
        \<and> (if tcp then tcp_seq iphl x = tcp_seq iphl inn + of_nat (i * g)
             \<and> x ! (iphl + 13) = (if final then inn ! (iphl + 13)
                                   else inn ! (iphl + 13) AND NOT (tcpFlagFIN OR tcpFlagPSH))
           else get16 x (iphl + 4) = Some (of_nat (length x - iphl))))"

lemma unat_u16_add: "unat (a :: u16) + unat b < 65536 \<Longrightarrow> unat (a + b) = unat a + unat b"
  by (simp add: unat_word_ariths)

lemma split_hdr_at:
  assumes "split_hdr tcp v6 hdr"
  shows "unat (csumStart hdr + 4) = iph_of v6 + 4"
    and "unat (csumStart hdr + of_nat tcpFlagsOffset) = iph_of v6 + 13"
    and "unat (csumStart hdr + csumOffset hdr) = iph_of v6 + (if tcp then 16 else 6)"
    and "unat (hdrLen hdr - csumStart hdr) = unat (hdrLen hdr) - iph_of v6"
    and "iph_of v6 + 8 \<le> unat (hdrLen hdr)" and "unat (hdrLen hdr) \<le> 100"
    and "tcp \<Longrightarrow> iph_of v6 + 20 \<le> unat (hdrLen hdr)"
proof -
  have i: "unat (csumStart hdr) = iph_of v6" "iph_of v6 \<le> 40" "iph_of v6 \<le> unat (hdrLen hdr)"
    using assms by (auto simp: split_hdr_def iph_of_def split: if_splits)
  show "unat (csumStart hdr + 4) = iph_of v6 + 4"
    "unat (csumStart hdr + of_nat tcpFlagsOffset) = iph_of v6 + 13"
    using i by (simp_all add: unat_u16_add tcpFlagsOffset_def)
  show "unat (csumStart hdr + csumOffset hdr) = iph_of v6 + (if tcp then 16 else 6)"
    using assms i by (auto simp: split_hdr_def unat_u16_add)
  show "unat (hdrLen hdr - csumStart hdr) = unat (hdrLen hdr) - iph_of v6"
    using i by (simp add: unat_sub word_le_nat_alt)
  show "iph_of v6 + 8 \<le> unat (hdrLen hdr)" "unat (hdrLen hdr) \<le> 100"
    "tcp \<Longrightarrow> iph_of v6 + 20 \<le> unat (hdrLen hdr)"
    using assms i by (auto simp: split_hdr_def split: if_splits)
qed

definition transport_fixed :: "bool \<Rightarrow> nat \<Rightarrow> nat set" where
  "transport_fixed tcp iphl = (if tcp then {iphl + 4..iphl + 7} \<union> {iphl + 13} else {iphl + 4, iphl + 5})"

lemma gso_transport_spec:
  assumes h: "split_hdr tcp v6 hdr" and long: "unat (hdrLen hdr) \<le> length out"
    and small: "i * unat (hdrGsoSize hdr) < 65536" "unat (hdrLen hdr) + n < 65536"
  obtains out' where "gso_transport hdr (hdr_proto tcp) firstSeq i atEnd n out = Some out'"
    "length out' = length out"
    "\<And>m. m \<notin> transport_fixed tcp (iph_of v6) \<Longrightarrow> out' ! m = out ! m"
    "tcp \<Longrightarrow> tcp_seq (iph_of v6) out' = firstSeq + of_nat (i * unat (hdrGsoSize hdr))
       \<and> out' ! (iph_of v6 + 13) = (if atEnd then out ! (iph_of v6 + 13)
            else out ! (iph_of v6 + 13) AND NOT (tcpFlagFIN OR tcpFlagPSH))"
    "\<not> tcp \<Longrightarrow> get16 out' (iph_of v6 + 4) = Some (of_nat (unat (hdrLen hdr) + n - iph_of v6))"
proof (cases tcp)
  case True
  note at = split_hdr_at [OF h]
  let ?i = "iph_of v6"
  define sq where "sq = firstSeq + ucast (hdrGsoSize hdr * of_nat i)"
  have sq: "sq = firstSeq + of_nat (i * unat (hdrGsoSize hdr))"
  proof -
    have "unat (of_nat (i * unat (hdrGsoSize hdr)) :: u16) = i * unat (hdrGsoSize hdr)"
      by (rule unat_u16_of_nat [OF small(1)])
    then have "ucast (of_nat (i * unat (hdrGsoSize hdr)) :: u16) = (of_nat (i * unat (hdrGsoSize hdr)) :: u32)"
      by (metis of_nat_unat)
    then show ?thesis by (simp add: sq_def mult.commute)
  qed
  define q where "q = out[?i + 4 := ucast (drop_bit 24 sq), ?i + 5 := ucast (drop_bit 16 sq),
      ?i + 6 := ucast (drop_bit 8 sq), ?i + 7 := ucast sq]"
  have lq: "length q = length out" by (simp add: q_def)
  have len: "?i + 20 \<le> length out" using at(7) True long by simp
  have put: "put32 out (?i + 4) sq = Some q" using len by (simp add: put32_def q_def ac_simps)
  have q13: "idx q (?i + 13) = Some (out ! (?i + 13))" using len by (simp add: idx_def q_def)
  define r where "r = (if atEnd then q else q[?i + 13 := out ! (?i + 13) AND NOT (tcpFlagFIN OR tcpFlagPSH)])"
  have run: "gso_transport hdr (hdr_proto tcp) firstSeq i atEnd n out = Some r"
    using True put q13 len unfolding gso_transport_def Let_def at(1,2) sq_def [symmetric]
    by (simp add: hdr_proto_def r_def set_at_def lq)
  have "tcp_seq ?i r = sq"
    using len by (simp add: tcp_seq_def r_def q_def be32_of_split)
  moreover have "r ! (?i + 13) = (if atEnd then out ! (?i + 13)
            else out ! (?i + 13) AND NOT (tcpFlagFIN OR tcpFlagPSH))"
    using len by (simp add: r_def q_def)
  moreover have "r ! m = out ! m" if "m \<notin> transport_fixed tcp ?i" for m
    using that True by (auto simp: r_def q_def transport_fixed_def)
  ultimately show thesis
    by (intro that [OF run]) (use True in \<open>simp_all add: sq r_def lq\<close>)
next
  case False
  note at = split_hdr_at [OF h]
  let ?i = "iph_of v6"
  define w where "w = of_nat n + (hdrLen hdr - csumStart hdr)"
  have w: "w = of_nat (unat (hdrLen hdr) + n - ?i)"
  proof -
    have "w = of_nat n + of_nat (unat (hdrLen hdr - csumStart hdr))" by (simp add: w_def)
    also have "\<dots> = of_nat (n + (unat (hdrLen hdr) - ?i))" unfolding at(4) by (simp only: of_nat_add)
    also have "n + (unat (hdrLen hdr) - ?i) = unat (hdrLen hdr) + n - ?i" using at(5) by simp
    finally show ?thesis .
  qed
  define r where "r = out[?i + 4 := ucast (drop_bit 8 w), ?i + 4 + 1 := ucast w]"
  have len: "?i + 4 + 1 < length out" using at(5) long by simp
  have run: "gso_transport hdr (hdr_proto tcp) firstSeq i atEnd n out = Some r"
    using False len unfolding gso_transport_def Let_def at(1) w_def [symmetric]
    by (simp add: hdr_proto_def r_def put16_def offload_consts)
  have "get16 r (?i + 4) = Some w" using len unfolding r_def by (rule get16_id)
  then show thesis
    by (intro that [OF run]) (use False w in \<open>simp_all add: r_def transport_fixed_def\<close>)
qed

lemma copy_at_fits:
  "i + length src \<le> length xs \<Longrightarrow> copy_at xs i src = Some (take i xs @ src @ drop (i + length src) xs)"
  by (simp add: copy_at_def)

lemma nth_copy:
  assumes "i + length src \<le> length xs"
  shows "(take i xs @ src @ drop (i + length src) xs) ! m
    = (if m < i then xs ! m else if m < i + length src then src ! (m - i) else xs ! m)"
  using assms by (auto simp: nth_append)

text \<open>The IP part for both versions, on a buffer that starts with the packet's IP header.\<close>

lemma gso_ip_spec:
  assumes len: "iph_of v6 + 8 \<le> length out" and zero: "\<not> v6 \<Longrightarrow> out ! 10 = 0 \<and> out ! 11 = 0"
    and small: "iph_of v6 \<le> totalLen"
  obtains out' where "(if \<not> v6 then gso_ipv4 e (iph_of v6) i totalLen spare out
      else put16 out 4 (of_int (int totalLen - int (iph_of v6)))) = Some out'"
    "length out' = length out"
    "\<And>m. m \<notin> (if v6 then {4, 5} else {2, 3, 4, 5, 10, 11}) \<Longrightarrow> out' ! m = out ! m"
    "if v6 then get16 out' 4 = Some (of_nat totalLen - of_nat (iph_of v6))
     else get16 out' 4 = Some (be16_of (out ! 4) (out ! 5) + of_nat i)
        \<and> get16 out' 2 = Some (of_nat totalLen) \<and> NOT (checksum e (take (iph_of v6) out') 0) = 0"
proof (cases v6)
  case True
  define w :: u16 where "w = of_nat totalLen - of_nat (iph_of v6)"
  have w: "of_int (int totalLen - int (iph_of v6)) = w" by (simp add: w_def)
  have l: "4 + 1 < length out" using len by (simp add: iph_of_def split: if_splits)
  have run: "(if \<not> v6 then gso_ipv4 e (iph_of v6) i totalLen spare out
      else put16 out 4 (of_int (int totalLen - int (iph_of v6))))
      = Some (out[4 := ucast (drop_bit 8 w), 4 + 1 := ucast w])"
    using True l unfolding w by (simp add: put16_def)
  show thesis
    by (rule that [OF run]) (use True get16_id [OF l, of w] w_def in simp_all)
next
  case False
  then have i: "iph_of v6 = 20" by (simp add: iph_of_def)
  have ident: "get16 out 4 = Some (be16_of (out ! 4) (out ! 5))" using len i by (simp add: get16_def)
  obtain out' where o: "gso_ipv4 e 20 i totalLen spare out = Some out'" "length out' = length out"
    "\<And>m. m \<notin> {2, 3, 4, 5, 10, 11} \<Longrightarrow> out' ! m = out ! m"
    "get16 out' 4 = Some (be16_of (out ! 4) (out ! 5) + of_nat i)" "get16 out' 2 = Some (of_nat totalLen)"
    "NOT (checksum e (take 20 out') 0) = 0"
    using gso_ipv4_spec [of out "be16_of (out ! 4) (out ! 5)" e i totalLen] len i zero [OF False] ident by auto
  have run: "(if \<not> v6 then gso_ipv4 e (iph_of v6) i totalLen spare out
      else put16 out 4 (of_int (int totalLen - int (iph_of v6)))) = Some out'"
    using o(1) i False by simp
  show thesis
    by (rule that [OF run o(2)]) (use o(3-6) False i in simp_all)
qed

lemma gso_segment_spec:
  assumes h: "split_hdr tcp v6 hdr"
    and hl: "hl = unat (hdrLen hdr)" "iphl = iph_of v6" "co = (if tcp then 16 else 6)"
    and zero: "inn ! (iphl + co) = 0" "inn ! (iphl + co + 1) = 0" "\<not> v6 \<Longrightarrow> inn ! 10 = 0 \<and> inn ! 11 = 0"
    and data: "hl \<le> dataAt" "dataAt \<le> dataEnd" "dataEnd \<le> length inn"
    and n: "n = dataEnd - dataAt" "hl + n < 65536" "hl + n \<le> length out" "i * unat (hdrGsoSize hdr) < 65536"
    and sq: "tcp \<Longrightarrow> firstSeq = tcp_seq iphl inn"
  obtains out' where
    "gso_segment e sp hdr (hdr_proto tcp) firstSeq v6 inn i dataAt dataEnd out = Some out'"
    "length out' = length out" "drop (hl + n) out' = drop (hl + n) out"
    "segment_of e tcp v6 hdr inn i (take n (drop dataAt inn)) (dataEnd = length inn) (take (hl + n) out')"
proof -
  note at = split_hdr_at [OF h]
  have iph: "20 \<le> iphl" "iphl + 8 \<le> hl" "hl \<le> 100" "iphl \<le> 40" "even iphl" "tcp \<Longrightarrow> iphl + 20 \<le> hl"
    using at(5-7) by (auto simp: hl iph_of_def)
  have cs: "unat (csumStart hdr) = iphl" using h by (simp add: split_hdr_def hl)
  have lin: "hl \<le> length inn" "n \<le> length inn" using data n by simp_all
  define a where "a = take iphl inn @ drop iphl out"
  have la: "length a = length out" using iph lin n by (simp add: a_def)
  have na: "a ! m = (if m < iphl then inn ! m else out ! m)" for m
    using iph lin n by (auto simp: a_def nth_append)
  have c1: "reslice inn (inSpare sp) 0 iphl = Some (take iphl inn)" "copy_at out 0 (take iphl inn) = Some a"
    using iph lin n copy_at_fits [of 0 "take iphl inn" out] by (simp_all add: reslice_in slice_def a_def min_absorb2)
  have za: "\<not> v6 \<Longrightarrow> a ! 10 = 0 \<and> a ! 11 = 0" using zero(3) iph(1) by (simp add: na)
  obtain b where b: "(if \<not> v6 then gso_ipv4 e iphl i (hl + n) (outSpare sp i) a
      else put16 a 4 (of_int (int (hl + n) - int iphl))) = Some b" "length b = length a"
    "\<And>m. m \<notin> (if v6 then {4, 5} else {2, 3, 4, 5, 10, 11}) \<Longrightarrow> b ! m = a ! m"
    "if v6 then get16 b 4 = Some (of_nat (hl + n) - of_nat iphl)
     else get16 b 4 = Some (be16_of (a ! 4) (a ! 5) + of_nat i)
        \<and> get16 b 2 = Some (of_nat (hl + n)) \<and> NOT (checksum e (take iphl b) 0) = 0"
    using gso_ip_spec [of v6 a "hl + n" e i "outSpare sp i"] iph n la za unfolding hl(2) by auto
  define th where "th = take (hl - iphl) (drop iphl inn)"
  have lth: "length th = hl - iphl" using lin iph by (simp add: th_def)
  define c where "c = take iphl b @ th @ drop (iphl + length th) b"
  have fit: "iphl + length th \<le> length b" using lth iph n la b(2) by simp
  have c2: "reslice inn (inSpare sp) iphl hl = Some th" "copy_at b iphl th = Some c"
    using iph lin copy_at_fits [OF fit] by (simp_all add: reslice_in slice_def th_def c_def)
  have lc: "length c = length out" using fit b(2) la by (simp add: c_def)
  have nc: "c ! m = (if m < iphl then b ! m else inn ! m)" if "m < hl" for m
    unfolding c_def nth_copy [OF fit] using that lth lin iph by (simp add: th_def)
  have longc: "unat (hdrLen hdr) \<le> length c" using n lc hl by simp
  have longb: "hl \<le> length b" using n la b(2) by simp
  obtain d where d: "gso_transport hdr (hdr_proto tcp) firstSeq i (dataEnd = length inn) n c = Some d"
    "length d = length c" "\<And>m. m \<notin> transport_fixed tcp iphl \<Longrightarrow> d ! m = c ! m"
    "tcp \<Longrightarrow> tcp_seq iphl d = firstSeq + of_nat (i * unat (hdrGsoSize hdr))
       \<and> d ! (iphl + 13) = (if dataEnd = length inn then c ! (iphl + 13)
            else c ! (iphl + 13) AND NOT (tcpFlagFIN OR tcpFlagPSH))"
    "\<not> tcp \<Longrightarrow> get16 d (iphl + 4) = Some (of_nat (hl + n - iphl))"
    using gso_transport_spec [OF h longc n(4) n(2) [unfolded hl(1)], of firstSeq "dataEnd = length inn"]
    unfolding hl(1,2) by blast
  define pl where "pl = take n (drop dataAt inn)"
  have lpl: "length pl = n" using data n by (simp add: pl_def)
  define f where "f = take hl d @ pl @ drop (hl + length pl) d"
  have fit2: "hl + length pl \<le> length d" using lpl n lc d(2) by simp
  have c3: "reslice inn (inSpare sp) dataAt dataEnd = Some pl" "copy_at d hl pl = Some f"
    using data n(1) copy_at_fits [OF fit2] by (simp_all add: reslice_in slice_def pl_def f_def)
  have lf: "length f = length out" using fit2 d(2) lc by (simp add: f_def)
  have nf: "f ! m = (if hl \<le> m \<and> m < hl + n then pl ! (m - hl) else d ! m)" for m
    unfolding f_def nth_copy [OF fit2] by (simp add: lpl)
  define seg where "seg = take (hl + n - iphl) (drop iphl f)"
  have c4: "reslice f (outSpare sp i) iphl (hl + n) = Some seg"
    using iph n lf by (simp add: reslice_in slice_def seg_def)
  define src where "src = take (addr_len v6) (drop (src_at v6) inn)"
  define dst where "dst = take (addr_len v6) (drop (src_at v6 + addr_len v6) inn)"
  have addr: "src_at v6 + addr_len v6 * 2 = iphl" by (simp add: src_at_def addr_len_def hl iph_of_def)
  have offs: "(if v6 then ipv6SrcAddrOffset else ipv4SrcAddrOffset) = src_at v6"
    "(if v6 then 16 else 4) = addr_len v6"
    by (simp_all add: src_at_def addr_len_def offload_consts)
  have c5: "reslice inn (inSpare sp) (src_at v6) (src_at v6 + addr_len v6) = Some src"
    "reslice inn (inSpare sp) (src_at v6 + addr_len v6) (src_at v6 + addr_len v6 * 2) = Some dst"
  proof -
    have "src_at v6 + addr_len v6 * 2 - (src_at v6 + addr_len v6) = addr_len v6" by simp
    then show "reslice inn (inSpare sp) (src_at v6) (src_at v6 + addr_len v6) = Some src"
      "reslice inn (inSpare sp) (src_at v6 + addr_len v6) (src_at v6 + addr_len v6 * 2) = Some dst"
      using addr iph lin by (simp_all add: reslice_in slice_def src_def dst_def)
  qed
  define psum where "psum = pseudoHeaderChecksumNoFold e (hdr_proto tcp) src dst (of_nat (hl - iphl + n))"
  define v where "v = NOT (checksum e seg psum)"
  define g where "g = f[iphl + co := ucast (drop_bit 8 v), iphl + co + 1 := ucast v]"
  have co: "iphl + co + 1 < hl" "even co" "co + 1 < length seg"
    using iph hl(3) n lf by (auto simp: seg_def)
  have lg: "length g = length out" by (simp add: g_def lf)
  have c6: "put16 f (iphl + co) v = Some g" using co n lf by (simp add: put16_def g_def)
  have run: "gso_segment e sp hdr (hdr_proto tcp) firstSeq v6 inn i dataAt dataEnd out = Some g"
    unfolding gso_segment_def Let_def hl(1) [symmetric] n(1) [symmetric] cs c1 bind.bind_lunit b(1)
      c2 check_in [OF longb] d(1) c3 offs c5 at(3,4) c4 hl(1,2) [symmetric]
      hl(3) [symmetric] psum_def [symmetric] v_def [symmetric] c6 ..
  define x where "x = take (hl + n) g"
  have lx: "length x = hl + n" using n lg by (simp add: x_def)
  have xd: "x ! m = d ! m" if "m < hl" "m \<noteq> iphl + co" "m \<noteq> iphl + co + 1" for m
    using that by (simp add: x_def g_def nf)
  have tf: "m \<notin> transport_fixed tcp iphl" if "m < iphl + 4 \<or> m = iphl + co \<or> m = iphl + co + 1" for m
    using that hl(3) by (auto simp: transport_fixed_def)
  have xb: "x ! m = b ! m" if "m < iphl" for m
    using that xd [of m] d(3) [OF tf] nc [of m] iph by simp
  have pay: "drop hl x = pl"
  proof (rule nth_equalityI)
    show "length (drop hl x) = length pl" by (simp add: lx lpl)
    fix m assume "m < length (drop hl x)"
    then have "m < n" by (simp add: lx)
    then show "drop hl x ! m = pl ! m" using lx co(1) by (simp add: x_def g_def nf)
  qed
  have rest: "drop (hl + n) g = drop (hl + n) out"
  proof (rule nth_equalityI)
    show "length (drop (hl + n) g) = length (drop (hl + n) out)" by (simp add: lg)
    fix m assume "m < length (drop (hl + n) g)"
    define j where "j = hl + n + m"
    have j: "hl \<le> j" "hl + n \<le> j" by (simp_all add: j_def)
    have "j \<notin> transport_fixed tcp iphl" using j(1) iph by (auto simp: transport_fixed_def)
    then have "d ! j = c ! j" by (rule d(3))
    moreover have "c ! j = b ! j" unfolding c_def nth_copy [OF fit] using j(1) lth iph by simp
    moreover have "b ! j = out ! j" using b(3) [of j] na [of j] j(1) iph by auto
    ultimately have "g ! j = out ! j" using j co(1) by (simp add: g_def nf)
    then show "drop (hl + n) g ! m = drop (hl + n) out ! m" using n lg by (simp add: j_def)
  qed
  have same: "x ! m = inn ! m" if "m < hl" "m \<notin> seg_fixed tcp v6" for m
  proof -
    have m: "m \<noteq> iphl + co" "m \<noteq> iphl + co + 1" "m \<notin> transport_fixed tcp iphl"
      "m \<notin> (if v6 then {4, 5} else {2, 3, 4, 5, 10, 11})"
      using that(2) by (auto simp: seg_fixed_def transport_fixed_def hl split: if_splits)
    show ?thesis
      using xd [OF that(1) m(1,2)] d(3) [OF m(3)] nc [OF that(1)] b(3) [OF m(4)] na [of m] by simp
  qed
  have tk: "take iphl x = take iphl b"
    using lx iph n la b(2) by (intro nth_equalityI) (auto simp: xb)
  have ip: "ip_done e v6 iphl x"
    using b(4) tk lx xb iph n la b(2)
    by (auto simp: ip_done_def get16_def split: if_splits)
  have idn: "get16 x 4 = Some (be16_of (inn ! 4) (inn ! 5) + of_nat i)" if "\<not> v6"
    using b(4) that lx xb iph n la b(2) na by (auto simp: get16_def)
  have addrs: "take (addr_len v6) (drop m x) = take (addr_len v6) (drop m inn)"
    if m: "m = src_at v6 \<or> m = src_at v6 + addr_len v6" for m
  proof (rule nth_equalityI)
    show "length (take (addr_len v6) (drop m x)) = length (take (addr_len v6) (drop m inn))"
      using m addr iph lx lin by auto
    fix j assume "j < length (take (addr_len v6) (drop m x))"
    then have j: "j < addr_len v6" by simp
    have "m + j < iphl" using j m addr by auto
    moreover have "m + j \<notin> seg_fixed tcp v6"
      using j m \<open>m + j < iphl\<close> hl by (auto simp: seg_fixed_def src_at_def addr_len_def iph_of_def split: if_splits)
    ultimately show "take (addr_len v6) (drop m x) ! j = take (addr_len v6) (drop m inn) ! j"
      using same [of "m + j"] j iph lx lin by simp
  qed
  have ps: "pseudo_sum e (hdr_proto tcp) v6 iphl x = psum"
  proof -
    have "int (length x) - int iphl = int (hl - iphl + n)" using lx iph by simp
    then have l: "of_int (int (length x) - int iphl) = (of_nat (hl - iphl + n) :: u16)"
      by (simp only: of_int_of_nat_eq)
    show ?thesis
      unfolding pseudo_sum_def l psum_def src_def dst_def by (simp add: addrs)
  qed
  have sum: "NOT (checksum e (drop iphl x) psum) = 0"
  proof -
    have z: "d ! (iphl + co) = 0" "d ! (iphl + co + 1) = 0"
      using d(3) [OF tf] nc co(1) zero(1,2) by simp_all
    have "NOT (checksum e (seg[co := ucast (drop_bit 8 v), co + 1 := ucast v]) psum) = 0"
      by (rule stored_checksum_verifies [OF co(2,3) _ v_def])
        (use z co n lf iph in \<open>simp add: seg_def nf be16_of_def add.assoc\<close>)
    moreover have "drop iphl x = seg[co := ucast (drop_bit 8 v), co + 1 := ucast v]"
    proof -
      have "drop iphl x = take (hl + n - iphl) (drop iphl g)" by (simp add: x_def drop_take)
      then show ?thesis by (simp add: g_def seg_def drop_update_swap take_update_swap)
    qed
    ultimately show ?thesis by simp
  qed
  have c13: "c ! (iphl + 13) = inn ! (iphl + 13)" if tcp using nc [of "iphl + 13"] iph(6) [OF that] by simp
  have tseq: "tcp_seq iphl x = tcp_seq iphl inn + of_nat (i * unat (hdrGsoSize hdr))" if tcp
  proof -
    have "tcp_seq iphl x = tcp_seq iphl d" using xd iph(6) [OF that] hl(3) that by (simp add: tcp_seq_def)
    then show ?thesis using d(4) [OF that] sq [OF that] by simp
  qed
  have tflag: "x ! (iphl + 13) = (if dataEnd = length inn then inn ! (iphl + 13)
      else inn ! (iphl + 13) AND NOT (tcpFlagFIN OR tcpFlagPSH))" if tcp
    using xd [of "iphl + 13"] iph(6) [OF that] hl(3) that d(4) [OF that] c13 [OF that] by simp
  have ulen: "get16 x (iphl + 4) = Some (of_nat (length x - iphl))" if "\<not> tcp"
  proof -
    have "x ! (iphl + 4) = d ! (iphl + 4)" "x ! (iphl + 4 + 1) = d ! (iphl + 4 + 1)"
      using iph(2) hl(3) that by (auto intro!: xd)
    moreover have "iphl + 4 + 1 < length x" "iphl + 4 + 1 < length d"
      using iph(2) lx n lc d(2) by simp_all
    ultimately have "get16 x (iphl + 4) = get16 d (iphl + 4)" by (simp only: get16_def if_True)
    then show ?thesis using d(5) [OF that] lx by simp
  qed
  have "segment_of e tcp v6 hdr inn i pl (dataEnd = length inn) x"
    unfolding segment_of_def Let_def hl(1,2) [symmetric]
    using lx lpl pay same ip idn sum tseq tflag ulen by (simp add: ps)
  then show thesis
    by (intro that [OF run lg rest]) (simp add: x_def pl_def)
qed

section \<open>The loop\<close>

text \<open>The number of segments a payload of \<open>n\<close> bytes needs at \<open>g\<close> bytes each, and the chunks.\<close>

definition seg_count :: "nat \<Rightarrow> nat \<Rightarrow> nat" where
  "seg_count n g = (n + g - 1) div g"

lemma less_seg_count: "0 < g \<Longrightarrow> k < seg_count n g \<longleftrightarrow> k * g < n"
proof -
  assume "0 < g"
  then have "Suc k \<le> (n + g - 1) div g \<longleftrightarrow> Suc k * g \<le> n + g - 1"
    by (rule less_eq_div_iff_mult_less_eq)
  also have "\<dots> \<longleftrightarrow> k * g < n" using \<open>0 < g\<close> by auto
  finally show ?thesis by (simp only: seg_count_def Suc_le_eq)
qed

definition chunk :: "byte list \<Rightarrow> nat \<Rightarrow> nat \<Rightarrow> nat \<Rightarrow> byte list" where
  "chunk inn hl g k = take g (drop (hl + k * g) inn)"

lemma concat_chunks:
  assumes "0 < g"
  shows "concat (map (chunk inn hl g) [0..<k]) = take (k * g) (drop hl inn)"
proof (induction k)
  case 0
  then show ?case by simp
next
  case (Suc k)
  have "take (Suc k * g) (drop hl inn) = take (k * g) (drop hl inn) @ take g (drop (k * g) (drop hl inn))"
    using take_add [of "k * g" g "drop hl inn"] by (simp only: mult_Suc add.commute)
  then show ?case using Suc by (simp add: chunk_def add.commute)
qed

lemma concat_all_chunks:
  assumes "0 < g"
  shows "concat (map (chunk inn hl g) [0..<seg_count (length inn - hl) g]) = drop hl inn"
proof -
  have "\<not> seg_count (length inn - hl) g * g < length inn - hl"
    using less_seg_count [OF assms] by blast
  then show ?thesis by (simp add: concat_chunks [OF assms])
qed

text \<open>What the loop leaves in buffer \<open>k\<close> and in \<open>sizes[k]\<close>.\<close>

definition seg_done ::
  "endian \<Rightarrow> bool \<Rightarrow> bool \<Rightarrow> virtioNetHdr \<Rightarrow> byte list \<Rightarrow> nat \<Rightarrow> nat \<Rightarrow> byte list \<Rightarrow> byte list \<Rightarrow> nat \<Rightarrow> bool"
where
  "seg_done e tcp v6 hdr inn off k old new sz \<longleftrightarrow>
     (let hl = unat (hdrLen hdr); g = unat (hdrGsoSize hdr); c = chunk inn hl g k in
        sz = hl + length c \<and> length new = length old \<and> take off new = take off old
        \<and> drop (off + sz) new = drop (off + sz) old
        \<and> segment_of e tcp v6 hdr inn k c (Suc k = seg_count (length inn - hl) g) (take sz (drop off new)))"

lemma gso_loop_spec:
  assumes h: "split_hdr tcp v6 hdr"
    and hl: "hl = unat (hdrLen hdr)" "g = unat (hdrGsoSize hdr)" "N = seg_count (length inn - hl) g"
    and co: "co = iph_of v6 + (if tcp then 16 else 6)"
    and zero: "inn ! co = 0" "inn ! (co + 1) = 0" "\<not> v6 \<Longrightarrow> inn ! 10 = 0 \<and> inn ! 11 = 0"
    and len: "hl \<le> length inn" "length inn < 65536"
    and sq: "tcp \<Longrightarrow> firstSeq = tcp_seq (iph_of v6) inn"
    and outs: "\<forall>b \<in> set outs. off + hl + g \<le> length b" "length outs \<le> length sizes"
    and i: "i \<le> N" "i \<le> length outs"
  shows "\<exists>outs' sizes'. gso_loop e sp hdr (hdr_proto tcp) firstSeq v6 inn off i (hl + i * g) outs sizes
     = Some (if N \<le> length outs then int N else int (length outs) - 1,
             if N \<le> length outs then None else Some ErrTooManySegments, outs', sizes')
     \<and> length outs' = length outs \<and> length sizes' = length sizes
     \<and> (\<forall>k. i \<le> k \<longrightarrow> k < N \<longrightarrow> k < length outs \<longrightarrow>
          seg_done e tcp v6 hdr inn off k (outs ! k) (outs' ! k) (sizes' ! k))
     \<and> (\<forall>k. k < i \<or> N \<le> k \<longrightarrow> outs' ! k = outs ! k \<and> sizes' ! k = sizes ! k)"
  using outs i
proof (induction "length outs - i" arbitrary: i outs sizes rule: less_induct)
  case less
  have g: "0 < g" using h by (auto simp: split_hdr_def hl(2) unat_gt_0 word_neq_0_conv)
  note cnt = less_seg_count [OF g, of _ "length inn - hl", folded hl(3)]
  let ?at = "hl + i * g"
  show ?case
  proof (cases "i < N")
    case False
    then have "\<not> ?at < length inn" using cnt [of i] by simp
    then show ?thesis
      using False less.prems by (intro exI [of _ outs] exI [of _ sizes]) (subst gso_loop.simps, simp)
  next
    case True
    then have at: "?at < length inn" using cnt [of i] by simp
    show ?thesis
    proof (cases "i = length outs")
      case full: True
      then show ?thesis
        using True at less.prems by (intro exI [of _ outs] exI [of _ sizes]) (subst gso_loop.simps, auto)
    next
      case False
      then have il: "i < length outs" "i < length sizes" using less.prems by simp_all
      define dataEnd where "dataEnd = (if length inn < ?at + g then length inn else ?at + g)"
      define n where "n = dataEnd - ?at"
      have c: "take n (drop ?at inn) = chunk inn hl g i"
        by (simp add: chunk_def n_def dataEnd_def)
      have ln: "n = length (chunk inn hl g i)" using at by (simp add: chunk_def n_def dataEnd_def)
      have de: "hl \<le> ?at" "?at \<le> dataEnd" "dataEnd \<le> length inn" using at by (auto simp: dataEnd_def)
      have small: "hl + n < 65536" "i * g < 65536" "n \<le> g" using len at by (auto simp: n_def dataEnd_def)
      have last: "(dataEnd = length inn) = (Suc i = N)"
        using cnt [of "Suc i"] True at by (auto simp: dataEnd_def)
      define b where "b = outs ! i"
      have lb: "off + hl + g \<le> length b" using less.prems(1) il by (simp add: b_def)
      have lo: "hl + n \<le> length (drop off b)" using lb small(3) by simp
      obtain out' where o: "gso_segment e sp hdr (hdr_proto tcp) firstSeq v6 inn i ?at dataEnd (drop off b) = Some out'"
        "length out' = length (drop off b)" "drop (hl + n) out' = drop (hl + n) (drop off b)"
        "segment_of e tcp v6 hdr inn i (take n (drop ?at inn)) (dataEnd = length inn) (take (hl + n) out')"
        using gso_segment_spec [OF h hl(1) refl refl zero [unfolded co] de n_def small(1) lo small(2) [unfolded hl(2)] sq]
        by blast
      define outs1 where "outs1 = outs[i := take off b @ out']"
      define sizes1 where "sizes1 = sizes[i := hl + n]"
      have step: "gso_loop e sp hdr (hdr_proto tcp) firstSeq v6 inn off i ?at outs sizes
        = gso_loop e sp hdr (hdr_proto tcp) firstSeq v6 inn off (Suc i) (hl + Suc i * g) outs1 sizes1"
      proof -
        have "slice_from b off = Some (drop off b)" using lb by (simp add: go_simps)
        moreover have nx: "hl + Suc i * g = ?at + g" by simp
        ultimately show ?thesis
          using at False il o(1) unfolding hl(1,2) [symmetric] nx
          by (subst gso_loop.simps)
            (simp add: idx_in set_at_in Let_def dataEnd_def [symmetric] n_def [symmetric]
              b_def [symmetric] outs1_def sizes1_def hl(1,2) [symmetric])
      qed
      have l1: "length (take off b @ out') = length b" using o(2) lb by simp
      have pre: "length outs1 - Suc i < length outs - i" "length outs1 \<le> length sizes1"
        "Suc i \<le> N" "Suc i \<le> length outs1"
        using il less.prems(2) True by (simp_all add: outs1_def sizes1_def)
      have room: "\<forall>b \<in> set outs1. off + hl + g \<le> length b"
        using less.prems(1) l1 lb by (auto simp: outs1_def dest!: set_update_subset_insert [THEN subsetD])
      obtain outs' sizes' where r:
        "gso_loop e sp hdr (hdr_proto tcp) firstSeq v6 inn off (Suc i) (hl + Suc i * g) outs1 sizes1
         = Some (if N \<le> length outs1 then int N else int (length outs1) - 1,
             if N \<le> length outs1 then None else Some ErrTooManySegments, outs', sizes')"
        "length outs' = length outs1" "length sizes' = length sizes1"
        "\<forall>k. Suc i \<le> k \<longrightarrow> k < N \<longrightarrow> k < length outs1 \<longrightarrow>
          seg_done e tcp v6 hdr inn off k (outs1 ! k) (outs' ! k) (sizes' ! k)"
        "\<forall>k. k < Suc i \<or> N \<le> k \<longrightarrow> outs' ! k = outs1 ! k \<and> sizes' ! k = sizes1 ! k"
        using less.hyps [OF pre(1) room pre(2-4)] by (elim exE conjE) (erule (4) that)
      have here: "seg_done e tcp v6 hdr inn off i (outs ! i) (outs' ! i) (sizes' ! i)"
      proof -
        have new: "outs' ! i = take off b @ out'" "sizes' ! i = hl + n"
          using r(5) il by (simp_all add: outs1_def sizes1_def)
        have toff: "length (take off b) = off" using lb by simp
        then have "take (hl + n) (drop off (outs' ! i)) = take (hl + n) out'"
          "drop (off + (hl + n)) (outs' ! i) = drop (off + (hl + n)) b"
          "take off (outs' ! i) = take off b"
          using o(3) by (simp_all add: new add.commute)
        then show ?thesis
          using o(4) l1 last new ln
          unfolding seg_done_def Let_def hl(1,2) [symmetric] hl(3) [symmetric] c b_def [symmetric] by simp
      qed
      show ?thesis
        unfolding step
      proof (intro exI conjI)
        show "gso_loop e sp hdr (hdr_proto tcp) firstSeq v6 inn off (Suc i) (hl + Suc i * g) outs1 sizes1
          = Some (if N \<le> length outs then int N else int (length outs) - 1,
             if N \<le> length outs then None else Some ErrTooManySegments, outs', sizes')"
          using r(1) by (simp add: outs1_def)
        show "length outs' = length outs" "length sizes' = length sizes"
          using r(2,3) by (simp_all add: outs1_def sizes1_def)
        show "\<forall>k. i \<le> k \<longrightarrow> k < N \<longrightarrow> k < length outs \<longrightarrow>
          seg_done e tcp v6 hdr inn off k (outs ! k) (outs' ! k) (sizes' ! k)"
        proof (intro allI impI)
          fix k assume k: "i \<le> k" "k < N" "k < length outs"
          show "seg_done e tcp v6 hdr inn off k (outs ! k) (outs' ! k) (sizes' ! k)"
          proof (cases "k = i")
            case True
            then show ?thesis using here by simp
          next
            case ne: False
            then have "outs1 ! k = outs ! k" "Suc i \<le> k" using k by (simp_all add: outs1_def)
            then show ?thesis using r(4) k by (simp add: outs1_def)
          qed
        qed
        show "\<forall>k. k < i \<or> N \<le> k \<longrightarrow> outs' ! k = outs ! k \<and> sizes' ! k = sizes ! k"
        proof (intro allI impI)
          fix k assume k: "k < i \<or> N \<le> k"
          then have "k \<noteq> i" "k < Suc i \<or> N \<le> k" using True by auto
          moreover from this have "outs' ! k = outs1 ! k \<and> sizes' ! k = sizes1 ! k" using r(5) by blast
          ultimately show "outs' ! k = outs ! k \<and> sizes' ! k = sizes ! k"
            by (simp add: outs1_def sizes1_def)
        qed
      qed
    qed
  qed
qed

end
