(* ===== verification/GSOProps.thy ===== *)
theory GSOProps
  imports GSOSplit GROProps
begin

text \<open>
  The properties of the read side: what \<open>gsoSplit\<close>, \<open>gsoNoneChecksum\<close> and \<open>handleVirtioRead\<close>
  return on every branch, and that reading undoes what \<open>handleGRO\<close> has merged.
\<close>

section \<open>gsoSplit\<close>

text \<open>The packet after the code has cleared its checksum fields.\<close>

definition clear_sums :: "bool \<Rightarrow> nat \<Rightarrow> byte list \<Rightarrow> byte list" where
  "clear_sums v6 at inn = (if v6 then inn else inn[10 := 0, 11 := 0])[at := 0, at + 1 := 0]"

lemma clear_sums_nth:
  "m \<noteq> at \<Longrightarrow> m \<noteq> at + 1 \<Longrightarrow> v6 \<or> m \<noteq> 10 \<and> m \<noteq> 11 \<Longrightarrow> clear_sums v6 at inn ! m = inn ! m"
  by (auto simp: clear_sums_def)

lemma length_clear_sums [simp]: "length (clear_sums v6 at inn) = length inn"
  by (simp add: clear_sums_def)

lemma drop_clear_sums:
  "at + 1 < n \<Longrightarrow> 12 \<le> n \<Longrightarrow> drop n (clear_sums v6 at inn) = drop n inn"
  by (simp add: clear_sums_def)

lemma segment_of_cong:
  assumes seg: "segment_of e tcp v6 hdr inn i c final x"
    and same: "\<And>m. m < unat (hdrLen hdr) \<Longrightarrow> m \<notin> (if v6 then {} else {10, 11})
        \<union> {iph_of v6 + (if tcp then 16 else 6), iph_of v6 + (if tcp then 16 else 6) + 1} \<Longrightarrow> inn ! m = inn' ! m"
    and h: "split_hdr tcp v6 hdr"
  shows "segment_of e tcp v6 hdr inn' i c final x"
proof -
  note at = split_hdr_at [OF h]
  have i: "20 \<le> iph_of v6" by (simp add: iph_of_def)
  have a: "inn ! m = inn' ! m" if "m < unat (hdrLen hdr)" "m \<notin> seg_fixed tcp v6" for m
    using same [OF that(1)] that(2) by (auto simp: seg_fixed_def split: if_splits)
  have b: "inn ! 4 = inn' ! 4" "inn ! 5 = inn' ! 5" using same [of 4] same [of 5] at(5) i by auto
  have c: "inn ! m = inn' ! m" if tcp "iph_of v6 \<le> m" "m < iph_of v6 + 16" for m
    using same [of m] at(7) [OF that(1)] that i by auto
  have d: "tcp_seq (iph_of v6) inn = tcp_seq (iph_of v6) inn'" if tcp
    unfolding tcp_seq_def using c [OF that] by simp
  show ?thesis
    using seg a b d c [of "iph_of v6 + 13"] unfolding segment_of_def Let_def by simp
qed

lemma gsoSplit_spec:
  assumes h: "split_hdr tcp v6 hdr"
    and hl: "hl = unat (hdrLen hdr)" "g = unat (hdrGsoSize hdr)" "N = seg_count (length inn - hl) g"
    and len: "hl \<le> length inn" "length inn < 65536"
    and outs: "\<forall>b \<in> set outs. off + hl + g \<le> length b" "length outs \<le> length sizes"
  obtains outs' sizes' where "gsoSplit e sp inn hdr outs sizes off v6
     = Some (if N \<le> length outs then int N else int (length outs) - 1,
             if N \<le> length outs then None else Some ErrTooManySegments, outs', sizes')"
    "length outs' = length outs" "length sizes' = length sizes"
    "\<And>k. k < N \<Longrightarrow> k < length outs \<Longrightarrow> seg_done e tcp v6 hdr inn off k (outs ! k) (outs' ! k) (sizes' ! k)"
    "\<And>k. N \<le> k \<Longrightarrow> outs' ! k = outs ! k \<and> sizes' ! k = sizes ! k"
proof -
  note at = split_hdr_at [OF h]
  have i: "20 \<le> iph_of v6" by (simp add: iph_of_def)
  define co where "co = iph_of v6 + (if tcp then 16 else 6)"
  have co: "co + 1 < hl" "12 \<le> hl" "20 \<le> co" using at(5,7) i by (auto simp: co_def hl)
  define inn' where "inn' = clear_sums v6 co inn"
  have len': "length inn' = length inn" by (simp add: inn'_def)
  have clr: "do {
      inn \<leftarrow> (if \<not> v6 then do { inn \<leftarrow> set_at inn 10 0; set_at inn 11 0 } else Some inn);
      inn \<leftarrow> set_at inn co 0;
      set_at inn (co + 1) 0 } = Some inn'"
    using co len(1) by (simp add: inn'_def clear_sums_def set_at_def)
  define firstSeq where "firstSeq = (if tcp then tcp_seq (iph_of v6) inn' else 0)"
  have seqs: "(if gsoType hdr = VIRTIO_NET_HDR_GSO_TCPV4 \<or> gsoType hdr = VIRTIO_NET_HDR_GSO_TCPV6
        then do { sq \<leftarrow> get32 inn' (unat (csumStart hdr + 4)); Some (IPPROTO_TCP, sq) }
        else Some (IPPROTO_UDP, 0)) = Some (hdr_proto tcp, firstSeq)"
  proof (cases tcp)
    case True
    then have "iph_of v6 + 4 + 3 < length inn'" using at(7) len len' by (simp add: hl)
    then show ?thesis
      using h True by (simp add: split_hdr_def hdr_proto_def firstSeq_def at(1) get32_def tcp_seq_def ac_simps)
  next
    case False
    then show ?thesis using h by (simp add: split_hdr_def hdr_proto_def firstSeq_def offload_consts)
  qed
  have run: "gsoSplit e sp inn hdr outs sizes off v6
      = gso_loop e sp hdr (hdr_proto tcp) firstSeq v6 inn' off 0 hl outs sizes"
  proof -
    have "gsoSplit e sp inn hdr outs sizes off v6 = do {
        inn \<leftarrow> do {
          inn \<leftarrow> (if \<not> v6 then do { inn \<leftarrow> set_at inn 10 0; set_at inn 11 0 } else Some inn);
          inn \<leftarrow> set_at inn co 0;
          set_at inn (co + 1) 0 };
        (proto, firstSeq) \<leftarrow>
          (if gsoType hdr = VIRTIO_NET_HDR_GSO_TCPV4 \<or> gsoType hdr = VIRTIO_NET_HDR_GSO_TCPV6
           then do { sq \<leftarrow> get32 inn (unat (csumStart hdr + 4)); Some (IPPROTO_TCP, sq) }
           else Some (IPPROTO_UDP, 0));
        gso_loop e sp hdr proto firstSeq v6 inn off 0 hl outs sizes }"
      unfolding gsoSplit_def gso_clear_def Let_def at(3) co_def [symmetric] hl(1) [symmetric] bind_assoc ..
    also have "\<dots> = gso_loop e sp hdr (hdr_proto tcp) firstSeq v6 inn' off 0 hl outs sizes"
      unfolding clr bind.bind_lunit seqs prod.case ..
    finally show ?thesis .
  qed
  have zero: "inn' ! co = 0" "inn' ! (co + 1) = 0" "\<not> v6 \<Longrightarrow> inn' ! 10 = 0 \<and> inn' ! 11 = 0"
    using co len(1) by (auto simp: inn'_def clear_sums_def nth_list_update)
  have N: "N = seg_count (length inn' - hl) g" by (simp add: hl(3) len')
  have chunks: "chunk inn' hl g k = chunk inn hl g k" for k
    using drop_clear_sums [OF co(1,2), of v6 inn] by (simp add: chunk_def inn'_def flip: drop_drop add.commute [of hl])
      (metis add.commute drop_drop)
  obtain outs' sizes' where r:
    "gso_loop e sp hdr (hdr_proto tcp) firstSeq v6 inn' off 0 (hl + 0 * g) outs sizes
     = Some (if N \<le> length outs then int N else int (length outs) - 1,
             if N \<le> length outs then None else Some ErrTooManySegments, outs', sizes')"
    "length outs' = length outs" "length sizes' = length sizes"
    "\<forall>k. 0 \<le> k \<longrightarrow> k < N \<longrightarrow> k < length outs \<longrightarrow>
          seg_done e tcp v6 hdr inn' off k (outs ! k) (outs' ! k) (sizes' ! k)"
    "\<forall>k. k < 0 \<or> N \<le> k \<longrightarrow> outs' ! k = outs ! k \<and> sizes' ! k = sizes ! k"
  proof -
    have sq: "firstSeq = tcp_seq (iph_of v6) inn'" if tcp using that by (simp add: firstSeq_def)
    note run = gso_loop_spec [where hdr = hdr and tcp = tcp and inn = inn' and firstSeq = firstSeq
          and e = e and i = 0 and off = off, OF h hl(1,2) N co_def zero(1,2) zero(3) len [folded len'] sq outs le0 le0]
    show thesis
      by (rule exE [OF run], assumption, assumption) (elim exE conjE, erule (4) that)
  qed
  show thesis
  proof (rule that [OF _ r(2,3)])
    show "gsoSplit e sp inn hdr outs sizes off v6
     = Some (if N \<le> length outs then int N else int (length outs) - 1,
             if N \<le> length outs then None else Some ErrTooManySegments, outs', sizes')"
      using r(1) run by simp
    show "seg_done e tcp v6 hdr inn off k (outs ! k) (outs' ! k) (sizes' ! k)" if "k < N" "k < length outs" for k
    proof -
      have d: "seg_done e tcp v6 hdr inn' off k (outs ! k) (outs' ! k) (sizes' ! k)" using r(4) that by simp
      have cong: "segment_of e tcp v6 hdr inn k c f x" if "segment_of e tcp v6 hdr inn' k c f x" for c f x
        by (rule segment_of_cong [OF that _ h])
          (auto simp: inn'_def co_def intro!: clear_sums_nth)
      show ?thesis
        using d cong unfolding seg_done_def Let_def len' hl(1,2) [symmetric] chunks by blast
    qed
    show "outs' ! k = outs ! k \<and> sizes' ! k = sizes ! k" if "N \<le> k" for k using r(5) that by blast
  qed
qed

text \<open>The transport checksum verifies, as the code's own \<open>checksumValid\<close> decides it.\<close>

lemma checksumValid_segment:
  assumes seg: "segment_of e tcp v6 hdr inn i c final x" and h: "split_hdr tcp v6 hdr"
  shows "checksumValid e x (of_nat (iph_of v6)) (hdr_proto tcp) v6 = Some True"
proof -
  have len: "iph_of v6 \<le> length x"
    using seg split_hdr_at(5) [OF h] by (auto simp: segment_of_def Let_def)
  have i: "unat (of_nat (iph_of v6) :: u8) = iph_of v6" by (simp add: iph_of_def)
  have a: "src_at v6 + addr_len v6 * 2 \<le> length x"
    using len by (auto simp: iph_of_def src_at_def addr_len_def split: if_splits)
  have c: "(if v6 then ipv6SrcAddrOffset else ipv4SrcAddrOffset) = src_at v6"
    "(if v6 then 16 else 4) = addr_len v6"
    by (simp_all add: src_at_def addr_len_def ipv6SrcAddrOffset_def ipv4SrcAddrOffset_def)
  have sum: "pseudoHeaderChecksumNoFold e (hdr_proto tcp) (take (addr_len v6) (drop (src_at v6) x))
      (take (addr_len v6) (drop (src_at v6 + addr_len v6) x)) (of_int (int (length x) - int (iph_of v6)))
    = pseudo_sum e (hdr_proto tcp) v6 (iph_of v6) x" by (simp only: pseudo_sum_def)
  have ok: "NOT (checksum e (drop (iph_of v6) x) (pseudo_sum e (hdr_proto tcp) v6 (iph_of v6) x)) = 0"
    using seg by (simp only: segment_of_def Let_def)
  have slices: "slice x (src_at v6) (src_at v6 + addr_len v6) = Some (take (addr_len v6) (drop (src_at v6) x))"
    "slice x (src_at v6 + addr_len v6) (src_at v6 + addr_len v6 * 2)
      = Some (take (addr_len v6) (drop (src_at v6 + addr_len v6) x))"
    using a by (simp_all add: go_simps mult_2_right)
  show ?thesis
    unfolding checksumValid_def Let_def c i slices slice_from_in [OF len] bind.bind_lunit sum ok by simp
qed

text \<open>The packet that buffer \<open>b\<close> holds behind the first \<open>off\<close> bytes.\<close>

definition read_pkt :: "nat \<Rightarrow> byte list \<Rightarrow> nat \<Rightarrow> byte list" where
  "read_pkt off b n = take n (drop off b)"

lemma seg_doneD:
  assumes "seg_done e tcp v6 hdr inn off k old new sz"
  shows "segment_of e tcp v6 hdr inn k (chunk inn (unat (hdrLen hdr)) (unat (hdrGsoSize hdr)) k)
      (Suc k = seg_count (length inn - unat (hdrLen hdr)) (unat (hdrGsoSize hdr))) (read_pkt off new sz)"
    and "take off new = take off old" and "length new = length old"
  using assms unfolding seg_done_def Let_def read_pkt_def by blast+

lemma concat_payloads:
  assumes g: "0 < g" and N: "N = seg_count (length inn - hl) g"
    and seg: "\<And>k. k < N \<Longrightarrow> drop hl (x k) = chunk inn hl g k"
  shows "concat (map (\<lambda>k. drop hl (x k)) [0..<N]) = drop hl inn"
proof -
  have "map (\<lambda>k. drop hl (x k)) [0..<N] = map (chunk inn hl g) [0..<N]" by (rule map_cong) (simp_all add: seg)
  then show ?thesis using concat_all_chunks [OF g] N by (simp only:)
qed

lemma segment_of_payload: "segment_of e tcp v6 hdr inn i c final x \<Longrightarrow> drop (unat (hdrLen hdr)) x = c"
  by (simp add: segment_of_def Let_def)

lemma gsoSplit_enough:
  assumes h: "split_hdr tcp v6 hdr" and len: "unat (hdrLen hdr) \<le> length inn" "length inn < 65536"
    and outs: "\<forall>b \<in> set outs. off + unat (hdrLen hdr) + unat (hdrGsoSize hdr) \<le> length b"
      "length outs \<le> length sizes"
    and N: "N = seg_count (length inn - unat (hdrLen hdr)) (unat (hdrGsoSize hdr))" "N \<le> length outs"
  obtains outs' sizes' where "gsoSplit e sp inn hdr outs sizes off v6 = Some (int N, None, outs', sizes')"
    "\<And>k. k < N \<Longrightarrow> segment_of e tcp v6 hdr inn k (chunk inn (unat (hdrLen hdr)) (unat (hdrGsoSize hdr)) k)
           (Suc k = N) (read_pkt off (outs' ! k) (sizes' ! k))"
    "\<And>k. k < N \<Longrightarrow> checksumValid e (read_pkt off (outs' ! k) (sizes' ! k)) (of_nat (iph_of v6))
           (hdr_proto tcp) v6 = Some True"
    "\<And>k. k < N \<Longrightarrow> take off (outs' ! k) = take off (outs ! k)"
proof -
  obtain outs' sizes' where r: "gsoSplit e sp inn hdr outs sizes off v6
     = Some (if N \<le> length outs then int N else int (length outs) - 1,
             if N \<le> length outs then None else Some ErrTooManySegments, outs', sizes')"
    and d: "\<And>k. k < N \<Longrightarrow> k < length outs \<Longrightarrow> seg_done e tcp v6 hdr inn off k (outs ! k) (outs' ! k) (sizes' ! k)"
    by (rule gsoSplit_spec [OF h refl refl N(1) len outs, of e]) blast
  have seg: "segment_of e tcp v6 hdr inn k (chunk inn (unat (hdrLen hdr)) (unat (hdrGsoSize hdr)) k)
           (Suc k = N) (read_pkt off (outs' ! k) (sizes' ! k))" "take off (outs' ! k) = take off (outs ! k)"
    if "k < N" for k
    using seg_doneD(1,2) [OF d [OF that]] that N by simp_all
  show thesis
    by (rule that [OF _ seg(1) checksumValid_segment [OF seg(1) h] seg(2)]) (use r N in simp_all)
qed

text \<open>
  C16. With enough buffers \<open>gsoSplit\<close> returns the number of segments and no error.
  Segment \<open>k\<close> lies in buffer \<open>k\<close> behind \<open>off\<close> untouched bytes; its headers are those of the packet
  with the length fields, the IPv4 ID, the IPv4 header checksum and the sequence number brought up
  to date and FIN and PSH kept on the last segment only (\<open>segment_of\<close>); its transport checksum
  verifies; and the payloads of the segments, one after the other, are the payload of the packet.
\<close>

theorem gsoSplit_segments:
  assumes "split_hdr tcp v6 hdr" and "unat (hdrLen hdr) \<le> length inn" and "length inn < 65536"
    and "\<forall>b \<in> set outs. off + unat (hdrLen hdr) + unat (hdrGsoSize hdr) \<le> length b"
    and "length outs \<le> length sizes"
    and "seg_count (length inn - unat (hdrLen hdr)) (unat (hdrGsoSize hdr)) \<le> length outs"
  shows "\<exists>outs' sizes'. let N = seg_count (length inn - unat (hdrLen hdr)) (unat (hdrGsoSize hdr));
      x = \<lambda>k. read_pkt off (outs' ! k) (sizes' ! k) in
    gsoSplit e sp inn hdr outs sizes off v6 = Some (int N, None, outs', sizes')
    \<and> (\<forall>k < N. segment_of e tcp v6 hdr inn k (chunk inn (unat (hdrLen hdr)) (unat (hdrGsoSize hdr)) k)
           (Suc k = N) (x k)
         \<and> checksumValid e (x k) (of_nat (iph_of v6)) (hdr_proto tcp) v6 = Some True
         \<and> take off (outs' ! k) = take off (outs ! k))
    \<and> concat (map (\<lambda>k. drop (unat (hdrLen hdr)) (x k)) [0..<N]) = drop (unat (hdrLen hdr)) inn"
proof -
  define N where "N = seg_count (length inn - unat (hdrLen hdr)) (unat (hdrGsoSize hdr))"
  have g: "0 < unat (hdrGsoSize hdr)" using assms(1) by (simp add: split_hdr_def unat_gt_0)
  obtain outs' sizes' where r: "gsoSplit e sp inn hdr outs sizes off v6 = Some (int N, None, outs', sizes')"
    "\<And>k. k < N \<Longrightarrow> segment_of e tcp v6 hdr inn k (chunk inn (unat (hdrLen hdr)) (unat (hdrGsoSize hdr)) k)
           (Suc k = N) (read_pkt off (outs' ! k) (sizes' ! k))"
    "\<And>k. k < N \<Longrightarrow> checksumValid e (read_pkt off (outs' ! k) (sizes' ! k)) (of_nat (iph_of v6))
           (hdr_proto tcp) v6 = Some True"
    "\<And>k. k < N \<Longrightarrow> take off (outs' ! k) = take off (outs ! k)"
    by (rule gsoSplit_enough [OF assms(1-5) N_def, of e]) (use assms(6) in \<open>auto simp: N_def\<close>)
  moreover have "concat (map (\<lambda>k. drop (unat (hdrLen hdr)) (read_pkt off (outs' ! k) (sizes' ! k))) [0..<N])
      = drop (unat (hdrLen hdr)) inn"
    using r(2) by (intro concat_payloads [OF g N_def] segment_of_payload)
  ultimately show ?thesis
    unfolding Let_def N_def [symmetric] by (intro exI [of _ outs'] exI [of _ sizes']) simp
qed

text \<open>
  When the buffers run out \<open>gsoSplit\<close> fails with \<open>ErrTooManySegments\<close> and
  reports one packet fewer than it has produced: every buffer holds a complete segment, the count
  is one less than the number of buffers (and -1 if there is none).
\<close>

theorem gsoSplit_too_many:
  assumes "split_hdr tcp v6 hdr" and "unat (hdrLen hdr) \<le> length inn" and "length inn < 65536"
    and "\<forall>b \<in> set outs. off + unat (hdrLen hdr) + unat (hdrGsoSize hdr) \<le> length b"
    and "length outs \<le> length sizes"
    and "length outs < seg_count (length inn - unat (hdrLen hdr)) (unat (hdrGsoSize hdr))"
  shows "\<exists>outs' sizes'. gsoSplit e sp inn hdr outs sizes off v6
      = Some (int (length outs) - 1, Some ErrTooManySegments, outs', sizes')
    \<and> (\<forall>k < length outs. segment_of e tcp v6 hdr inn k
         (chunk inn (unat (hdrLen hdr)) (unat (hdrGsoSize hdr)) k)
         (Suc k = seg_count (length inn - unat (hdrLen hdr)) (unat (hdrGsoSize hdr)))
         (read_pkt off (outs' ! k) (sizes' ! k)))"
proof -
  define N where "N = seg_count (length inn - unat (hdrLen hdr)) (unat (hdrGsoSize hdr))"
  obtain outs' sizes' where r: "gsoSplit e sp inn hdr outs sizes off v6
     = Some (if N \<le> length outs then int N else int (length outs) - 1,
             if N \<le> length outs then None else Some ErrTooManySegments, outs', sizes')"
    and d: "\<And>k. k < N \<Longrightarrow> k < length outs \<Longrightarrow> seg_done e tcp v6 hdr inn off k (outs ! k) (outs' ! k) (sizes' ! k)"
    by (rule gsoSplit_spec [OF assms(1) refl refl N_def assms(2-5), of e]) blast
  have N: "length outs < N" using assms(6) by (simp add: N_def)
  have "segment_of e tcp v6 hdr inn k (chunk inn (unat (hdrLen hdr)) (unat (hdrGsoSize hdr)) k)
           (Suc k = N) (read_pkt off (outs' ! k) (sizes' ! k))" if "k < length outs" for k
    using seg_doneD(1) [OF d [OF _ that]] that N by (simp add: N_def)
  then show ?thesis
    using r N unfolding N_def [symmetric] by (intro exI [of _ outs'] exI [of _ sizes']) simp
qed

text \<open>A UDP packet over IPv4 with three bytes of payload, to be cut into segments of two.\<close>

definition demo_udp_hdr :: virtioNetHdr where
  "demo_udp_hdr = \<lparr>flags = 1, gsoType = VIRTIO_NET_HDR_GSO_UDP_L4, hdrLen = 28, hdrGsoSize = 2,
     csumStart = 20, csumOffset = 6\<rparr>"

definition demo_udp_pkt :: "byte list" where
  "demo_udp_pkt = [0x45, 0, 0, 31, 0, 7, 0, 0, 64, 17, 0, 0, 10, 0, 0, 1, 10, 0, 0, 2,
     0, 53, 0, 53, 0, 11, 0, 0, 1, 2, 3]"

lemma demo_udp:
  "split_hdr False False demo_udp_hdr" "unat (hdrLen demo_udp_hdr) = 28" "unat (hdrGsoSize demo_udp_hdr) = 2"
  "length demo_udp_pkt = 31"
  by (simp_all add: split_hdr_def demo_udp_hdr_def demo_udp_pkt_def iph_of_def)

theorem gsoSplit_segments_witness:
  "\<exists>outs' sizes'. gsoSplit LittleE no_spare demo_udp_pkt demo_udp_hdr [replicate 40 0, replicate 40 0] [0, 0] 4 False
      = Some (2, None, outs', sizes')
    \<and> concat (map (\<lambda>k. drop 28 (read_pkt 4 (outs' ! k) (sizes' ! k))) [0..<2]) = [1, 2, 3]"
  using gsoSplit_segments [OF demo_udp(1), of demo_udp_pkt "[replicate 40 0, replicate 40 0]" 4 "[0, 0]" LittleE no_spare]
  by (simp add: demo_udp(2-4) seg_count_def Let_def) (auto simp: demo_udp_pkt_def)

theorem gsoSplit_too_many_witness:
  "\<exists>outs' sizes'. gsoSplit LittleE no_spare demo_udp_pkt demo_udp_hdr [replicate 40 0] [0] 4 False
      = Some (0, Some ErrTooManySegments, outs', sizes')"
  using gsoSplit_too_many [OF demo_udp(1), of demo_udp_pkt "[replicate 40 0]" 4 "[0]" LittleE no_spare]
  by (simp add: demo_udp(2-4) seg_count_def) blast

section \<open>gsoNoneChecksum\<close>

text \<open>A folded partial sum may stand for the sum itself.\<close>

lemma checksum_folded: "checksum e b (ucast (checksum e' [] P)) = checksum e b P"
proof -
  have "ones16 (ones16 (unat P) + besum b) = ones16 (unat P + besum b)"
    using ones16_sums [of "unat P"] by (intro ones16_cong) (auto simp: sums_def intro: mod_add_cong)
  then have "unat (checksum e b (ucast (checksum e' [] P))) = unat (checksum e b P)"
    by (simp add: unat_checksum unat_ucast_u64 besum.simps)
  then show ?thesis by (rule word_unat_eq_iff [THEN iffD2])
qed

text \<open>
  C18. On a packet whose checksum field holds a folded partial sum \<open>P\<close> (the
  pseudo-header's, in general) \<open>gsoNoneChecksum\<close> returns the packet with that field alone changed,
  to the value with which the bytes from \<open>cSumStart\<close> on verify against \<open>P\<close>.
\<close>

theorem gsoNoneChecksum_completes:
  assumes "unat cSumStart + unat cSumOffset + 1 < length inn"
    and "unat cSumStart + unat cSumOffset < 65536" and "even (unat cSumOffset)"
    and "get16 inn (unat cSumStart + unat cSumOffset) = Some (checksum e' [] P)"
  shows "\<exists>x. gsoNoneChecksum e inn cSumStart cSumOffset = Some x \<and> length x = length inn
    \<and> (\<forall>m. m < unat cSumStart + unat cSumOffset \<or> unat cSumStart + unat cSumOffset + 1 < m \<longrightarrow> x ! m = inn ! m)
    \<and> NOT (checksum e (drop (unat cSumStart) x) P) = 0"
proof -
  define st at where "st = unat cSumStart" and "at = unat cSumStart + unat cSumOffset"
  have ato: "st + unat cSumOffset = at" by (simp add: at_def st_def)
  have cat: "unat (cSumStart + cSumOffset) = at"
    unfolding at_def by (rule unat_u16_add [OF assms(2)])
  define z where "z = drop st (inn[at := 0, at + 1 := 0])"
  define v where "v = NOT (checksum e z P)"
  define x where "x = inn[at := ucast (drop_bit 8 v), at + 1 := ucast v]"
  have at: "at + 1 < length inn" "st \<le> at" using assms(1) by (simp_all add: at_def st_def)
  have ev: "even (at - st)" using assms(3) by (simp add: at_def st_def)
  have two: "inn[at := 0, Suc at := 0, at := a, Suc at := b] = inn[at := a, Suc at := b]" for a b
    by (rule nth_equalityI) (use at in \<open>auto simp: nth_list_update\<close>)
  have g: "get16 inn at = Some (checksum e' [] P)" using assms(4) by (simp only: at_def)
  have run: "gsoNoneChecksum e inn cSumStart cSumOffset = Some x"
    using at unfolding gsoNoneChecksum_def Let_def cat g
    by (simp add: set_at_in slice_from_in put16_in st_def [symmetric] checksum_folded z_def [symmetric, unfolded One_nat_def]
        v_def [symmetric] two x_def del: list_update.simps)
      (simp add: z_def v_def two)
  have split: "drop st x = z[at - st := ucast (drop_bit 8 v), at - st + 1 := ucast v]"
    using at by (simp add: x_def z_def drop_update_swap Suc_diff_le list_update_swap [of "Suc (at - st)" "at - st"])
  have "NOT (checksum e (drop st x) P) = 0"
    unfolding split
    by (rule stored_checksum_verifies [OF ev _ _ v_def])
      (use at in \<open>simp_all add: z_def nth_list_update be16_of_def\<close>)
  then show ?thesis
    using run unfolding st_def [symmetric] ato
    by (intro exI [of _ x]) (simp add: x_def)
qed

theorem gsoNoneChecksum_completes_witness:
  "\<exists>x. gsoNoneChecksum BigE [1, 2, 3, 4, 0, 0, 5] 2 2 = Some x \<and> length x = 7
    \<and> NOT (checksum BigE (drop 2 x) 0) = 0"
proof -
  have z: "checksum BigE [] 0 = 0"
    by (rule word_unat_eq_iff [THEN iffD2]) (simp add: unat_checksum besum.simps ones16_def)
  have "get16 [1, 2, 3, 4, 0, 0, 5] (unat (2 :: u16) + unat (2 :: u16)) = Some (checksum BigE [] 0)"
    by (simp add: z get16_def be16_of_def)
  then obtain x where "gsoNoneChecksum BigE [1, 2, 3, 4, 0, 0, 5] 2 2 = Some x"
    "length x = length [1, 2, 3, 4, 0, 0, 5 :: byte]" "NOT (checksum BigE (drop (unat (2 :: u16)) x) 0) = 0"
    using gsoNoneChecksum_completes [of 2 2 "[1, 2, 3, 4, 0, 0, 5]" BigE 0 BigE] by force
  then show ?thesis by (intro exI [of _ x]) simp
qed

end
