(* ===== verification/GSOBounds.thy ===== *)
theory GSOBounds
  imports GSO
begin

text \<open>
  What \<open>handleVirtioRead\<close> returns stays within the caller's buffers, whatever the device delivers:
  the bounds hold for every header and packet for which the code does not panic.
\<close>

section \<open>Lengths\<close>

named_theorems keeps_length

lemma length_set_at [keeps_length]: "set_at xs i v = Some ys \<Longrightarrow> length ys = length xs"
  by (auto simp: go_iff)

lemma length_copy_at [keeps_length]: "copy_at xs i src = Some ys \<Longrightarrow> length ys = length xs"
  by (auto simp: copy_at_def split: if_splits)

lemma length_put16 [keeps_length]: "put16 xs i v = Some ys \<Longrightarrow> length ys = length xs"
  by (auto simp: put16_Some)

lemma length_put32 [keeps_length]: "put32 xs i v = Some ys \<Longrightarrow> length ys = length xs"
  by (auto simp: put32_Some)

lemma length_gso_ipv4 [keeps_length]: "gso_ipv4 e iphl i n spare out = Some out' \<Longrightarrow> length out' = length out"
  by (auto simp: gso_ipv4_def bind_Some_iff dest!: keeps_length split: if_splits)

lemma length_gso_transport [keeps_length]:
  "gso_transport hdr proto sq i final n out = Some out' \<Longrightarrow> length out' = length out"
  by (auto simp: gso_transport_def Let_def bind_Some_iff dest!: keeps_length split: if_splits)

lemma gso_segment_bounds:
  "gso_segment e sp hdr proto sq v6 inn i a b out = Some out' \<Longrightarrow>
   length out' = length out \<and> unat (hdrLen hdr) + (b - a) \<le> length out + length (outSpare sp i)"
  by (auto simp: gso_segment_def Let_def bind_Some_iff reslice_def slice_Some dest!: keeps_length split: if_splits)

section \<open>The loop\<close>

text \<open>What holds of buffers and sizes while the first \<open>i\<close> segments have been written.\<close>

definition within :: "spareMem \<Rightarrow> nat \<Rightarrow> byte list list \<Rightarrow> nat \<Rightarrow> byte list list \<Rightarrow> nat list \<Rightarrow> bool" where
  "within sp off outs0 i outs sizes \<longleftrightarrow>
     map length outs = map length outs0 \<and> map (take off) outs = map (take off) outs0
     \<and> i \<le> length outs0 \<and> i \<le> length sizes \<and> (\<forall>k < i. off + sizes ! k \<le> length (outs0 ! k) + length (outSpare sp k))"

lemma gso_loop_within:
  "gso_loop e sp hdr proto sq v6 inn off i a outs sizes = Some (n, err, outs', sizes') \<Longrightarrow>
   within sp off outs0 i outs sizes \<Longrightarrow>
   (\<exists>k. within sp off outs0 k outs' sizes' \<and> n \<le> int k) \<and> length sizes' = length sizes
     \<and> (err = None \<or> err = Some ErrTooManySegments)"
proof (induction "length outs - i" arbitrary: i a outs sizes rule: less_induct)
  case less
  show ?case
  proof (cases "a < length inn \<and> i \<noteq> length outs")
    case False
    then have "n \<le> int i \<and> outs' = outs \<and> sizes' = sizes \<and> (err = None \<or> err = Some ErrTooManySegments)"
      using less.prems(1) by (subst (asm) gso_loop.simps) (auto split: if_splits)
    then show ?thesis using less.prems(2) by blast
  next
    case True
    define b where "b = (let next = a + unat (hdrGsoSize hdr) in if length inn < next then length inn else next)"
    define sz where "sz = unat (hdrLen hdr) + (b - a)"
    obtain sizes1 bf o1 out1 outs1 where s: "set_at sizes i sz = Some sizes1" "idx outs i = Some bf"
      "slice_from bf off = Some o1" "gso_segment e sp hdr proto sq v6 inn i a b o1 = Some out1"
      "set_at outs i (take off bf @ out1) = Some outs1"
      "gso_loop e sp hdr proto sq v6 inn off (Suc i) (a + unat (hdrGsoSize hdr)) outs1 sizes1
         = Some (n, err, outs', sizes')"
      using less.prems(1) True unfolding sz_def b_def
      by (subst (asm) gso_loop.simps) (auto simp: bind_Some_iff Let_def split: if_splits)
    note g = gso_segment_bounds [OF s(4)]
    have i: "i < length outs" "i < length sizes" "sizes1 = sizes[i := sz]" "bf = outs ! i"
      "outs1 = outs[i := take off bf @ out1]" "off \<le> length bf" "length o1 = length bf - off"
      using s by (auto simp: go_iff)
    have l: "length outs = length outs0" "length (outs ! i) = length (outs0 ! i)"
    proof -
      show "length outs = length outs0" using less.prems(2) by (auto simp: within_def dest: map_eq_imp_length_eq)
      then show "length (outs ! i) = length (outs0 ! i)"
        using less.prems(2) i(1) nth_map [of i outs length] nth_map [of i outs0 length] by (simp add: within_def)
    qed
    have "within sp off outs0 (Suc i) outs1 sizes1"
      unfolding within_def
    proof (intro conjI allI impI)
      show "map length outs1 = map length outs0"
      proof -
        have "map length outs1 = map length outs" using i g by (simp add: map_update list_update_same_conv)
        then show ?thesis using less.prems(2) by (simp only: within_def)
      qed
      show "map (take off) outs1 = map (take off) outs0"
      proof -
        have "map (take off) outs1 = map (take off) outs" using i by (simp add: map_update list_update_same_conv)
        then show ?thesis using less.prems(2) by (simp only: within_def)
      qed
      show "Suc i \<le> length outs0" "Suc i \<le> length sizes1" using i l by simp_all
      show "off + sizes1 ! k \<le> length (outs0 ! k) + length (outSpare sp k)" if "k < Suc i" for k
        using that less.prems(2) i g l by (auto simp: within_def nth_list_update less_Suc_eq sz_def)
    qed
    moreover have "length outs1 - Suc i < length outs - i" using i by simp
    ultimately show ?thesis using less.hyps [OF _ s(6)] i(3) by simp
  qed
qed

section \<open>handleVirtioRead\<close>

lemma within_refl: "within sp off bs 0 bs sizes"
  by (simp add: within_def)

lemma gsoSplit_within:
  assumes "gsoSplit e sp inn hdr bs sizes off v6 = Some (n, err, bs', sizes')"
  shows "(\<exists>k. within sp off bs k bs' sizes' \<and> n \<le> int k) \<and> length sizes' = length sizes
     \<and> (err = None \<or> err = Some ErrTooManySegments)"
proof -
  obtain inn' proto sq where
    "gso_loop e sp hdr proto sq v6 inn' off 0 (unat (hdrLen hdr)) bs sizes = Some (n, err, bs', sizes')"
    using assms by (auto simp: gsoSplit_def Let_def bind_Some_iff)
  from gso_loop_within [OF this within_refl] show ?thesis .
qed

text \<open>Where the buffers are after a read.\<close>

lemma handleVirtioRead_within:
  assumes "handleVirtioRead e sp w bs sizes off = Some (n, err, bs', sizes')"
  shows "n \<le> int (length bs) \<and> length sizes' = length sizes
    \<and> map length bs' = map length bs \<and> map (take off) bs' = map (take off) bs
    \<and> (\<forall>k. int k < n \<longrightarrow> k < length sizes' \<and> off + sizes' ! k \<le> length (bs' ! k) + length (outSpare sp k))
    \<and> (err \<noteq> None \<and> err \<noteq> Some ErrTooManySegments \<longrightarrow> n = 0 \<and> bs' = bs \<and> sizes' = sizes)"
proof -
  have fail: ?thesis if "n = 0" "bs' = bs" "sizes' = sizes" using that by simp
  have split: ?thesis if g: "gsoSplit e sp inn hdr bs sizes off v6 = Some (n, err, bs', sizes')" for inn hdr v6
  proof -
    obtain k where k: "within sp off bs k bs' sizes'" "n \<le> int k" and
      r: "length sizes' = length sizes" "err = None \<or> err = Some ErrTooManySegments"
      using gsoSplit_within [OF g] by blast
    have len: "length bs' = length bs" "length (bs' ! j) = length (bs ! j)" if "j < length bs" for j
      using k(1) that nth_map [of j bs' length] nth_map [of j bs length]
      by (auto simp: within_def dest: map_eq_imp_length_eq)
    show ?thesis using k r len unfolding within_def by (auto simp: less_le_trans)
  qed
  have plain: "\<exists>b inn. bs \<noteq> [] \<and> sizes \<noteq> [] \<and> off \<le> length (bs ! 0) \<and> length inn \<le> length (bs ! 0) - off
        \<and> copy_at (bs ! 0) off inn = Some b \<and> bs' = bs[0 := b] \<and> sizes' = sizes[0 := length inn]
        \<and> n = 1 \<and> err = None \<or> n = 0 \<and> bs' = bs \<and> sizes' = sizes"
    if "do {
            b \<leftarrow> idx bs 0;
            dst \<leftarrow> slice_from b off;
            if length dst < length inn
            then Some (0, Some (ErrReadOverflow (length inn) (length dst)), bs, sizes)
            else do {
              b \<leftarrow> copy_at b off inn;
              bs \<leftarrow> set_at bs 0 b;
              sizes \<leftarrow> set_at sizes 0 (length inn);
              Some (1, None, bs, sizes)
            }
          } = Some (n, err, bs', sizes')" for inn
    using that by (auto simp: bind_Some_iff idx_Some set_at_Some slice_from_Some not_less split: if_splits)
  consider "n = 0 \<and> bs' = bs \<and> sizes' = sizes"
    | inn hdr v6 where "gsoSplit e sp inn hdr bs sizes off v6 = Some (n, err, bs', sizes')"
    | b inn where "bs \<noteq> []" "sizes \<noteq> []" "off \<le> length (bs ! 0)" "length inn \<le> length (bs ! 0) - off"
        "copy_at (bs ! 0) off inn = Some b" "bs' = bs[0 := b]" "sizes' = sizes[0 := length inn]" "n = 1" "err = None"
  proof (cases "decode e w")
    case (Inl x)
    then show thesis using assms that(1) by (simp add: handleVirtioRead_def)
  next
    case (Inr hdr)
    show thesis
    proof (cases "gsoType hdr = VIRTIO_NET_HDR_GSO_NONE")
      case True
      then show thesis
        using assms Inr plain that(1,3) unfolding handleVirtioRead_def
        by (simp add: bind_Some_iff) blast
    next
      case False
      then obtain inn r where "n = 0 \<and> bs' = bs \<and> sizes' = sizes \<or>
          (case r of Inl err \<Rightarrow> Some (0, Some err, bs, sizes)
           | Inr (hdr, v6) \<Rightarrow> gsoSplit e sp inn hdr bs sizes off v6) = Some (n, err, bs', sizes')"
        using assms Inr unfolding handleVirtioRead_def
        by (simp add: bind_Some_iff split: if_split_asm) blast+
      then show thesis using that(1,2) by (cases r) auto
    qed
  qed
  then show ?thesis
  proof cases
    case 1
    then show ?thesis using fail by blast
  next
    case 2
    then show ?thesis by (rule split)
  next
    case (3 b inn)
    have "length b = length (bs ! 0)" "take off b = take off (bs ! 0)"
      using 3 by (auto simp: copy_at_Some)
    then show ?thesis
      using 3 by (cases bs; cases sizes) auto
  qed
qed

text \<open>
  C17. Whatever the kernel delivers and whatever lies behind the caller's slices, a read that
  returns has kept to its buffers: it reports at most as many packets as there are buffers, the bytes in front of
  \<open>off\<close> and the length of every buffer are unchanged, and an error other than \<open>ErrTooManySegments\<close> reports no packet and
  leaves the buffers and sizes as they were. Every size it reports stays within the capacity of its buffer, and within
  the length where capacity and length are the same; no other bound holds (\<open>read_beyond_length\<close> below).
\<close>

theorem handleVirtioRead_bounds:
  assumes "handleVirtioRead e sp w bs sizes off = Some (n, err, bs', sizes')"
  shows "n \<le> int (length bs) \<and> length sizes' = length sizes
    \<and> map length bs' = map length bs \<and> map (take off) bs' = map (take off) bs
    \<and> (\<forall>k. int k < n \<longrightarrow> k < length sizes' \<and> off + sizes' ! k \<le> length (bs' ! k) + length (outSpare sp k)
         \<and> (outSpare sp k = [] \<longrightarrow> off + sizes' ! k \<le> length (bs' ! k)))
    \<and> (err \<noteq> None \<and> err \<noteq> Some ErrTooManySegments \<longrightarrow> n = 0 \<and> bs' = bs \<and> sizes' = sizes)"
  using handleVirtioRead_within [OF assms] by auto

theorem handleVirtioRead_bounds_witness:
  "handleVirtioRead LittleE no_spare (replicate 10 0 @ [1, 2, 3]) [[9, 9, 9, 9]] [0] 1
     = Some (1, None, [[9, 1, 2, 3]], [3])
   \<and> map length [[9, 1, 2, 3 :: byte]] = map length [[9, 9, 9, 9 :: byte]]"
proof -
  have r: "handleVirtioRead LittleE no_spare (replicate 10 0 @ [1, 2, 3]) [[9, 9, 9, 9]] [0] 1
     = Some (1, None, [[9, 1, 2, 3]], [3])" by code_simp
  from handleVirtioRead_bounds [OF r] r show ?thesis by blast
qed

section \<open>A size beyond the length\<close>

text \<open>
  A UDP packet of 32 bytes over IPv4, read into a buffer of 30 bytes whose capacity is 32: \<open>copy\<close> cuts the payload
  off at the length, \<open>out[hdr.csumStart:totalLen]\<close> reaches into the capacity, and the read reports 32 bytes without an
  error. The last two bytes are what lay behind the buffer, and the checksum was computed over them.
\<close>

definition over_hdr :: virtioNetHdr where
  "over_hdr = \<lparr>flags = 1, gsoType = VIRTIO_NET_HDR_GSO_UDP_L4, hdrLen = 28, hdrGsoSize = 4, csumStart = 20,
     csumOffset = 6\<rparr>"

definition over_pkt :: "byte list" where
  "over_pkt = [0x45, 0, 0, 32, 0, 7, 0, 0, 64, 17, 0, 0, 10, 0, 0, 1, 10, 0, 0, 2, 0, 53, 0, 53, 0, 12, 0, 0,
     1, 2, 3, 4]"

abbreviation over_spare :: spareMem where
  "over_spare \<equiv> \<lparr>inSpare = [], outSpare = \<lambda>_. [9, 9]\<rparr>"

lemma over_segment:
  "\<exists>out. gso_segment LittleE over_spare over_hdr IPPROTO_UDP 0 False over_pkt 0 28 32 (replicate 30 0) = Some out
     \<and> length out = 30 \<and> drop 28 out = [1, 2]"
proof -
  have pkt: "length over_pkt = 32" "take 4 (drop 28 over_pkt) = [1, 2, 3, 4]" by (simp_all add: over_pkt_def)
  have h: "unat (hdrLen over_hdr) = 28" "unat (csumStart over_hdr) = 20" "unat (csumStart over_hdr + 4) = 24"
    "unat (csumStart over_hdr + csumOffset over_hdr) = 26"
    by (simp_all add: over_hdr_def)
  have cut: "slice over_pkt a b = Some (take (b - a) (drop a over_pkt))" if "a \<le> b" "b \<le> 32" for a b
    using that pkt by (simp add: slice_def)
  define a where "a = take 20 over_pkt @ replicate 10 0"
  have a: "copy_at (replicate 30 0) 0 (take 20 over_pkt) = Some a" "length a = 30"
    using pkt by (simp_all add: copy_at_def a_def min_absorb2)
  obtain b where b: "gso_ipv4 LittleE 20 0 32 [9, 9] a = Some b" "length b = 30"
    using a(2) by (simp add: gso_ipv4_def put16_def reslice_def slice_def)
  define c where "c = take 20 b @ take 8 (drop 20 over_pkt) @ drop 28 b"
  have c: "copy_at b 20 (take 8 (drop 20 over_pkt)) = Some c" "length c = 30"
    using b(2) pkt by (simp_all add: copy_at_def c_def min_absorb2)
  obtain d where d: "gso_transport over_hdr IPPROTO_UDP 0 0 True 4 c = Some d" "length d = 30"
    using c(2) by (simp add: gso_transport_def h put16_def offload_consts)
  define f where "f = take 28 d @ [1, 2]"
  have f: "copy_at d 28 [1, 2, 3, 4] = Some f" "length f = 30"
    using d(2) by (simp_all add: copy_at_def f_def)
  obtain seg where seg: "reslice f [9, 9] 20 32 = Some seg" using f(2) by (simp add: reslice_def slice_def)
  have g: "put16 f 26 v = Some (f[26 := ucast (drop_bit 8 v), 27 := ucast v])" for v
    using f(2) by (simp add: put16_def)
  have "drop 28 (f[26 := v, 27 := w]) = [1, 2]" for v w using d(2) by (simp add: f_def)
  then show ?thesis
    using f(2) by (simp add: gso_segment_def Let_def h cut pkt a b c d f seg g check_in ipv4SrcAddrOffset_def)
qed

lemma over_loop:
  "\<exists>out. gso_loop LittleE over_spare over_hdr IPPROTO_UDP 0 False over_pkt 0 0 28 [replicate 30 0] [0]
       = Some (1, None, [out], [32]) \<and> length out = 30 \<and> drop 28 out = [1, 2]"
proof -
  obtain out where o: "gso_segment LittleE over_spare over_hdr IPPROTO_UDP 0 False over_pkt 0 28 32 (replicate 30 0)
      = Some out" "length out = 30" "drop 28 out = [1, 2]" using over_segment by blast
  have h: "unat (hdrLen over_hdr) = 28" "unat (hdrGsoSize over_hdr) = 4" "length over_pkt = 32"
    by (simp_all add: over_hdr_def over_pkt_def)
  have last: "gso_loop LittleE over_spare over_hdr IPPROTO_UDP 0 False over_pkt 0 (Suc 0) 32 outs sizes
      = Some (1, None, outs, sizes)" for outs sizes by (subst gso_loop.simps) (simp add: h)
  show ?thesis
    by (subst gso_loop.simps) (use o in \<open>simp add: h last set_at_def idx_def slice_from_def\<close>)
qed

lemma read_beyond_length:
  "\<exists>out. handleVirtioRead LittleE over_spare ([1, 5, 28, 0, 4, 0, 20, 0, 6, 0] @ over_pkt) [replicate 30 0] [0] 0
       = Some (1, None, [out], [32]) \<and> length out = 30 \<and> drop 28 out = [1, 2]"
proof -
  have d: "decode LittleE ([1, 5, 28, 0, 4, 0, 20, 0, 6, 0] @ over_pkt) = Inr over_hdr"
    by (simp add: decode_def virtioNetHdrLen_def native_get16_def be16_of_def over_hdr_def over_pkt_def offload_consts)
  have r: "read_gso_hdr over_hdr over_pkt = Some (Inr (over_hdr, False))"
    by (simp add: read_gso_hdr_def over_hdr_def over_pkt_def idx_def offload_consts)
  have c: "gso_clear over_hdr False over_pkt = Some over_pkt"
    by (simp add: gso_clear_def over_hdr_def over_pkt_def set_at_def)
  have t: "gsoType over_hdr = VIRTIO_NET_HDR_GSO_UDP_L4" "unat (hdrLen over_hdr) = 28" by (simp_all add: over_hdr_def)
  have s: "gsoSplit LittleE over_spare over_pkt over_hdr [replicate 30 0] [0] 0 False
      = gso_loop LittleE over_spare over_hdr IPPROTO_UDP 0 False over_pkt 0 0 28 [replicate 30 0] [0]"
    by (simp add: gsoSplit_def c t offload_consts)
  show ?thesis
    using over_loop by (simp add: handleVirtioRead_def d [simplified] r t s virtioNetHdrLen_def slice_from_def offload_consts)
qed

end
