(* ===== verification/RoundTrip.thy ===== *)
theory RoundTrip
  imports GSOProps
begin

text \<open>
  The write side and the read side together: what \<open>handleGRO\<close> has merged, handed to the kernel and
  read back by \<open>handleVirtioRead\<close>, is cut into the packets it was made of.
\<close>

section \<open>Cutting a concatenation\<close>

lemma chunks_of_concat:
  assumes "0 < g" and "ps \<noteq> []" and "\<And>m. Suc m < length ps \<Longrightarrow> length (ps ! m) = g"
    and "length (last ps) \<le> g" and "0 < length (last ps)"
  shows "seg_count (length (concat ps)) g = length ps"
    and "j < length ps \<Longrightarrow> take g (drop (j * g) (concat ps)) = ps ! j"
proof -
  have "seg_count (length (concat ps)) g = length ps
      \<and> (\<forall>j < length ps. take g (drop (j * g) (concat ps)) = ps ! j)"
    using assms(2-5)
  proof (induction ps)
    case (Cons p ps)
    show ?case
    proof (cases "ps = []")
      case True
      have l: "0 < length p" "length p \<le> g" using Cons.prems True by simp_all
      have "(length p + g - 1) div g = 1"
        by (intro div_nat_eqI) (use l in \<open>simp_all del: length_greater_0_conv\<close>)
      then show ?thesis using True Cons.prems by (simp add: seg_count_def)
    next
      case False
      have p: "length p = g" using Cons.prems(2) [of 0] False by simp
      have "seg_count (length (concat ps)) g = length ps
          \<and> (\<forall>j < length ps. take g (drop (j * g) (concat ps)) = ps ! j)"
      proof (rule Cons.IH [OF False])
        show "length (ps ! m) = g" if "Suc m < length ps" for m using Cons.prems(2) [of "Suc m"] that by simp
      qed (use Cons.prems False in simp_all)
      moreover have "seg_count (g + n) g = Suc (seg_count n g)" for n
      proof -
        have "g + n + g - 1 = g + (n + g - 1)" using assms(1) by simp
        then show ?thesis
          unfolding seg_count_def using div_add_self1 [of g "n + g - 1"] assms(1) by (metis Suc_eq_plus1 less_irrefl)
      qed
      ultimately show ?thesis
        using p by (auto simp: nth_Cons split: nat.split)
    qed
  qed simp
  then show "seg_count (length (concat ps)) g = length ps"
    "j < length ps \<Longrightarrow> take g (drop (j * g) (concat ps)) = ps ! j" by blast+
qed

section \<open>Reading a merged packet\<close>

lemma read_is_split:
  assumes dec: "decode e w = Inr hdr0" "10 \<le> length w" and inn: "inn = drop 10 w"
    and ver: "ip_version inn = (if v6 then 6 else 4)"
    and t: "gsoType hdr0 = (if tcp then (if v6 then VIRTIO_NET_HDR_GSO_TCPV6 else VIRTIO_NET_HDR_GSO_TCPV4)
              else VIRTIO_NET_HDR_GSO_UDP_L4)"
    and cs: "unat (csumStart hdr0) = iph_of v6" "csumOffset hdr0 = (if tcp then 16 else 6)"
    and g: "hdrGsoSize hdr0 \<noteq> 0"
    and thl: "tcp \<Longrightarrow> drop_bit 4 (inn ! (iph_of v6 + 12)) * 4 = thl" "tcp \<Longrightarrow> 20 \<le> unat thl \<and> unat thl \<le> 60"
    and hl: "hl = iph_of v6 + (if tcp then unat thl else 8)" "hl \<le> length inn"
  obtains hdr where "split_hdr tcp v6 hdr" "unat (hdrLen hdr) = hl" "hdrGsoSize hdr = hdrGsoSize hdr0"
    "handleVirtioRead e sp w bs sizes off = gsoSplit e sp inn hdr bs sizes off v6"
proof -
  define hdr where "hdr = hdr0\<lparr>hdrLen := csumStart hdr0 + (if tcp then ucast thl else 8)\<rparr>"
  have i: "iph_of v6 \<in> {20, 40}" by (simp add: iph_of_def)
  have small: "hl < 65536" using hl(1) i thl(2) by (auto split: if_splits)
  have len: "unat (hdrLen hdr) = hl"
    using small i hl(1) cs(1) by (auto simp: hdr_def unat_word_ariths unat_u16_ucast_u8 split: if_splits)
  have a12: "unat (csumStart hdr0 + 12) = iph_of v6 + 12"
    using i cs(1) by (auto simp: unat_word_ariths)
  have at: "unat (csumStart hdr0 + csumOffset hdr0) = iph_of v6 + (if tcp then 16 else 6)"
    using i cs by (auto simp: unat_word_ariths)
  have sp: "split_hdr tcp v6 hdr"
    using len hl thl cs g t by (auto simp: split_hdr_def hdr_def)
  have pos: "0 < length inn" "iph_of v6 + 8 \<le> hl" "tcp \<Longrightarrow> iph_of v6 + 20 \<le> hl" using hl i thl(2) by auto
  have "read_gso_hdr hdr0 inn = Some (Inr (hdr, v6))"
  proof -
    define b where "b = (if v6 then 6 else 4 :: u8)"
    have b0: "idx inn 0 = Some (inn ! 0)" "drop_bit 4 (inn ! 0) = b"
      using pos(1) ver by (simp_all add: idx_in ip_version_def b_def)
    have chk: "\<not> (b = 4 \<and> gsoType hdr0 \<noteq> VIRTIO_NET_HDR_GSO_TCPV4 \<and> gsoType hdr0 \<noteq> VIRTIO_NET_HDR_GSO_UDP_L4)"
      "\<not> (b = 6 \<and> gsoType hdr0 \<noteq> VIRTIO_NET_HDR_GSO_TCPV6 \<and> gsoType hdr0 \<noteq> VIRTIO_NET_HDR_GSO_UDP_L4)"
      "\<not> (b \<noteq> 4 \<and> b \<noteq> 6)" "(b = 6) = v6"
      by (simp_all add: b_def t)
    have r: "(if gsoType hdr0 = VIRTIO_NET_HDR_GSO_UDP_L4 then Some (Inr (hdr0\<lparr>hdrLen := csumStart hdr0 + 8\<rparr>))
        else if length inn \<le> unat (csumStart hdr0 + 12) then Some (Inl ErrPacketTooShort)
        else do {
          b \<leftarrow> idx inn (unat (csumStart hdr0 + 12));
          let tcpHLen = (ucast (drop_bit 4 b * 4) :: u16);
          Some (if tcpHLen < 20 \<or> 60 < tcpHLen then Inl (ErrTCPHeaderLen tcpHLen)
                else Inr (hdr0\<lparr>hdrLen := csumStart hdr0 + tcpHLen\<rparr>))
        }) = Some (Inr hdr)"
    proof (cases tcp)
      case True
      have u: "unat (ucast thl :: u16) = unat thl" by (rule unat_u16_ucast_u8)
      have "gsoType hdr0 \<noteq> VIRTIO_NET_HDR_GSO_UDP_L4" using t True by (simp add: offload_consts)
      then show ?thesis
        using True thl pos(3) hl(2) u a12 by (simp add: idx_in Let_def hdr_def word_less_nat_alt)
    next
      case False
      then show ?thesis using t by (simp add: hdr_def)
    qed
    have fin: "\<not> length inn < unat (hdrLen hdr)" "\<not> hdrLen hdr < csumStart hdr"
      "\<not> length inn \<le> unat (csumStart hdr + csumOffset hdr) + 1"
      using len hl(2) pos at cs(1) by (auto simp: word_less_nat_alt hdr_def)
    show ?thesis
      unfolding read_gso_hdr_def Let_def b0 bind.bind_lunit if_not_P [OF chk(1)] if_not_P [OF chk(2)]
        if_not_P [OF chk(3)] r [unfolded Let_def] sum.case if_not_P [OF fin(1)] if_not_P [OF fin(2)]
        if_not_P [OF fin(3)] by (simp add: chk(4))
  qed
  then have "handleVirtioRead e sp w bs sizes off = gsoSplit e sp inn hdr bs sizes off v6"
    using dec inn t by (auto simp: handleVirtioRead_def go_simps virtioNetHdrLen_def offload_consts)
  then show thesis using that [OF sp len] by (simp add: hdr_def)
qed

lemma read_merged:
  assumes dec: "decode e w = Inr hdr0" "10 \<le> length w" and inn: "inn = drop 10 w"
    and ver: "ip_version inn = (if v6 then 6 else 4)"
    and t: "gsoType hdr0 = (if tcp then (if v6 then VIRTIO_NET_HDR_GSO_TCPV6 else VIRTIO_NET_HDR_GSO_TCPV4)
              else VIRTIO_NET_HDR_GSO_UDP_L4)"
    and cs: "unat (csumStart hdr0) = iph_of v6" "csumOffset hdr0 = (if tcp then 16 else 6)"
    and g: "hdrGsoSize hdr0 \<noteq> 0" "g = unat (hdrGsoSize hdr0)"
    and thl: "tcp \<Longrightarrow> drop_bit 4 (inn ! (iph_of v6 + 12)) * 4 = thl" "tcp \<Longrightarrow> 20 \<le> unat thl \<and> unat thl \<le> 60"
    and hl: "hl = iph_of v6 + (if tcp then unat thl else 8)" "hl \<le> length inn" "length inn < 65536"
    and qs: "drop hl inn = concat qs" "2 \<le> length qs" "\<And>m. Suc m < length qs \<Longrightarrow> length (qs ! m) = g"
      "length (last qs) \<le> g" "0 < length (last qs)"
    and room: "\<forall>b \<in> set bs. off + 65535 \<le> length b" "length bs \<le> length sizes" "length qs \<le> length bs"
  obtains hdr bs' sizes' where "unat (hdrLen hdr) = hl" "hdrGsoSize hdr = hdrGsoSize hdr0"
    "handleVirtioRead e sp w bs sizes off = Some (int (length qs), None, bs', sizes')"
    "\<And>j. j < length qs \<Longrightarrow> segment_of e tcp v6 hdr inn j (qs ! j) (Suc j = length qs)
         (read_pkt off (bs' ! j) (sizes' ! j))
       \<and> checksumValid e (read_pkt off (bs' ! j) (sizes' ! j)) (of_nat (iph_of v6)) (hdr_proto tcp) v6 = Some True"
proof (rule read_is_split [OF dec inn ver t cs g(1) thl hl(1,2), of sp bs sizes off])
  fix hdr
  assume h: "split_hdr tcp v6 hdr" "unat (hdrLen hdr) = hl" "hdrGsoSize hdr = hdrGsoSize hdr0"
    and run: "handleVirtioRead e sp w bs sizes off = gsoSplit e sp inn hdr bs sizes off v6"
  have g0: "0 < g" using g by (simp add: unat_gt_0)
  have ne: "qs \<noteq> []" using qs(2) by auto
  have n: "length inn - hl = length (concat qs)" using arg_cong [OF qs(1), of length] by simp
  have c: "seg_count (length (concat qs)) g = length qs"
    "\<And>j. j < length qs \<Longrightarrow> take g (drop (j * g) (concat qs)) = qs ! j"
    using chunks_of_concat [OF g0 ne _ qs(4,5)] qs(3) by blast+
  have cnt: "seg_count (length inn - unat (hdrLen hdr)) (unat (hdrGsoSize hdr)) = length qs"
    using c(1) h(2,3) g(2) n by simp
  have ch: "chunk inn hl g j = qs ! j" if "j < length qs" for j
  proof -
    have "chunk inn hl g j = take g (drop (j * g) (drop hl inn))" by (simp add: chunk_def add.commute)
    then show ?thesis using c(2) [OF that] qs(1) by simp
  qed
  have "hl + g \<le> 65535"
  proof -
    have "length (qs ! 0) = g" using qs(2,3) by simp
    moreover have "length (qs ! 0) \<le> length (concat qs)"
      using ne by (cases qs) simp_all
    ultimately show ?thesis using n hl(2,3) by linarith
  qed
  then have fit: "\<forall>b \<in> set bs. off + unat (hdrLen hdr) + unat (hdrGsoSize hdr) \<le> length b"
    using room(1) h(2,3) g(2) by fastforce
  have len: "unat (hdrLen hdr) \<le> length inn" using h(2) hl(2) by simp
  obtain bs' sizes' where r: "gsoSplit e sp inn hdr bs sizes off v6 = Some (int (length qs), None, bs', sizes')"
    and seg: "\<And>j. j < length qs \<Longrightarrow> segment_of e tcp v6 hdr inn j
         (chunk inn (unat (hdrLen hdr)) (unat (hdrGsoSize hdr)) j) (Suc j = length qs)
         (read_pkt off (bs' ! j) (sizes' ! j))"
      "\<And>j. j < length qs \<Longrightarrow> checksumValid e (read_pkt off (bs' ! j) (sizes' ! j)) (of_nat (iph_of v6))
         (hdr_proto tcp) v6 = Some True"
    by (rule gsoSplit_enough [OF h(1) len hl(3) fit room(2) cnt [symmetric] room(3), of e]) blast
  have ch': "chunk inn (unat (hdrLen hdr)) (unat (hdrGsoSize hdr)) j = qs ! j" if "j < length qs" for j
    using ch [OF that] h(2,3) g(2) by simp
  show thesis
  proof (rule that [OF h(2,3)])
    show "handleVirtioRead e sp w bs sizes off = Some (int (length qs), None, bs', sizes')" using run r by simp
    show "segment_of e tcp v6 hdr inn j (qs ! j) (Suc j = length qs) (read_pkt off (bs' ! j) (sizes' ! j))
       \<and> checksumValid e (read_pkt off (bs' ! j) (sizes' ! j)) (of_nat (iph_of v6)) (hdr_proto tcp) v6 = Some True"
      if "j < length qs" for j using seg [OF that] unfolding ch' [OF that] by blast
  qed
qed

section \<open>The packets come back\<close>

text \<open>
  \<open>x\<close> is \<open>p\<close> up to the fields GRO does not compare: the same length, payload, flow, IP class and
  TCP options; for TCP the same sequence number; length fields and checksums are right.
\<close>

definition tcp_restored :: "endian \<Rightarrow> bool \<Rightarrow> nat \<Rightarrow> byte list \<Rightarrow> byte list \<Rightarrow> bool" where
  "tcp_restored e v6 hl p x \<longleftrightarrow>
     (let iphl = iph_of v6; k = \<lambda>y. newTCPFlowKey y (src_at v6) (src_at v6 + addr_len v6) iphl in
        k x = k p \<and> k p \<noteq> None \<and> tcp_seq iphl x = tcp_seq iphl p \<and> iphl + 20 \<le> hl
        \<and> take (hl - (iphl + 20)) (drop (iphl + 20) x) = take (hl - (iphl + 20)) (drop (iphl + 20) p)
        \<and> checksumValid e x (of_nat iphl) IPPROTO_TCP v6 = Some True)"

definition udp_restored :: "endian \<Rightarrow> bool \<Rightarrow> nat \<Rightarrow> byte list \<Rightarrow> byte list \<Rightarrow> bool" where
  "udp_restored e v6 hl p x \<longleftrightarrow>
     (let iphl = iph_of v6; k = \<lambda>y. newUDPFlowKey y (src_at v6) (src_at v6 + addr_len v6) iphl in
        k x = k p \<and> k p \<noteq> None \<and> hl = iphl + 8
        \<and> get16 x (iphl + 4) = Some (of_nat (length p - iphl))
        \<and> checksumValid e x (of_nat iphl) IPPROTO_UDP v6 = Some True)"

definition restored :: "endian \<Rightarrow> byte list \<Rightarrow> byte list \<Rightarrow> bool" where
  "restored e p x \<longleftrightarrow> x = p \<or> (\<exists>v6 hl. length x = length p \<and> hl < length p \<and> drop hl x = drop hl p
     \<and> ip_class x = ip_class p \<and> ip_done e v6 (iph_of v6) x
     \<and> (tcp_restored e v6 hl p x \<or> udp_restored e v6 hl p x))"

lemma get16_cong:
  "i + 1 < length xs \<Longrightarrow> i + 1 < length ys \<Longrightarrow> xs ! i = ys ! i \<Longrightarrow> xs ! (i + 1) = ys ! (i + 1) \<Longrightarrow>
   get16 xs i = get16 ys i"
  by (simp add: go_simps)

lemma slice_cong:
  assumes "b \<le> length xs" and "b \<le> length ys" and "\<And>m. a \<le> m \<Longrightarrow> m < b \<Longrightarrow> xs ! m = ys ! m"
  shows "slice xs a b = slice ys a b"
proof (cases "a \<le> b")
  case True
  then have "take (b - a) (drop a xs) = take (b - a) (drop a ys)"
    using assms by (intro nth_equalityI) simp_all
  then show ?thesis using assms True by (simp add: go_simps)
qed (simp add: slice_def)

text \<open>The bytes the flow keys are made of.\<close>

lemma addr_cong:
  assumes "iph_of v6 \<le> length xs" and "iph_of v6 \<le> length ys"
    and "\<forall>m. src_at v6 \<le> m \<and> m < iph_of v6 \<longrightarrow> xs ! m = ys ! m"
  shows "slice xs (src_at v6) (src_at v6 + addr_len v6) = slice ys (src_at v6) (src_at v6 + addr_len v6)"
    and "slice xs (src_at v6 + addr_len v6) (src_at v6 + addr_len v6 + (src_at v6 + addr_len v6 - src_at v6))
       = slice ys (src_at v6 + addr_len v6) (src_at v6 + addr_len v6 + (src_at v6 + addr_len v6 - src_at v6))"
  by (rule slice_cong; (use assms in \<open>auto simp: iph_of_def src_at_def addr_len_def split: if_splits\<close>))+

lemma tcp_key_cong:
  assumes len: "iph_of v6 + 20 \<le> length xs" "iph_of v6 + 20 \<le> length ys"
    and same: "\<And>m. src_at v6 \<le> m \<Longrightarrow> m < iph_of v6 + 4 \<or> iph_of v6 + 8 \<le> m \<and> m < iph_of v6 + 12 \<Longrightarrow> xs ! m = ys ! m"
  shows "newTCPFlowKey xs (src_at v6) (src_at v6 + addr_len v6) (iph_of v6)
       = newTCPFlowKey ys (src_at v6) (src_at v6 + addr_len v6) (iph_of v6)"
proof -
  have s: "src_at v6 \<le> iph_of v6" by (simp add: src_at_def iph_of_def)
  have a: "iph_of v6 \<le> length xs" "iph_of v6 \<le> length ys"
    "\<forall>m. src_at v6 \<le> m \<and> m < iph_of v6 \<longrightarrow> xs ! m = ys ! m" using len same by simp_all
  have p: "get16 xs (iph_of v6) = get16 ys (iph_of v6)" "get16 xs (iph_of v6 + 2) = get16 ys (iph_of v6 + 2)"
    "get32 xs (iph_of v6 + 8) = get32 ys (iph_of v6 + 8)"
    using len s same by (simp_all add: go_simps)
  show ?thesis
    unfolding newTCPFlowKey_def Let_def addr_cong [OF a] p using s by simp
qed

lemma udp_key_cong:
  assumes len: "iph_of v6 + 8 \<le> length xs" "iph_of v6 + 8 \<le> length ys"
    and same: "\<And>m. src_at v6 \<le> m \<Longrightarrow> m < iph_of v6 + 4 \<Longrightarrow> xs ! m = ys ! m"
  shows "newUDPFlowKey xs (src_at v6) (src_at v6 + addr_len v6) (iph_of v6)
       = newUDPFlowKey ys (src_at v6) (src_at v6 + addr_len v6) (iph_of v6)"
proof -
  have s: "src_at v6 \<le> iph_of v6" by (simp add: src_at_def iph_of_def)
  have a: "iph_of v6 \<le> length xs" "iph_of v6 \<le> length ys"
    "\<forall>m. src_at v6 \<le> m \<and> m < iph_of v6 \<longrightarrow> xs ! m = ys ! m" using len same by simp_all
  have p: "get16 xs (iph_of v6) = get16 ys (iph_of v6)" "get16 xs (iph_of v6 + 2) = get16 ys (iph_of v6 + 2)"
    using len s same by (simp_all add: go_simps)
  show ?thesis
    unfolding newUDPFlowKey_def Let_def addr_cong [OF a] p using s by simp
qed

lemma nth_map_opkt: "j < length ps \<Longrightarrow> map (\<lambda>p. drop hl (opkt orig off p)) ps ! j = drop hl (opkt orig off (ps ! j))"
  by simp

text \<open>The payloads of the packets of an item, as \<open>chunks_of_concat\<close> wants them.\<close>

lemma segments_payloads:
  assumes "segments orig off b hl g ps"
  defines "qs \<equiv> map (\<lambda>p. drop hl (opkt orig off p)) ps"
  shows "\<And>m. Suc m < length qs \<Longrightarrow> length (qs ! m) = g" and "length (last qs) \<le> g" and "0 < length (last qs)"
proof -
  show "length (qs ! m) = g" if "Suc m < length qs" for m
    using assms(1) nth_butlast_set [of m ps] that by (simp add: segments_def qs_def)
  show "length (last qs) \<le> g" "0 < length (last qs)"
    using assms(1) by (auto simp: segments_def qs_def last_map)
qed

lemma drop_take_cong:
  "a + n \<le> length xs \<Longrightarrow> a + n \<le> length ys \<Longrightarrow> (\<And>m. a \<le> m \<Longrightarrow> m < a + n \<Longrightarrow> xs ! m = ys ! m) \<Longrightarrow>
   take n (drop a xs) = take n (drop a ys)"
  by (rule nth_equalityI) simp_all

lemma tcp_restoredI:
  assumes seg: "segment_of e True v6 hdr inn j (drop hl p) f x" "unat (hdrLen hdr) = hl"
    and sum: "checksumValid e x (of_nat (iph_of v6)) (hdr_proto True) v6 = Some True"
    and cand: "tcp_cand v6 iphl thl k p" "tcp_cand v6 iphl thl k P"
    and h: "unat iphl = iph_of v6" "hl = iph_of v6 + unat thl" "20 \<le> unat thl"
    and inn: "\<And>m. m < hl \<Longrightarrow> m \<notin> ip_fixed v6 \<union> {iph_of v6 + 13, iph_of v6 + 16, iph_of v6 + 17} \<Longrightarrow> inn ! m = P ! m"
    and same: "ip_class p = ip_class P" "tcp_opts iphl thl p = tcp_opts iphl thl P"
    and sq: "tcp_seq (iph_of v6) p = tcp_seq (iph_of v6) P + of_nat (j * unat (hdrGsoSize hdr))"
  shows "restored e p x"
proof -
  let ?i = "iph_of v6"
  have i: "?i = (if v6 then 40 else 20)" by (simp add: iph_of_def)
  have len: "hl < length p" "hl < length P" using cand h by (simp_all add: tcp_cand_def tcp_hl_def)
  have s: "length x = hl + length (drop hl p)" "drop hl x = drop hl p" "ip_done e v6 ?i x"
    "tcp_seq ?i x = tcp_seq ?i inn + of_nat (j * unat (hdrGsoSize hdr))"
    and xm: "\<And>m. m < hl \<Longrightarrow> m \<notin> seg_fixed True v6 \<Longrightarrow> x ! m = inn ! m"
    using seg unfolding segment_of_def Let_def by simp_all
  have lx: "length x = length p" using s(1) len(1) by simp
  have x: "x ! m = P ! m" if "m < hl" "m \<notin> seg_fixed True v6" for m
  proof -
    have "m \<notin> ip_fixed v6 \<union> {?i + 13, ?i + 16, ?i + 17}"
      using that(2) by (auto simp: seg_fixed_def ip_fixed_def split: if_splits)
    then show ?thesis using xm [OF that] inn [OF that(1)] by simp
  qed
  have fixed: "m \<notin> seg_fixed True v6" if "m \<in> {0, 1, 6, 7, 8} \<or> src_at v6 \<le> m \<and> m < ?i + 4
      \<or> ?i + 8 \<le> m \<and> m < ?i + 12 \<or> ?i + 20 \<le> m" for m
    using that by (auto simp: seg_fixed_def src_at_def i split: if_splits)
  have "ip_class x = ip_class P"
    by (rule ip_class_cong; rule x; (use fixed in simp)?) (use h i in \<open>auto split: if_splits\<close>)
  moreover have "newTCPFlowKey x (src_at v6) (src_at v6 + addr_len v6) ?i
      = newTCPFlowKey P (src_at v6) (src_at v6 + addr_len v6) ?i"
    using h len lx by (intro tcp_key_cong x fixed) auto
  moreover have "tcp_seq ?i inn = tcp_seq ?i P"
    unfolding tcp_seq_def using h by (subst (1 2 3 4) inn) (auto simp: ip_fixed_def i split: if_splits)
  moreover have "take (hl - (?i + 20)) (drop (?i + 20) x) = take (hl - (?i + 20)) (drop (?i + 20) P)"
    using h len lx by (intro drop_take_cong x fixed) auto
  moreover have "hl - (?i + 20) = unat thl - 20" using h by simp
  ultimately have "tcp_restored e v6 hl p x"
    using cand same(2) sq s(4) sum h
    by (simp add: tcp_restored_def Let_def tcp_cand_def tcp_opts_def hdr_proto_def)
  then show ?thesis
    unfolding restored_def using \<open>ip_class x = ip_class P\<close> same(1) lx len(1) s(2,3) by metis
qed

lemma tcp_written_back:
  assumes ok: "tcp_ent_ok orig off b ps item" and two: "2 \<le> length ps"
    and acc: "accounted e off IPPROTO_TCP (isV6 (key item)) (tcp_hdr item) {} b b'"
    and off: "10 \<le> off"
    and room: "\<forall>b \<in> set bs. roff + 65535 \<le> length b" "length bs \<le> length sizes" "length ps \<le> length bs"
  shows "\<exists>bs' sizes'. handleVirtioRead e sp (drop (off - 10) (data b')) bs sizes roff
      = Some (int (length ps), None, bs', sizes')
    \<and> (\<forall>j < length ps. restored e (opkt orig off (ps ! j)) (read_pkt roff (bs' ! j) (sizes' ! j)))"
proof -
  define v6 thl hl inn where "v6 = isV6 (key item)" and "thl = tcphLen item"
    and "hl = tcp_hl (iphLen item) thl" and "inn = drop off (data b')"
  define P where "P = opkt orig off (hd ps)"
  note o = tcp_ent_okD [OF ok]
  have h: "unat (iphLen item) = iph_of v6" "20 \<le> unat thl" "unat thl \<le> 60"
    using tcp_ent_hdr [OF ok] by (simp_all add: tcp_hdr_ok_def iph_of_unat v6_def thl_def)
  have hl: "hl = iph_of v6 + unat thl" by (simp add: hl_def tcp_hl_def h)
  have cand: "tcp_cand v6 (iphLen item) thl (key item) (opkt orig off p)" if "p \<in> set ps" for p
    using o(6) [OF that] by (simp add: v6_def thl_def)
  have hd: "tcp_cand v6 (iphLen item) thl (key item) P" using cand o(11) by (simp add: P_def)
  have lenP: "hl < length P" using hd by (simp add: tcp_cand_def hl_def)
  have inn: "inn ! m = P ! m" if "m < hl" "m \<notin> ip_fixed v6 \<union> {iph_of v6 + 13, iph_of v6 + 16, iph_of v6 + 17}" for m
    using tcp_merged_nth [OF ok acc] that by (simp add: inn_def P_def hl_def thl_def v6_def)
  have len: "hl < length inn" "length inn \<le> 65535"
    using tcp_merged_length [OF ok acc] by (simp_all add: inn_def hl_def thl_def)
  define qs where "qs = map (\<lambda>p. drop hl (opkt orig off p)) ps"
  have seg: "segments orig off b hl (unat (gsoSize item)) ps" using o(2) by (simp add: hl_def thl_def)
  have qs: "drop hl inn = concat qs"
    using tcp_accounted_drop [OF ok acc] by (simp add: inn_def qs_def hl_def thl_def drop_opkt add.commute [of off])
  have w: "drop (off - 10) (data b') = drop (off - 10) (data b')" "inn = drop 10 (drop (off - 10) (data b'))"
    using off by (simp_all add: inn_def)
  have i: "20 \<le> iph_of v6" by (simp add: iph_of_def)
  have ver: "ip_version inn = (if v6 then 6 else 4)"
    using hd inn [of 0] i hl by (simp add: tcp_cand_def ip_version_def ip_fixed_def)
  have thl12: "drop_bit 4 (inn ! (iph_of v6 + 12)) * 4 = thl"
  proof -
    have "iph_of v6 + 12 < hl" "iph_of v6 + 12 \<notin> ip_fixed v6 \<union> {iph_of v6 + 13, iph_of v6 + 16, iph_of v6 + 17}"
      using i h hl by (auto simp: ip_fixed_def iph_of_def)
    from inn [OF this] show ?thesis using hd by (simp add: tcp_cand_def h)
  qed
  have dec: "decode e (drop (off - 10) (data b')) = Inr (tcp_hdr item)" "10 \<le> length (drop (off - 10) (data b'))"
  proof -
    show "decode e (drop (off - 10) (data b')) = Inr (tcp_hdr item)"
      using acc by (simp add: accounted_def Let_def)
    have "off < length (data b')" using len(1) by (simp add: inn_def)
    then show "10 \<le> length (drop (off - 10) (data b'))" unfolding length_drop using off by linarith
  qed
  obtain hdr bs' sizes' where r: "unat (hdrLen hdr) = hl" "hdrGsoSize hdr = gsoSize item"
    "handleVirtioRead e sp (drop (off - 10) (data b')) bs sizes roff = Some (int (length qs), None, bs', sizes')"
    and s: "\<And>j. j < length qs \<Longrightarrow> segment_of e True v6 hdr inn j (qs ! j) (Suc j = length qs)
         (read_pkt roff (bs' ! j) (sizes' ! j))
       \<and> checksumValid e (read_pkt roff (bs' ! j) (sizes' ! j)) (of_nat (iph_of v6)) (hdr_proto True) v6 = Some True"
  proof (rule read_merged [OF dec w(2) ver _ _ _ _ refl thl12 _ _ less_imp_le [OF len(1)] _ qs _ _ _ _ room(1,2)])
    show "gsoType (tcp_hdr item) = (if True then if v6 then VIRTIO_NET_HDR_GSO_TCPV6 else VIRTIO_NET_HDR_GSO_TCPV4
        else VIRTIO_NET_HDR_GSO_UDP_L4)" by (simp add: tcp_hdr_def v6_def)
    show "unat (csumStart (tcp_hdr item)) = iph_of v6" by (simp add: tcp_hdr_def unat_u16_ucast_u8 h)
    show "csumOffset (tcp_hdr item) = (if True then 16 else 6)" by (simp add: tcp_hdr_def)
    show "hdrGsoSize (tcp_hdr item) \<noteq> 0" using o(1) by (simp add: tcp_hdr_def)
    show "hl = iph_of v6 + (if True then unat thl else 8)" by (simp add: hl)
    show "2 \<le> length qs" "length qs \<le> length bs" using two room(3) by (simp_all add: qs_def)
    show "length (last qs) \<le> unat (hdrGsoSize (tcp_hdr item))" "0 < length (last qs)"
      using segments_payloads(2,3) [OF seg, folded qs_def] by (simp_all add: tcp_hdr_def)
    show "length (qs ! m) = unat (hdrGsoSize (tcp_hdr item))" if "Suc m < length qs" for m
      using segments_payloads(1) [OF seg, folded qs_def, OF that] by (simp add: tcp_hdr_def)
  qed (use h len that in \<open>auto simp: tcp_hdr_def\<close>)
  have "restored e (opkt orig off (ps ! j)) (read_pkt roff (bs' ! j) (sizes' ! j))" if j: "j < length ps" for j
  proof -
    have jq: "j < length qs" "qs ! j = drop hl (opkt orig off (ps ! j))" using j by (simp_all add: qs_def)
    have p: "ps ! j \<in> set ps" "hd ps = ps ! 0" using j o(11) by (simp_all add: hd_conv_nth)
    have sq: "tcp_seq (iph_of v6) (opkt orig off (ps ! j))
        = tcp_seq (iph_of v6) P + of_nat (j * unat (hdrGsoSize hdr))"
      using o(8) [OF j] o(8) [of 0] o(11) r(2) by (simp add: P_def p(2) h)
    note x = s [OF jq(1), unfolded jq(2)]
    show ?thesis
      by (rule tcp_restoredI [OF conjunct1 [OF x] r(1) conjunct2 [OF x] cand [OF p(1)] hd h(1) hl h(2) inn _ _ sq])
        (use o(7) [OF p(1)] in \<open>simp_all add: P_def thl_def\<close>)
  qed
  then show ?thesis using r(3) by (simp add: qs_def)
qed

lemma udp_restoredI:
  assumes seg: "segment_of e False v6 hdr inn j (drop hl p) f x" "unat (hdrLen hdr) = hl"
    and sum: "checksumValid e x (of_nat (iph_of v6)) (hdr_proto False) v6 = Some True"
    and cand: "udp_cand v6 iphl k p" "udp_cand v6 iphl k P"
    and h: "unat iphl = iph_of v6" "hl = iph_of v6 + 8"
    and inn: "\<And>m. m < hl \<Longrightarrow> m \<notin> ip_fixed v6 \<union> {iph_of v6 + 4, iph_of v6 + 5, iph_of v6 + 6, iph_of v6 + 7}
       \<Longrightarrow> inn ! m = P ! m"
    and same: "ip_class p = ip_class P"
  shows "restored e p x"
proof -
  let ?i = "iph_of v6"
  have i: "?i = (if v6 then 40 else 20)" by (simp add: iph_of_def)
  have len: "hl < length p" "hl < length P" using cand h by (simp_all add: udp_cand_def)
  have s: "length x = hl + length (drop hl p)" "drop hl x = drop hl p" "ip_done e v6 ?i x"
    "get16 x (?i + 4) = Some (of_nat (length x - ?i))"
    and xm: "\<And>m. m < hl \<Longrightarrow> m \<notin> seg_fixed False v6 \<Longrightarrow> x ! m = inn ! m"
    using seg unfolding segment_of_def Let_def by simp_all
  have lx: "length x = length p" using s(1) len(1) by simp
  have x: "x ! m = P ! m" if "m < hl" "m \<notin> seg_fixed False v6" for m
  proof -
    have "m \<notin> ip_fixed v6 \<union> {?i + 4, ?i + 5, ?i + 6, ?i + 7}"
      using that(2) by (auto simp: seg_fixed_def ip_fixed_def split: if_splits)
    then show ?thesis using xm [OF that] inn [OF that(1)] by simp
  qed
  have fixed: "m \<notin> seg_fixed False v6" if "m \<in> {0, 1, 6, 7, 8} \<or> src_at v6 \<le> m \<and> m < ?i + 4" for m
    using that by (auto simp: seg_fixed_def src_at_def i split: if_splits)
  have "ip_class x = ip_class P"
    by (rule ip_class_cong; rule x; (use fixed in simp)?) (use h i in \<open>auto split: if_splits\<close>)
  moreover have "newUDPFlowKey x (src_at v6) (src_at v6 + addr_len v6) ?i
      = newUDPFlowKey P (src_at v6) (src_at v6 + addr_len v6) ?i"
    using h len lx by (intro udp_key_cong x fixed) auto
  ultimately have "udp_restored e v6 hl p x"
    using cand s(4) sum h lx by (simp add: udp_restored_def Let_def udp_cand_def hdr_proto_def)
  then show ?thesis
    unfolding restored_def using \<open>ip_class x = ip_class P\<close> same(1) lx len(1) s(2,3) by metis
qed

lemma udp_written_back:
  assumes ok: "udp_ent_ok orig off b ps item" and two: "2 \<le> length ps"
    and acc: "accounted e off IPPROTO_UDP (isV6 (key item)) (udp_hdr item)
         {iph_of (isV6 (key item)) + 4, iph_of (isV6 (key item)) + 5} b b'"
    and off: "10 \<le> off"
    and room: "\<forall>b \<in> set bs. roff + 65535 \<le> length b" "length bs \<le> length sizes" "length ps \<le> length bs"
  shows "\<exists>bs' sizes'. handleVirtioRead e sp (drop (off - 10) (data b')) bs sizes roff
      = Some (int (length ps), None, bs', sizes')
    \<and> (\<forall>j < length ps. restored e (opkt orig off (ps ! j)) (read_pkt roff (bs' ! j) (sizes' ! j)))"
proof -
  define v6 hl inn where "v6 = isV6 (key item)" and "hl = iph_of v6 + 8" and "inn = drop off (data b')"
  define P where "P = opkt orig off (hd ps)"
  note o = udp_ent_okD [OF ok]
  have h: "unat (iphLen item) = iph_of v6"
    using udp_ent_hdr [OF ok] by (simp add: iph_of_unat v6_def)
  have hlu: "unat (iphLen item) + 8 = hl" by (simp add: hl_def h)
  have cand: "udp_cand v6 (iphLen item) (key item) (opkt orig off p)" if "p \<in> set ps" for p
    using o(6) [OF that] by (simp add: v6_def)
  have hd: "udp_cand v6 (iphLen item) (key item) P" using cand o(9) by (simp add: P_def)
  have inn: "inn ! m = P ! m"
    if "m < hl" "m \<notin> ip_fixed v6 \<union> {iph_of v6 + 4, iph_of v6 + 5, iph_of v6 + 6, iph_of v6 + 7}" for m
    using udp_merged_nth [OF ok acc] that by (simp add: inn_def P_def hlu v6_def)
  have len: "hl < length inn" "length inn \<le> 65535"
    using udp_merged_length [OF ok acc] by (simp_all add: inn_def hlu)
  define qs where "qs = map (\<lambda>p. drop hl (opkt orig off p)) ps"
  have seg: "segments orig off b hl (unat (gsoSize item)) ps" using o(2) by (simp add: hlu)
  have qs: "drop hl inn = concat qs"
    using udp_accounted_drop [OF ok acc] by (simp add: inn_def qs_def hlu drop_opkt add.commute [of off])
  have i: "20 \<le> iph_of v6" by (simp add: iph_of_def)
  have ver: "ip_version inn = (if v6 then 6 else 4)"
    using hd inn [of 0] i hl_def by (simp add: udp_cand_def ip_version_def ip_fixed_def)
  have w: "inn = drop 10 (drop (off - 10) (data b'))" using off by (simp add: inn_def)
  have dec: "decode e (drop (off - 10) (data b')) = Inr (udp_hdr item)" "10 \<le> length (drop (off - 10) (data b'))"
  proof -
    show "decode e (drop (off - 10) (data b')) = Inr (udp_hdr item)"
      using acc by (simp add: accounted_def Let_def)
    have "off < length (data b')" using len(1) by (simp add: inn_def)
    then show "10 \<le> length (drop (off - 10) (data b'))" unfolding length_drop using off by linarith
  qed
  obtain hdr bs' sizes' where r: "unat (hdrLen hdr) = hl" "hdrGsoSize hdr = hdrGsoSize (udp_hdr item)"
    "handleVirtioRead e sp (drop (off - 10) (data b')) bs sizes roff = Some (int (length qs), None, bs', sizes')"
    and s: "\<And>j. j < length qs \<Longrightarrow> segment_of e False v6 hdr inn j (qs ! j) (Suc j = length qs)
         (read_pkt roff (bs' ! j) (sizes' ! j))
       \<and> checksumValid e (read_pkt roff (bs' ! j) (sizes' ! j)) (of_nat (iph_of v6)) (hdr_proto False) v6 = Some True"
  proof (rule read_merged [where thl = 0, OF dec w ver _ _ _ _ refl _ _ _ less_imp_le [OF len(1)] _ qs _ _ _ _ room(1,2)])
    show "gsoType (udp_hdr item) = (if False then if v6 then VIRTIO_NET_HDR_GSO_TCPV6 else VIRTIO_NET_HDR_GSO_TCPV4
        else VIRTIO_NET_HDR_GSO_UDP_L4)" by (simp add: udp_hdr_def)
    show "unat (csumStart (udp_hdr item)) = iph_of v6" by (simp add: udp_hdr_def unat_u16_ucast_u8 h)
    show "csumOffset (udp_hdr item) = (if False then 16 else 6)" by (simp add: udp_hdr_def)
    show "hdrGsoSize (udp_hdr item) \<noteq> 0" using o(1) by (simp add: udp_hdr_def)
    show "hl = iph_of v6 + (if False then unat (0 :: u8) else 8)" by (simp add: hl_def)
    show "2 \<le> length qs" "length qs \<le> length bs" using two room(3) by (simp_all add: qs_def)
    show "length (last qs) \<le> unat (hdrGsoSize (udp_hdr item))" "0 < length (last qs)"
      using segments_payloads(2,3) [OF seg, folded qs_def] by (simp_all add: udp_hdr_def)
    show "length (qs ! m) = unat (hdrGsoSize (udp_hdr item))" if "Suc m < length qs" for m
      using segments_payloads(1) [OF seg, folded qs_def, OF that] by (simp add: udp_hdr_def)
  qed (use len that in auto)
  have "restored e (opkt orig off (ps ! j)) (read_pkt roff (bs' ! j) (sizes' ! j))" if j: "j < length ps" for j
  proof -
    have jq: "j < length qs" "qs ! j = drop hl (opkt orig off (ps ! j))" using j by (simp_all add: qs_def)
    have p: "ps ! j \<in> set ps" using j by simp
    note x = s [OF jq(1), unfolded jq(2)]
    show ?thesis
      by (rule udp_restoredI [OF conjunct1 [OF x] r(1) conjunct2 [OF x] cand [OF p(1)] hd h(1) hl_def inn])
        (use o(7) [OF p(1)] in \<open>simp_all add: P_def\<close>)
  qed
  then show ?thesis using r(3) by (simp add: qs_def)
qed

lemma single_written_back:
  assumes b: "data b' = data (cleared off b)" and off: "10 \<le> off" "off \<le> length (data b)"
    and room: "roff + (length (data b) - off) \<le> length (bs ! 0)" "bs \<noteq> []" "sizes \<noteq> []"
  shows "\<exists>bs' sizes'. handleVirtioRead e sp (drop (off - 10) (data b')) bs sizes roff = Some (1, None, bs', sizes')
    \<and> read_pkt roff (bs' ! 0) (sizes' ! 0) = drop off (data b)"
proof -
  have w: "drop (off - 10) (data b') = replicate 10 0 @ drop off (data b)"
    using b off by (simp add: cleared_def)
  define p where "p = drop off (data b)"
  have "roff + length p \<le> length (bs ! 0)" using room(1) by (simp add: p_def)
  then have fit: "roff \<le> length (bs ! 0)" "\<not> length (bs ! 0) - roff < length p"
    "take (length (bs ! 0) - roff) p = p" by simp_all
  have "handleVirtioRead e sp (drop (off - 10) (data b')) bs sizes roff
      = Some (1, None, bs[0 := take roff (bs ! 0) @ p @ drop (roff + length p) (bs ! 0)], sizes[0 := length p])"
    using room(2,3) fit unfolding w p_def [symmetric]
    by (simp add: handleVirtioRead_def decode_empty go_simps virtioNetHdrLen_def)
  then show ?thesis
    using room(2,3) fit(1) by (simp add: read_pkt_def p_def [symmetric])
qed

lemma outcome_read_back:
  assumes "offsets_ok offset s" and "gro_outcome e (nat offset) s s' parts" and k: "k \<in> set (toWrite s')"
    and "\<forall>b \<in> set bs. roff + 65535 \<le> length b" and "length (bufs s) \<le> length bs"
    and "length bs \<le> length sizes" and "\<forall>b \<in> set (bufs s). length (data b) \<le> nat offset + 65535"
  shows "\<exists>bs' sizes'. handleVirtioRead e sp (drop (nat offset - 10) (data (bufs s' ! k))) bs sizes roff
           = Some (int (length (parts k)), None, bs', sizes')
         \<and> (\<forall>j < length (parts k). restored e (opkt (bufs s) (nat offset) (parts k ! j)) (read_pkt roff (bs' ! j) (sizes' ! j)))"
proof -
  let ?off = "nat offset"
  note o = assms(2)
  have w: "written e ?off (bufs s) (parts k) k (bufs s' ! k)" using o k by (simp add: gro_outcome_def)
  have "k < length (bufs s)" using o k by (auto simp: gro_outcome_def)
  then have kb: "bufs s ! k \<in> set (bufs s)" by simp
  then have off: "10 \<le> ?off" "?off \<le> length (data (bufs s ! k))"
    using assms(1) unfolding offsets_ok_def by force+
  have "size (mset (parts k)) \<le> size (mset (concat (map parts (toWrite s'))))"
    using k by (intro size_mset_mono) (auto simp: in_set_conv_decomp)
  moreover have "mset (concat (map parts (toWrite s'))) = mset [0..<length (bufs s)]"
    using o by (simp add: gro_outcome_def)
  ultimately have "size (mset (parts k)) \<le> size (mset [0..<length (bufs s)])" by (simp only:)
  then have n: "length (parts k) \<le> length bs" using assms(5) by (simp only: size_mset length_upt)
  show ?thesis
    using w
  proof (cases rule: written_cases)
    case single
    have ne: "bs \<noteq> []" "sizes \<noteq> []" using assms(5,6) \<open>k < length (bufs s)\<close> by auto
    then have "bs ! 0 \<in> set bs" by simp
    then have "roff + (length (data (bufs s ! k)) - ?off) \<le> length (bs ! 0)"
      using assms(4,7) kb by fastforce
    then obtain bs' sizes' where r:
      "handleVirtioRead e sp (drop (?off - 10) (data (bufs s' ! k))) bs sizes roff = Some (1, None, bs', sizes')"
      "read_pkt roff (bs' ! 0) (sizes' ! 0) = drop ?off (data (bufs s ! k))"
      using single_written_back [OF single(2) off _ ne] by blast
    show ?thesis
      by (rule exI [of _ bs'], rule exI [of _ sizes']) (simp add: r single(1) restored_def opkt_def)
  next
    case (tcp item b)
    from tcp_written_back [OF tcp(2,1,3) off(1) assms(4,6) n] show ?thesis .
  next
    case (udp item b)
    from udp_written_back [OF udp(2,1,3) off(1) assms(4,6) n] show ?thesis .
  qed
qed

text \<open>
  C2. Segmentation undoes coalescing. Let \<open>handleGRO\<close> process a vector and let every
  packet it asks to be written come back from the device as it was handed over. Reading the packet
  for index \<open>k\<close> yields as many packets as were merged at \<open>k\<close>, without error, in the order of the
  list \<open>parts k\<close>, and each is the original up to the fields that GRO does not compare (\<open>restored\<close>):
  the payload, length, flow, TTL, TOS, options and sequence number are the original's, the length
  fields agree and the checksums verify. Together the lists hold every original packet once.
\<close>

theorem gro_gso_roundtrip:
  assumes "gro_ready offset s" and "offsets_ok offset s"
    and "\<forall>b \<in> set bs. roff + 65535 \<le> length b" and "length (bufs s) \<le> length bs"
    and "length bs \<le> length sizes" and "\<forall>b \<in> set (bufs s). length (data b) \<le> nat offset + 65535"
  shows "\<exists>s' parts. handleGRO e offset canUDP s = Some ([], s')
    \<and> mset (concat (map parts (toWrite s'))) = mset [0..<length (bufs s)]
    \<and> (\<forall>k \<in> set (toWrite s'). \<exists>bs' sizes'.
         handleVirtioRead e sp (drop (nat offset - 10) (data (bufs s' ! k))) bs sizes roff
           = Some (int (length (parts k)), None, bs', sizes')
         \<and> (\<forall>j < length (parts k). restored e (drop (nat offset) (data (bufs s ! (parts k ! j))))
              (read_pkt roff (bs' ! j) (sizes' ! j))))"
proof (rule handleGRO_outcome [OF assms(1,2), of e canUDP])
  fix s' parts
  assume run: "handleGRO e offset canUDP s = Some ([], s')" and o: "gro_outcome e (nat offset) s s' parts"
  show ?thesis
    using run o outcome_read_back [OF assms(2) o _ assms(3-6)] unfolding opkt_def gro_outcome_def by blast
qed

theorem gro_gso_roundtrip_witness:
  "\<exists>s' parts. handleGRO LittleE 10 True demo_state = Some ([], s')
    \<and> mset (concat (map parts (toWrite s'))) = mset [0, 1, 2 :: nat]"
proof -
  have b: "length (bufs demo_state) \<le> length (replicate 3 (replicate 65535 (0 :: byte)))"
    "\<forall>b \<in> set (bufs demo_state). length (data b) \<le> nat 10 + 65535"
    by (simp_all add: demo_vector demo_state_def demo_segment_def)
  from gro_gso_roundtrip [OF demo_ready demo_offsets _ b(1) _ b(2), of 0 "[0, 0, 0]" LittleE True no_spare]
  show ?thesis unfolding demo_vector by auto
qed

end
