(* ===== verification/Listeners.thy ===== *)
theory Listeners
  imports Virtio
begin

text \<open>
  The two goroutines of \<open>src/tun/tun_linux.go\<close> that watch the state of the device:
  \<open>routineHackListener\<close>, which probes it with empty writes, and \<open>routineNetlinkListener\<close>, which
  parses the kernel's netlink messages. The events they send on \<open>tun.events\<close> are a list in
  sending order; what the system calls answer is an argument.
\<close>

section \<open>The hack listener\<close>

datatype event = EventUp | EventDown | EventMTUUpdate

definition EIO :: nat where "EIO = 5"
definition EINVAL :: nat where "EINVAL = 22"
definition EBADFD :: nat where "EBADFD = 77"

text \<open>\<open>last\<close> of the code: neither state yet, \<open>up\<close> or \<open>down\<close>.\<close>

datatype hackLast = hackNone | hackUp | hackDown

text \<open>
  One probe. \<open>conn\<close> and \<open>ctl\<close> are the errors of \<open>SyscallConn\<close> and \<open>Control\<close>, \<open>wr\<close> that of the empty
  write. The result is the event sent, if any, and the new \<open>last\<close>; \<open>None\<close> is a return.
\<close>

definition hack_step ::
  "goerror option \<Rightarrow> goerror option \<Rightarrow> goerror option \<Rightarrow> hackLast \<Rightarrow> (event list \<times> hackLast) option" where
  "hack_step conn ctl wr l =
     (if conn \<noteq> None then None
      else if ctl \<noteq> None then None
      else if wr = Some (FileError EINVAL)
      then Some (if l \<noteq> hackUp then ([EventUp], hackUp) else ([], l))
      else if wr = Some (FileError EIO)
      then Some (if l \<noteq> hackDown then ([EventDown], hackDown) else ([], l))
      else None)"

text \<open>
  The loop over a sequence of probes. The last component of a probe says whether
  \<open>statusListenersShutdown\<close> is closed when the code selects on it after the probe.
\<close>

type_synonym probe = "goerror option \<times> goerror option \<times> goerror option \<times> bool"

fun routineHackListener :: "probe list \<Rightarrow> hackLast \<Rightarrow> event list" where
  "routineHackListener [] l = []"
| "routineHackListener ((conn, ctl, wr, shut) # ps) l =
     (case hack_step conn ctl wr l of
        None \<Rightarrow> []
      | Some (evs, l) \<Rightarrow> evs @ (if shut then [] else routineHackListener ps l))"

section \<open>One netlink datagram\<close>

text \<open>
  The kernel's ABI: a message header is 16 bytes (length, type, flags, sequence number, port), the
  body of \<open>RTM_NEWLINK\<close> starts with the interface index at offset 4 and its flags at offset 8.
\<close>

definition SizeofNlMsghdr :: nat where "SizeofNlMsghdr = 16"
definition SizeofIfInfomsg :: nat where "SizeofIfInfomsg = 16"
definition NLMSG_DONE :: u16 where "NLMSG_DONE = 3"
definition RTM_NEWLINK :: u16 where "RTM_NEWLINK = 16"
definition IFF_RUNNING :: u32 where "IFF_RUNNING = 0x40"

definition u32_at :: "endian \<Rightarrow> byte list \<Rightarrow> nat \<Rightarrow> u32" where
  "u32_at e msg p = native_u32 e (take 4 (drop p msg))"

definition u16_at :: "endian \<Rightarrow> byte list \<Rightarrow> nat \<Rightarrow> u16" where
  "u16_at e msg p = native_u16 e (take 2 (drop p msg))"

text \<open>The events for an \<open>RTM_NEWLINK\<close> of our interface, and \<open>wasEverUp\<close> afterwards.\<close>

definition link_events :: "u32 \<Rightarrow> bool \<Rightarrow> event list \<times> bool" where
  "link_events fl ever =
     (if fl AND IFF_RUNNING \<noteq> 0 then ([EventUp, EventMTUUpdate], True)
      else ((if ever then [EventDown] else []) @ [EventMTUUpdate], ever))"

text \<open>
  The loop over the messages of a datagram: \<open>remain\<close> is \<open>msg[p:stop]\<close>. The outer option is \<open>None\<close>
  where the loop does not end, the inner one where an index panics or the body of a message would
  be read beyond the receive buffer \<open>msg\<close>.
\<close>

partial_function (option) netlink_loop ::
  "endian \<Rightarrow> u32 \<Rightarrow> byte list \<Rightarrow> nat \<Rightarrow> nat \<Rightarrow> bool \<Rightarrow> event list \<Rightarrow> event list option option" where
  "netlink_loop e index msg stop p ever evs =
     (if stop - p < SizeofNlMsghdr then Some (Some evs)
      else let len = unat (u32_at e msg p); typ = u16_at e msg (p + 4) in
        if stop - p < len then Some (Some evs)
        else if typ = NLMSG_DONE then Some (Some evs)
        else if typ = RTM_NEWLINK then
          if stop - p \<le> SizeofNlMsghdr \<or> length msg < p + SizeofNlMsghdr + SizeofIfInfomsg then Some None
          else if u32_at e msg (p + SizeofNlMsghdr + 4) \<noteq> index
          then netlink_loop e index msg stop (p + len) ever evs
          else netlink_loop e index msg stop (p + len)
                 (snd (link_events (u32_at e msg (p + SizeofNlMsghdr + 8)) ever))
                 (evs @ fst (link_events (u32_at e msg (p + SizeofNlMsghdr + 8)) ever))
        else netlink_loop e index msg stop (p + len) ever evs)"

text \<open>\<open>wasEverUp\<close> is set to false for each datagram.\<close>

definition netlink_datagram :: "endian \<Rightarrow> u32 \<Rightarrow> byte list \<Rightarrow> nat \<Rightarrow> event list option option" where
  "netlink_datagram e index msg n = netlink_loop e index msg n 0 False []"

section \<open>The netlink listener\<close>

text \<open>
  What \<open>Recvmsg\<close> answers: a datagram of \<open>n\<close> bytes at the start of the buffer, an error after which
  the code may retry, with the answer of \<open>netlinkCancel.ReadyRead\<close>, or another error.
\<close>

datatype recvResult =
    RecvOk "byte list" nat
  | RecvRetry goerror bool
  | RecvFailed goerror

text \<open>
  The loop over a sequence of answers, each with the state of \<open>statusListenersShutdown\<close> when the
  code looks at it. The result: the events sent, the error sent on \<open>tun.errors\<close>, and whether the
  goroutine has returned (and its deferred calls have closed the socket and \<open>tun.events\<close>).
\<close>

fun routineNetlinkListener ::
  "endian \<Rightarrow> u32 \<Rightarrow> (recvResult \<times> bool) list \<Rightarrow> (event list \<times> goerror option \<times> bool) option option" where
  "routineNetlinkListener e index [] = Some (Some ([], None, False))"
| "routineNetlinkListener e index ((r, shut) # rs) =
     (case r of
        RecvRetry err ready \<Rightarrow>
          if \<not> ready then Some (Some ([], Some (ErrWrapped ''netlink socket closed'' err), True))
          else routineNetlinkListener e index rs
      | RecvFailed err \<Rightarrow>
          Some (Some ([], Some (ErrWrapped ''failed to receive netlink message'' err), True))
      | RecvOk msg n \<Rightarrow>
          if shut then Some (Some ([], None, True))
          else do {
            d \<leftarrow> netlink_datagram e index msg n;
            (case d of
               None \<Rightarrow> Some None
             | Some evs \<Rightarrow> do {
                 rest \<leftarrow> routineNetlinkListener e index rs;
                 Some (map_option (\<lambda>(evs', err, fin). (evs @ evs', err, fin)) rest)
               })
          })"

section \<open>The hack listener alternates\<close>

text \<open>The last event the hack listener has reported.\<close>

fun hack_event :: "hackLast \<Rightarrow> event option" where
  "hack_event hackNone = None"
| "hack_event hackUp = Some EventUp"
| "hack_event hackDown = Some EventDown"

lemma hack_step_events:
  assumes "hack_step conn ctl wr l = Some (evs, l')"
  shows "evs = [] \<and> l' = l \<or> (\<exists>ev. evs = [ev] \<and> hack_event l' = Some ev \<and> hack_event l \<noteq> Some ev)"
  using assms by (cases l) (auto simp: hack_step_def split: if_splits)

lemma routineHackListener_alternates:
  "distinct_adj ((case hack_event l of None \<Rightarrow> [] | Some ev \<Rightarrow> [ev]) @ routineHackListener ps l)
   \<and> set (routineHackListener ps l) \<subseteq> {EventUp, EventDown}"
proof (induction ps l rule: routineHackListener.induct)
  case (1 l)
  then show ?case by (cases l) auto
next
  case (2 conn ctl wr shut ps l)
  show ?case
  proof (cases "hack_step conn ctl wr l")
    case None
    then show ?thesis by (cases l) auto
  next
    case (Some r)
    obtain evs l' where r: "r = (evs, l')" by (cases r)
    note s = hack_step_events [OF Some [unfolded r]]
    have ih: "distinct_adj ((case hack_event l' of None \<Rightarrow> [] | Some ev \<Rightarrow> [ev]) @ routineHackListener ps l')
      \<and> set (routineHackListener ps l') \<subseteq> {EventUp, EventDown}" if "\<not> shut"
      using "2.IH" [OF Some [unfolded r] refl that] .
    show ?thesis
      using s ih Some r by (cases l; cases l'; cases shut) (auto simp: distinct_adj_Cons)
  qed
qed

text \<open>
  The hack listener reports changes only: its events alternate between
  up and down, whatever the sequence of probes.
\<close>

theorem hack_listener_alternates:
  "distinct_adj (routineHackListener ps hackNone) \<and> set (routineHackListener ps hackNone) \<subseteq> {EventUp, EventDown}"
  using routineHackListener_alternates [of hackNone ps] by simp

lemma hack_listener_example:
  "routineHackListener [(None, None, Some (FileError EINVAL), False), (None, None, Some (FileError EINVAL), False),
     (None, None, Some (FileError EIO), False), (None, None, None, False)] hackNone = [EventUp, EventDown]"
  by code_simp

section \<open>The netlink parser against its specification\<close>

text \<open>
  A datagram as the kernel builds it: frames, each of which states its own length. The specification
  goes through the frames in order.
\<close>

definition frame_ok :: "endian \<Rightarrow> byte list \<Rightarrow> bool" where
  "frame_ok e f \<longleftrightarrow> SizeofNlMsghdr \<le> length f \<and> unat (u32_at e f 0) = length f
     \<and> u16_at e f 4 \<noteq> NLMSG_DONE
     \<and> (u16_at e f 4 = RTM_NEWLINK \<longrightarrow> SizeofNlMsghdr + SizeofIfInfomsg \<le> length f)"

definition frame_events :: "endian \<Rightarrow> u32 \<Rightarrow> bool \<Rightarrow> byte list \<Rightarrow> event list \<times> bool" where
  "frame_events e index ever f =
     (if u16_at e f 4 = RTM_NEWLINK \<and> u32_at e f 20 = index then link_events (u32_at e f 24) ever
      else ([], ever))"

fun datagram_events :: "endian \<Rightarrow> u32 \<Rightarrow> bool \<Rightarrow> byte list list \<Rightarrow> event list" where
  "datagram_events e index ever [] = []"
| "datagram_events e index ever (f # fs) =
     fst (frame_events e index ever f) @ datagram_events e index (snd (frame_events e index ever f)) fs"

lemma at_frame:
  assumes "p = length pre" and "q + 4 \<le> length f"
  shows "u32_at e (pre @ f @ post) (p + q) = u32_at e f q"
    and "u16_at e (pre @ f @ post) (p + q) = u16_at e f q"
  using assms by (simp_all add: u32_at_def u16_at_def)

lemma netlink_loop_frames:
  assumes "\<forall>f \<in> set fs. frame_ok e f" and "p = length pre"
    and "msg = pre @ concat fs @ post" and "stop = length pre + length (concat fs)"
  shows "netlink_loop e index msg stop p ever evs = Some (Some (evs @ datagram_events e index ever fs))"
  using assms
proof (induction fs arbitrary: p pre ever evs)
  case Nil
  then show ?case by (subst netlink_loop.simps) (simp add: SizeofNlMsghdr_def)
next
  case (Cons f fs)
  have f: "16 \<le> length f" "unat (u32_at e f 0) = length f" "u16_at e f 4 \<noteq> NLMSG_DONE"
    "u16_at e f 4 = RTM_NEWLINK \<Longrightarrow> 32 \<le> length f"
    using Cons.prems(1) by (simp_all add: frame_ok_def SizeofNlMsghdr_def SizeofIfInfomsg_def)
  have msg: "msg = pre @ f @ (concat fs @ post)" using Cons.prems(3) by simp
  note at = at_frame [OF Cons.prems(2), of _ f e "concat fs @ post", folded msg]
  have hd: "u32_at e msg p = u32_at e f 0" "u16_at e msg (p + 4) = u16_at e f 4"
    using at(1) [of 0] at(2) [of 4] f(1) by simp_all
  have body: "u32_at e msg (p + 20) = u32_at e f 20" "u32_at e msg (p + 24) = u32_at e f 24"
    "p + 32 \<le> length msg" "32 \<le> stop - p" if "u16_at e f 4 = RTM_NEWLINK"
    using at(1) [of 20] at(1) [of 24] f(4) [OF that] Cons.prems(2,4) by (simp_all add: msg)
  have stop: "16 \<le> stop - p" "length f \<le> stop - p" using f(1) Cons.prems(2,4) by simp_all
  have ih: "netlink_loop e index msg stop (p + length f) ever' evs'
      = Some (Some (evs' @ datagram_events e index ever' fs))" for ever' evs'
    by (rule Cons.IH [of "p + length f" "pre @ f"]) (use Cons.prems in simp_all)
  show ?case
  proof (cases "u16_at e f 4 = RTM_NEWLINK")
    case True
    note b = body [OF True]
    have "\<not> stop - p \<le> 16" "\<not> length msg < p + 32" using b by linarith+
    then show ?thesis
      using f stop b(1,2) ih True
      by (subst netlink_loop.simps)
        (simp add: SizeofNlMsghdr_def SizeofIfInfomsg_def hd Let_def frame_events_def add.assoc)
  next
    case False
    then show ?thesis
      using f stop ih
      by (subst netlink_loop.simps) (simp add: SizeofNlMsghdr_def hd Let_def frame_events_def)
  qed
qed

text \<open>
  C32. On a datagram of well-formed frames, in a buffer that may hold older
  bytes behind it, the parser returns: its loop ends, no index panics, no byte beyond the datagram
  is used, and the events are those of the specification, frame by frame.
\<close>

theorem netlink_datagram_refines:
  assumes "\<forall>f \<in> set fs. frame_ok e f"
  shows "netlink_datagram e index (concat fs @ stale) (length (concat fs))
    = Some (Some (datagram_events e index False fs))"
  unfolding netlink_datagram_def
  using netlink_loop_frames [OF assms, of 0 "[]" _ stale] by simp

definition demo_frame :: "byte \<Rightarrow> byte list" where
  "demo_frame fl = [32, 0, 0, 0, 16, 0, 0, 0, 0, 0, 0, 0, 0, 0, 0, 0,
                    0, 0, 0, 0, 7, 0, 0, 0, fl, 0, 0, 0, 0, 0, 0, 0]"

lemma demo_frame_ok: "frame_ok LittleE (demo_frame 0x40)" "frame_ok LittleE (demo_frame 0)"
  by code_simp+

theorem netlink_datagram_refines_witness:
  "netlink_datagram LittleE 7 (concat [demo_frame 0x40, demo_frame 0] @ [1, 2])
      (length (concat [demo_frame 0x40, demo_frame 0]))
    = Some (Some [EventUp, EventMTUUpdate, EventDown, EventMTUUpdate])"
proof -
  have "datagram_events LittleE 7 False [demo_frame 0x40, demo_frame 0]
      = [EventUp, EventMTUUpdate, EventDown, EventMTUUpdate]" by code_simp
  then show ?thesis
    using netlink_datagram_refines [of "[demo_frame 0x40, demo_frame 0]" LittleE 7 "[1, 2]"] demo_frame_ok
    by simp
qed

text \<open>
  \<open>wasEverUp\<close> starts anew with every datagram. A listener that gets one frame
  per datagram never sends \<open>EventDown\<close>, however often the interface has been up before.
\<close>

theorem netlink_down_lost:
  assumes "\<forall>f \<in> set fs. frame_ok e f"
  shows "\<exists>evs. routineNetlinkListener e index (map (\<lambda>f. (RecvOk f (length f), False)) fs)
      = Some (Some (evs, None, False)) \<and> EventDown \<notin> set evs
      \<and> length evs \<le> 2 * length fs"
  using assms
proof (induction fs)
  case (Cons f fs)
  have f: "frame_ok e f" using Cons.prems by simp
  have "netlink_datagram e index f (length f) = Some (Some (datagram_events e index False [f]))"
    unfolding netlink_datagram_def using netlink_loop_frames [of "[f]" e 0 "[]" f "[]"] f by simp
  moreover have "EventDown \<notin> set (datagram_events e index False [f])" "length (datagram_events e index False [f]) \<le> 2"
    by (simp_all add: frame_events_def link_events_def)
  ultimately show ?case using Cons by fastforce
qed simp

theorem netlink_down_lost_witness:
  "\<exists>evs. routineNetlinkListener LittleE 7 (map (\<lambda>f. (RecvOk f (length f), False)) [demo_frame 0x40, demo_frame 0])
      = Some (Some (evs, None, False)) \<and> EventDown \<notin> set evs"
  using netlink_down_lost [of "[demo_frame 0x40, demo_frame 0]" LittleE 7] demo_frame_ok by auto

text \<open>A frame that states the length 0 is never left: the loop does not end.\<close>

lemma netlink_loop_zero:
  assumes "netlink_loop e index msg stop p ever evs = Some r"
  shows "\<not> (16 \<le> stop - p \<and> u32_at e msg p = 0 \<and> u16_at e msg (p + 4) \<notin> {NLMSG_DONE, RTM_NEWLINK})"
proof (rule netlink_loop.raw_induct [OF _ assms])
  fix loop e index msg stop p ever evs r
  assume ih: "\<And>e index msg stop p ever evs r. loop e index msg stop p ever evs = Some r \<Longrightarrow>
      \<not> (16 \<le> stop - p \<and> u32_at e msg p = 0 \<and> u16_at e msg (p + 4) \<notin> {NLMSG_DONE, RTM_NEWLINK})"
    and r: "(if stop - p < SizeofNlMsghdr then Some (Some evs)
      else let len = unat (u32_at e msg p); typ = u16_at e msg (p + 4) in
        if stop - p < len then Some (Some evs)
        else if typ = NLMSG_DONE then Some (Some evs)
        else if typ = RTM_NEWLINK then
          if stop - p \<le> SizeofNlMsghdr \<or> length msg < p + SizeofNlMsghdr + SizeofIfInfomsg then Some None
          else if u32_at e msg (p + SizeofNlMsghdr + 4) \<noteq> index
          then loop e index msg stop (p + len) ever evs
          else loop e index msg stop (p + len)
                 (snd (link_events (u32_at e msg (p + SizeofNlMsghdr + 8)) ever))
                 (evs @ fst (link_events (u32_at e msg (p + SizeofNlMsghdr + 8)) ever))
        else loop e index msg stop (p + len) ever evs) = Some r"
  show "\<not> (16 \<le> stop - p \<and> u32_at e msg p = 0 \<and> u16_at e msg (p + 4) \<notin> {NLMSG_DONE, RTM_NEWLINK})"
  proof
    assume a: "16 \<le> stop - p \<and> u32_at e msg p = 0 \<and> u16_at e msg (p + 4) \<notin> {NLMSG_DONE, RTM_NEWLINK}"
    then have "loop e index msg stop p ever evs = Some r" using r by (simp add: SizeofNlMsghdr_def)
    from ih [OF this] a show False by blast
  qed
qed

text \<open>
  The parser trusts the length a message states: on a datagram that starts
  with a message of length 0 of any type but the two it handles it loops forever.
\<close>

theorem netlink_zero_length:
  assumes "16 \<le> n" and "u32_at e msg 0 = 0" and "u16_at e msg 4 \<notin> {NLMSG_DONE, RTM_NEWLINK}"
  shows "netlink_datagram e index msg n = None"
  unfolding netlink_datagram_def using netlink_loop_zero [of e index msg n 0 False "[]"] assms
  by (cases "netlink_loop e index msg n 0 False []") auto

theorem netlink_zero_length_witness:
  "netlink_datagram LittleE 7 (replicate 16 0) 16 = None"
  by (rule netlink_zero_length [of 16 LittleE "replicate 16 0" 7]) code_simp+

end
