(* ===== verification/LinuxTun.thy ===== *)
theory LinuxTun
  imports Listeners GRO GSO
begin

text \<open>
  \<open>NativeTun\<close> of \<open>src/tun/tun_linux.go\<close>: creating the device, its name and MTU, \<open>Read\<close>, \<open>Write\<close>
  and \<open>Close\<close>. The operating system is the argument \<open>S\<close>, a record of the system calls the code
  makes, each a function on the state \<open>'w\<close> of the system; the mutexes make the operations run one
  at a time, as the functions here do.
\<close>

section \<open>The system calls\<close>

datatype sockKind = NetlinkRouteSocket | InetDgramSocket
datatype ioctlReq = SIOCGIFINDEX | SIOCSIFMTU | SIOCGIFMTU | TUNGETIFF | TUNSETIFF

text \<open>
  \<open>sysIoctl\<close> passes a buffer, which the call may change; \<open>sysSetOffload\<close> is the ioctl
  \<open>TUNSETOFFLOAD\<close>; \<open>sysConn\<close> and \<open>sysControl\<close> are the errors of \<open>SyscallConn\<close> and \<open>Control\<close> on a
  file. \<open>sysNewIfreq\<close>, \<open>sysIfreqUint16\<close>, \<open>sysIfreqSetUint16\<close> and \<open>sysByteString\<close> are the functions of
  \<open>golang.org/x/sys/unix\<close>, \<open>sysNewCancel\<close> and \<open>sysCancel\<close> those of \<open>rwcancel\<close>.
\<close>

record 'w sys =
  sysOpen :: "byte list \<Rightarrow> 'w \<Rightarrow> (goerror + int) \<times> 'w"
  sysSocket :: "sockKind \<Rightarrow> 'w \<Rightarrow> (goerror + int) \<times> 'w"
  sysBind :: "int \<Rightarrow> u32 \<Rightarrow> 'w \<Rightarrow> goerror option \<times> 'w"
  sysClose :: "int \<Rightarrow> 'w \<Rightarrow> goerror option \<times> 'w"
  sysIoctl :: "int \<Rightarrow> ioctlReq \<Rightarrow> byte list \<Rightarrow> 'w \<Rightarrow> goerror option \<times> byte list \<times> 'w"
  sysSetOffload :: "int \<Rightarrow> u32 \<Rightarrow> 'w \<Rightarrow> goerror option \<times> 'w"
  sysSetNonblock :: "int \<Rightarrow> 'w \<Rightarrow> goerror option \<times> 'w"
  sysConn :: "int \<Rightarrow> 'w \<Rightarrow> goerror option"
  sysControl :: "int \<Rightarrow> 'w \<Rightarrow> goerror option"
  sysNewIfreq :: "byte list \<Rightarrow> goerror + byte list"
  sysIfreqUint16 :: "byte list \<Rightarrow> u16"
  sysIfreqSetUint16 :: "u16 \<Rightarrow> byte list \<Rightarrow> byte list"
  sysByteString :: "byte list \<Rightarrow> byte list"
  sysNewCancel :: "int \<Rightarrow> 'w \<Rightarrow> (goerror + int) \<times> 'w"
  sysCancel :: "int \<Rightarrow> 'w \<Rightarrow> goerror option \<times> 'w"
  sysRead :: "int \<Rightarrow> nat \<Rightarrow> 'w \<Rightarrow> (goerror + byte list) \<times> 'w"
  sysWrite :: "int \<Rightarrow> byte list \<Rightarrow> 'w \<Rightarrow> (nat \<times> goerror option) \<times> 'w"

text \<open>\<open>if err != nil { return err }\<close> after a call.\<close>

definition on_ok ::
  "(goerror + 'a) \<times> 'w \<Rightarrow> ('a \<Rightarrow> 'w \<Rightarrow> (goerror + 'b) \<times> 'w) \<Rightarrow> (goerror + 'b) \<times> 'w" where
  "on_ok r f = (case r of (Inl err, w) \<Rightarrow> (Inl err, w) | (Inr x, w) \<Rightarrow> f x w)"

section \<open>The interface request\<close>

definition IFNAMSIZ :: nat where "IFNAMSIZ = 16"
definition ifReqSize :: nat where "ifReqSize = IFNAMSIZ + 64"

text \<open>\<open>copy(ifr[:], name)\<close> into a zeroed array.\<close>

definition ifreq_of :: "byte list \<Rightarrow> byte list" where
  "ifreq_of ifname = take ifReqSize ifname @ replicate (ifReqSize - length ifname) 0"

definition native_bytes32 :: "endian \<Rightarrow> u32 \<Rightarrow> byte list" where
  "native_bytes32 e x = (let bs = map (\<lambda>k. ucast (drop_bit (8 * k) x)) [0..<4] in
     case e of LittleE \<Rightarrow> bs | BigE \<Rightarrow> rev bs)"

definition ifreq_get32 :: "endian \<Rightarrow> byte list \<Rightarrow> u32" where
  "ifreq_get32 e ifr = u32_at e ifr IFNAMSIZ"

definition ifreq_put32 :: "endian \<Rightarrow> u32 \<Rightarrow> byte list \<Rightarrow> byte list" where
  "ifreq_put32 e x ifr = take IFNAMSIZ ifr @ native_bytes32 e x @ drop (IFNAMSIZ + 4) ifr"

definition getIFIndex :: "endian \<Rightarrow> 'w sys \<Rightarrow> byte list \<Rightarrow> 'w \<Rightarrow> (goerror + u32) \<times> 'w" where
  "getIFIndex e S ifname w = on_ok (sysSocket S InetDgramSocket w) (\<lambda>fd w.
     let (errno, ifr, w) = sysIoctl S fd SIOCGIFINDEX (ifreq_of ifname) w;
         w = snd (sysClose S fd w) in
     case errno of Some err \<Rightarrow> (Inl err, w) | None \<Rightarrow> (Inr (ifreq_get32 e ifr), w))"

text \<open>\<open>setMTU\<close> and \<open>MTU\<close> after the name has been determined.\<close>

definition setMTU_named :: "endian \<Rightarrow> 'w sys \<Rightarrow> byte list \<Rightarrow> int \<Rightarrow> 'w \<Rightarrow> (goerror + unit) \<times> 'w" where
  "setMTU_named e S ifname n w = on_ok (sysSocket S InetDgramSocket w) (\<lambda>fd w.
     let (errno, ifr, w) = sysIoctl S fd SIOCSIFMTU (ifreq_put32 e (of_int n) (ifreq_of ifname)) w;
         w = snd (sysClose S fd w) in
     case errno of
       Some err \<Rightarrow> (Inl (ErrWrapped ''failed to set MTU of TUN device'' err), w)
     | None \<Rightarrow> (Inr (), w))"

definition MTU_named :: "endian \<Rightarrow> 'w sys \<Rightarrow> byte list \<Rightarrow> 'w \<Rightarrow> (goerror + int) \<times> 'w" where
  "MTU_named e S ifname w = on_ok (sysSocket S InetDgramSocket w) (\<lambda>fd w.
     let (errno, ifr, w) = sysIoctl S fd SIOCGIFMTU (ifreq_of ifname) w;
         w = snd (sysClose S fd w) in
     case errno of
       Some err \<Rightarrow> (Inl (ErrWrapped ''failed to get MTU of TUN device'' err), w)
     | None \<Rightarrow> (Inr (sint (ifreq_get32 e ifr)), w))"

definition netlinkGroups :: u32 where "netlinkGroups = 0x1 OR 0x10 OR 0x100"

text \<open>The socket is not closed when it cannot be bound.\<close>

definition createNetlinkSocket :: "'w sys \<Rightarrow> 'w \<Rightarrow> (goerror + int) \<times> 'w" where
  "createNetlinkSocket S w = on_ok (sysSocket S NetlinkRouteSocket w) (\<lambda>sock w.
     case sysBind S sock netlinkGroups w of
       (Some err, w) \<Rightarrow> (Inl err, w)
     | (None, w) \<Rightarrow> (Inr sock, w))"

section \<open>The device\<close>

text \<open>A channel of which the code asks whether it is nil, and which it closes.\<close>

datatype chan = chanNil | chanOpen | chanClosed

record nativeTun =
  tunFile :: int
  ifIndex :: u32
  pendingErrors :: "goerror list"
  eventsChan :: chan
  netlinkSock :: int
  netlinkCancel :: "int option"
  statusListenersShutdown :: chan
  batchSize :: nat
  vnetHdr :: bool
  udpGSO :: bool
  closeDone :: bool
  nameCache :: "(goerror + byte list) option"
  tcpGROTab :: tcpGROTable
  udpGROTab :: udpGROTable
  writeIdx :: "nat list"

definition nameSlow :: "'w sys \<Rightarrow> int \<Rightarrow> 'w \<Rightarrow> (goerror + byte list) \<times> 'w" where
  "nameSlow S file w =
     (case sysConn S file w of
        Some err \<Rightarrow> (Inl err, w)
      | None \<Rightarrow>
          (case sysControl S file w of
             Some err \<Rightarrow> (Inl (ErrWrapped ''failed to get name of TUN device'' err), w)
           | None \<Rightarrow>
               let (errno, ifr, w) = sysIoctl S file TUNGETIFF (replicate ifReqSize 0) w in
               case errno of
                 Some err \<Rightarrow> (Inl (ErrWrapped ''failed to get name of TUN device'' err), w)
               | None \<Rightarrow> (Inr (sysByteString S ifr), w)))"

text \<open>\<open>Name\<close>: \<open>nameOnce\<close> makes the first answer, error or not, the answer forever.\<close>

definition tunName :: "'w sys \<Rightarrow> nativeTun \<Rightarrow> 'w \<Rightarrow> (goerror + byte list) \<times> nativeTun \<times> 'w" where
  "tunName S t w =
     (case nameCache t of
        Some r \<Rightarrow> (r, t, w)
      | None \<Rightarrow> let (r, w) = nameSlow S (tunFile t) w in (r, t\<lparr>nameCache := Some r\<rparr>, w))"

definition tunSetMTU :: "endian \<Rightarrow> 'w sys \<Rightarrow> nativeTun \<Rightarrow> int \<Rightarrow> 'w \<Rightarrow> (goerror + unit) \<times> nativeTun \<times> 'w" where
  "tunSetMTU e S t n w =
     (case tunName S t w of
        (Inl err, t, w) \<Rightarrow> (Inl err, t, w)
      | (Inr ifname, t, w) \<Rightarrow> let (r, w) = setMTU_named e S ifname n w in (r, t, w))"

definition tunMTU :: "endian \<Rightarrow> 'w sys \<Rightarrow> nativeTun \<Rightarrow> 'w \<Rightarrow> (goerror + int) \<times> nativeTun \<times> 'w" where
  "tunMTU e S t w =
     (case tunName S t w of
        (Inl err, t, w) \<Rightarrow> (Inl err, t, w)
      | (Inr ifname, t, w) \<Rightarrow> let (r, w) = MTU_named e S ifname w in (r, t, w))"

section \<open>Creating a device\<close>

definition IdealBatchSize :: nat where "IdealBatchSize = 128"
definition IFF_VNET_HDR :: u16 where "IFF_VNET_HDR = 0x4000"
definition IFF_TUN :: u16 where "IFF_TUN = 0x1"
definition IFF_NO_PI :: u16 where "IFF_NO_PI = 0x1000"
definition tunTCPOffloads :: u32 where "tunTCPOffloads = 0x1 OR 0x2 OR 0x4"
definition tunUDPOffloads :: u32 where "tunUDPOffloads = 0x20 OR 0x40"

text \<open>
  The function that \<open>initFromFlags\<close> passes to \<open>Control\<close>. The error it leaves in \<open>err\<close> is what
  \<open>initFromFlags\<close> returns.
\<close>

definition init_control :: "'w sys \<Rightarrow> byte list \<Rightarrow> nativeTun \<Rightarrow> 'w \<Rightarrow> goerror option \<times> nativeTun \<times> 'w" where
  "init_control S ifname t w =
     (case sysNewIfreq S ifname of
        Inl err \<Rightarrow> (Some err, t, w)
      | Inr ifr \<Rightarrow>
          let (err, ifr, w) = sysIoctl S (tunFile t) TUNGETIFF ifr w in
          if err \<noteq> None then (err, t, w)
          else if sysIfreqUint16 S ifr AND IFF_VNET_HDR \<noteq> 0 then
            (case sysSetOffload S (tunFile t) tunTCPOffloads w of
               (Some err, w) \<Rightarrow> (Some err, t, w)
             | (None, w) \<Rightarrow>
                 let (uso, w) = sysSetOffload S (tunFile t) (tunTCPOffloads OR tunUDPOffloads) w in
                 (None, t\<lparr>vnetHdr := True, batchSize := IdealBatchSize, udpGSO := (uso = None)\<rparr>, w))
          else (None, t\<lparr>batchSize := 1\<rparr>, w))"

definition initFromFlags :: "'w sys \<Rightarrow> byte list \<Rightarrow> nativeTun \<Rightarrow> 'w \<Rightarrow> goerror option \<times> nativeTun \<times> 'w" where
  "initFromFlags S ifname t w =
     (case sysConn S (tunFile t) w of
        Some err \<Rightarrow> (Some err, t, w)
      | None \<Rightarrow>
          (case sysControl S (tunFile t) w of
             Some err \<Rightarrow> (Some err, t, w)
           | None \<Rightarrow> init_control S ifname t w))"

definition newNativeTun :: "int \<Rightarrow> chan \<Rightarrow> nativeTun" where
  "newNativeTun file shut = \<lparr>tunFile = file, ifIndex = 0, pendingErrors = [], eventsChan = chanOpen,
     netlinkSock = 0, netlinkCancel = None, statusListenersShutdown = shut, batchSize = 0,
     vnetHdr = False, udpGSO = False, closeDone = False, nameCache = None,
     tcpGROTab = newTCPGROTable IdealBatchSize, udpGROTab = newUDPGROTable IdealBatchSize, writeIdx = []\<rparr>"

text \<open>The two steps both constructors start with.\<close>

definition named_and_flagged :: "'w sys \<Rightarrow> nativeTun \<Rightarrow> 'w \<Rightarrow> (goerror + byte list \<times> nativeTun) \<times> 'w" where
  "named_and_flagged S t w =
     (case tunName S t w of
        (Inl err, t, w) \<Rightarrow> (Inl err, w)
      | (Inr ifname, t, w) \<Rightarrow>
          (case initFromFlags S ifname t w of
             (Some err, t, w) \<Rightarrow> (Inl err, w)
           | (None, t, w) \<Rightarrow> (Inr (ifname, t), w)))"

definition createTUNFromFile :: "endian \<Rightarrow> 'w sys \<Rightarrow> int \<Rightarrow> int \<Rightarrow> 'w \<Rightarrow> (goerror + nativeTun) \<times> 'w" where
  "createTUNFromFile e S file mtu w =
     on_ok (named_and_flagged S (newNativeTun file chanOpen) w) (\<lambda>(ifname, t) w.
     on_ok (getIFIndex e S ifname w) (\<lambda>index w.
     on_ok (createNetlinkSocket S w) (\<lambda>sock w.
     case sysNewCancel S sock w of
       (Inl err, w) \<Rightarrow> (Inl err, snd (sysClose S sock w))
     | (Inr cancel, w) \<Rightarrow>
         (case tunSetMTU e S (t\<lparr>ifIndex := index, netlinkSock := sock, netlinkCancel := Some cancel\<rparr>) mtu w of
            (Inl err, t, w) \<Rightarrow> (Inl err, snd (sysClose S sock w))
          | (Inr _, t, w) \<Rightarrow> (Inr t, w)))))"

definition createUnmonitoredTUNFromFD ::
  "'w sys \<Rightarrow> int \<Rightarrow> 'w \<Rightarrow> (goerror + nativeTun \<times> byte list) \<times> 'w" where
  "createUnmonitoredTUNFromFD S fd w =
     (case sysSetNonblock S fd w of
        (Some err, w) \<Rightarrow> (Inl err, w)
      | (None, w) \<Rightarrow> on_ok (named_and_flagged S (newNativeTun fd chanNil) w)
          (\<lambda>(ifname, t) w. (Inr (t, ifname), w)))"

text \<open>
  The file descriptor is closed only when \<open>SetNonblock\<close> fails. An error of \<open>Open\<close> that says the
  clone device does not exist is wrapped; \<open>ENOENT\<close> stands for \<open>os.IsNotExist\<close>.
\<close>

definition ENOENT :: nat where "ENOENT = 2"
definition cloneDevicePath :: "byte list" where
  "cloneDevicePath = map of_char ''/dev/net/tun''"

definition createTUN :: "endian \<Rightarrow> 'w sys \<Rightarrow> byte list \<Rightarrow> int \<Rightarrow> 'w \<Rightarrow> (goerror + nativeTun) \<times> 'w" where
  "createTUN e S ifname mtu w =
     (case sysOpen S cloneDevicePath w of
        (Inl err, w) \<Rightarrow>
          (Inl (if err = FileError ENOENT then ErrWrapped ''CreateTUN failed; clone device does not exist'' err
                else err), w)
      | (Inr nfd, w) \<Rightarrow>
          (case sysNewIfreq S ifname of
             Inl err \<Rightarrow> (Inl err, w)
           | Inr ifr \<Rightarrow>
               let (err, ifr, w) = sysIoctl S nfd TUNSETIFF
                     (sysIfreqSetUint16 S (IFF_TUN OR IFF_NO_PI OR IFF_VNET_HDR) ifr) w in
               case err of
                 Some err \<Rightarrow> (Inl err, w)
               | None \<Rightarrow>
                   (case sysSetNonblock S nfd w of
                      (Some err, w) \<Rightarrow> (Inl err, snd (sysClose S nfd w))
                    | (None, w) \<Rightarrow> createTUNFromFile e S nfd mtu w)))"

section \<open>Write\<close>

text \<open>\<open>xs[i:]\<close> with an index that may be negative.\<close>

definition slice_from_int :: "'a list \<Rightarrow> int \<Rightarrow> 'a list option" where
  "slice_from_int xs i = (if 0 \<le> i then slice_from xs (nat i) else None)"

fun write_loop ::
  "'w sys \<Rightarrow> int \<Rightarrow> gobuf list \<Rightarrow> int \<Rightarrow> nat list \<Rightarrow> nat \<Rightarrow> goerror list \<Rightarrow> 'w
    \<Rightarrow> ((nat \<times> goerror list) \<times> 'w) option" where
  "write_loop S file bs offset [] tot errs w = Some ((tot, errs), w)"
| "write_loop S file bs offset (i # is) tot errs w = do {
     b \<leftarrow> idx bs i;
     x \<leftarrow> slice_from_int (data b) offset;
     (let ((n, err), w) = sysWrite S file x w in
      case err of
        Some err \<Rightarrow>
          if err = FileError EBADFD then Some ((tot, [ErrClosed]), w)
          else write_loop S file bs offset is tot (errs @ [err]) w
      | None \<Rightarrow> write_loop S file bs offset is (tot + n) errs w)
   }"

text \<open>
  The result: the number returned, the errors joined into the one that is returned (none if the list
  is empty), the buffers, the device and the system. The deferred resets of the tables run on every
  return.
\<close>

definition tunWrite ::
  "endian \<Rightarrow> 'w sys \<Rightarrow> nativeTun \<Rightarrow> gobuf list \<Rightarrow> int \<Rightarrow> 'w
    \<Rightarrow> ((nat \<times> goerror list) \<times> gobuf list \<times> nativeTun \<times> 'w) option" where
  "tunWrite e S t bs offset w = do {
     let done = (\<lambda>r g w. (r, bufs g, t\<lparr>tcpGROTab := reset (tcpTable g), udpGROTab := reset (udpTable g),
                                      writeIdx := toWrite g\<rparr>, w));
     let g = \<lparr>bufs = bs, tcpTable = tcpGROTab t, udpTable = udpGROTab t, toWrite = []\<rparr>;
     if vnetHdr t then do {
       (errs, g) \<leftarrow> handleGRO e offset (udpGSO t) g;
       if errs \<noteq> [] then Some (done (0, errs) g w)
       else do {
         (r, w) \<leftarrow> write_loop S (tunFile t) (bufs g) (offset - int virtioNetHdrLen) (toWrite g) 0 [] w;
         Some (done r g w)
       }
     }
     else do {
       let g = g\<lparr>toWrite := [0..<length bs]\<rparr>;
       (r, w) \<leftarrow> write_loop S (tunFile t) bs offset (toWrite g) 0 [] w;
       Some (done r g w)
     }
   }"

section \<open>Read\<close>

definition readBuffLen :: nat where "readBuffLen = virtioNetHdrLen + 65535"

text \<open>
  \<open>osp\<close> is the memory behind the caller's buffers, \<open>buff\<close> what \<open>readBuff\<close> holds before the call: \<open>readInto[:n]\<close>
  keeps the capacity of \<open>readBuff\<close>, so the bytes of older packets lie behind the packet.
\<close>

definition tunRead ::
  "endian \<Rightarrow> 'w sys \<Rightarrow> nativeTun \<Rightarrow> (nat \<Rightarrow> byte list) \<Rightarrow> byte list \<Rightarrow> byte list list \<Rightarrow> nat list \<Rightarrow> nat \<Rightarrow> 'w
    \<Rightarrow> (splitResult \<times> nativeTun \<times> 'w) option" where
  "tunRead e S t osp buff bs sizes offset w =
     (case pendingErrors t of
        err # errs \<Rightarrow> Some ((0, Some err, bs, sizes), t\<lparr>pendingErrors := errs\<rparr>, w)
      | [] \<Rightarrow> do {
          b \<leftarrow> idx bs 0;
          readInto \<leftarrow> slice_from b offset;
          (case sysRead S (tunFile t) (if vnetHdr t then readBuffLen else length readInto) w of
             (Inl err, w) \<Rightarrow>
               Some ((0, Some (if err = FileError EBADFD then ErrClosed else err), bs, sizes), t, w)
           | (Inr pkt, w) \<Rightarrow>
               if vnetHdr t then do {
                 r \<leftarrow> handleVirtioRead e \<lparr>inSpare = drop (length pkt) buff, outSpare = osp\<rparr> pkt bs sizes offset;
                 Some (r, t, w)
               }
               else do {
                 b \<leftarrow> copy_at b offset pkt;
                 bs \<leftarrow> set_at bs 0 b;
                 sizes \<leftarrow> set_at sizes 0 (length pkt);
                 Some ((1, None, bs, sizes), t, w)
               })
        })"

section \<open>Close\<close>

text \<open>\<open>close(c)\<close> panics on a nil or closed channel.\<close>

definition close_chan :: "chan \<Rightarrow> chan option" where
  "close_chan c = (if c = chanOpen then Some chanClosed else None)"

text \<open>The function that \<open>closeOnce\<close> runs.\<close>

definition close_body :: "'w sys \<Rightarrow> nativeTun \<Rightarrow> 'w \<Rightarrow> (goerror option \<times> nativeTun \<times> 'w) option" where
  "close_body S t w = do {
     (err1, t, w) \<leftarrow>
       (if statusListenersShutdown t \<noteq> chanNil then do {
          c \<leftarrow> close_chan (statusListenersShutdown t);
          let t = t\<lparr>statusListenersShutdown := c\<rparr>;
          (case netlinkCancel t of
             None \<Rightarrow> Some (None, t, w)
           | Some cancel \<Rightarrow> let (err, w) = sysCancel S cancel w in Some (err, t, w))
        }
        else if eventsChan t \<noteq> chanNil then do {
          c \<leftarrow> close_chan (eventsChan t);
          Some (None, t\<lparr>eventsChan := c\<rparr>, w)
        }
        else Some (None, t, w));
     let (err2, w) = sysClose S (tunFile t) w;
     Some (if err1 \<noteq> None then err1 else err2, t, w)
   }"

definition tunClose :: "'w sys \<Rightarrow> nativeTun \<Rightarrow> 'w \<Rightarrow> (goerror option \<times> nativeTun \<times> 'w) option" where
  "tunClose S t w =
     (if closeDone t then Some (None, t, w) else close_body S (t\<lparr>closeDone := True\<rparr>) w)"

end
