(* ===== verification/LinuxTunProps.thy ===== *)
theory LinuxTunProps
  imports LinuxTun RoundTrip
begin

text \<open>
  The properties of the Linux device: what every constructor establishes and every operation keeps,
  what \<open>Write\<close> puts on the device file, the error behaviour of \<open>Write\<close>, \<open>Close\<close> and the
  configuration calls.
\<close>

section \<open>The state between two calls\<close>

definition tun_wf :: "nativeTun \<Rightarrow> bool" where
  "tun_wf t \<longleftrightarrow> fresh_table (tcpGROTab t) \<and> fresh_table (udpGROTab t)
     \<and> length (itemsPool (tcpGROTab t)) = IdealBatchSize \<and> length (itemsPool (udpGROTab t)) = IdealBatchSize
     \<and> batchSize t = (if vnetHdr t then IdealBatchSize else 1) \<and> (udpGSO t \<longrightarrow> vnetHdr t)"

lemma fresh_new_tables: "fresh_table (newTCPGROTable n)" "fresh_table (newUDPGROTable n)"
  by (auto simp: fresh_table_def newTCPGROTable_def newUDPGROTable_def)

lemma init_control_wf:
  assumes "init_control S ifname (newNativeTun fd shut\<lparr>nameCache := c\<rparr>) w = (None, t, w')"
  shows "tun_wf t"
  using assms fresh_new_tables
  by (auto simp: init_control_def newNativeTun_def tun_wf_def newTCPGROTable_def newUDPGROTable_def
      split: sum.splits prod.splits option.splits if_splits)

lemma tunName_new: "tunName S t w = (r, t', w') \<Longrightarrow> \<exists>c. t' = t\<lparr>nameCache := c\<rparr>"
  by (cases "nameCache t") (auto simp: tunName_def split: prod.splits intro: exI [of _ "nameCache t"])

lemma tun_wf_update [simp]:
  "tun_wf (t\<lparr>nameCache := c\<rparr>) = tun_wf t" "tun_wf (t\<lparr>ifIndex := i\<rparr>) = tun_wf t"
  "tun_wf (t\<lparr>netlinkSock := s\<rparr>) = tun_wf t" "tun_wf (t\<lparr>netlinkCancel := n\<rparr>) = tun_wf t"
  "tun_wf (t\<lparr>pendingErrors := es\<rparr>) = tun_wf t" "tun_wf (t\<lparr>closeDone := b\<rparr>) = tun_wf t"
  "tun_wf (t\<lparr>eventsChan := ch\<rparr>) = tun_wf t" "tun_wf (t\<lparr>statusListenersShutdown := ch\<rparr>) = tun_wf t"
  "tun_wf (t\<lparr>writeIdx := is\<rparr>) = tun_wf t"
  by (simp_all add: tun_wf_def)

lemma named_and_flagged_wf:
  assumes "named_and_flagged S (newNativeTun fd shut) w = (Inr (ifname, t), w')"
  shows "tun_wf t"
proof -
  obtain t1 w1 where n: "tunName S (newNativeTun fd shut) w = (Inr ifname, t1, w1)"
    and i: "initFromFlags S ifname t1 w1 = (None, t, w')"
    using assms by (auto simp: named_and_flagged_def split: prod.splits sum.splits option.splits)
  obtain c where t1: "t1 = newNativeTun fd shut\<lparr>nameCache := c\<rparr>" using tunName_new [OF n] by blast
  have "init_control S ifname t1 w1 = (None, t, w')"
    using i by (auto simp: initFromFlags_def split: option.splits)
  then show ?thesis unfolding t1 by (rule init_control_wf)
qed

lemma on_ok_Inr: "on_ok r f = (Inr y, w') \<longleftrightarrow> (\<exists>x w. r = (Inr x, w) \<and> f x w = (Inr y, w'))"
  by (auto simp: on_ok_def split: prod.splits sum.splits)

lemma tunSetMTU_wf: "tunSetMTU e S t n w = (r, t', w') \<Longrightarrow> tun_wf t' = tun_wf t"
  by (auto simp: tunSetMTU_def split: prod.splits sum.splits dest!: tunName_new)

lemma tunMTU_wf: "tunMTU e S t w = (r, t', w') \<Longrightarrow> tun_wf t' = tun_wf t"
  by (auto simp: tunMTU_def split: prod.splits sum.splits dest!: tunName_new)

lemma createTUNFromFile_wf:
  assumes "createTUNFromFile e S fd mtu w = (Inr t, w')"
  shows "tun_wf t"
proof -
  obtain p w1 where f': "named_and_flagged S (newNativeTun fd chanOpen) w = (Inr p, w1)"
    using assms unfolding createTUNFromFile_def on_ok_Inr by blast
  obtain ifname t1 where p: "p = (ifname, t1)" by (cases p)
  note f = f' [unfolded p]
  obtain index w2 where g: "getIFIndex e S ifname w1 = (Inr index, w2)"
    using assms by (simp add: createTUNFromFile_def on_ok_Inr f) blast
  obtain sock w3 where n: "createNetlinkSocket S w2 = (Inr sock, w3)"
    using assms by (simp add: createTUNFromFile_def on_ok_Inr f g) blast
  have r: "(case sysNewCancel S sock w3 of
       (Inl err, w) \<Rightarrow> (Inl err, snd (sysClose S sock w))
     | (Inr cancel, w) \<Rightarrow>
         (case tunSetMTU e S (t1\<lparr>ifIndex := index, netlinkSock := sock, netlinkCancel := Some cancel\<rparr>) mtu w of
            (Inl err, t, w) \<Rightarrow> (Inl err, snd (sysClose S sock w))
          | (Inr _, t, w) \<Rightarrow> (Inr t, w))) = (Inr t, w')"
    using assms by (simp add: createTUNFromFile_def on_ok_def f g n)
  have wf: "tun_wf t1" by (rule named_and_flagged_wf [OF f])
  obtain cancel w4 where c: "sysNewCancel S sock w3 = (Inr cancel, w4)"
    using r by (cases "sysNewCancel S sock w3"; cases "fst (sysNewCancel S sock w3)") auto
  obtain res t2 w5 where m: "tunSetMTU e S (t1\<lparr>ifIndex := index, netlinkSock := sock, netlinkCancel := Some cancel\<rparr>) mtu w4
      = (res, t2, w5)" by (cases "tunSetMTU e S (t1\<lparr>ifIndex := index, netlinkSock := sock, netlinkCancel := Some cancel\<rparr>) mtu w4")
  have "t2 = t" using r by (cases res) (simp_all add: c m)
  then show ?thesis using tunSetMTU_wf [OF m] wf by simp
qed

text \<open>
  C35. Whatever the system answers, a device that a constructor returns is well formed: its
  flow tables are empty with \<open>IdealBatchSize\<close> pooled slices each, its batch size is that number with
  \<open>IFF_VNET_HDR\<close> and 1 without, and UDP segmentation is on only with \<open>IFF_VNET_HDR\<close>.
\<close>

theorem create_wf:
  shows "(\<forall>t w'. createTUN e S ifname mtu w = (Inr t, w') \<longrightarrow> tun_wf t)
    \<and> (\<forall>t w'. createTUNFromFile e S fd mtu w = (Inr t, w') \<longrightarrow> tun_wf t)
    \<and> (\<forall>t n w'. createUnmonitoredTUNFromFD S fd w = (Inr (t, n), w') \<longrightarrow> tun_wf t)"
proof (intro conjI allI impI)
  show "tun_wf t" if "createTUN e S ifname mtu w = (Inr t, w')" for t w'
    using that unfolding createTUN_def
    by (auto split: prod.splits sum.splits option.splits dest: createTUNFromFile_wf)
  show "tun_wf t" if "createTUNFromFile e S fd mtu w = (Inr t, w')" for t w'
    using that by (rule createTUNFromFile_wf)
  show "tun_wf t" if "createUnmonitoredTUNFromFD S fd w = (Inr (t, n), w')" for t n w'
    using that unfolding createUnmonitoredTUNFromFD_def
    by (auto simp: on_ok_Inr split: prod.splits option.splits dest: named_and_flagged_wf)
qed

text \<open>A system that grants everything and logs what is written to the device.\<close>

definition demo_sys :: "byte list list sys" where
  "demo_sys = \<lparr>sysOpen = \<lambda>_ w. (Inr 3, w), sysSocket = \<lambda>_ w. (Inr 4, w), sysBind = \<lambda>_ _ w. (None, w),
     sysClose = \<lambda>_ w. (None, w), sysIoctl = \<lambda>_ _ b w. (None, b, w), sysSetOffload = \<lambda>_ _ w. (None, w),
     sysSetNonblock = \<lambda>_ w. (None, w), sysConn = \<lambda>_ _. None, sysControl = \<lambda>_ _. None,
     sysNewIfreq = \<lambda>_. Inr (replicate 40 0), sysIfreqUint16 = \<lambda>_. IFF_VNET_HDR,
     sysIfreqSetUint16 = \<lambda>_ b. b, sysByteString = takeWhile (\<lambda>b. b \<noteq> 0), sysNewCancel = \<lambda>_ w. (Inr 5, w),
     sysCancel = \<lambda>_ w. (None, w), sysRead = \<lambda>_ _ w. (Inr [], w),
     sysWrite = \<lambda>_ x w. ((length x, None), w @ [x])\<rparr>"

lemma demo_sys_sel:
  "sysConn demo_sys = (\<lambda>_ _. None)" "sysControl demo_sys = (\<lambda>_ _. None)"
  "sysSetNonblock demo_sys = (\<lambda>_ w. (None, w))" "sysIoctl demo_sys = (\<lambda>_ _ b w. (None, b, w))"
  "sysNewIfreq demo_sys = (\<lambda>_. Inr (replicate 40 0))" "sysIfreqUint16 demo_sys = (\<lambda>_. IFF_VNET_HDR)"
  "sysSetOffload demo_sys = (\<lambda>_ _ w. (None, w))"
  "sysWrite demo_sys = (\<lambda>_ x w. ((length x, None), w @ [x]))"
  by (simp_all add: demo_sys_def)

definition demo_tun :: nativeTun where
  "demo_tun = newNativeTun 7 chanNil\<lparr>nameCache := Some (Inr (sysByteString demo_sys (replicate ifReqSize 0))),
     vnetHdr := True, batchSize := IdealBatchSize, udpGSO := True\<rparr>"

lemma demo_create: "\<exists>n. createUnmonitoredTUNFromFD demo_sys 7 w = (Inr (demo_tun, n), w)"
  by (simp add: createUnmonitoredTUNFromFD_def on_ok_def named_and_flagged_def tunName_def nameSlow_def
      newNativeTun_def demo_sys_sel initFromFlags_def init_control_def IFF_VNET_HDR_def demo_tun_def)

theorem create_wf_witness: "tun_wf demo_tun"
  using create_wf [where S = demo_sys and fd = 7 and w = "[]"] demo_create [of "[]"] by blast

section \<open>Write\<close>

lemma write_loop_total:
  assumes "\<forall>i \<in> set is. i < length bs \<and> 0 \<le> offset \<and> nat offset \<le> length (data (bs ! i))"
  shows "\<exists>r w'. write_loop S fd bs offset is n errs w = Some (r, w')"
  using assms
proof (induction "is" arbitrary: n errs w)
  case (Cons i "is")
  have pre: "idx bs i = Some (bs ! i)" "slice_from_int (data (bs ! i)) offset = Some (drop (nat offset) (data (bs ! i)))"
    using Cons.prems by (simp_all add: go_simps slice_from_int_def)
  obtain m err w1 where w: "sysWrite S fd (drop (nat offset) (data (bs ! i))) w = ((m, err), w1)"
    by (metis surj_pair)
  have "\<forall>i \<in> set is. i < length bs \<and> 0 \<le> offset \<and> nat offset \<le> length (data (bs ! i))"
    using Cons.prems by simp
  note ih = Cons.IH [OF this]
  show ?case using ih by (cases err) (simp_all add: pre w)
qed simp

text \<open>The arguments \<open>Write\<close> is specified for: a batch of packets, in buffers of the expected size.\<close>

definition write_args :: "gobuf list \<Rightarrow> int \<Rightarrow> bool" where
  "write_args bs offset \<longleftrightarrow> length bs \<le> IdealBatchSize \<and> (\<forall>b \<in> set bs. int (capacity b) \<le> 2 * offset + 65535)"

definition gro_of :: "nativeTun \<Rightarrow> gobuf list \<Rightarrow> groState" where
  "gro_of t bs = \<lparr>bufs = bs, tcpTable = tcpGROTab t, udpTable = udpGROTab t, toWrite = []\<rparr>"

lemma gro_of_ready: "tun_wf t \<Longrightarrow> write_args bs offset \<Longrightarrow> gro_ready offset (gro_of t bs)"
  by (simp add: tun_wf_def write_args_def gro_of_def gro_ready_def IdealBatchSize_def)

lemma reset_fresh_tcp:
  fixes t :: tcpGROTable
  assumes "tcp.good t"
  shows "fresh_table (reset t)" and "length (itemsPool (reset t)) = tcp.capacity t"
proof -
  note c = tcp.clear_total [OF assms]
  then show "fresh_table (reset t)"
    by (auto simp: fresh_table_def tcp.good_def table_inv_def reset_def)
  show "length (itemsPool (reset t)) = tcp.capacity t" using c by (simp add: pool_free_def)
qed

lemma reset_fresh_udp:
  fixes t :: udpGROTable
  assumes "udp.good t"
  shows "fresh_table (reset t)" and "length (itemsPool (reset t)) = udp.capacity t"
proof -
  note c = udp.clear_total [OF assms]
  then show "fresh_table (reset t)"
    by (auto simp: fresh_table_def udp.good_def table_inv_def reset_def)
  show "length (itemsPool (reset t)) = udp.capacity t" using c by (simp add: pool_free_def)
qed

definition after_write :: "nativeTun \<Rightarrow> groState \<Rightarrow> nativeTun" where
  "after_write t g = t\<lparr>tcpGROTab := reset (tcpTable g), udpGROTab := reset (udpTable g), writeIdx := toWrite g\<rparr>"

lemma tun_wf_reset:
  assumes wf: "tun_wf t" and kept: "tables_kept (gro_of t bs) g"
  shows "tun_wf (after_write t g)"
  using wf kept reset_fresh_tcp [of "tcpTable g"] reset_fresh_udp [of "udpTable g"]
  by (simp add: tun_wf_def tables_kept_def gro_of_def after_write_def)

lemma written_length:
  assumes "written e off orig ps k b'" and "10 \<le> off" and "off \<le> length (data (orig ! k))"
  shows "off \<le> length (data b')"
  using assms(1)
proof (cases rule: written_cases)
  case single
  then show ?thesis using assms(2,3) by simp
next
  case (tcp item b)
  then show ?thesis using tcp_merged_length(1) [OF tcp(2,3)] by simp
next
  case (udp item b)
  then show ?thesis using udp_merged_length(1) [OF udp(2,3)] by simp
qed

text \<open>\<open>Write\<close>, path by path.\<close>

lemma tunWrite_gro:
  fixes S :: "'w sys"
  assumes v: "vnetHdr t" and wf: "tun_wf t" and args: "write_args bs offset" and ok: "offsets_ok offset (gro_of t bs)"
  obtains g parts where "handleGRO e offset (udpGSO t) (gro_of t bs) = Some ([], g)"
    "gro_outcome e (nat offset) (gro_of t bs) g parts" "tun_wf (after_write t g)"
    "\<And>k. k \<in> set (toWrite g) \<Longrightarrow> k < length (bufs g) \<and> 0 \<le> offset - 10 \<and> nat (offset - 10) \<le> length (data (bufs g ! k))"
    "tunWrite e S t bs offset w = map_option (\<lambda>(r, w). (r, bufs g, after_write t g, w))
        (write_loop S (tunFile t) (bufs g) (offset - 10) (toWrite g) 0 [] w)"
proof -
  obtain g parts where g: "handleGRO e offset (udpGSO t) (gro_of t bs) = Some ([], g)"
    and o: "gro_outcome e (nat offset) (gro_of t bs) g parts"
    by (rule handleGRO_outcome [OF gro_of_ready [OF wf args] ok])
  have w: "tun_wf (after_write t g)" using tun_wf_reset [OF wf, of bs g] o by (simp add: gro_outcome_def)
  have k: "k < length (bufs g) \<and> 0 \<le> offset - 10 \<and> nat (offset - 10) \<le> length (data (bufs g ! k))"
    if "k \<in> set (toWrite g)" for k
  proof -
    have kl: "k < length bs" "length (bufs g) = length bs" using o that by (auto simp: gro_outcome_def gro_of_def)
    then have "bs ! k \<in> set bs" by simp
    then have off: "10 \<le> offset" "nat offset \<le> length (data (bs ! k))"
      using ok by (auto simp: offsets_ok_def gro_of_def)
    have "written e (nat offset) bs (parts k) k (bufs g ! k)"
      using o that by (simp add: gro_outcome_def gro_of_def)
    then have "nat offset \<le> length (data (bufs g ! k))" by (rule written_length) (use off in simp_all)
    then show ?thesis using off kl by (simp add: nat_diff_distrib)
  qed
  have run: "tunWrite e S t bs offset w = map_option (\<lambda>(r, w). (r, bufs g, after_write t g, w))
        (write_loop S (tunFile t) (bufs g) (offset - 10) (toWrite g) 0 [] w)"
    using v g
    by (cases "write_loop S (tunFile t) (bufs g) (offset - 10) (toWrite g) 0 [] w")
      (auto simp: tunWrite_def Let_def gro_of_def after_write_def virtioNetHdrLen_def)
  show thesis by (rule that [OF g o w k run])
qed

lemma tunWrite_gro_fails:
  assumes v: "vnetHdr t" and wf: "tun_wf t" and args: "write_args bs offset" and bad: "\<not> offsets_ok offset (gro_of t bs)"
  obtains g where "tun_wf (after_write t g)"
    "tunWrite e S t bs offset w = Some ((0, [ErrInvalidOffset]), bufs g, after_write t g, w)"
proof -
  obtain g where g: "handleGRO e offset (udpGSO t) (gro_of t bs) = Some ([ErrInvalidOffset], g)"
    "tables_kept (gro_of t bs) g"
    by (rule handleGRO_bad_offset [OF gro_of_ready [OF wf args] bad])
  show thesis
  proof (rule that)
    show "tun_wf (after_write t g)" by (rule tun_wf_reset [OF wf g(2)])
    show "tunWrite e S t bs offset w = Some ((0, [ErrInvalidOffset]), bufs g, after_write t g, w)"
      using v g(1) by (simp add: tunWrite_def Let_def gro_of_def after_write_def)
  qed
qed

lemma tunWrite_plain:
  assumes v: "\<not> vnetHdr t" and wf: "tun_wf t"
  shows "tun_wf (after_write t ((gro_of t bs)\<lparr>toWrite := [0..<length bs]\<rparr>))"
    and "tunWrite e S t bs offset w = map_option
      (\<lambda>(r, w). (r, bs, after_write t ((gro_of t bs)\<lparr>toWrite := [0..<length bs]\<rparr>), w))
      (write_loop S (tunFile t) bs offset [0..<length bs] 0 [] w)"
proof -
  have t: "fresh_table (tcpGROTab t)" "fresh_table (udpGROTab t)" using wf by (simp_all add: tun_wf_def)
  have "tables_kept (gro_of t bs) ((gro_of t bs)\<lparr>toWrite := [0..<length bs]\<rparr>)"
    using fresh_good_tcp [OF t(1)] fresh_good_udp [OF t(2)] by (simp add: tables_kept_def gro_of_def)
  then show "tun_wf (after_write t ((gro_of t bs)\<lparr>toWrite := [0..<length bs]\<rparr>))" by (rule tun_wf_reset [OF wf])
  show "tunWrite e S t bs offset w = map_option
      (\<lambda>(r, w). (r, bs, after_write t ((gro_of t bs)\<lparr>toWrite := [0..<length bs]\<rparr>), w))
      (write_loop S (tunFile t) bs offset [0..<length bs] 0 [] w)"
    using v by (cases "write_loop S (tunFile t) bs offset [0..<length bs] 0 [] w")
      (auto simp: tunWrite_def Let_def gro_of_def after_write_def)
qed

lemma tunWrite_total:
  assumes wf: "tun_wf t" and args: "write_args bs offset"
    and plain: "\<not> vnetHdr t \<Longrightarrow> \<forall>b \<in> set bs. 0 \<le> offset \<and> nat offset \<le> length (data b)"
  shows "\<exists>r bs' t' w'. tunWrite e S t bs offset w = Some (r, bs', t', w') \<and> tun_wf t'"
proof (cases "vnetHdr t")
  case v: True
  show ?thesis
  proof (cases "offsets_ok offset (gro_of t bs)")
    case True
    obtain g parts where g: "tun_wf (after_write t g)"
      "\<And>k. k \<in> set (toWrite g) \<Longrightarrow> k < length (bufs g) \<and> 0 \<le> offset - 10 \<and> nat (offset - 10) \<le> length (data (bufs g ! k))"
      "tunWrite e S t bs offset w = map_option (\<lambda>(r, w). (r, bufs g, after_write t g, w))
        (write_loop S (tunFile t) (bufs g) (offset - 10) (toWrite g) 0 [] w)"
      by (rule tunWrite_gro [OF v wf args True, of e S w]) blast
    obtain r w' where "write_loop S (tunFile t) (bufs g) (offset - 10) (toWrite g) 0 [] w = Some (r, w')"
      using write_loop_total [of "toWrite g" "bufs g" "offset - 10" S "tunFile t" 0 "[]" w] g(2) by blast
    then show ?thesis using g(1,3) by simp
  next
    case False
    show ?thesis by (rule tunWrite_gro_fails [OF v wf args False, of e S w]) simp
  qed
next
  case False
  have "\<forall>i \<in> set [0..<length bs]. i < length bs \<and> 0 \<le> offset \<and> nat offset \<le> length (data (bs ! i))"
    using plain [OF False] by (auto dest: nth_mem)
  then obtain r w' where "write_loop S (tunFile t) bs offset [0..<length bs] 0 [] w = Some (r, w')"
    using write_loop_total [of "[0..<length bs]" bs offset S "tunFile t" 0 "[]" w] by blast
  with tunWrite_plain(2) [OF False wf, of e S bs offset w] tunWrite_plain(1) [OF False wf, of bs]
  show ?thesis by simp
qed

text \<open>
  What a program may do with a device: the operations in any order, with any answers of the system.
\<close>

inductive tun_step :: "endian \<Rightarrow> 'w sys \<Rightarrow> nativeTun \<times> 'w \<Rightarrow> nativeTun \<times> 'w \<Rightarrow> bool" for e S where
  step_write: "write_args bs offset \<Longrightarrow> tunWrite e S t bs offset w = Some (r, bs', t', w') \<Longrightarrow>
    tun_step e S (t, w) (t', w')"
| step_read: "tunRead e S t osp buff rbs sizes off w = Some (sr, t', w') \<Longrightarrow> tun_step e S (t, w) (t', w')"
| step_name: "tunName S t w = (nr, t', w') \<Longrightarrow> tun_step e S (t, w) (t', w')"
| step_mtu: "tunMTU e S t w = (mr, t', w') \<Longrightarrow> tun_step e S (t, w) (t', w')"
| step_close: "tunClose S t w = Some (cr, t', w') \<Longrightarrow> tun_step e S (t, w) (t', w')"
| step_listener: "tun_step e S (t, w) (t\<lparr>pendingErrors := pendingErrors t @ [err]\<rparr>, w)"

inductive_cases tun_stepE: "tun_step e S (t, w) (t', w')"

lemma tunRead_wf: "tunRead e S t osp buff rbs sizes off w = Some (sr, t', w') \<Longrightarrow> tun_wf t' = tun_wf t"
proof (cases "pendingErrors t")
  case Nil
  assume r: "tunRead e S t osp buff rbs sizes off w = Some (sr, t', w')"
  obtain b ri where b: "idx rbs 0 = Some b" "slice_from b off = Some ri"
    using r Nil by (auto simp: tunRead_def bind_Some_iff)
  obtain res w1 where s: "sysRead S (tunFile t) (if vnetHdr t then readBuffLen else length ri) w = (res, w1)"
    by (cases "sysRead S (tunFile t) (if vnetHdr t then readBuffLen else length ri) w")
  show ?thesis
    using r unfolding tunRead_def Nil list.case b bind.bind_lunit s
    by (cases res) (auto simp: bind_Some_iff split: if_splits)
qed (auto simp: tunRead_def)

lemma tunClose_wf: "tunClose S t w = Some (cr, t', w') \<Longrightarrow> tun_wf t' = tun_wf t"
  by (auto simp: tunClose_def close_body_def close_chan_def bind_Some_iff Let_def
      split: if_splits option.splits prod.splits)

lemma tunWrite_keeps_wf:
  assumes wf: "tun_wf t" and args: "write_args bs offset"
    and r: "tunWrite e S t bs offset w = Some (r, bs', t', w')"
  shows "tun_wf t'"
proof (cases "vnetHdr t")
  case v: True
  show ?thesis
  proof (cases "offsets_ok offset (gro_of t bs)")
    case True
    obtain g parts where g: "tun_wf (after_write t g)"
      "tunWrite e S t bs offset w = map_option (\<lambda>(r, w). (r, bufs g, after_write t g, w))
        (write_loop S (tunFile t) (bufs g) (offset - 10) (toWrite g) 0 [] w)"
      by (rule tunWrite_gro [OF v wf args True, of e S w]) blast
    from g(2) r have "map_option (\<lambda>(r, w). (r, bufs g, after_write t g, w))
        (write_loop S (tunFile t) (bufs g) (offset - 10) (toWrite g) 0 [] w) = Some (r, bs', t', w')" by (simp only:)
    then show ?thesis using g(1) by auto
  next
    case False
    show ?thesis by (rule tunWrite_gro_fails [OF v wf args False, of e S w]) (use r in simp)
  qed
next
  case False
  note p = tunWrite_plain [OF False wf, where bs = bs]
  have "map_option (\<lambda>(r, w). (r, bs, after_write t ((gro_of t bs)\<lparr>toWrite := [0..<length bs]\<rparr>), w))
      (write_loop S (tunFile t) bs offset [0..<length bs] 0 [] w) = Some (r, bs', t', w')"
    using p(2) [of e S offset w] r by (simp only:)
  then show ?thesis using p(1) by auto
qed

lemma tun_step_wf: "tun_step e S (t, w) (t', w') \<Longrightarrow> tun_wf t \<Longrightarrow> tun_wf t'"
  by (elim tun_stepE) (auto dest: tunWrite_keeps_wf tunRead_wf tunMTU_wf tunClose_wf tunName_new)

text \<open>
  C7. However a device is used, it stays well formed: after any sequence of calls of
  \<open>Write\<close>, \<open>Read\<close>, \<open>Name\<close>, \<open>MTU\<close> and \<open>Close\<close>, on every answer of the system and on every error path,
  its flow tables are empty again and have all their pooled slices back, and the next \<open>Write\<close> of a
  batch returns without a panic.
\<close>

theorem tun_invariant:
  assumes "createUnmonitoredTUNFromFD S fd w0 = (Inr (t0, ifname), w1) \<or> createTUNFromFile e S fd mtu w0 = (Inr t0, w1)"
    and "(tun_step e S)\<^sup>*\<^sup>* (t0, w1) (t, w)" and "write_args bs offset"
    and "\<forall>b \<in> set bs. 0 \<le> offset \<and> nat offset \<le> length (data b)"
  shows "tun_wf t \<and> (\<exists>r bs' t' w'. tunWrite e S t bs offset w = Some (r, bs', t', w') \<and> tun_wf t')"
proof -
  have "tun_wf t0"
    using assms(1) createTUNFromFile_wf
    by (auto simp: createUnmonitoredTUNFromFD_def on_ok_Inr split: prod.splits option.splits
        dest: named_and_flagged_wf)
  with assms(2) have "tun_wf t"
    by (induction "(t, w)" arbitrary: t w rule: rtranclp_induct) (auto dest: tun_step_wf)
  then show ?thesis using tunWrite_total [of t bs offset e S w] assms(3,4) by blast
qed

theorem tun_invariant_witness:
  "tun_wf demo_tun \<and> (\<exists>r bs' t' w'. tunWrite LittleE demo_sys demo_tun (bufs demo_state) 10 [] = Some (r, bs', t', w')
     \<and> tun_wf t')"
proof -
  obtain n where "createUnmonitoredTUNFromFD demo_sys 7 [] = (Inr (demo_tun, n), [])" using demo_create by blast
  moreover have "write_args (bufs demo_state) 10"
    "\<forall>b \<in> set (bufs demo_state). 0 \<le> (10 :: int) \<and> nat 10 \<le> length (data b)"
    by (simp_all add: write_args_def demo_state_def IdealBatchSize_def)
  ultimately show ?thesis
    using tun_invariant [where S = demo_sys and t = demo_tun and w = "[]" and t0 = demo_tun] by blast
qed

section \<open>What reaches the device file\<close>

text \<open>A system whose \<open>write\<close> calls answer as a script says, and that logs what they were given.\<close>

definition scripted :: "((nat \<times> goerror option) list \<times> byte list list) sys \<Rightarrow> bool" where
  "scripted S \<longleftrightarrow> (\<forall>f x a as log. sysWrite S f x (a # as, log) = (a, as, log @ [x]))"

definition bad_fd :: "nat \<times> goerror option \<Rightarrow> bool" where
  "bad_fd a \<longleftrightarrow> snd a = Some (FileError EBADFD)"

lemma write_loop_scripted:
  assumes "scripted S" and "length as = length is" and "0 \<le> offset"
    and "\<forall>i \<in> set is. i < length bs \<and> nat offset \<le> length (data (bs ! i))"
  shows "write_loop S fd bs offset is n errs (as, log)
    = (let ok = takeWhile (\<lambda>a. \<not> bad_fd a) as; frames = map (\<lambda>i. drop (nat offset) (data (bs ! i))) is in
       Some ((n + sum_list (map fst (filter (\<lambda>a. snd a = None) ok)),
              if length ok = length as then errs @ List.map_filter snd ok else [ErrClosed]),
             drop (Suc (length ok)) as, log @ take (Suc (length ok)) frames))"
  using assms(2,4)
proof (induction "is" arbitrary: as n errs log)
  case (Cons i "is")
  obtain m err as' where as: "as = (m, err) # as'" using Cons.prems(1) by (cases as) auto
  have pre: "idx bs i = Some (bs ! i)" "slice_from_int (data (bs ! i)) offset = Some (drop (nat offset) (data (bs ! i)))"
    using Cons.prems(2) assms(3) by (simp_all add: go_simps slice_from_int_def)
  have w: "sysWrite S fd x (a # as', log) = (a, as', log @ [x])" for x a
    using assms(1) by (cases a) (simp add: scripted_def)
  have "length as' = length is" "\<forall>i \<in> set is. i < length bs \<and> nat offset \<le> length (data (bs ! i))"
    using Cons.prems as by simp_all
  note ih = Cons.IH [OF this]
  show ?case
    by (cases err) (auto simp: as pre w ih bad_fd_def Let_def List.map_filter_simps)
qed (simp add: List.map_filter_simps)

text \<open>
  The loop of \<open>Write\<close> over any answers of the device. An error of one packet
  does not keep the others from being written; the errors are reported in order, and the number
  returned is the sum of the bytes of the packets that were accepted. At the first \<open>EBADFD\<close> the loop
  stops: no further packet is written, the errors so far are dropped and \<open>os.ErrClosed\<close> is returned.
\<close>

theorem write_loop_errors:
  assumes "scripted S" and "length as = length is" and "0 \<le> offset"
    and "\<forall>i \<in> set is. i < length bs \<and> nat offset \<le> length (data (bs ! i))"
  shows "\<exists>ok rest. as = ok @ rest \<and> (\<forall>a \<in> set ok. \<not> bad_fd a) \<and> (rest = [] \<or> bad_fd (hd rest))
    \<and> write_loop S fd bs offset is 0 [] (as, log)
      = Some ((sum_list (map fst (filter (\<lambda>a. snd a = None) ok)),
               if rest = [] then List.map_filter snd ok else [ErrClosed]),
              tl rest, log @ map (\<lambda>i. drop (nat offset) (data (bs ! i))) (take (Suc (length ok)) is))"
proof (intro exI conjI)
  let ?ok = "takeWhile (\<lambda>a. \<not> bad_fd a) as" and ?rest = "dropWhile (\<lambda>a. \<not> bad_fd a) as"
  show split: "as = ?ok @ ?rest" by simp
  show "\<forall>a \<in> set ?ok. \<not> bad_fd a" by (blast dest: set_takeWhileD)
  show "?rest = [] \<or> bad_fd (hd ?rest)" using hd_dropWhile [of "\<lambda>a. \<not> bad_fd a" as] by blast
  have "length as = length ?ok + length ?rest" using arg_cong [OF split, of length] by (simp only: length_append)
  then have "(length ?ok = length as) = (length ?rest = 0)" by linarith
  then have "(length ?ok = length as) = (?rest = [])" by (simp only: length_0_conv)
  moreover have "drop (Suc (length ?ok)) as = tl ?rest"
    by (simp only: dropWhile_eq_drop drop_Suc tl_drop)
  ultimately show "write_loop S fd bs offset is 0 [] (as, log)
      = Some ((sum_list (map fst (filter (\<lambda>a. snd a = None) ?ok)),
               if ?rest = [] then List.map_filter snd ?ok else [ErrClosed]),
              tl ?rest, log @ map (\<lambda>i. drop (nat offset) (data (bs ! i))) (take (Suc (length ?ok)) is))"
    using write_loop_scripted [OF assms, of fd 0 "[]" log] by (simp add: Let_def take_map)
qed

text \<open>A system that accepts every packet.\<close>

definition accepting :: "byte list list sys \<Rightarrow> bool" where
  "accepting S \<longleftrightarrow> (\<forall>f x w. sysWrite S f x w = ((length x, None), w @ [x]))"

lemma write_loop_accepting:
  assumes "accepting S" and "\<forall>i \<in> set is. i < length bs \<and> 0 \<le> offset \<and> nat offset \<le> length (data (bs ! i))"
  shows "write_loop S fd bs offset is n errs w
    = (let frames = map (\<lambda>i. drop (nat offset) (data (bs ! i))) is in
       Some ((n + sum_list (map length frames), errs), w @ frames))"
  using assms(2)
proof (induction "is" arbitrary: n w)
  case (Cons i "is")
  have pre: "idx bs i = Some (bs ! i)" "slice_from_int (data (bs ! i)) offset = Some (drop (nat offset) (data (bs ! i)))"
    using Cons.prems by (simp_all add: go_simps slice_from_int_def)
  have "\<forall>i \<in> set is. i < length bs \<and> 0 \<le> offset \<and> nat offset \<le> length (data (bs ! i))" using Cons.prems by simp
  note ih = Cons.IH [OF this]
  show ?case using assms(1) by (simp add: pre ih accepting_def Let_def)
qed simp

text \<open>
  C6. The two directions of the device end to end. A batch is written to a device
  with \<open>IFF_VNET_HDR\<close> that accepts every packet; \<open>Write\<close> returns the number of bytes it has put on the
  file and no error. Each frame on the file, read back by \<open>handleVirtioRead\<close>, yields the original
  packets that \<open>parts\<close> lists for it, in order, and the lists hold every packet of the batch once.
\<close>

theorem write_read_loopback:
  assumes "tun_wf t" and "vnetHdr t" and "write_args bs offset" and "accepting S"
    and "\<forall>b \<in> set bs. 10 \<le> offset \<and> offset < int (length (data b)) \<and> length (data b) \<le> nat offset + 65535"
    and "\<forall>b \<in> set rbs. roff + 65535 \<le> length b" and "length bs \<le> length rbs" and "length rbs \<le> length sizes"
  shows "\<exists>bs' t' frames parts. tunWrite e S t bs offset w
      = Some ((sum_list (map length frames), []), bs', t', w @ frames)
    \<and> mset (concat parts) = mset [0..<length bs]
    \<and> list_all2 (\<lambda>ps frame. \<exists>rbs' sizes'.
          handleVirtioRead e sp frame rbs sizes roff = Some (int (length ps), None, rbs', sizes')
        \<and> (\<forall>j < length ps. restored e (drop (nat offset) (data (bs ! (ps ! j)))) (read_pkt roff (rbs' ! j) (sizes' ! j))))
        parts frames"
proof -
  have ok: "offsets_ok offset (gro_of t bs)" using assms(5) by (simp add: offsets_ok_def gro_of_def)
  obtain g parts where o: "gro_outcome e (nat offset) (gro_of t bs) g parts"
    and k: "\<And>k. k \<in> set (toWrite g) \<Longrightarrow> k < length (bufs g) \<and> 0 \<le> offset - 10 \<and> nat (offset - 10) \<le> length (data (bufs g ! k))"
    and run: "tunWrite e S t bs offset w = map_option (\<lambda>(r, w). (r, bufs g, after_write t g, w))
        (write_loop S (tunFile t) (bufs g) (offset - 10) (toWrite g) 0 [] w)"
    by (rule tunWrite_gro [OF assms(2,1,3) ok, of e S w]) blast
  define frames where "frames = map (\<lambda>i. drop (nat (offset - 10)) (data (bufs g ! i))) (toWrite g)"
  have "write_loop S (tunFile t) (bufs g) (offset - 10) (toWrite g) 0 [] w
      = Some ((sum_list (map length frames), []), w @ frames)"
  proof -
    have "\<forall>i \<in> set (toWrite g). i < length (bufs g) \<and> 0 \<le> offset - 10
        \<and> nat (offset - 10) \<le> length (data (bufs g ! i))" using k by blast
    from write_loop_accepting [OF assms(4) this, of "tunFile t" 0 "[]" w] show ?thesis
      by (simp only: frames_def Let_def add_0)
  qed
  then have r: "tunWrite e S t bs offset w
      = Some ((sum_list (map length frames), []), bufs g, after_write t g, w @ frames)" using run by simp
  have len: "\<forall>b \<in> set (bufs (gro_of t bs)). length (data b) \<le> nat offset + 65535" "bufs (gro_of t bs) = bs"
    "nat (offset - 10) = nat offset - 10"
    using assms(5) by (simp_all add: gro_of_def nat_diff_distrib')
  have "list_all2 (\<lambda>ps frame. \<exists>rbs' sizes'.
          handleVirtioRead e sp frame rbs sizes roff = Some (int (length ps), None, rbs', sizes')
        \<and> (\<forall>j < length ps. restored e (drop (nat offset) (data (bs ! (ps ! j)))) (read_pkt roff (rbs' ! j) (sizes' ! j))))
        (map parts (toWrite g)) frames"
    using outcome_read_back [OF ok o _ assms(6) _ assms(8) len(1)] assms(7)
    by (simp add: frames_def list_all2_map1 list_all2_map2 list_all2_same len(2,3) opkt_def)
  moreover have "mset (concat (map parts (toWrite g))) = mset [0..<length bs]"
    using o by (simp add: gro_outcome_def len(2))
  ultimately show ?thesis using r by blast
qed

lemma demo_accepting: "accepting demo_sys"
  by (simp add: accepting_def demo_sys_sel)

lemma demo_tun_wf: "tun_wf demo_tun"
  by (rule init_control_wf [where S = demo_sys and ifname = "[]" and fd = 7 and shut = chanNil and w = "[]"
        and c = "Some (Inr (sysByteString demo_sys (replicate ifReqSize 0)))" and w' = "[]"])
    (simp add: init_control_def demo_sys_sel IFF_VNET_HDR_def demo_tun_def newNativeTun_def)

theorem write_read_loopback_witness:
  "\<exists>bs' t' frames parts. tunWrite LittleE demo_sys demo_tun (bufs demo_state) 10 []
      = Some ((sum_list (map length frames), []), bs', t', frames)
    \<and> mset (concat parts) = mset [0, 1, 2 :: nat]"
proof -
  have v: "vnetHdr demo_tun" "write_args (bufs demo_state) 10"
    by (simp_all add: demo_tun_def write_args_def demo_state_def IdealBatchSize_def)
  have b: "\<forall>b \<in> set (bufs demo_state). (10 :: int) \<le> 10 \<and> 10 < int (length (data b)) \<and> length (data b) \<le> nat 10 + 65535"
    by (simp add: demo_state_def demo_segment_def)
  have l: "length (bufs demo_state) \<le> length (replicate 3 (replicate 65535 (0 :: byte)))"
    by (simp add: demo_state_def)
  from write_read_loopback [OF demo_tun_wf v demo_accepting b _ l, of 0 "[0, 0, 0]" LittleE "[]" no_spare]
  show ?thesis unfolding demo_vector by auto
qed

definition demo_script :: "((nat \<times> goerror option) list \<times> byte list list) sys" where
  "demo_script = \<lparr>sysOpen = \<lambda>_ w. (Inr 3, w), sysSocket = \<lambda>_ w. (Inr 4, w), sysBind = \<lambda>_ _ w. (None, w),
     sysClose = \<lambda>_ w. (None, w), sysIoctl = \<lambda>_ _ b w. (None, b, w), sysSetOffload = \<lambda>_ _ w. (None, w),
     sysSetNonblock = \<lambda>_ w. (None, w), sysConn = \<lambda>_ _. None, sysControl = \<lambda>_ _. None,
     sysNewIfreq = \<lambda>_. Inr [], sysIfreqUint16 = \<lambda>_. 0,
     sysIfreqSetUint16 = \<lambda>_ b. b, sysByteString = \<lambda>b. b, sysNewCancel = \<lambda>_ w. (Inr 5, w),
     sysCancel = \<lambda>_ w. (None, w), sysRead = \<lambda>_ _ w. (Inr [], w),
     sysWrite = \<lambda>_ x (as, log). (case as of [] \<Rightarrow> ((0, None), as, log @ [x]) | a # as \<Rightarrow> (a, as, log @ [x]))\<rparr>"

theorem write_loop_errors_witness:
  "write_loop demo_script 7 [\<lparr>data = [1], capacity = 1\<rparr>, \<lparr>data = [2], capacity = 1\<rparr>, \<lparr>data = [3], capacity = 1\<rparr>] 0
      [0, 1, 2] 0 [] ([(1, None), (0, Some (FileError EBADFD)), (1, None)], [])
    = Some ((1, [ErrClosed]), [(1, None)], [[1], [2]])"
proof -
  have "scripted demo_script" by (simp add: scripted_def demo_script_def)
  from write_loop_errors [OF this, of "[(1, None), (0, Some (FileError EBADFD)), (1, None)]" "[0, 1, 2]" 0
      "[\<lparr>data = [1], capacity = 1\<rparr>, \<lparr>data = [2], capacity = 1\<rparr>, \<lparr>data = [3], capacity = 1\<rparr>]" 7 "[]"]
  show ?thesis by (simp add: demo_script_def slice_from_int_def go_simps EBADFD_def)
qed

end
