(* ===== verification/Mutex.thy ===== *)
theory Mutex
  imports Prelude
begin

text \<open>
  Goroutines that call the operations of one object under a mutex, and why this is as if every call were made
  alone. An operation is given by the steps it makes while it holds the lock (\<open>work\<close>); between any two of them
  the other goroutines may move. The locale \<open>critical_section\<close> says what such an operation owes: the steps are
  those of a function that makes the whole call at once (\<open>atomic\<close>); \<open>guarded_section\<close> adds that the calls of
  certain arguments do not panic. \<open>LinuxMutex\<close> has the operations.
\<close>

section \<open>The goroutines\<close>

text \<open>A step of a goroutine that holds the lock: it stays in the call, or returns, or panics.\<close>

datatype ('p, 'r, 'st) workStep = Stays 'p 'st | Returns 'r 'st | Panics

text \<open>
  The shared state, the goroutine that holds the mutex, where each goroutine is (with the arguments of its call),
  the calls it is still to make, and the calls that have returned, in the order in which they unlocked. A panic
  ends the program.
\<close>

record ('c, 'p, 'r, 'st) guarded =
  mxState :: 'st
  mxLock :: "nat option"
  mxAt :: "nat \<Rightarrow> ('c \<times> 'p) option"
  mxTodo :: "nat \<Rightarrow> 'c list"
  mxDone :: "(nat \<times> 'c \<times> 'r) list"
  mxCrash :: bool

definition mutex_init :: "'st \<Rightarrow> (nat \<Rightarrow> 'c list) \<Rightarrow> ('c, 'p, 'r, 'st) guarded" where
  "mutex_init st prog =
     \<lparr>mxState = st, mxLock = None, mxAt = \<lambda>_. None, mxTodo = prog, mxDone = [], mxCrash = False\<rparr>"

text \<open>One step of goroutine \<open>i\<close>; \<open>None\<close> if it has nothing to do, or waits in \<open>Lock\<close>. The return unlocks.\<close>

definition mutex_step ::
  "('c \<Rightarrow> 'p) \<Rightarrow> ('p \<Rightarrow> 'st \<Rightarrow> ('p, 'r, 'st) workStep) \<Rightarrow> nat \<Rightarrow> ('c, 'p, 'r, 'st) guarded \<Rightarrow> ('c, 'p, 'r, 'st) guarded option"
  where
  "mutex_step enter work i s =
     (if mxCrash s then None
      else case mxAt s i of
        None \<Rightarrow>
          (case mxTodo s i of
             [] \<Rightarrow> None
           | c # cs \<Rightarrow>
               if mxLock s \<noteq> None then None
               else Some (s\<lparr>mxLock := Some i, mxTodo := (mxTodo s)(i := cs), mxAt := (mxAt s)(i \<mapsto> (c, enter c))\<rparr>))
      | Some (c, p) \<Rightarrow>
          Some (case work p (mxState s) of
             Panics \<Rightarrow> s\<lparr>mxCrash := True\<rparr>
           | Stays p' st \<Rightarrow> s\<lparr>mxState := st, mxAt := (mxAt s)(i \<mapsto> (c, p'))\<rparr>
           | Returns r st \<Rightarrow>
               s\<lparr>mxState := st, mxLock := None, mxAt := (mxAt s)(i := None), mxDone := mxDone s @ [(i, c, r)]\<rparr>))"

inductive mutex_run ::
  "('c \<Rightarrow> 'p) \<Rightarrow> ('p \<Rightarrow> 'st \<Rightarrow> ('p, 'r, 'st) workStep) \<Rightarrow> ('c, 'p, 'r, 'st) guarded \<Rightarrow> ('c, 'p, 'r, 'st) guarded \<Rightarrow> bool"
  for enter work where
  held_refl: "mutex_run enter work s s"
| held_step: "mutex_run enter work s s' \<Longrightarrow> mutex_step enter work i s' = Some s'' \<Longrightarrow> mutex_run enter work s s''"

text \<open>The run of a schedule, the order in which the goroutines move.\<close>

fun run_schedule ::
  "('c \<Rightarrow> 'p) \<Rightarrow> ('p \<Rightarrow> 'st \<Rightarrow> ('p, 'r, 'st) workStep) \<Rightarrow> nat list \<Rightarrow> ('c, 'p, 'r, 'st) guarded \<Rightarrow> ('c, 'p, 'r, 'st) guarded option"
  where
  "run_schedule enter work [] s = Some s"
| "run_schedule enter work (i # is) s = mutex_step enter work i s \<bind> run_schedule enter work is"

lemma run_schedule_run:
  "run_schedule enter work is s = Some s' \<Longrightarrow> mutex_run enter work s0 s \<Longrightarrow> mutex_run enter work s0 s'"
  by (induction "is" arbitrary: s) (auto simp: bind_Some_iff intro: mutex_run.intros)

section \<open>The calls one after the other\<close>

fun atomic_calls :: "('c \<Rightarrow> 'st \<Rightarrow> ('r \<times> 'st) option) \<Rightarrow> 'c list \<Rightarrow> 'st \<Rightarrow> ('r list \<times> 'st) option" where
  "atomic_calls atomic [] st = Some ([], st)"
| "atomic_calls atomic (c # cs) st = do {
     (r, st) \<leftarrow> atomic c st;
     (rs, st) \<leftarrow> atomic_calls atomic cs st;
     Some (r # rs, st)
   }"

lemma atomic_calls_snoc:
  "atomic_calls atomic cs st = Some (rs, st1) \<Longrightarrow> atomic c st1 = Some (r, st2) \<Longrightarrow>
   atomic_calls atomic (cs @ [c]) st = Some (rs @ [r], st2)"
  by (induction cs arbitrary: st rs) (auto simp: bind_Some_iff)

text \<open>The calls a goroutine has finished, and those it has not, the current one first.\<close>

definition calls_by :: "nat \<Rightarrow> (nat \<times> 'c \<times> 'r) list \<Rightarrow> 'c list" where
  "calls_by i ds = map (fst \<circ> snd) (filter (\<lambda>d. fst d = i) ds)"

definition pending_calls :: "('c, 'p, 'r, 'st) guarded \<Rightarrow> nat \<Rightarrow> 'c list" where
  "pending_calls s i = (case mxAt s i of None \<Rightarrow> [] | Some (c, p) \<Rightarrow> [c]) @ mxTodo s i"

lemma calls_by_mem: "d \<in> set ds \<Longrightarrow> fst (snd d) \<in> set (calls_by (fst d) ds)"
  by (auto simp: calls_by_def)

section \<open>Mutual exclusion\<close>

definition lock_inv :: "('c, 'p, 'r, 'st) guarded \<Rightarrow> bool" where
  "lock_inv s \<longleftrightarrow> (\<forall>i. (mxAt s i \<noteq> None) = (mxLock s = Some i)) \<and> (mxCrash s \<longrightarrow> mxLock s \<noteq> None)"

text \<open>A step takes the lock, or is made by the holder.\<close>

lemma mutex_step_cases:
  assumes step: "mutex_step enter work i s = Some s'"
  obtains (lock) c cs where "mxAt s i = None" "mxTodo s i = c # cs" "mxLock s = None" "\<not> mxCrash s"
      "s' = s\<lparr>mxLock := Some i, mxTodo := (mxTodo s)(i := cs), mxAt := (mxAt s)(i \<mapsto> (c, enter c))\<rparr>"
  | (panics) c p where "mxAt s i = Some (c, p)" "\<not> mxCrash s" "work p (mxState s) = Panics" "s' = s\<lparr>mxCrash := True\<rparr>"
  | (stays) c p p' st where "mxAt s i = Some (c, p)" "\<not> mxCrash s" "work p (mxState s) = Stays p' st"
      "s' = s\<lparr>mxState := st, mxAt := (mxAt s)(i \<mapsto> (c, p'))\<rparr>"
  | (returns) c p r st where "mxAt s i = Some (c, p)" "\<not> mxCrash s" "work p (mxState s) = Returns r st"
      "s' = s\<lparr>mxState := st, mxLock := None, mxAt := (mxAt s)(i := None), mxDone := mxDone s @ [(i, c, r)]\<rparr>"
  using step
  by (auto simp: mutex_step_def split: if_splits option.splits list.splits workStep.splits)

lemma pending_step:
  assumes "mutex_step enter work i s = Some s'"
  shows "calls_by j (mxDone s') @ pending_calls s' j = calls_by j (mxDone s) @ pending_calls s j"
  using assms by (cases rule: mutex_step_cases) (auto simp: pending_calls_def calls_by_def)

lemma lock_step:
  assumes step: "mutex_step enter work i s = Some s'" and inv: "lock_inv s"
  shows "lock_inv s'"
proof -
  have holder: "mxLock s = Some i" if "mxAt s i = Some q" for q
    using inv that unfolding lock_inv_def by (metis option.distinct(1))
  show ?thesis using step
  proof (cases rule: mutex_step_cases)
    case (lock c cs)
    then show ?thesis using inv by (auto simp: lock_inv_def)
  next
    case (panics c p)
    then show ?thesis using inv holder [OF panics(1)] by (simp add: lock_inv_def)
  next
    case (stays c p p' st)
    then show ?thesis using inv holder [OF stays(1)] by (auto simp: lock_inv_def)
  next
    case (returns c p r st)
    then show ?thesis using inv holder [OF returns(1)] by (auto simp: lock_inv_def)
  qed
qed

lemma mutex_init_inv:
  "lock_inv (mutex_init st prog)" "calls_by i (mxDone (mutex_init st prog)) @ pending_calls (mutex_init st prog) i = prog i"
  by (simp_all add: lock_inv_def mutex_init_def pending_calls_def calls_by_def)

lemma mutex_run_keeps:
  assumes "mutex_run enter work s0 s" and "lock_inv s0"
  shows "lock_inv s" and "calls_by i (mxDone s) @ pending_calls s i = calls_by i (mxDone s0) @ pending_calls s0 i"
  using assms by (induction rule: mutex_run.induct) (auto simp: lock_step pending_step)

lemma mutex_run_inv:
  assumes "mutex_run enter work (mutex_init st prog) s"
  shows "lock_inv s" and "calls_by i (mxDone s) @ pending_calls s i = prog i"
  using mutex_run_keeps [OF assms mutex_init_inv(1)] by (simp_all only: mutex_init_inv)

text \<open>If nobody can move and nothing has panicked, every call has returned and the mutex is free.\<close>

lemma mutex_stuck:
  assumes inv: "lock_inv s" and run: "\<not> mxCrash s" and stuck: "\<And>i. mutex_step enter work i s = None"
  shows "mxLock s = None" and "pending_calls s i = []"
proof -
  have idle: "mxAt s i = None" for i
    using stuck [of i] run by (cases "mxAt s i") (auto simp: mutex_step_def)
  then show free: "mxLock s = None" using inv by (cases "mxLock s") (auto simp: lock_inv_def)
  show "pending_calls s i = []" using stuck [of i] run idle [of i] free
    by (simp add: mutex_step_def pending_calls_def split: list.splits)
qed

section \<open>Serialisation\<close>

text \<open>
  \<open>rest p st\<close> is what a holder at the point \<open>p\<close> that finds the state \<open>st\<close> will have done when it returns: a step
  does not change it.
\<close>

fun rest_after :: "('p \<Rightarrow> 'st \<Rightarrow> ('r \<times> 'st) option) \<Rightarrow> ('p, 'r, 'st) workStep \<Rightarrow> ('r \<times> 'st) option" where
  "rest_after rest Panics = None"
| "rest_after rest (Stays p st) = rest p st"
| "rest_after rest (Returns r st) = Some (r, st)"

locale critical_section =
  fixes enter :: "'c \<Rightarrow> 'p"
    and work :: "'p \<Rightarrow> 'st \<Rightarrow> ('p, 'r, 'st) workStep"
    and atomic :: "'c \<Rightarrow> 'st \<Rightarrow> ('r \<times> 'st) option"
    and rest :: "'p \<Rightarrow> 'st \<Rightarrow> ('r \<times> 'st) option"
  assumes rest_enter: "rest (enter c) st = atomic c st"
    and rest_work: "rest p st = rest_after rest (work p st)"
begin

text \<open>
  The state \<open>st\<close> is the one that the returned calls leave, one after the other: the state of now, when the lock is
  free, and otherwise the one from which the holder's call, made at once, has the end it is about to have.
\<close>

definition serial_inv :: "'st \<Rightarrow> ('c, 'p, 'r, 'st) guarded \<Rightarrow> bool" where
  "serial_inv st0 s \<longleftrightarrow> (\<exists>st.
     atomic_calls atomic (map (fst \<circ> snd) (mxDone s)) st0 = Some (map (snd \<circ> snd) (mxDone s), st)
   \<and> (mxLock s = None \<longrightarrow> mxState s = st)
   \<and> (\<forall>i c p. mxAt s i = Some (c, p) \<longrightarrow> atomic c st = (if mxCrash s then None else rest p (mxState s))))"

lemma serial_step:
  assumes step: "mutex_step enter work i s = Some s'" and inv: "lock_inv s" and ser: "serial_inv st0 s"
  shows "serial_inv st0 s'"
proof -
  obtain st where
    a: "atomic_calls atomic (map (fst \<circ> snd) (mxDone s)) st0 = Some (map (snd \<circ> snd) (mxDone s), st)"
    and free: "mxLock s = None \<Longrightarrow> mxState s = st"
    and rest: "\<And>j c p. mxAt s j = Some (c, p) \<Longrightarrow> atomic c st = (if mxCrash s then None else rest p (mxState s))"
    using ser unfolding serial_inv_def by auto
  have alone: "mxAt s j = None" if "mxAt s i = Some q" "j \<noteq> i" for j q
    using inv that unfolding lock_inv_def by (metis option.distinct(1) option.inject)
  have held: "mxLock s \<noteq> None" if "mxAt s i = Some q" for q
    using inv that unfolding lock_inv_def by (metis option.distinct(1))
  show ?thesis using step
  proof (cases rule: mutex_step_cases)
    case (lock c cs)
    have "mxAt s j = None" for j using inv lock(3) unfolding lock_inv_def by (metis option.distinct(1))
    then show ?thesis using a free [OF lock(3)] lock
      by (auto simp: serial_inv_def rest_enter intro!: exI [of _ st])
  next
    case (panics c p)
    then show ?thesis using a rest [OF panics(1)] alone [OF panics(1)] held [OF panics(1)] rest_work [of p "mxState s"]
      by (auto simp: serial_inv_def intro!: exI [of _ st]) (metis not_None_eq option.inject prod.inject)
  next
    case (stays c p p' st')
    then show ?thesis using a rest [OF stays(1)] alone [OF stays(1)] held [OF stays(1)] rest_work [of p "mxState s"]
      by (auto simp: serial_inv_def intro!: exI [of _ st] split: if_splits)
  next
    case (returns c p r st')
    have "atomic c st = Some (r, st')" using rest [OF returns(1)] rest_work [of p "mxState s"] returns(2,3) by simp
    from atomic_calls_snoc [OF a this] show ?thesis using returns alone [OF returns(1)]
      by (auto simp: serial_inv_def intro!: exI [of _ st'] split: if_splits)
  qed
qed

lemma run_serial_from:
  assumes "mutex_run enter work s0 s" and "lock_inv s0" and "serial_inv st s0"
  shows "serial_inv st s"
  using assms
proof (induction rule: mutex_run.induct)
  case (held_step s s' i s'')
  then show ?case using serial_step [OF held_step.hyps(2)] mutex_run_keeps(1) [OF held_step.hyps(1)] by simp
qed

lemma run_serial: "mutex_run enter work (mutex_init st prog) s \<Longrightarrow> serial_inv st s"
  by (erule run_serial_from [OF _ mutex_init_inv(1)]) (simp add: serial_inv_def mutex_init_def)

text \<open>A panic inside the section is one of the call alone.\<close>

theorem run_as_alone:
  assumes run: "mutex_run enter work (mutex_init st prog) s"
  shows "(\<exists>st'. atomic_calls atomic (map (fst \<circ> snd) (mxDone s)) st = Some (map (snd \<circ> snd) (mxDone s), st')
       \<and> (mxLock s = None \<longrightarrow> mxState s = st')
       \<and> (mxCrash s \<longrightarrow> (\<exists>i c p. mxAt s i = Some (c, p) \<and> atomic c st' = None)))
   \<and> (\<forall>i. calls_by i (mxDone s) @ pending_calls s i = prog i)
   \<and> (\<not> mxCrash s \<and> (\<forall>i. mutex_step enter work i s = None) \<longrightarrow> mxLock s = None \<and> (\<forall>i. pending_calls s i = []))"
proof -
  note m = mutex_run_inv [OF run]
  obtain st' where a: "atomic_calls atomic (map (fst \<circ> snd) (mxDone s)) st = Some (map (snd \<circ> snd) (mxDone s), st')"
    and free: "mxLock s = None \<longrightarrow> mxState s = st'"
    and alone: "\<And>i c p. mxAt s i = Some (c, p) \<Longrightarrow> mxCrash s \<Longrightarrow> atomic c st' = None"
    using run_serial [OF run] unfolding serial_inv_def by auto
  have "\<exists>i c p. mxAt s i = Some (c, p) \<and> atomic c st' = None" if crash: "mxCrash s"
  proof -
    obtain i c p where "mxAt s i = Some (c, p)"
      using m(1) crash unfolding lock_inv_def by (metis not_None_eq surj_pair)
    then show ?thesis using alone crash by blast
  qed
  moreover have "mxLock s = None \<and> (\<forall>i. pending_calls s i = [])"
    if "\<not> mxCrash s" "\<forall>i. mutex_step enter work i s = None"
    using mutex_stuck [OF m(1) that(1), of enter work] that(2) by blast
  ultimately show ?thesis using a free m(2) by auto
qed

end

text \<open>Operations that keep an invariant and do not panic on certain arguments.\<close>

locale guarded_section = critical_section enter work atomic rest
  for enter :: "'c \<Rightarrow> 'p"
    and work :: "'p \<Rightarrow> 'st \<Rightarrow> ('p, 'r, 'st) workStep"
    and atomic :: "'c \<Rightarrow> 'st \<Rightarrow> ('r \<times> 'st) option"
    and rest :: "'p \<Rightarrow> 'st \<Rightarrow> ('r \<times> 'st) option" +
  fixes ok :: "'c \<Rightarrow> bool" and inv :: "'st \<Rightarrow> bool"
  assumes atomic_ok: "inv st \<Longrightarrow> ok c \<Longrightarrow> \<exists>r st'. atomic c st = Some (r, st') \<and> inv st'"
begin

lemma atomic_calls_inv:
  "atomic_calls atomic cs st = Some (rs, st') \<Longrightarrow> inv st \<Longrightarrow> \<forall>c \<in> set cs. ok c \<Longrightarrow> inv st'"
proof (induction cs arbitrary: st rs)
  case (Cons c cs)
  then show ?case using atomic_ok [of st c] by (auto simp: bind_Some_iff)
qed simp

theorem run_serializes:
  assumes run: "mutex_run enter work (mutex_init st prog) s" and st: "inv st" and ok: "\<forall>i. \<forall>c \<in> set (prog i). ok c"
  shows "(\<exists>st'. atomic_calls atomic (map (fst \<circ> snd) (mxDone s)) st = Some (map (snd \<circ> snd) (mxDone s), st')
       \<and> (mxLock s = None \<longrightarrow> mxState s = st'))
   \<and> (\<forall>i. calls_by i (mxDone s) @ pending_calls s i = prog i)
   \<and> \<not> mxCrash s
   \<and> ((\<forall>i. mutex_step enter work i s = None) \<longrightarrow> mxLock s = None \<and> (\<forall>i. pending_calls s i = []))"
proof -
  note alone = run_as_alone [OF run]
  obtain st' where a: "atomic_calls atomic (map (fst \<circ> snd) (mxDone s)) st = Some (map (snd \<circ> snd) (mxDone s), st')"
    and free: "mxLock s = None \<longrightarrow> mxState s = st'"
    and panic: "mxCrash s \<longrightarrow> (\<exists>i c p. mxAt s i = Some (c, p) \<and> atomic c st' = None)"
    using alone by (elim exE conjE) (rule that)
  have order: "calls_by i (mxDone s) @ pending_calls s i = prog i" for i using alone by blast
  have "ok (fst (snd d))" if "d \<in> set (mxDone s)" for d
    using calls_by_mem [OF that] order [of "fst d"] ok by (metis UnCI set_append)
  then have "inv st'" using atomic_calls_inv [OF a st] by auto
  moreover have "ok c" if "mxAt s i = Some (c, p)" for i c p
    using order [of i] ok that by (metis UnCI list.set_intros(1) option.simps(5) pending_calls_def prod.case set_append)
  ultimately have calm: "\<not> mxCrash s" using panic atomic_ok by fastforce
  then show ?thesis using a free alone by auto
qed

end

end
