(* ===== verification/LinuxMutex.thy ===== *)
theory LinuxMutex
  imports LinuxTunProps Mutex
begin

text \<open>
  Any number of goroutines call \<open>Write\<close> of one Linux device, and any number call \<open>Read\<close>. The mutex \<open>writeOpMu\<close>
  guards the flow tables and \<open>toWrite\<close>, \<open>readOpMu\<close> guards \<open>readBuff\<close>; a goroutine holds them over many steps.
  The two operations are interpreted as guarded sections: their calls take effect one after the other, as the
  functions \<open>tunWrite\<close> and \<open>tunRead\<close> of \<open>LinuxTun\<close> describe a call.
\<close>

section \<open>Write\<close>

type_synonym writeCall = "gobuf list \<times> int"
type_synonym writeResult = "(nat \<times> goerror list) \<times> gobuf list"

text \<open>
  Where the holder of \<open>writeOpMu\<close> is: behind \<open>Lock\<close>, in the loop over \<open>toWrite\<close> (with the buffers, the offset,
  the indices that are left, the total and the errors so far), or before the deferred function, with its result.
\<close>

datatype heldWrite =
    WrLocked writeCall
  | WrSend "gobuf list" int "nat list" nat "goerror list"
  | WrDeferred writeResult

text \<open>From \<open>tun.toWrite = tun.toWrite[:0]\<close> to the loop over \<open>toWrite\<close>.\<close>

definition write_prepare ::
  "endian \<Rightarrow> writeCall \<Rightarrow> nativeTun \<times> 'w \<Rightarrow> (heldWrite, writeResult, nativeTun \<times> 'w) workStep" where
  "write_prepare e c st =
     (let (bs, offset) = c; (t, w) = st in
      if vnetHdr t then
        (case handleGRO e offset (udpGSO t) \<lparr>bufs = bs, tcpTable = tcpGROTab t, udpTable = udpGROTab t, toWrite = []\<rparr> of
           None \<Rightarrow> Panics
         | Some (errs, g) \<Rightarrow>
             Stays (if errs \<noteq> [] then WrDeferred ((0, errs), bufs g)
                    else WrSend (bufs g) (offset - int virtioNetHdrLen) (toWrite g) 0 [])
               (t\<lparr>tcpGROTab := tcpTable g, udpGROTab := udpTable g, writeIdx := toWrite g\<rparr>, w))
      else Stays (WrSend bs offset [0..<length bs] 0 []) (t\<lparr>writeIdx := [0..<length bs]\<rparr>, w))"

text \<open>One packet. The slice panics if the offset lies behind the buffer.\<close>

definition write_send ::
  "'w sys \<Rightarrow> gobuf list \<Rightarrow> int \<Rightarrow> nat \<Rightarrow> nat list \<Rightarrow> nat \<Rightarrow> goerror list \<Rightarrow> nativeTun \<times> 'w
    \<Rightarrow> (heldWrite, writeResult, nativeTun \<times> 'w) workStep" where
  "write_send S bs offset k ks tot errs st =
     (case do { b \<leftarrow> idx bs k; slice_from_int (data b) offset } of
        None \<Rightarrow> Panics
      | Some x \<Rightarrow>
          let (t, w) = st; ((n, err), w) = sysWrite S (tunFile t) x w in
          case err of
            Some err \<Rightarrow>
              Stays (if err = FileError EBADFD then WrDeferred ((tot, [ErrClosed]), bs)
                     else WrSend bs offset ks tot (errs @ [err])) (t, w)
          | None \<Rightarrow> Stays (WrSend bs offset ks (tot + n) errs) (t, w))"

text \<open>The deferred function: it resets the tables and unlocks.\<close>

definition reset_tables :: "nativeTun \<Rightarrow> nativeTun" where
  "reset_tables t = t\<lparr>tcpGROTab := reset (tcpGROTab t), udpGROTab := reset (udpGROTab t)\<rparr>"

fun write_held ::
  "endian \<Rightarrow> 'w sys \<Rightarrow> heldWrite \<Rightarrow> nativeTun \<times> 'w \<Rightarrow> (heldWrite, writeResult, nativeTun \<times> 'w) workStep" where
  "write_held e S (WrLocked c) st = write_prepare e c st"
| "write_held e S (WrSend bs offset (k # ks) tot errs) st = write_send S bs offset k ks tot errs st"
| "write_held e S (WrSend bs offset [] tot errs) st = Stays (WrDeferred ((tot, errs), bs)) st"
| "write_held e S (WrDeferred r) st = Returns r (reset_tables (fst st), snd st)"

text \<open>A call of \<open>Write\<close> made at once, and the end of it from a point inside.\<close>

definition write_atomic :: "endian \<Rightarrow> 'w sys \<Rightarrow> writeCall \<Rightarrow> nativeTun \<times> 'w \<Rightarrow> (writeResult \<times> nativeTun \<times> 'w) option" where
  "write_atomic e S c st =
     map_option (\<lambda>(r, bs, t, w). ((r, bs), t, w)) (tunWrite e S (fst st) (fst c) (snd c) (snd st))"

fun write_rest :: "endian \<Rightarrow> 'w sys \<Rightarrow> heldWrite \<Rightarrow> nativeTun \<times> 'w \<Rightarrow> (writeResult \<times> nativeTun \<times> 'w) option" where
  "write_rest e S (WrLocked c) st = write_atomic e S c st"
| "write_rest e S (WrSend bs offset ks tot errs) (t, w) =
     map_option (\<lambda>(r, w). ((r, bs), reset_tables t, w)) (write_loop S (tunFile t) bs offset ks tot errs w)"
| "write_rest e S (WrDeferred r) (t, w) = Some (r, reset_tables t, w)"

lemma prepare_rest: "write_atomic e S (bs, offset) (t, w) = rest_after (write_rest e S) (write_prepare e (bs, offset) (t, w))"
proof (cases "vnetHdr t")
  case True
  let ?g = "\<lparr>bufs = bs, tcpTable = tcpGROTab t, udpTable = udpGROTab t, toWrite = []\<rparr>"
  show ?thesis
  proof (cases "handleGRO e offset (udpGSO t) ?g")
    case None
    then show ?thesis using True by (simp add: write_atomic_def write_prepare_def tunWrite_def)
  next
    case (Some r)
    obtain errs g where r: "r = (errs, g)" by (cases r)
    show ?thesis using True Some
      by (cases "write_loop S (tunFile t) (bufs g) (offset - int virtioNetHdrLen) (toWrite g) 0 [] w")
        (auto simp: r write_atomic_def write_prepare_def tunWrite_def reset_tables_def)
  qed
next
  case False
  then show ?thesis
    by (cases "write_loop S (tunFile t) bs offset [0..<length bs] 0 [] w")
      (auto simp: write_atomic_def write_prepare_def tunWrite_def reset_tables_def)
qed

lemma send_rest:
  "write_rest e S (WrSend bs offset (k # ks) tot errs) (t, w)
     = rest_after (write_rest e S) (write_send S bs offset k ks tot errs (t, w))"
proof (cases "idx bs k \<bind> (\<lambda>b. slice_from_int (data b) offset)")
  case None
  then show ?thesis by (auto simp: write_send_def bind_eq_None_conv split: Option.bind_splits)
next
  case (Some x)
  obtain b where b: "idx bs k = Some b" "slice_from_int (data b) offset = Some x"
    using Some by (auto simp: bind_Some_iff)
  obtain n err w1 where w: "sysWrite S (tunFile t) x w = ((n, err), w1)" by (metis surj_pair)
  show ?thesis by (cases err) (simp_all add: write_send_def b w)
qed

lemma write_held_rest: "write_rest e S p st = rest_after (write_rest e S) (write_held e S p st)"
proof (cases st)
  case (Pair t w)
  then show ?thesis
    by (induction e S p st rule: write_held.induct) (auto simp: prepare_rest send_rest simp del: write_rest.simps(2), simp)
qed

text \<open>The calls \<open>Write\<close> is specified for. They do not panic.\<close>

definition write_ok :: "writeCall \<Rightarrow> bool" where
  "write_ok c \<longleftrightarrow> write_args (fst c) (snd c) \<and> (\<forall>b \<in> set (fst c). 0 \<le> snd c \<and> nat (snd c) \<le> length (data b))"

lemma write_atomic_ok:
  "tun_wf (fst st) \<Longrightarrow> write_ok c \<Longrightarrow> \<exists>r st'. write_atomic e S c st = Some (r, st') \<and> tun_wf (fst st')"
  using tunWrite_total [of "fst st" "fst c" "snd c" e S "snd st"] by (auto simp: write_ok_def write_atomic_def)

interpretation tun_writers: guarded_section WrLocked "write_held e S" "write_atomic e S" "write_rest e S" write_ok "\<lambda>st. tun_wf (fst st)"
  for e S
  by unfold_locales (simp, rule write_held_rest, rule write_atomic_ok)

section \<open>Read\<close>

text \<open>The buffers, the memory behind each of them, \<open>sizes\<close> and the offset.\<close>

type_synonym readCall = "byte list list \<times> (nat \<Rightarrow> byte list) \<times> nat list \<times> nat"

text \<open>
  Where the holder of \<open>readOpMu\<close> is: behind \<open>Lock\<close>, before the system call, before the packet of \<open>n\<close> bytes in
  \<open>readBuff\<close> is split, or before the deferred \<open>Unlock\<close>. The state is the device, \<open>readBuff\<close> and the system.
\<close>

datatype heldRead =
    RdLocked readCall
  | RdFile readCall
  | RdSplit readCall nat
  | RdDeferred splitResult

text \<open>The system call: the first bytes of \<open>readBuff\<close> are overwritten, or the caller's buffer.\<close>

definition read_file ::
  "'w sys \<Rightarrow> readCall \<Rightarrow> nativeTun \<times> byte list \<times> 'w \<Rightarrow> (heldRead, splitResult, nativeTun \<times> byte list \<times> 'w) workStep" where
  "read_file S c st =
     (let (bs, osp, sizes, offset) = c; (t, buff, w) = st in
      case do { b \<leftarrow> idx bs 0; readInto \<leftarrow> slice_from b offset; Some (b, readInto) } of
        None \<Rightarrow> Panics
      | Some (b, readInto) \<Rightarrow>
          (case sysRead S (tunFile t) (if vnetHdr t then readBuffLen else length readInto) w of
             (Inl err, w) \<Rightarrow>
               Stays (RdDeferred (0, Some (if err = FileError EBADFD then ErrClosed else err), bs, sizes)) (t, buff, w)
           | (Inr pkt, w) \<Rightarrow>
               if vnetHdr t then Stays (RdSplit c (length pkt)) (t, pkt @ drop (length pkt) buff, w)
               else
                 (case do { b \<leftarrow> copy_at b offset pkt; bs \<leftarrow> set_at bs 0 b; sizes \<leftarrow> set_at sizes 0 (length pkt); Some (bs, sizes) } of
                    None \<Rightarrow> Panics
                  | Some (bs, sizes) \<Rightarrow> Stays (RdDeferred (1, None, bs, sizes)) (t, buff, w))))"

fun read_held ::
  "endian \<Rightarrow> 'w sys \<Rightarrow> heldRead \<Rightarrow> nativeTun \<times> byte list \<times> 'w
    \<Rightarrow> (heldRead, splitResult, nativeTun \<times> byte list \<times> 'w) workStep" where
  "read_held e S (RdLocked (bs, osp, sizes, offset)) (t, buff, w) =
     (case pendingErrors t of
        err # errs \<Rightarrow> Stays (RdDeferred (0, Some err, bs, sizes)) (t\<lparr>pendingErrors := errs\<rparr>, buff, w)
      | [] \<Rightarrow> Stays (RdFile (bs, osp, sizes, offset)) (t, buff, w))"
| "read_held e S (RdFile c) st = read_file S c st"
| "read_held e S (RdSplit (bs, osp, sizes, offset) n) (t, buff, w) =
     (case handleVirtioRead e \<lparr>inSpare = drop n buff, outSpare = osp\<rparr> (take n buff) bs sizes offset of
        None \<Rightarrow> Panics
      | Some r \<Rightarrow> Stays (RdDeferred r) (t, virtio_in_after e (take n buff) @ drop n buff, w))"
| "read_held e S (RdDeferred r) st = Returns r st"

text \<open>What \<open>readBuff\<close> holds after a call that finds no pending error.\<close>

definition buff_after :: "endian \<Rightarrow> 'w sys \<Rightarrow> nativeTun \<Rightarrow> byte list \<Rightarrow> 'w \<Rightarrow> byte list" where
  "buff_after e S t buff w =
     (if vnetHdr t
      then (case fst (sysRead S (tunFile t) readBuffLen w) of Inl err \<Rightarrow> buff | Inr pkt \<Rightarrow> virtio_in_after e pkt @ drop (length pkt) buff)
      else buff)"

definition read_atomic ::
  "endian \<Rightarrow> 'w sys \<Rightarrow> readCall \<Rightarrow> nativeTun \<times> byte list \<times> 'w \<Rightarrow> (splitResult \<times> nativeTun \<times> byte list \<times> 'w) option" where
  "read_atomic e S c st =
     (let (bs, osp, sizes, offset) = c; (t, buff, w) = st in
      map_option (\<lambda>(r, t', w'). (r, t', if pendingErrors t = [] then buff_after e S t buff w else buff, w'))
        (tunRead e S t osp buff bs sizes offset w))"

fun read_rest ::
  "endian \<Rightarrow> 'w sys \<Rightarrow> heldRead \<Rightarrow> nativeTun \<times> byte list \<times> 'w \<Rightarrow> (splitResult \<times> nativeTun \<times> byte list \<times> 'w) option" where
  "read_rest e S (RdLocked c) st = read_atomic e S c st"
| "read_rest e S (RdFile c) (t, buff, w) =
     map_option (\<lambda>(r, t', buff', w'). (r, t, buff', w')) (read_atomic e S c (t\<lparr>pendingErrors := []\<rparr>, buff, w))"
| "read_rest e S (RdSplit (bs, osp, sizes, offset) n) (t, buff, w) =
     map_option (\<lambda>r. (r, t, virtio_in_after e (take n buff) @ drop n buff, w))
       (handleVirtioRead e \<lparr>inSpare = drop n buff, outSpare = osp\<rparr> (take n buff) bs sizes offset)"
| "read_rest e S (RdDeferred r) st = Some (r, st)"

lemma file_rest: "read_rest e S (RdFile c) st = rest_after (read_rest e S) (read_file S c st)"
proof -
  obtain bs osp sizes offset t buff w where c: "c = (bs, osp, sizes, offset)" "st = (t, buff, w)" by (metis prod.exhaust)
  show ?thesis
  proof (cases "idx bs 0 \<bind> (\<lambda>b. slice_from b offset \<bind> (\<lambda>x. Some (b, x)))")
    case None
    then show ?thesis
      by (auto simp: c read_file_def read_atomic_def tunRead_def bind_eq_None_conv split: Option.bind_splits)
  next
    case (Some bx)
    then obtain b x where b: "idx bs 0 = Some b" "slice_from b offset = Some x" "bx = (b, x)"
      by (auto simp: bind_Some_iff)
    obtain r w1 where r: "sysRead S (tunFile t) (if vnetHdr t then readBuffLen else length x) w = (r, w1)" by (meson surj_pair)
    show ?thesis
    proof (cases "vnetHdr t")
      case True
      then show ?thesis using r
        by (cases r) (auto simp: c b read_file_def read_atomic_def tunRead_def buff_after_def option.map_comp comp_def
            intro!: option.map_cong0 split: Option.bind_splits)
    next
      case False
      then show ?thesis using r
        by (cases r) (auto simp: c b read_file_def read_atomic_def tunRead_def buff_after_def bind_eq_None_conv
            split: Option.bind_splits)
    qed
  qed
qed

lemma tunRead_no_error:
  assumes none: "pendingErrors t = []" and r: "tunRead e S t osp buff bs sizes offset w = Some (r, t', w')"
  shows "t' = t"
proof -
  obtain b x where b: "idx bs 0 = Some b" "slice_from b offset = Some x"
    using r none by (auto simp: tunRead_def bind_Some_iff)
  obtain res w1 where s: "sysRead S (tunFile t) (if vnetHdr t then readBuffLen else length x) w = (res, w1)"
    by (meson surj_pair)
  show ?thesis
    using r unfolding tunRead_def none list.case b bind.bind_lunit s
    by (cases res) (auto simp: bind_Some_iff split: if_splits)
qed

lemma locked_rest:
  "read_atomic e S (bs, osp, sizes, offset) (t, buff, w)
     = rest_after (read_rest e S) (read_held e S (RdLocked (bs, osp, sizes, offset)) (t, buff, w))"
proof (cases "pendingErrors t")
  case Nil
  then have same: "t\<lparr>pendingErrors := []\<rparr> = t" by simp
  show ?thesis using Nil
    by (cases "tunRead e S t osp buff bs sizes offset w") (auto simp: read_atomic_def same dest: tunRead_no_error)
next
  case (Cons err errs)
  then show ?thesis by (simp add: read_atomic_def tunRead_def)
qed

lemma read_held_rest: "read_rest e S p st = rest_after (read_rest e S) (read_held e S p st)"
proof (cases p)
  case (RdLocked c)
  obtain bs osp sizes offset t buff w where c: "c = (bs, osp, sizes, offset)" "st = (t, buff, w)" by (metis prod.exhaust)
  show ?thesis unfolding RdLocked c read_rest.simps(1) by (rule locked_rest)
next
  case (RdFile c)
  show ?thesis unfolding RdFile read_held.simps by (rule file_rest)
next
  case (RdSplit c n)
  obtain bs osp sizes offset t buff w where c: "c = (bs, osp, sizes, offset)" "st = (t, buff, w)" by (metis prod.exhaust)
  show ?thesis unfolding RdSplit c
    by (cases "handleVirtioRead e \<lparr>inSpare = drop n buff, outSpare = osp\<rparr> (take n buff) bs sizes offset") simp_all
next
  case (RdDeferred r)
  then show ?thesis by simp
qed

interpretation tun_readers: critical_section RdLocked "read_held e S" "read_atomic e S" "read_rest e S" for e S
  by unfold_locales (simp, rule read_held_rest)

section \<open>The calls of many goroutines\<close>

text \<open>
  C14. Any number of goroutines call \<open>Write\<close> of one device, each a list of batches, and their steps
  interleave in any way. Then the results they have got, the device and what the system has been given are those of
  the same calls made one after the other, in the order in which they have unlocked \<open>writeOpMu\<close>, which keeps the
  order of every goroutine; none panics; and when no goroutine can move any more, every call has returned and the
  mutex is free, so that they do not block each other for ever.
\<close>

theorem writes_serialize:
  assumes "mutex_run WrLocked (write_held e S) (mutex_init (t, w) prog) s"
    and "tun_wf t" and "\<forall>i. \<forall>c \<in> set (prog i). write_ok c"
  shows "(\<exists>st'. atomic_calls (write_atomic e S) (map (fst \<circ> snd) (mxDone s)) (t, w) = Some (map (snd \<circ> snd) (mxDone s), st')
       \<and> (mxLock s = None \<longrightarrow> mxState s = st'))
   \<and> (\<forall>i. calls_by i (mxDone s) @ pending_calls s i = prog i)
   \<and> \<not> mxCrash s
   \<and> ((\<forall>i. mutex_step WrLocked (write_held e S) i s = None) \<longrightarrow> mxLock s = None \<and> (\<forall>i. pending_calls s i = []))"
  by (rule tun_writers.run_serializes [OF assms(1) _ assms(3)]) (simp add: assms(2))

text \<open>
  The witness: goroutine 1 takes the lock, and its two packets reach the file before the packet of goroutine 0.
\<close>

definition demo_prog :: "nat \<Rightarrow> writeCall list" where
  "demo_prog i = (if i = 0 then [([\<lparr>data = [0, 69], capacity = 2\<rparr>], 1)]
     else if i = 1 then [([\<lparr>data = [96], capacity = 1\<rparr>, \<lparr>data = [97], capacity = 1\<rparr>], 0)] else [])"

text \<open>A device without \<open>IFF_VNET_HDR\<close>, as \<open>initFromFlags\<close> leaves it.\<close>

definition demo_plain_tun :: nativeTun where
  "demo_plain_tun = newNativeTun 7 chanNil\<lparr>batchSize := 1\<rparr>"

lemma demo_plain_tun_wf: "tun_wf demo_plain_tun"
  using fresh_new_tables
  by (simp add: tun_wf_def demo_plain_tun_def newNativeTun_def newTCPGROTable_def newUDPGROTable_def)

lemma demo_writers_run:
  obtains s where "run_schedule WrLocked (write_held LittleE demo_sys) [1, 1, 1, 1, 1, 1, 0, 0, 0, 0, 0]
      (mutex_init (demo_plain_tun, []) demo_prog) = Some s"
    "mxLock s = None" "snd (mxState s) = [[96], [97], [69]]"
    "map (fst \<circ> snd) (mxDone s) = demo_prog 1 @ demo_prog 0"
    "map (fst \<circ> snd \<circ> snd) (mxDone s) = [(2, []), (1, [])]"
  by (simp add: mutex_init_def mutex_step_def write_prepare_def write_send_def
      demo_prog_def demo_plain_tun_def newNativeTun_def demo_sys_sel slice_from_int_def go_simps reset_tables_def)

theorem writes_serialize_witness:
  "\<exists>rs t'. atomic_calls (write_atomic LittleE demo_sys) (demo_prog 1 @ demo_prog 0) (demo_plain_tun, [])
      = Some (rs, t', [[96], [97], [69]]) \<and> map fst rs = [(2, []), (1, [])]"
proof -
  obtain s where s: "run_schedule WrLocked (write_held LittleE demo_sys) [1, 1, 1, 1, 1, 1, 0, 0, 0, 0, 0]
      (mutex_init (demo_plain_tun, []) demo_prog) = Some s"
    "mxLock s = None" "snd (mxState s) = [[96], [97], [69]]"
    "map (fst \<circ> snd) (mxDone s) = demo_prog 1 @ demo_prog 0"
    "map (fst \<circ> snd \<circ> snd) (mxDone s) = [(2, []), (1, [])]"
    by (rule demo_writers_run)
  note run = run_schedule_run [OF s(1) held_refl]
  have ok: "\<forall>i. \<forall>c \<in> set (demo_prog i). write_ok c"
    by (simp add: demo_prog_def write_ok_def write_args_def IdealBatchSize_def)
  have "map fst (map (snd \<circ> snd) (mxDone s)) = [(2, []), (1, [])]" using s(5) by (simp add: comp_assoc)
  moreover obtain st' where "atomic_calls (write_atomic LittleE demo_sys) (demo_prog 1 @ demo_prog 0) (demo_plain_tun, [])
      = Some (map (snd \<circ> snd) (mxDone s), st')" "mxState s = st'"
    using writes_serialize [OF run demo_plain_tun_wf ok] s(2,4) by auto
  ultimately show ?thesis using s(3) by (metis surjective_pairing)
qed

text \<open>
  C15. Any number of goroutines call \<open>Read\<close> of one device, which share \<open>readBuff\<close>, and their steps
  interleave in any way. Then the packets and errors they have got are those of the same calls made one after the
  other, in the order in which they have unlocked \<open>readOpMu\<close>: a call splits the packet that it has read itself, and
  the bytes behind it are those that the earlier calls of this order have left in \<open>readBuff\<close>. If one panics, its call panics when it is made alone; and when no goroutine can move any more, every call has
  returned and the mutex is free.
\<close>

theorem reads_serialize:
  assumes "mutex_run RdLocked (read_held e S) (mutex_init (t, buff, w) prog) s"
  shows "(\<exists>st'. atomic_calls (read_atomic e S) (map (fst \<circ> snd) (mxDone s)) (t, buff, w) = Some (map (snd \<circ> snd) (mxDone s), st')
       \<and> (mxLock s = None \<longrightarrow> mxState s = st')
       \<and> (mxCrash s \<longrightarrow> (\<exists>i c p. mxAt s i = Some (c, p) \<and> read_atomic e S c st' = None)))
   \<and> (\<forall>i. calls_by i (mxDone s) @ pending_calls s i = prog i)
   \<and> (\<not> mxCrash s \<and> (\<forall>i. mutex_step RdLocked (read_held e S) i s = None)
       \<longrightarrow> mxLock s = None \<and> (\<forall>i. pending_calls s i = []))"
  by (rule tun_readers.run_as_alone [OF assms])

text \<open>
  The witness: two goroutines read a packet each, the second one a shorter packet, over the bytes that the first one
  has left in \<open>readBuff\<close>.
\<close>

definition demo_read_sys :: "byte list list sys" where
  "demo_read_sys = demo_sys\<lparr>sysRead := \<lambda>_ _ w. case w of [] \<Rightarrow> (Inl ErrClosed, []) | x # xs \<Rightarrow> (Inr x, xs)\<rparr>"

definition demo_reads :: "nat \<Rightarrow> readCall list" where
  "demo_reads i = (if i < 2 then [([[0, 0, 0, 0]], \<lambda>_. [], [0], 1)] else [])"

definition demo_frames :: "byte list list" where
  "demo_frames = [[0, 0, 0, 0, 0, 0, 0, 0, 0, 0, 69, 1, 2], [0, 0, 0, 0, 0, 0, 0, 0, 0, 0, 96]]"

lemma demo_virtio:
  "handleVirtioRead LittleE sp [0, 0, 0, 0, 0, 0, 0, 0, 0, 0, 69, 1, 2] [[0, 0, 0, 0]] [0] 1 = Some (1, None, [[0, 69, 1, 2]], [3])"
  "handleVirtioRead LittleE sp [0, 0, 0, 0, 0, 0, 0, 0, 0, 0, 96] [[0, 0, 0, 0]] [0] 1 = Some (1, None, [[0, 96, 0, 0]], [1])"
  "virtio_in_after LittleE [0, 0, 0, 0, 0, 0, 0, 0, 0, 0, 69, 1, 2] = [0, 0, 0, 0, 0, 0, 0, 0, 0, 0, 69, 1, 2]"
  "virtio_in_after LittleE [0, 0, 0, 0, 0, 0, 0, 0, 0, 0, 96] = [0, 0, 0, 0, 0, 0, 0, 0, 0, 0, 96]"
  by code_simp+

lemma demo_readers_run:
  obtains s where "run_schedule RdLocked (read_held LittleE demo_read_sys) [1, 1, 1, 1, 1, 0, 0, 0, 0, 0]
      (mutex_init (demo_plain_tun\<lparr>vnetHdr := True\<rparr>, [], demo_frames) demo_reads) = Some s"
    "mxLock s = None" "map (fst \<circ> snd) (mxDone s) = demo_reads 1 @ demo_reads 0"
    "map (snd \<circ> snd) (mxDone s) = [(1, None, [[0, 69, 1, 2]], [3]), (1, None, [[0, 96, 0, 0]], [1])]"
  by (simp add: mutex_init_def mutex_step_def read_file_def demo_reads_def demo_frames_def demo_read_sys_def
      demo_plain_tun_def newNativeTun_def go_simps demo_virtio [simplified])

theorem reads_serialize_witness:
  "\<exists>st'. atomic_calls (read_atomic LittleE demo_read_sys) (demo_reads 1 @ demo_reads 0)
      (demo_plain_tun\<lparr>vnetHdr := True\<rparr>, [], demo_frames)
    = Some ([(1, None, [[0, 69, 1, 2]], [3]), (1, None, [[0, 96, 0, 0]], [1])], st')"
proof -
  obtain s where s: "run_schedule RdLocked (read_held LittleE demo_read_sys) [1, 1, 1, 1, 1, 0, 0, 0, 0, 0]
      (mutex_init (demo_plain_tun\<lparr>vnetHdr := True\<rparr>, [], demo_frames) demo_reads) = Some s"
    "mxLock s = None" "map (fst \<circ> snd) (mxDone s) = demo_reads 1 @ demo_reads 0"
    "map (snd \<circ> snd) (mxDone s) = [(1, None, [[0, 69, 1, 2]], [3]), (1, None, [[0, 96, 0, 0]], [1])]"
    by (rule demo_readers_run)
  from reads_serialize [OF run_schedule_run [OF s(1) held_refl]] show ?thesis unfolding s(3,4) by blast
qed

end
