(* ===== verification/LinuxConf.thy ===== *)
theory LinuxConf
  imports LinuxTunProps
begin

text \<open>
  The configuration calls of the Linux device: the MTU that is set is the MTU that is read, sockets
  are closed again, the name is asked for once, and \<open>Close\<close> acts once.
\<close>

section \<open>Requests\<close>

lemma length_ifreq_of [simp]: "length (ifreq_of ifname) = 80"
  by (simp add: ifreq_of_def ifReqSize_def IFNAMSIZ_def)

lemma native_u32_bytes: "native_u32 e (native_bytes32 e x) = x"
proof -
  have b: "(ucast (drop_bit n x) :: byte) = of_nat (unat x div 2 ^ n)" for n
  proof -
    have "(ucast (drop_bit n x) :: byte) = of_nat (unat (drop_bit n x))" by (simp only: of_nat_unat)
    then show ?thesis unfolding unat_drop_bit_eq by (simp only: drop_bit_eq_div)
  qed
  have four: "[0..<4] = [0, 1, 2, 3 :: nat]" "4 = Suc (Suc (Suc (Suc 0)))" by (simp_all add: upt_rec)
  have "le_bytes 4 (unat x) = [of_nat (unat x), of_nat (unat x div 256), of_nat (unat x div 256 div 256),
      of_nat (unat x div 256 div 256 div 256)]" unfolding four(2) by (simp only: le_bytes.simps)
  also have "\<dots> = map (\<lambda>k. ucast (drop_bit (8 * k) x) :: byte) [0..<4]"
    unfolding four(1) b by (simp add: div_mult2_eq [symmetric])
  finally have "map (\<lambda>k. ucast (drop_bit (8 * k) x) :: byte) [0..<4] = le_bytes 4 (unat x)" ..
  moreover have "le_val (le_bytes 4 (unat x)) = unat x"
    by (rule le_val_le_bytes) (use unat_u32_less [of x] in simp)
  moreover have "length (le_bytes 4 (unat x)) = 4" by (rule length_le_bytes)
  ultimately show ?thesis
    by (cases e) (simp_all add: native_u32_def native_bytes32_def native_val_def)
qed

lemma length_native_bytes32 [simp]: "length (native_bytes32 e x) = 4"
  by (simp add: native_bytes32_def Let_def split: endian.split)

lemma ifreq_put32_get:
  assumes "20 \<le> length ifr"
  shows "u32_at e (ifreq_put32 e x ifr) 16 = x" and "take 16 (ifreq_put32 e x ifr) = take 16 ifr"
  using assms native_u32_bytes [of e x]
  by (simp_all add: ifreq_put32_def u32_at_def IFNAMSIZ_def native_u32_def)

text \<open>
  What the kernel documents of the two requests: \<open>SIOCSIFMTU\<close> sets the MTU of the interface that
  the first 16 bytes name, \<open>SIOCGIFMTU\<close> returns it, sockets do not change it.
\<close>

definition mtu_kernel :: "endian \<Rightarrow> 'w sys \<Rightarrow> ('w \<Rightarrow> byte list \<Rightarrow> u32) \<Rightarrow> bool" where
  "mtu_kernel e S mtu \<longleftrightarrow>
     (\<forall>fd ifr w ifr' w'. sysIoctl S fd SIOCSIFMTU ifr w = (None, ifr', w') \<longrightarrow> mtu w' (take 16 ifr) = u32_at e ifr 16)
     \<and> (\<forall>fd ifr w ifr' w'. sysIoctl S fd SIOCGIFMTU ifr w = (None, ifr', w') \<longrightarrow> u32_at e ifr' 16 = mtu w (take 16 ifr))
     \<and> (\<forall>k w. mtu (snd (sysSocket S k w)) = mtu w) \<and> (\<forall>fd w. mtu (snd (sysClose S fd w)) = mtu w)"

lemma setMTU_named_sets:
  assumes k: "mtu_kernel e S mtu" and r: "setMTU_named e S ifname n w = (Inr (), w')"
  shows "mtu w' (take 16 (ifreq_of ifname)) = of_int n"
proof -
  obtain fd w1 where s: "sysSocket S InetDgramSocket w = (Inr fd, w1)"
    using r by (auto simp: setMTU_named_def on_ok_def split: sum.splits prod.splits)
  obtain errno ifr w2 where c: "sysIoctl S fd SIOCSIFMTU (ifreq_put32 e (of_int n) (ifreq_of ifname)) w1 = (errno, ifr, w2)"
    by (metis prod_cases3)
  have e: "errno = None" "w' = snd (sysClose S fd w2)"
    using r by (simp_all add: setMTU_named_def on_ok_def s c Let_def split: option.splits)
  have "mtu w2 (take 16 (ifreq_put32 e (of_int n) (ifreq_of ifname))) = u32_at e (ifreq_put32 e (of_int n) (ifreq_of ifname)) 16"
    using k c e(1) unfolding mtu_kernel_def by blast
  then show ?thesis using k by (simp add: e(2) mtu_kernel_def ifreq_put32_get)
qed

lemma MTU_named_gets:
  assumes k: "mtu_kernel e S mtu" and r: "MTU_named e S ifname w = (Inr m, w')"
  shows "m = sint (mtu w (take 16 (ifreq_of ifname)))"
proof -
  obtain fd w1 where s: "sysSocket S InetDgramSocket w = (Inr fd, w1)"
    using r by (auto simp: MTU_named_def on_ok_def split: sum.splits prod.splits)
  obtain errno ifr w2 where c: "sysIoctl S fd SIOCGIFMTU (ifreq_of ifname) w1 = (errno, ifr, w2)"
    by (metis prod_cases3)
  have e: "errno = None" "m = sint (u32_at e ifr 16)"
    using r by (simp_all add: MTU_named_def on_ok_def s c Let_def ifreq_get32_def IFNAMSIZ_def split: option.splits)
  have "u32_at e ifr 16 = mtu w1 (take 16 (ifreq_of ifname))"
    using k c e(1) unfolding mtu_kernel_def by blast
  moreover have "mtu w1 = mtu w" using k s unfolding mtu_kernel_def by (metis snd_conv)
  ultimately show ?thesis by (simp add: e(2))
qed

lemma tunName_cached:
  "tunName S t w = (r, t', w') \<Longrightarrow> tunName S t' w'' = (r, t', w'')"
  by (cases "nameCache t") (auto simp: tunName_def split: prod.splits)

text \<open>
  The MTU that \<open>setMTU\<close> has set is the one \<open>MTU\<close> reports, for every value of an
  \<open>int32\<close>; a larger \<open>int\<close> is cut to 32 bits and comes back as the signed number these bits stand for.
\<close>

theorem mtu_roundtrip:
  assumes "mtu_kernel e S mtu" and "tunSetMTU e S t n w = (Inr (), t1, w1)" and "tunMTU e S t1 w1 = (Inr m, t2, w2)"
  shows "m = signed_take_bit 31 n \<and> (- (2 ^ 31) \<le> n \<and> n < 2 ^ 31 \<longrightarrow> m = n)"
proof -
  obtain ifname t0 w0 where n: "tunName S t w = (Inr ifname, t0, w0)"
    using assms(2) by (auto simp: tunSetMTU_def split: prod.splits sum.splits)
  have s: "setMTU_named e S ifname n w0 = (Inr (), w1)" "t1 = t0"
    using assms(2) by (auto simp: tunSetMTU_def n split: prod.splits)
  have "MTU_named e S ifname w1 = (Inr m, w2)"
    using assms(3) tunName_cached [OF n, of w1] by (auto simp: tunMTU_def s(2) split: prod.splits)
  from MTU_named_gets [OF assms(1) this] setMTU_named_sets [OF assms(1) s(1)]
  have m: "m = signed_take_bit 31 n" by (simp add: signed_of_int)
  then show ?thesis by (simp add: signed_take_bit_int_eq_self)
qed

text \<open>A kernel with one interface, whose MTU is the state.\<close>

definition demo_mtu_sys :: "u32 sys" where
  "demo_mtu_sys = \<lparr>sysOpen = \<lambda>_ w. (Inr 3, w), sysSocket = \<lambda>_ w. (Inr 4, w), sysBind = \<lambda>_ _ w. (None, w),
     sysClose = \<lambda>_ w. (None, w),
     sysIoctl = \<lambda>_ r b w. (if length b < 16 then (Some (FileError EINVAL), b, w) else
       case r of SIOCSIFMTU \<Rightarrow> (None, b, u32_at LittleE b 16)
       | SIOCGIFMTU \<Rightarrow> (None, take 16 b @ native_bytes32 LittleE w, w) | _ \<Rightarrow> (None, b, w)),
     sysSetOffload = \<lambda>_ _ w. (None, w),
     sysSetNonblock = \<lambda>_ w. (None, w), sysConn = \<lambda>_ _. None, sysControl = \<lambda>_ _. None,
     sysNewIfreq = \<lambda>_. Inr [], sysIfreqUint16 = \<lambda>_. 0,
     sysIfreqSetUint16 = \<lambda>_ b. b, sysByteString = \<lambda>b. takeWhile (\<lambda>x. x \<noteq> 0) b, sysNewCancel = \<lambda>_ w. (Inr 5, w),
     sysCancel = \<lambda>_ w. (None, w), sysRead = \<lambda>_ _ w. (Inr [], w), sysWrite = \<lambda>_ x w. ((length x, None), w)\<rparr>"

lemma demo_mtu_sys_sel:
  "sysSocket demo_mtu_sys = (\<lambda>_ w. (Inr 4, w))" "sysClose demo_mtu_sys = (\<lambda>_ w. (None, w))"
  "sysIoctl demo_mtu_sys fd r b w = (if length b < 16 then (Some (FileError EINVAL), b, w) else
       case r of SIOCSIFMTU \<Rightarrow> (None, b, u32_at LittleE b 16)
       | SIOCGIFMTU \<Rightarrow> (None, take 16 b @ native_bytes32 LittleE w, w) | _ \<Rightarrow> (None, b, w))"
  "sysConn demo_mtu_sys = (\<lambda>_ _. None)" "sysControl demo_mtu_sys = (\<lambda>_ _. None)"
  by (simp_all add: demo_mtu_sys_def)

lemma demo_mtu_kernel: "mtu_kernel LittleE demo_mtu_sys (\<lambda>w _. w)"
  by (auto simp: mtu_kernel_def demo_mtu_sys_sel u32_at_def native_u32_bytes split: if_splits)

theorem mtu_roundtrip_witness:
  "\<exists>t1 w1 t2 w2. tunSetMTU LittleE demo_mtu_sys (newNativeTun 7 chanNil) 1420 0 = (Inr (), t1, w1)
    \<and> tunMTU LittleE demo_mtu_sys t1 w1 = (Inr 1420, t2, w2)"
proof -
  have len: "length (ifreq_put32 LittleE x (ifreq_of n)) = 80" for x n
    by (simp add: ifreq_put32_def IFNAMSIZ_def)
  obtain t1 w1 where s: "tunSetMTU LittleE demo_mtu_sys (newNativeTun 7 chanNil) 1420 0 = (Inr (), t1, w1)"
    by (simp add: tunSetMTU_def tunName_def nameSlow_def newNativeTun_def demo_mtu_sys_sel setMTU_named_def
        on_ok_def len ifReqSize_def IFNAMSIZ_def)
  obtain ifname t0 w0 where n: "tunName demo_mtu_sys (newNativeTun 7 chanNil) 0 = (Inr ifname, t0, w0)"
    using s by (auto simp: tunSetMTU_def split: prod.splits sum.splits)
  have "t1 = t0" using s by (auto simp: tunSetMTU_def n split: prod.splits)
  then obtain m t2 w2 where g: "tunMTU LittleE demo_mtu_sys t1 w1 = (Inr m, t2, w2)"
    using tunName_cached [OF n, of w1]
    by (simp add: tunMTU_def MTU_named_def on_ok_def demo_mtu_sys_sel)
  have "m = 1420" using mtu_roundtrip [OF demo_mtu_kernel s g] by simp
  then show ?thesis using s g by blast
qed

section \<open>File descriptors\<close>

text \<open>
  What the kernel documents of descriptors: a socket is open until it is closed, the other calls of
  the configuration functions open and close none. \<open>fds\<close> is the bag of open descriptors.
\<close>

definition fd_kernel :: "'w sys \<Rightarrow> ('w \<Rightarrow> int multiset) \<Rightarrow> bool" where
  "fd_kernel S fds \<longleftrightarrow>
     (\<forall>k w fd w'. sysSocket S k w = (Inr fd, w') \<longrightarrow> fds w' = add_mset fd (fds w))
     \<and> (\<forall>k w err w'. sysSocket S k w = (Inl err, w') \<longrightarrow> fds w' = fds w)
     \<and> (\<forall>fd w. fds (snd (sysClose S fd w)) = fds w - {#fd#})
     \<and> (\<forall>fd r b w. fds (snd (snd (sysIoctl S fd r b w))) = fds w)
     \<and> (\<forall>fd g w. fds (snd (sysBind S fd g w)) = fds w)"

lemma nameSlow_fds: "fd_kernel S fds \<Longrightarrow> fds (snd (nameSlow S fd w)) = fds w"
  by (auto simp: nameSlow_def fd_kernel_def Let_def split: option.splits prod.splits) (metis snd_conv)+

lemma tunName_fds:
  assumes "fd_kernel S fds"
  shows "fds (snd (snd (tunName S t w))) = fds w"
  using nameSlow_fds [OF assms, of "tunFile t" w]
  by (cases "nameSlow S (tunFile t) w") (simp add: tunName_def split: option.splits)

text \<open>A socket that is opened, used for one request and closed.\<close>

lemma socket_request_fds:
  assumes k: "fd_kernel S fds"
    and f: "\<And>fd w errno ifr w'. sysIoctl S fd r b w = (errno, ifr, w') \<Longrightarrow> snd (f fd w) = snd (sysClose S fd w')"
  shows "fds (snd (on_ok (sysSocket S InetDgramSocket w) f)) = fds w"
proof -
  obtain res w1 where s: "sysSocket S InetDgramSocket w = (res, w1)" by (cases "sysSocket S InetDgramSocket w")
  show ?thesis
  proof (cases res)
    case (Inl err)
    then show ?thesis using s k by (simp add: on_ok_def fd_kernel_def)
  next
    case (Inr fd)
    obtain errno ifr w2 where c: "sysIoctl S fd r b w1 = (errno, ifr, w2)" by (metis prod_cases3)
    have "fds w1 = add_mset fd (fds w)" using k s Inr unfolding fd_kernel_def by blast
    moreover have "fds w2 = fds w1" using k c unfolding fd_kernel_def by (metis snd_conv)
    moreover have "fds (snd (sysClose S fd w2)) = fds w2 - {#fd#}" using k unfolding fd_kernel_def by blast
    ultimately show ?thesis using f [OF c] by (simp add: on_ok_def s Inr)
  qed
qed

lemma getIFIndex_fds: "fd_kernel S fds \<Longrightarrow> fds (snd (getIFIndex e S ifname w)) = fds w"
  unfolding getIFIndex_def
  by (rule socket_request_fds [where r = SIOCGIFINDEX and b = "ifreq_of ifname"]) (simp_all add: Let_def split: option.split)

lemma setMTU_fds: "fd_kernel S fds \<Longrightarrow> fds (snd (setMTU_named e S ifname n w)) = fds w"
  unfolding setMTU_named_def
  by (rule socket_request_fds [where r = SIOCSIFMTU and b = "ifreq_put32 e (of_int n) (ifreq_of ifname)"])
    (simp_all add: Let_def split: option.split)

lemma MTU_fds: "fd_kernel S fds \<Longrightarrow> fds (snd (MTU_named e S ifname w)) = fds w"
  unfolding MTU_named_def
  by (rule socket_request_fds [where r = SIOCGIFMTU and b = "ifreq_of ifname"]) (simp_all add: Let_def split: option.split)

text \<open>
  \<open>getIFIndex\<close>, \<open>setMTU\<close> and \<open>MTU\<close> close the socket they open on every path, errors
  included: the open descriptors after the call are those before it. \<open>createNetlinkSocket\<close> does not:
  when the socket cannot be bound it returns an error and leaves the socket open.
\<close>

theorem no_fd_leak:
  assumes "fd_kernel S fds"
  shows "fds (snd (getIFIndex e S ifname w)) = fds w
    \<and> fds (snd (snd (tunSetMTU e S t n w))) = fds w \<and> fds (snd (snd (tunMTU e S t w))) = fds w
    \<and> (\<forall>fd w1 err w2. sysSocket S NetlinkRouteSocket w = (Inr fd, w1)
         \<longrightarrow> sysBind S fd netlinkGroups w1 = (Some err, w2)
         \<longrightarrow> createNetlinkSocket S w = (Inl err, w2) \<and> fds w2 = add_mset fd (fds w))"
proof (intro conjI allI impI)
  note k = assms
  show "fds (snd (getIFIndex e S ifname w)) = fds w" by (rule getIFIndex_fds [OF k])
  obtain nr t1 w1 where n: "tunName S t w = (nr, t1, w1)" by (metis prod_cases3)
  have w1: "fds w1 = fds w" using tunName_fds [OF k, of t w] by (simp add: n)
  show "fds (snd (snd (tunSetMTU e S t n w))) = fds w"
    using setMTU_fds [OF k, of e _ n w1] w1 by (cases nr) (simp_all add: tunSetMTU_def n split_def Let_def)
  show "fds (snd (snd (tunMTU e S t w))) = fds w"
    using MTU_fds [OF k, of e _ w1] w1 by (cases nr) (simp_all add: tunMTU_def n split_def Let_def)
  fix fd w1 err w2
  assume s: "sysSocket S NetlinkRouteSocket w = (Inr fd, w1)" "sysBind S fd netlinkGroups w1 = (Some err, w2)"
  show "createNetlinkSocket S w = (Inl err, w2)" by (simp add: createNetlinkSocket_def on_ok_def s)
  have "fds w1 = add_mset fd (fds w)" using k s(1) unfolding fd_kernel_def by blast
  moreover have "fds w2 = fds w1" using k s(2) unfolding fd_kernel_def by (metis snd_conv)
  ultimately show "fds w2 = add_mset fd (fds w)" by simp
qed

text \<open>A kernel that counts its descriptors, gives out 4 and refuses to bind.\<close>

definition demo_fd_sys :: "int list sys" where
  "demo_fd_sys = \<lparr>sysOpen = \<lambda>_ w. (Inr 3, w), sysSocket = \<lambda>_ w. (Inr 4, 4 # w),
     sysBind = \<lambda>_ _ w. (Some (FileError EINVAL), w), sysClose = \<lambda>fd w. (None, remove1 fd w),
     sysIoctl = \<lambda>_ r b w. (None, b, w), sysSetOffload = \<lambda>_ _ w. (None, w),
     sysSetNonblock = \<lambda>_ w. (None, w), sysConn = \<lambda>_ _. None, sysControl = \<lambda>_ _. None,
     sysNewIfreq = \<lambda>_. Inr [], sysIfreqUint16 = \<lambda>_. 0,
     sysIfreqSetUint16 = \<lambda>_ b. b, sysByteString = \<lambda>b. takeWhile (\<lambda>x. x \<noteq> 0) b, sysNewCancel = \<lambda>_ w. (Inr 5, w),
     sysCancel = \<lambda>_ w. (None, w), sysRead = \<lambda>_ _ w. (Inr [], w), sysWrite = \<lambda>_ x w. ((length x, None), w)\<rparr>"

theorem no_fd_leak_witness:
  "mset (snd (getIFIndex LittleE demo_fd_sys [] [7])) = {#7#}
    \<and> createNetlinkSocket demo_fd_sys [7] = (Inl (FileError EINVAL), [4, 7])"
proof -
  have "fd_kernel demo_fd_sys mset" by (simp add: fd_kernel_def demo_fd_sys_def)
  from no_fd_leak [OF this, of LittleE "[]" "[7]"] show ?thesis by (simp add: demo_fd_sys_def)
qed

section \<open>Close\<close>

text \<open>What the constructors and \<open>Close\<close> establish of the channels.\<close>

definition closable :: "nativeTun \<Rightarrow> bool" where
  "closable t \<longleftrightarrow> closeDone t \<or> statusListenersShutdown t = chanOpen
     \<or> statusListenersShutdown t = chanNil \<and> eventsChan t \<noteq> chanClosed"

text \<open>
  On a device as the constructors make it \<open>Close\<close> returns: it closes no channel twice
  and no nil one. It signals the listeners, if there are any, or closes the event channel itself,
  and closes the file; the error is that of the cancellation, else that of the file. Every further
  \<open>Close\<close>, whatever happens in between, returns nil and does nothing.
\<close>

theorem close_once:
  assumes "closable t"
  shows "\<exists>r t' w'. tunClose S t w = Some (r, t', w') \<and> closeDone t' \<and> closable t'
    \<and> (\<forall>w2. tunClose S t' w2 = Some (None, t', w2))
    \<and> (\<not> closeDone t \<longrightarrow> (\<exists>wc err1. w' = snd (sysClose S (tunFile t) wc)
         \<and> r = (if err1 \<noteq> None then err1 else fst (sysClose S (tunFile t) wc))
         \<and> (err1, wc) = (case (statusListenersShutdown t, netlinkCancel t) of
               (chanOpen, Some c) \<Rightarrow> sysCancel S c w | _ \<Rightarrow> (None, w)))
       \<and> (if statusListenersShutdown t = chanNil then eventsChan t' \<noteq> chanOpen
          else statusListenersShutdown t' = chanClosed))"
proof (cases "closeDone t")
  case True
  then show ?thesis using assms by (simp add: tunClose_def)
next
  case False
  obtain e2 w2 where c: "sysClose S (tunFile t) w = (e2, w2)" by (cases "sysClose S (tunFile t) w")
  consider "statusListenersShutdown t = chanOpen"
    | "statusListenersShutdown t = chanNil" "eventsChan t \<noteq> chanClosed"
    using assms False by (auto simp: closable_def)
  then show ?thesis
  proof cases
    case 1
    show ?thesis
    proof (cases "netlinkCancel t")
      case None
      then show ?thesis using 1 False c by (simp add: tunClose_def close_body_def close_chan_def closable_def)
    next
      case (Some cn)
      obtain e1 w1 where n: "sysCancel S cn w = (e1, w1)" by (cases "sysCancel S cn w")
      obtain e3 w3 where "sysClose S (tunFile t) w1 = (e3, w3)" by (cases "sysClose S (tunFile t) w1")
      then show ?thesis using 1 False Some n
        by (simp add: tunClose_def close_body_def close_chan_def closable_def Let_def)
    qed
  next
    case 2
    then show ?thesis using False c
      by (cases "eventsChan t") (simp_all add: tunClose_def close_body_def close_chan_def closable_def Let_def)
  qed
qed

theorem close_once_witness:
  "\<exists>r t' w'. tunClose demo_fd_sys (newNativeTun 7 chanNil) [7] = Some (r, t', w') \<and> closeDone t'
    \<and> tunClose demo_fd_sys t' [] = Some (None, t', [])"
  using close_once [of "newNativeTun 7 chanNil" demo_fd_sys "[7]"]
  by (auto simp: closable_def newNativeTun_def)

end
