(* ===== verification/LinuxThreads.thy ===== *)
theory LinuxThreads
  imports LinuxTun
begin

text \<open>
  The goroutines of a monitored Linux device and their shutdown: the two listeners, the caller that
  creates the device and later closes it, and the reader of \<open>Events\<close>. They share the channel \<open>events\<close>,
  the mutex \<open>hackListenerClosed\<close>, the channel \<open>statusListenersShutdown\<close>, \<open>netlinkCancel\<close>, the socket and the
  file. Each goroutine is a step relation over the shared state; any of them may move next.
\<close>

section \<open>The shared state\<close>

text \<open>Where the goroutines are: one constructor for each point between two accesses to what is shared.\<close>

datatype hackPoint = HProbe hackLast | HSend event hackLast | HWait hackLast | HUnlock | HEnd

text \<open>How the parser of a datagram ends: with its last message, with an index out of range, or not at all.\<close>

datatype parseEnd = ParseEnds | ParsePanics | ParseSpins

datatype netlinkPoint =
    NRecv | NReady | NError | NSelect "byte list" nat | NSend "event list" parseEnd
  | NCloseSock | NLock | NCloseEvents | NCloseCancel | NEnd

datatype ownerPoint = OSetMTU | OOpen | OShutdown | OCancel | OFile | OClosed | OFailed

text \<open>
  \<open>evBuffer\<close> is what \<open>events\<close> holds, of capacity 5, \<open>errCount\<close> how much \<open>errors\<close> holds, \<open>sockClosed\<close> how often the
  socket has been closed. \<open>crashed\<close> is a panic of a goroutine over a channel or the mutex, \<open>parserCrash\<close> one of the
  parser of a datagram; either ends the program. \<open>cancelled\<close>: \<open>netlinkCancel.Cancel()\<close> has succeeded.
\<close>

record threads =
  evBuffer :: "event list"
  evOpen :: bool
  errCount :: nat
  mutexHeld :: bool
  shutClosed :: bool
  cancelled :: bool
  fileOpen :: bool
  sockClosed :: nat
  crashed :: bool
  parserCrash :: bool
  hackAt :: hackPoint
  netlinkAt :: netlinkPoint
  ownerAt :: ownerPoint

definition eventsCap :: nat where "eventsCap = 5"
definition errorsCap :: nat where "errorsCap = 5"

text \<open>After \<open>hackListenerClosed.Lock()\<close> and the two \<open>go\<close> statements.\<close>

definition threads_init :: threads where
  "threads_init = \<lparr>evBuffer = [], evOpen = True, errCount = 0, mutexHeld = True, shutClosed = False,
     cancelled = False, fileOpen = True, sockClosed = 0, crashed = False, parserCrash = False,
     hackAt = HProbe hackNone, netlinkAt = NRecv, ownerAt = OSetMTU\<rparr>"

section \<open>The goroutines\<close>

text \<open>
  \<open>routineHackListener\<close>. A probe of a closed file fails (\<open>os.ErrClosed\<close>). A send waits for room in the
  channel; on a closed channel it is a panic, as is the unlock of a mutex that is not locked.
\<close>

inductive hack_move :: "threads \<Rightarrow> threads \<Rightarrow> bool" where
  hack_return: "hackAt s = HProbe l \<Longrightarrow> hack_step conn ctl wr l = None \<Longrightarrow> hack_move s (s\<lparr>hackAt := HUnlock\<rparr>)"
| hack_same: "hackAt s = HProbe l \<Longrightarrow> fileOpen s \<Longrightarrow> hack_step conn ctl wr l = Some ([], l') \<Longrightarrow>
    hack_move s (s\<lparr>hackAt := HWait l'\<rparr>)"
| hack_change: "hackAt s = HProbe l \<Longrightarrow> fileOpen s \<Longrightarrow> hack_step conn ctl wr l = Some ([ev], l') \<Longrightarrow>
    hack_move s (s\<lparr>hackAt := HSend ev l'\<rparr>)"
| hack_send: "hackAt s = HSend ev l \<Longrightarrow> evOpen s \<Longrightarrow> length (evBuffer s) < eventsCap \<Longrightarrow>
    hack_move s (s\<lparr>evBuffer := evBuffer s @ [ev], hackAt := HWait l\<rparr>)"
| hack_send_panic: "hackAt s = HSend ev l \<Longrightarrow> \<not> evOpen s \<Longrightarrow> hack_move s (s\<lparr>crashed := True\<rparr>)"
| hack_tick: "hackAt s = HWait l \<Longrightarrow> hack_move s (s\<lparr>hackAt := HProbe l\<rparr>)"
| hack_shutdown: "hackAt s = HWait l \<Longrightarrow> shutClosed s \<Longrightarrow> hack_move s (s\<lparr>hackAt := HUnlock\<rparr>)"
| hack_unlock: "hackAt s = HUnlock \<Longrightarrow> mutexHeld s \<Longrightarrow> hack_move s (s\<lparr>mutexHeld := False, hackAt := HEnd\<rparr>)"
| hack_unlock_panic: "hackAt s = HUnlock \<Longrightarrow> \<not> mutexHeld s \<Longrightarrow> hack_move s (s\<lparr>crashed := True\<rparr>)"

text \<open>
  \<open>routineNetlinkListener\<close>. It may receive any datagram, and sends the events that \<open>netlink_datagram\<close> makes of it.
  On a datagram on which the parser panics or does not return, it sends any events before it panics, or any
  number of them. The socket does not block; \<open>ReadyRead\<close> waits until there is something to read
  or the listener is cancelled, and answers false in the second case. The deferred function closes the
  socket, locks the mutex and closes the events.
\<close>

inductive netlink_move :: "endian \<Rightarrow> u32 \<Rightarrow> threads \<Rightarrow> threads \<Rightarrow> bool" for e index where
  nl_recv: "netlinkAt s = NRecv \<Longrightarrow> sockClosed s = 0 \<Longrightarrow>
    netlink_move e index s (s\<lparr>netlinkAt := NSelect msg n\<rparr>)"
| nl_retry: "netlinkAt s = NRecv \<Longrightarrow> sockClosed s = 0 \<Longrightarrow> netlink_move e index s (s\<lparr>netlinkAt := NReady\<rparr>)"
| nl_fail: "netlinkAt s = NRecv \<Longrightarrow> netlink_move e index s (s\<lparr>netlinkAt := NError\<rparr>)"
| nl_ready: "netlinkAt s = NReady \<Longrightarrow> \<not> cancelled s \<Longrightarrow> netlink_move e index s (s\<lparr>netlinkAt := NRecv\<rparr>)"
| nl_not_ready: "netlinkAt s = NReady \<Longrightarrow> netlink_move e index s (s\<lparr>netlinkAt := NError\<rparr>)"
| nl_error: "netlinkAt s = NError \<Longrightarrow> errCount s < errorsCap \<Longrightarrow>
    netlink_move e index s (s\<lparr>errCount := Suc (errCount s), netlinkAt := NCloseSock\<rparr>)"
| nl_shutdown: "netlinkAt s = NSelect msg n \<Longrightarrow> shutClosed s \<Longrightarrow> netlink_move e index s (s\<lparr>netlinkAt := NCloseSock\<rparr>)"
| nl_parse: "netlinkAt s = NSelect msg n \<Longrightarrow> \<not> shutClosed s \<Longrightarrow> netlink_datagram e index msg n = Some (Some evs) \<Longrightarrow>
    netlink_move e index s (s\<lparr>netlinkAt := NSend evs ParseEnds\<rparr>)"
| nl_parse_panics: "netlinkAt s = NSelect msg n \<Longrightarrow> \<not> shutClosed s \<Longrightarrow> netlink_datagram e index msg n = Some None \<Longrightarrow>
    netlink_move e index s (s\<lparr>netlinkAt := NSend evs ParsePanics\<rparr>)"
| nl_parse_spins: "netlinkAt s = NSelect msg n \<Longrightarrow> \<not> shutClosed s \<Longrightarrow> netlink_datagram e index msg n = None \<Longrightarrow>
    netlink_move e index s (s\<lparr>netlinkAt := NSend evs ParseSpins\<rparr>)"
| nl_send: "netlinkAt s = NSend (ev # evs) f \<Longrightarrow> evOpen s \<Longrightarrow> length (evBuffer s) < eventsCap \<Longrightarrow>
    netlink_move e index s (s\<lparr>evBuffer := evBuffer s @ [ev], netlinkAt := NSend evs f\<rparr>)"
| nl_send_panic: "netlinkAt s = NSend (ev # evs) f \<Longrightarrow> \<not> evOpen s \<Longrightarrow> netlink_move e index s (s\<lparr>crashed := True\<rparr>)"
| nl_panic: "netlinkAt s = NSend [] ParsePanics \<Longrightarrow> netlink_move e index s (s\<lparr>parserCrash := True\<rparr>)"
| nl_spin: "netlinkAt s = NSend [] ParseSpins \<Longrightarrow> netlink_move e index s (s\<lparr>netlinkAt := NSend evs ParseSpins\<rparr>)"
| nl_again: "netlinkAt s = NSend [] ParseEnds \<Longrightarrow> netlink_move e index s (s\<lparr>netlinkAt := NRecv\<rparr>)"
| nl_close_sock: "netlinkAt s = NCloseSock \<Longrightarrow>
    netlink_move e index s (s\<lparr>sockClosed := Suc (sockClosed s), netlinkAt := NLock\<rparr>)"
| nl_lock: "netlinkAt s = NLock \<Longrightarrow> \<not> mutexHeld s \<Longrightarrow>
    netlink_move e index s (s\<lparr>mutexHeld := True, netlinkAt := NCloseEvents\<rparr>)"
| nl_close_events: "netlinkAt s = NCloseEvents \<Longrightarrow> evOpen s \<Longrightarrow>
    netlink_move e index s (s\<lparr>evOpen := False, netlinkAt := NCloseCancel\<rparr>)"
| nl_close_panic: "netlinkAt s = NCloseEvents \<Longrightarrow> \<not> evOpen s \<Longrightarrow> netlink_move e index s (s\<lparr>crashed := True\<rparr>)"
| nl_close_cancel: "netlinkAt s = NCloseCancel \<Longrightarrow> netlink_move e index s (s\<lparr>netlinkAt := NEnd\<rparr>)"

text \<open>
  The end of \<open>CreateTUNFromFile\<close>, after the goroutines have been started: it closes the socket if the MTU
  cannot be set.
\<close>

inductive create_move :: "threads \<Rightarrow> threads \<Rightarrow> bool" where
  create_ok: "ownerAt s = OSetMTU \<Longrightarrow> create_move s (s\<lparr>ownerAt := OOpen\<rparr>)"
| create_fails: "ownerAt s = OSetMTU \<Longrightarrow> create_move s (s\<lparr>sockClosed := Suc (sockClosed s), ownerAt := OFailed\<rparr>)"

text \<open>\<open>Close\<close>, whose body \<open>closeOnce\<close> runs once. If \<open>Cancel\<close> fails, it goes on, and returns the error at the end.\<close>

inductive close_move :: "threads \<Rightarrow> threads \<Rightarrow> bool" where
  close_start: "ownerAt s = OOpen \<Longrightarrow> close_move s (s\<lparr>ownerAt := OShutdown\<rparr>)"
| close_shutdown: "ownerAt s = OShutdown \<Longrightarrow> \<not> shutClosed s \<Longrightarrow> close_move s (s\<lparr>shutClosed := True, ownerAt := OCancel\<rparr>)"
| close_shutdown_panic: "ownerAt s = OShutdown \<Longrightarrow> shutClosed s \<Longrightarrow> close_move s (s\<lparr>crashed := True\<rparr>)"
| close_cancel: "ownerAt s = OCancel \<Longrightarrow> close_move s (s\<lparr>cancelled := True, ownerAt := OFile\<rparr>)"
| close_cancel_fails: "ownerAt s = OCancel \<Longrightarrow> close_move s (s\<lparr>ownerAt := OFile\<rparr>)"
| close_file: "ownerAt s = OFile \<Longrightarrow> close_move s (s\<lparr>fileOpen := False, ownerAt := OClosed\<rparr>)"

text \<open>The program as a whole; a reader takes events once it has the device.\<close>

inductive threads_move :: "endian \<Rightarrow> u32 \<Rightarrow> threads \<Rightarrow> threads \<Rightarrow> bool" for e index where
  move_hack: "\<not> crashed s \<Longrightarrow> \<not> parserCrash s \<Longrightarrow> hack_move s s' \<Longrightarrow> threads_move e index s s'"
| move_netlink: "\<not> crashed s \<Longrightarrow> \<not> parserCrash s \<Longrightarrow> netlink_move e index s s' \<Longrightarrow> threads_move e index s s'"
| move_create: "\<not> crashed s \<Longrightarrow> \<not> parserCrash s \<Longrightarrow> create_move s s' \<Longrightarrow> threads_move e index s s'"
| move_close: "\<not> crashed s \<Longrightarrow> \<not> parserCrash s \<Longrightarrow> close_move s s' \<Longrightarrow> threads_move e index s s'"
| move_reader: "\<not> crashed s \<Longrightarrow> \<not> parserCrash s \<Longrightarrow> ownerAt s \<noteq> OSetMTU \<Longrightarrow> ownerAt s \<noteq> OFailed \<Longrightarrow> evBuffer s = ev # evs \<Longrightarrow>
    threads_move e index s (s\<lparr>evBuffer := evs\<rparr>)"

inductive threads_reachable :: "endian \<Rightarrow> u32 \<Rightarrow> threads \<Rightarrow> bool" for e index where
  reach_init: "threads_reachable e index threads_init"
| reach_move: "threads_reachable e index s \<Longrightarrow> threads_move e index s s' \<Longrightarrow> threads_reachable e index s'"

section \<open>The invariant\<close>

text \<open>What the point of the netlink listener tells: it holds the mutex, has closed the events, how often
  it has closed the socket, and how many errors it may have sent.\<close>

fun netlink_locked :: "netlinkPoint \<Rightarrow> bool" where
  "netlink_locked NCloseEvents = True"
| "netlink_locked NCloseCancel = True"
| "netlink_locked NEnd = True"
| "netlink_locked p = False"

fun events_closed :: "netlinkPoint \<Rightarrow> bool" where
  "events_closed NCloseCancel = True"
| "events_closed NEnd = True"
| "events_closed p = False"

fun sock_closes :: "netlinkPoint \<Rightarrow> nat" where
  "sock_closes NLock = 1"
| "sock_closes p = (if netlink_locked p then 1 else 0)"

fun errors_sent :: "netlinkPoint \<Rightarrow> nat" where
  "errors_sent NCloseSock = 1"
| "errors_sent p = sock_closes p"

fun closing :: "ownerPoint \<Rightarrow> bool" where
  "closing OCancel = True"
| "closing OFile = True"
| "closing OClosed = True"
| "closing p = False"

fun failed_closes :: "ownerPoint \<Rightarrow> nat" where
  "failed_closes OFailed = 1"
| "failed_closes p = 0"

definition threads_inv :: "threads \<Rightarrow> bool" where
  "threads_inv s \<longleftrightarrow> \<not> crashed s
     \<and> mutexHeld s = (hackAt s \<noteq> HEnd \<or> netlink_locked (netlinkAt s))
     \<and> (netlink_locked (netlinkAt s) \<longrightarrow> hackAt s = HEnd)
     \<and> evOpen s = (\<not> events_closed (netlinkAt s))
     \<and> sockClosed s = sock_closes (netlinkAt s) + failed_closes (ownerAt s)
     \<and> errCount s \<le> errors_sent (netlinkAt s)
     \<and> shutClosed s = closing (ownerAt s)
     \<and> (cancelled s \<longrightarrow> ownerAt s = OFile \<or> ownerAt s = OClosed)
     \<and> (parserCrash s \<longrightarrow> netlinkAt s = NSend [] ParsePanics)
     \<and> fileOpen s = (ownerAt s \<noteq> OClosed)
     \<and> length (evBuffer s) \<le> eventsCap"

lemma closes_locked: "events_closed p \<Longrightarrow> netlink_locked p" "sock_closes p \<le> 1"
  by (cases p; simp)+

lemma failed_closes_0: "q \<noteq> OFailed \<Longrightarrow> failed_closes q = 0"
  by (cases q) simp_all

lemma hack_move_inv: "hack_move s s' \<Longrightarrow> threads_inv s \<Longrightarrow> threads_inv s'"
  by (induction rule: hack_move.induct) (auto simp: threads_inv_def dest: closes_locked(1))

lemma netlink_move_inv: "netlink_move e index s s' \<Longrightarrow> threads_inv s \<Longrightarrow> threads_inv s'"
  by (induction rule: netlink_move.induct) (clarsimp simp: threads_inv_def)+

lemma create_move_inv: "create_move s s' \<Longrightarrow> threads_inv s \<Longrightarrow> threads_inv s'"
  by (induction rule: create_move.induct) (clarsimp simp: threads_inv_def)+

lemma close_move_inv: "close_move s s' \<Longrightarrow> threads_inv s \<Longrightarrow> threads_inv s'"
  by (induction rule: close_move.induct) (clarsimp simp: threads_inv_def)+

lemma threads_move_inv: "threads_move e index s s' \<Longrightarrow> threads_inv s \<Longrightarrow> threads_inv s'"
proof (induction rule: threads_move.induct)
  case (move_reader s ev evs)
  then show ?case by (simp add: threads_inv_def)
qed (simp_all add: hack_move_inv netlink_move_inv create_move_inv close_move_inv)

lemma threads_reachable_inv: "threads_reachable e index s \<Longrightarrow> threads_inv s"
proof (induction rule: threads_reachable.induct)
  case reach_init
  show ?case by (simp add: threads_inv_def threads_init_def)
next
  case (reach_move s s')
  then show ?case using threads_move_inv by blast
qed

section \<open>Shutdown\<close>

text \<open>What is left to do once \<open>Close\<close> has returned.\<close>

fun hack_work :: "hackPoint \<Rightarrow> nat" where
  "hack_work (HSend ev l) = 5"
| "hack_work (HWait l) = 3"
| "hack_work (HProbe l) = 2"
| "hack_work HUnlock = 1"
| "hack_work HEnd = 0"

fun netlink_work :: "netlinkPoint \<Rightarrow> nat" where
  "netlink_work (NSend evs f) = 8 + 2 * length evs"
| "netlink_work NRecv = 7"
| "netlink_work NReady = 6"
| "netlink_work (NSelect msg n) = 5"
| "netlink_work NError = 5"
| "netlink_work NCloseSock = 4"
| "netlink_work NLock = 3"
| "netlink_work NCloseEvents = 2"
| "netlink_work NCloseCancel = 1"
| "netlink_work NEnd = 0"

definition threads_work :: "threads \<Rightarrow> nat" where
  "threads_work s = hack_work (hackAt s) + netlink_work (netlinkAt s) + length (evBuffer s)"

definition threads_ended :: "threads \<Rightarrow> bool" where
  "threads_ended s \<longleftrightarrow> hackAt s = HEnd \<and> netlinkAt s = NEnd \<and> \<not> evOpen s \<and> evBuffer s = []
     \<and> sockClosed s = 1 \<and> \<not> fileOpen s"

text \<open>The listener is in a datagram on which the parser panics or does not return.\<close>

fun doomed :: "netlinkPoint \<Rightarrow> bool" where
  "doomed (NSend evs f) = (f \<noteq> ParseEnds)"
| "doomed p = False"

text \<open>\<open>Close\<close> has returned, its \<open>Cancel\<close> has succeeded, and no parser is lost.\<close>

definition closed_cancelled :: "threads \<Rightarrow> bool" where
  "closed_cancelled s \<longleftrightarrow> ownerAt s = OClosed \<and> cancelled s \<and> \<not> doomed (netlinkAt s)"

lemma closed_work:
  assumes "threads_inv s" and "closed_cancelled s" and "threads_move e index s s'"
  shows "closed_cancelled s' \<and> threads_work s' < threads_work s"
  using assms(3)
proof cases
  case move_hack
  from move_hack(3) show ?thesis using assms(1,2) closes_locked(1) [of "netlinkAt s"]
    by cases (auto simp: threads_inv_def threads_work_def closed_cancelled_def)
next
  case move_netlink
  from move_netlink(3) show ?thesis using assms(1,2)
    by cases (auto simp: threads_inv_def threads_work_def closed_cancelled_def)
next
  case move_create
  from move_create(3) show ?thesis using assms(2) by cases (auto simp: closed_cancelled_def)
next
  case move_close
  from move_close(3) show ?thesis using assms(2) by cases (auto simp: closed_cancelled_def)
next
  case (move_reader ev evs)
  then show ?thesis using assms(2) by (simp add: threads_work_def closed_cancelled_def)
qed

lemma closed_stuck:
  assumes inv: "threads_inv s" and cc: "closed_cancelled s" and stuck: "\<nexists>s'. threads_move e index s s'"
  shows "threads_ended s"
proof -
  have o: "ownerAt s = OClosed" using cc by (simp add: closed_cancelled_def)
  have c: "\<not> crashed s" "\<not> parserCrash s" "shutClosed s" "\<not> fileOpen s"
    using inv cc by (auto simp: threads_inv_def closed_cancelled_def)
  have no: "\<not> hack_move s s'" "\<not> netlink_move e index s s'" for s'
    using stuck c(1,2) move_hack move_netlink by blast+
  have b: "evBuffer s = []" using stuck c(1,2) o move_reader [of s] by (cases "evBuffer s") auto
  have room: "length (evBuffer s) < eventsCap" by (simp add: b eventsCap_def)
  have r: "hack_step (Some ErrClosed) None None l = None" for l by (simp add: hack_step_def)
  have h: "hackAt s = HEnd"
  proof (cases "hackAt s")
    case (HProbe l)
    then show ?thesis using no(1) hack_return [OF _ r] by blast
  next
    case (HSend ev l)
    then show ?thesis using no(1) hack_send [OF _ _ room] hack_send_panic by blast
  next
    case (HWait l)
    then show ?thesis using no(1) hack_tick by blast
  next
    case HUnlock
    then show ?thesis using no(1) hack_unlock hack_unlock_panic by blast
  qed
  have n: "netlinkAt s = NEnd"
  proof (cases "netlinkAt s")
    case NRecv
    then show ?thesis using no(2) nl_fail by blast
  next
    case NReady
    then show ?thesis using no(2) nl_not_ready by blast
  next
    case NError
    then have "errCount s < errorsCap" using inv by (simp add: threads_inv_def errorsCap_def)
    then show ?thesis using NError no(2) nl_error by blast
  next
    case (NSelect msg n)
    then show ?thesis using no(2) nl_shutdown c(3) by blast
  next
    case (NSend evs f)
    then have "f = ParseEnds" using cc by (simp add: closed_cancelled_def)
    then show ?thesis using NSend no(2) nl_again nl_send [OF _ _ room] nl_send_panic by (cases evs) blast+
  next
    case NCloseSock
    then show ?thesis using no(2) nl_close_sock by blast
  next
    case NLock
    then have "\<not> mutexHeld s" using inv h by (simp add: threads_inv_def)
    then show ?thesis using NLock no(2) nl_lock by blast
  next
    case NCloseEvents
    then show ?thesis using no(2) nl_close_events nl_close_panic by blast
  next
    case NCloseCancel
    then show ?thesis using no(2) nl_close_cancel by blast
  qed
  show ?thesis using inv h n b c o by (simp add: threads_ended_def threads_inv_def)
qed

lemma closed_runs:
  assumes "(threads_move e index ^^ n) s s'" and "threads_inv s" and "closed_cancelled s"
  shows "threads_inv s' \<and> closed_cancelled s' \<and> n + threads_work s' \<le> threads_work s"
  using assms(1)
proof (induction n arbitrary: s')
  case 0
  then show ?case using assms(2,3) by simp
next
  case (Suc n)
  obtain t where t: "(threads_move e index ^^ n) s t" "threads_move e index t s'" using Suc.prems by auto
  note ih = Suc.IH [OF t(1)]
  show ?case using ih threads_move_inv [OF t(2)] closed_work [OF _ _ t(2)] by auto
qed

text \<open>
  C9. However the goroutines interleave, and whatever the probes and the socket answer,
  no goroutine sends on the closed channel of events, closes a channel twice or unlocks the mutex when
  it is not locked: the events are closed only after the hack listener has ended. The socket is closed
  at most once, unless \<open>CreateTUNFromFile\<close> has failed.
\<close>

theorem listeners_safe:
  assumes "threads_reachable e index s"
  shows "\<not> crashed s \<and> (\<not> evOpen s \<longrightarrow> hackAt s = HEnd) \<and> (ownerAt s \<noteq> OFailed \<longrightarrow> sockClosed s \<le> 1)"
  using threads_reachable_inv [OF assms] closes_locked [of "netlinkAt s"] failed_closes_0 [of "ownerAt s"]
  by (auto simp: threads_inv_def)

text \<open>
  C10. Once \<open>Close\<close> has returned, and its \<open>Cancel\<close> has succeeded, and if the netlink listener is
  not by then in a datagram on which its parser panics or never ends, the goroutines and the reader of the events
  make no more than \<open>threads_work s\<close> steps together, whatever the probes and the socket answer. Where no step is
  left, of the reader neither, both listeners have ended, the channel of events is closed and empty, and the socket
  has been closed once.
\<close>

theorem close_ends_listeners:
  assumes "threads_reachable e index s" and "ownerAt s = OClosed" and "cancelled s"
    and "\<nexists>evs f. netlinkAt s = NSend evs f \<and> f \<noteq> ParseEnds"
    and "(threads_move e index ^^ n) s s'"
  shows "n \<le> threads_work s \<and> ((\<nexists>s''. threads_move e index s' s'') \<longrightarrow> threads_ended s')"
proof -
  have "closed_cancelled s" using assms(2-4) by (cases "netlinkAt s") (auto simp: closed_cancelled_def)
  from closed_runs [OF assms(5) threads_reachable_inv [OF assms(1)] this] closed_stuck show ?thesis by auto
qed

text \<open>A device that is created and closed before its listeners move.\<close>

definition closed_at_once :: threads where
  "closed_at_once = threads_init\<lparr>shutClosed := True, cancelled := True, fileOpen := False, ownerAt := OClosed\<rparr>"

lemma closed_at_once_reachable: "threads_reachable e index closed_at_once"
proof -
  have owner: "threads_reachable e index s \<Longrightarrow> create_move s s' \<or> close_move s s' \<Longrightarrow> \<not> crashed s \<Longrightarrow> \<not> parserCrash s \<Longrightarrow> threads_reachable e index s'" for s s'
    by (blast intro: reach_move move_create move_close)
  define s1 where "s1 = threads_init\<lparr>ownerAt := OOpen\<rparr>"
  define s2 where "s2 = threads_init\<lparr>ownerAt := OShutdown\<rparr>"
  define s3 where "s3 = threads_init\<lparr>shutClosed := True, ownerAt := OCancel\<rparr>"
  define s4 where "s4 = threads_init\<lparr>shutClosed := True, cancelled := True, ownerAt := OFile\<rparr>"
  have "threads_reachable e index s1"
    using owner [OF reach_init disjI1, OF create_ok] by (simp add: s1_def threads_init_def)
  then have "threads_reachable e index s2"
    using owner [OF _ disjI2, OF _ close_start, of s1] by (simp add: s1_def s2_def threads_init_def)
  then have "threads_reachable e index s3"
    using owner [OF _ disjI2, OF _ close_shutdown, of s2] by (simp add: s2_def s3_def threads_init_def)
  then have "threads_reachable e index s4"
    using owner [OF _ disjI2, OF _ close_cancel, of s3] by (simp add: s3_def s4_def threads_init_def)
  then show ?thesis
    using owner [OF _ disjI2, OF _ close_file, of s4] by (simp add: s4_def closed_at_once_def threads_init_def)
qed

theorem listeners_safe_witness: "\<not> crashed closed_at_once \<and> sockClosed closed_at_once \<le> 1"
  using listeners_safe [OF closed_at_once_reachable] by (simp add: closed_at_once_def)

theorem close_ends_listeners_witness:
  "\<not> (\<exists>s'. (threads_move LittleE 1 ^^ 10) closed_at_once s')"
proof
  assume "\<exists>s'. (threads_move LittleE 1 ^^ 10) closed_at_once s'"
  then obtain s' where s': "(threads_move LittleE 1 ^^ 10) closed_at_once s'" by blast
  have o: "ownerAt closed_at_once = OClosed" "threads_work closed_at_once = 9"
    by (simp_all add: closed_at_once_def threads_work_def threads_init_def)
  have "cancelled closed_at_once" "\<nexists>evs f. netlinkAt closed_at_once = NSend evs f \<and> f \<noteq> ParseEnds"
    by (simp_all add: closed_at_once_def threads_init_def)
  from close_ends_listeners [OF closed_at_once_reachable o(1) this s'] o(2) show False by simp
qed

text \<open>
  If the MTU cannot be set, \<open>CreateTUNFromFile\<close> closes the socket under the listener, which closes it
  again: by then the descriptor may belong to another file.
\<close>

lemma failed_create_closes_twice:
  "\<exists>s. threads_reachable e index s \<and> ownerAt s = OFailed \<and> sockClosed s = 2"
proof -
  have nl: "threads_reachable e index s \<Longrightarrow> netlink_move e index s s' \<Longrightarrow> \<not> crashed s \<Longrightarrow> \<not> parserCrash s \<Longrightarrow> threads_reachable e index s'" for s s'
    by (blast intro: reach_move move_netlink)
  define s1 where "s1 = threads_init\<lparr>sockClosed := 1, ownerAt := OFailed\<rparr>"
  define s2 where "s2 = s1\<lparr>netlinkAt := NError\<rparr>"
  define s3 where "s3 = s2\<lparr>errCount := 1, netlinkAt := NCloseSock\<rparr>"
  define s4 where "s4 = s3\<lparr>sockClosed := Suc 1, netlinkAt := NLock\<rparr>"
  have "threads_reachable e index s1"
    using reach_move [OF reach_init move_create [OF _ _ create_fails]] by (simp add: s1_def threads_init_def)
  then have "threads_reachable e index s2"
    using nl [OF _ nl_fail, of s1] by (simp add: s1_def s2_def threads_init_def)
  then have "threads_reachable e index s3"
    using nl [OF _ nl_error, of s2] by (simp add: s1_def s2_def s3_def threads_init_def errorsCap_def)
  then have "threads_reachable e index s4"
    using nl [OF _ nl_close_sock, of s3] by (simp add: s1_def s2_def s3_def s4_def threads_init_def)
  then show ?thesis by (intro exI [of _ s4]) (simp add: s1_def s2_def s3_def s4_def)
qed

text \<open>
  The condition on \<open>Cancel\<close> is needed: if it fails, the netlink listener goes on waiting for its socket after \<open>Close\<close>
  has returned, with the error of \<open>Cancel\<close>.
\<close>

lemma cancel_failure_runs_on:
  "\<exists>s. threads_reachable e index s \<and> ownerAt s = OClosed \<and> (\<forall>n. \<exists>s'. (threads_move e index ^^ n) s s')"
proof -
  have owner: "threads_reachable e index s \<Longrightarrow> create_move s s' \<or> close_move s s' \<Longrightarrow> \<not> crashed s \<Longrightarrow> \<not> parserCrash s \<Longrightarrow> threads_reachable e index s'" for s s'
    by (blast intro: reach_move move_create move_close)
  define s3 where "s3 = threads_init\<lparr>shutClosed := True, ownerAt := OCancel\<rparr>"
  define s5 where "s5 = threads_init\<lparr>shutClosed := True, fileOpen := False, ownerAt := OClosed\<rparr>"
  have "threads_reachable e index (threads_init\<lparr>ownerAt := OOpen\<rparr>)"
    using owner [OF reach_init disjI1, OF create_ok] by (simp add: threads_init_def)
  then have "threads_reachable e index (threads_init\<lparr>ownerAt := OShutdown\<rparr>)"
    using owner [OF _ disjI2, OF _ close_start, of "threads_init\<lparr>ownerAt := OOpen\<rparr>"] by (simp add: threads_init_def)
  then have "threads_reachable e index s3"
    using owner [OF _ disjI2, OF _ close_shutdown, of "threads_init\<lparr>ownerAt := OShutdown\<rparr>"] by (simp add: s3_def threads_init_def)
  then have "threads_reachable e index (s3\<lparr>ownerAt := OFile\<rparr>)"
    using owner [OF _ disjI2, OF _ close_cancel_fails, of s3] by (simp add: s3_def threads_init_def)
  then have r: "threads_reachable e index s5"
    using owner [OF _ disjI2, OF _ close_file, of "s3\<lparr>ownerAt := OFile\<rparr>"] by (simp add: s3_def s5_def threads_init_def)
  have there: "threads_move e index s5 (s5\<lparr>netlinkAt := NReady\<rparr>)"
    by (rule move_netlink [OF _ _ nl_retry]) (simp_all add: s5_def threads_init_def)
  have again: "threads_move e index (s5\<lparr>netlinkAt := NReady\<rparr>) s5"
    using move_netlink [OF _ _ nl_ready, of "s5\<lparr>netlinkAt := NReady\<rparr>" e index] by (simp add: s5_def threads_init_def)
  have "(\<exists>s'. (threads_move e index ^^ n) s5 s') \<and> (\<exists>s'. (threads_move e index ^^ n) (s5\<lparr>netlinkAt := NReady\<rparr>) s')" for n
  proof (induction n)
    case (Suc n)
    then show ?case
      using relpowp_Suc_I2 [where P = "threads_move e index", OF there] relpowp_Suc_I2 [where P = "threads_move e index", OF again]
      by blast
  qed simp
  then show ?thesis using r by (intro exI [of _ s5]) (simp add: s5_def)
qed

end
