(* ===== verification/Float64.thy ===== *)
theory Float64
  imports Complex_Main Prelude
begin

text \<open>
  Go's \<open>float64\<close> as far as \<open>src/common/a_star\<close> uses it: IEEE 754 binary64 values with the two zeros
  identified (nothing the code does tells them apart), rounding to nearest, ties to even, and the
  comparisons, which are false on NaN.
\<close>

section \<open>Values and rounding\<close>

datatype f64 = NaN | Inf bool | Fin rat

text \<open>The nearest integer, ties to even.\<close>

definition round_even :: "rat \<Rightarrow> int" where
  "round_even x = (let n = \<lfloor>x\<rfloor>; d = x - of_int n in
     if d < 1 / 2 then n else if 1 / 2 < d then n + 1 else if even n then n else n + 1)"

text \<open>\<open>2 ^ k\<close> for an integer \<open>k\<close>.\<close>

definition pow2 :: "int \<Rightarrow> rat" where
  "pow2 k = (if 0 \<le> k then 2 ^ nat k else 1 / 2 ^ nat (- k))"

text \<open>
  The exponent of the unit in the last place: the least \<open>k\<close> from -1074 on such that \<open>x\<close> is below
  \<open>2 ^ (53 + k)\<close>; 971 is the largest of a finite value.
\<close>

definition ulp_exp :: "rat \<Rightarrow> int" where
  "ulp_exp x = (case find (\<lambda>k. x < pow2 (53 + k)) [-1074..971] of Some k \<Rightarrow> k | None \<Rightarrow> 971)"

definition rnd64_pos :: "rat \<Rightarrow> f64" where
  "rnd64_pos x = (let k = ulp_exp x; y = of_int (round_even (x / pow2 k)) * pow2 k in
     if y < pow2 1024 then Fin y else Inf False)"

definition neg64 :: "f64 \<Rightarrow> f64" where
  "neg64 x = (case x of NaN \<Rightarrow> NaN | Inf s \<Rightarrow> Inf (\<not> s) | Fin y \<Rightarrow> Fin (- y))"

definition rnd64 :: "rat \<Rightarrow> f64" where
  "rnd64 x = (if x < 0 then neg64 (rnd64_pos (- x)) else rnd64_pos x)"

section \<open>Operations\<close>

definition lt64 :: "f64 \<Rightarrow> f64 \<Rightarrow> bool" where
  "lt64 a b = (case (a, b) of
     (NaN, _) \<Rightarrow> False | (_, NaN) \<Rightarrow> False
   | (Inf s, Inf t) \<Rightarrow> s \<and> \<not> t
   | (Inf s, Fin _) \<Rightarrow> s
   | (Fin _, Inf t) \<Rightarrow> \<not> t
   | (Fin x, Fin y) \<Rightarrow> x < y)"

definition eq64 :: "f64 \<Rightarrow> f64 \<Rightarrow> bool" where
  "eq64 a b \<longleftrightarrow> a = b \<and> a \<noteq> NaN"

definition le64 :: "f64 \<Rightarrow> f64 \<Rightarrow> bool" where
  "le64 a b \<longleftrightarrow> lt64 a b \<or> eq64 a b"

definition fadd64 :: "f64 \<Rightarrow> f64 \<Rightarrow> f64" where
  "fadd64 a b = (case (a, b) of
     (NaN, _) \<Rightarrow> NaN | (_, NaN) \<Rightarrow> NaN
   | (Inf s, Inf t) \<Rightarrow> if s = t then Inf s else NaN
   | (Inf s, Fin _) \<Rightarrow> Inf s
   | (Fin _, Inf t) \<Rightarrow> Inf t
   | (Fin x, Fin y) \<Rightarrow> rnd64 (x + y))"

text \<open>Multiplication and division by a positive finite constant \<open>c\<close>, the only ones in the code.\<close>

definition scale64 :: "rat \<Rightarrow> f64 \<Rightarrow> f64" where
  "scale64 c a = (case a of NaN \<Rightarrow> NaN | Inf s \<Rightarrow> Inf s | Fin x \<Rightarrow> rnd64 (c * x))"

text \<open>A fused \<open>c * a + b\<close>: one rounding instead of two.\<close>

definition fma64 :: "rat \<Rightarrow> f64 \<Rightarrow> f64 \<Rightarrow> f64" where
  "fma64 c a b = (case (a, b) of
     (Fin x, Fin y) \<Rightarrow> rnd64 (c * x + y)
   | _ \<Rightarrow> fadd64 a b)"

definition abs64 :: "f64 \<Rightarrow> f64" where
  "abs64 a = (case a of NaN \<Rightarrow> NaN | Inf s \<Rightarrow> Inf False | Fin x \<Rightarrow> Fin \<bar>x\<bar>)"

definition is_nan :: "f64 \<Rightarrow> bool" where "is_nan a \<longleftrightarrow> a = NaN"

definition is_inf :: "f64 \<Rightarrow> bool" where "is_inf a \<longleftrightarrow> (\<exists>s \<in> {True, False}. a = Inf s)"

section \<open>Signs\<close>

text \<open>Non-negative: not NaN and not below zero.\<close>

definition nonneg :: "f64 \<Rightarrow> bool" where
  "nonneg a = (case a of NaN \<Rightarrow> False | Inf s \<Rightarrow> \<not> s | Fin x \<Rightarrow> 0 \<le> x)"

named_theorems nonneg_intro

lemma pow2_pos [simp]: "0 < pow2 k"
  by (simp add: pow2_def)

lemma round_even_nonneg: "0 \<le> x \<Longrightarrow> 0 \<le> round_even x"
  by (auto simp: round_even_def Let_def)

lemma rnd64_nonneg [nonneg_intro]: "0 \<le> x \<Longrightarrow> nonneg (rnd64 x)"
  using pow2_pos [of "ulp_exp x"] round_even_nonneg [of "x / pow2 (ulp_exp x)"]
  by (simp add: rnd64_def rnd64_pos_def Let_def nonneg_def less_imp_le)

lemma fadd64_nonneg [nonneg_intro]: "nonneg a \<Longrightarrow> nonneg b \<Longrightarrow> nonneg (fadd64 a b)"
  by (cases a; cases b) (auto simp: fadd64_def nonneg_def dest: rnd64_nonneg [unfolded nonneg_def]
      intro: rnd64_nonneg [unfolded nonneg_def])

lemma scale64_nonneg [nonneg_intro]: "0 \<le> c \<Longrightarrow> nonneg a \<Longrightarrow> nonneg (scale64 c a)"
  by (cases a) (auto simp: scale64_def nonneg_def intro: rnd64_nonneg [unfolded nonneg_def])

lemma fma64_nonneg [nonneg_intro]: "0 \<le> c \<Longrightarrow> nonneg a \<Longrightarrow> nonneg b \<Longrightarrow> nonneg (fma64 c a b)"
proof (cases a; cases b)
  fix x y assume "0 \<le> c" "nonneg a" "nonneg b" "a = Fin x" "b = Fin y"
  then show ?thesis by (auto simp: fma64_def nonneg_def intro!: rnd64_nonneg [unfolded nonneg_def])
qed (auto simp: fma64_def fadd64_def nonneg_def)

lemma lt64_zero: "lt64 a (Fin 0) \<longleftrightarrow> a \<noteq> NaN \<and> \<not> nonneg a"
  by (cases a) (auto simp: lt64_def nonneg_def)

lemma rnd64_zero [simp]: "rnd64 0 = Fin 0"
proof -
  have "round_even 0 = 0" by (simp add: round_even_def)
  then show ?thesis by (simp add: rnd64_def rnd64_pos_def Let_def pow2_def)
qed

text \<open>Rounding does not leave the finite values below \<open>2 ^ 971\<close>.\<close>

lemma pow2_mono: "j \<le> k \<Longrightarrow> pow2 j \<le> pow2 k"
proof -
  assume jk: "j \<le> k"
  have p: "pow2 (j + int n) = pow2 j * 2 ^ n" for n
  proof (induction n)
    case (Suc n)
    have "pow2 (i + 1) = 2 * pow2 i" for i
    proof (cases "0 \<le> i")
      case True
      then show ?thesis by (simp add: pow2_def nat_add_distrib)
    next
      case False
      then have "nat (- i) = Suc (nat (- (i + 1)))" by simp
      then show ?thesis using False by (cases "i = - 1") (simp_all add: pow2_def)
    qed
    from this [of "j + int n"] Suc show ?case by (simp add: ac_simps)
  qed (simp add: pow2_def)
  have "pow2 k = pow2 j * 2 ^ nat (k - j)" using p [of "nat (k - j)"] jk by simp
  moreover have "pow2 j * 1 \<le> pow2 j * 2 ^ nat (k - j)" by (intro mult_left_mono) (simp_all add: less_imp_le)
  ultimately show ?thesis by simp
qed

lemma find_in_set: "find P xs = Some k \<Longrightarrow> k \<in> set xs"
  by (induction xs) (auto split: if_splits)

lemma ulp_exp_le: "ulp_exp x \<le> 971"
proof (cases "find (\<lambda>k. x < pow2 (53 + k)) [-1074..971]")
  case (Some k)
  have "k \<in> {-1074..971}" using find_in_set [OF Some] by (simp only: set_upto)
  then show ?thesis unfolding ulp_exp_def Some by simp
next
  case None
  show ?thesis unfolding ulp_exp_def None by simp
qed

lemma round_even_le: "of_int (round_even x) \<le> x + 1"
  by (simp add: round_even_def Let_def) linarith

lemma rnd64_finite:
  assumes "0 \<le> x" and "x \<le> 2 ^ 971"
  shows "\<exists>y. rnd64 x = Fin y \<and> 0 \<le> y"
proof -
  let ?p = "pow2 (ulp_exp x)"
  have p: "?p \<le> 2 ^ 971" using pow2_mono [OF ulp_exp_le [of x]] by (simp add: pow2_def)
  have "of_int (round_even (x / ?p)) * ?p \<le> (x / ?p + 1) * ?p"
    by (intro mult_right_mono round_even_le) (simp add: less_imp_le)
  also have "\<dots> = x + ?p"
  proof -
    have "?p \<noteq> 0" using pow2_pos [of "ulp_exp x"] by (metis less_irrefl)
    then show ?thesis by (simp add: distrib_right)
  qed
  also have "\<dots> \<le> 2 * 2 ^ 971" using assms(2) p by simp
  also have "\<dots> < pow2 1024"
  proof -
    have "(2 :: rat) * 2 ^ 971 = 2 ^ 972" by (simp only: power_Suc [symmetric]) simp
    also have "\<dots> < 2 ^ 1024" by (rule power_strict_increasing) simp_all
    finally show ?thesis by (simp only: pow2_def) simp
  qed
  finally have "rnd64 x = Fin (of_int (round_even (x / ?p)) * ?p)"
    using assms(1) by (simp add: rnd64_def rnd64_pos_def Let_def)
  then show ?thesis
    using round_even_nonneg [of "x / ?p"] assms(1) pow2_pos [of "ulp_exp x"] by (simp add: less_imp_le)
qed

text \<open>Small integers are represented exactly.\<close>

lemma find_sorted: "sorted xs \<Longrightarrow> j \<in> set xs \<Longrightarrow> P j \<Longrightarrow> \<exists>k. find P xs = Some k \<and> k \<le> j"
  by (induction xs) auto

lemma ulp_exp_least:
  assumes "-1074 \<le> j" and "j \<le> 971" and "x < pow2 (53 + j)"
  shows "ulp_exp x \<le> j"
proof -
  have "sorted [-1074..971 :: int]" by (rule sorted_upto)
  moreover have "j \<in> set [-1074..971]" using assms(1,2) by (simp only: set_upto atLeastAtMost_iff)
  ultimately obtain k where k: "find (\<lambda>k. x < pow2 (53 + k)) [-1074..971] = Some k" "k \<le> j"
    using find_sorted [of "[-1074..971]" j "\<lambda>k. x < pow2 (53 + k)"] assms(3) by blast
  show ?thesis unfolding ulp_exp_def k(1) using k(2) by simp
qed

lemma rnd64_of_nat:
  assumes "n < 2 ^ 53"
  shows "rnd64 (of_nat n) = Fin (of_nat n)"
proof -
  let ?k = "ulp_exp (of_nat n)"
  have n: "(of_nat n :: rat) < 2 ^ 53" using assms by (metis of_nat_less_iff of_nat_numeral of_nat_power)
  then have k: "?k \<le> 0" by (intro ulp_exp_least) (simp_all add: pow2_def)
  define m where "m = nat (- ?k)"
  have p: "pow2 ?k = 1 / 2 ^ m" using k by (auto simp: pow2_def m_def)
  have int: "of_nat n / pow2 ?k = of_int (int n * 2 ^ m)" by (simp add: p)
  have "round_even (of_int i) = i" for i by (simp add: round_even_def)
  then have r: "round_even (of_nat n / pow2 ?k) = int n * 2 ^ m" unfolding int .
  have y: "of_int (int n * 2 ^ m) * pow2 ?k = of_nat n" by (simp add: p)
  have "(2 :: rat) ^ 53 < 2 ^ 1024" by (rule power_strict_increasing) simp_all
  then have "(of_nat n :: rat) < pow2 1024" using n by (simp add: pow2_def)
  then show ?thesis by (simp only: rnd64_def rnd64_pos_def Let_def r y) simp
qed

lemma rnd64_le:
  assumes "0 \<le> x" and "x < 2"
  shows "\<exists>y. rnd64 x = Fin y \<and> 0 \<le> y \<and> y \<le> x + 1 / 2 ^ 52"
proof -
  have "x \<le> 2 ^ 971"
  proof -
    have "x \<le> 2 ^ 1" using assms(2) by simp
    also have "\<dots> \<le> 2 ^ 971" by (rule power_increasing) simp_all
    finally show ?thesis .
  qed
  then obtain y where y: "rnd64 x = Fin y" "0 \<le> y" using rnd64_finite assms(1) by blast
  let ?p = "pow2 (ulp_exp x)"
  have "ulp_exp x \<le> -52" using assms(2) by (intro ulp_exp_least) (simp_all add: pow2_def)
  then have p: "?p \<le> 1 / 2 ^ 52" using pow2_mono [of "ulp_exp x" "-52"] by (simp add: pow2_def)
  have ne: "?p \<noteq> 0" using pow2_pos [of "ulp_exp x"] by (metis less_irrefl)
  have "y = of_int (round_even (x / ?p)) * ?p"
    using y(1) assms(1) by (simp add: rnd64_def rnd64_pos_def Let_def split: if_splits)
  also have "\<dots> \<le> (x / ?p + 1) * ?p"
    by (intro mult_right_mono round_even_le) (simp add: less_imp_le)
  also have "\<dots> = x + ?p" using ne by (simp add: distrib_right)
  finally show ?thesis using y p by auto
qed

end
