(* ===== verification/AtomicCell.thy ===== *)
theory AtomicCell
  imports Prelude
begin

text \<open>
  \<open>atomic.Pointer\<close> with compare-and-swap loops, as \<open>src/common/a_star\<close> uses it in \<open>rtt.go\<close>,
  \<open>weight.go\<close> and \<open>config.go\<close>: a cell holds the address of an immutable snapshot; an update loads
  the address, builds a new snapshot from the one it points to and swaps the addresses if the cell
  has not changed, else tries again. Goroutines take these steps in any order.

  What an update makes of a snapshot is the argument \<open>upd\<close>; \<open>None\<close> is a return without a swap.
  \<open>direct\<close> tells the updates that store their snapshot without a loop.
\<close>

section \<open>Goroutines on a cell\<close>

text \<open>
  \<open>heap\<close> holds every snapshot ever allocated, \<open>cur\<close> is the cell. A goroutine has the updates it is
  still to do and, between the load and the swap, the address it has loaded. \<open>history\<close> is the order in
  which the updates took effect, with the goroutine of each.
\<close>

record ('v, 'u) cell =
  heap :: "'v list"
  cur :: nat
  todo :: "nat \<Rightarrow> 'u list"
  loaded :: "nat \<Rightarrow> nat option"
  history :: "(nat \<times> 'u) list"

definition snapshot :: "('v, 'u) cell \<Rightarrow> 'v" where
  "snapshot c = heap c ! cur c"

definition initial :: "'v \<Rightarrow> (nat \<Rightarrow> 'u list) \<Rightarrow> ('v, 'u) cell" where
  "initial v prog = \<lparr>heap = [v], cur = 0, todo = prog, loaded = (\<lambda>_. None), history = []\<rparr>"

text \<open>The update \<open>u\<close> at the head of goroutine \<open>i\<close>'s list is done.\<close>

definition finish :: "nat \<Rightarrow> 'u \<Rightarrow> ('v, 'u) cell \<Rightarrow> ('v, 'u) cell" where
  "finish i u c = c\<lparr>todo := (todo c)(i := tl (todo c i)), loaded := (loaded c)(i := None), history := history c @ [(i, u)]\<rparr>"

text \<open>A freshly allocated snapshot becomes the cell's.\<close>

definition publish :: "'v \<Rightarrow> ('v, 'u) cell \<Rightarrow> ('v, 'u) cell" where
  "publish v c = c\<lparr>heap := heap c @ [v], cur := length (heap c)\<rparr>"

text \<open>
  One step of goroutine \<open>i\<close>: the load (after which an update without effect returns), the swap, which
  allocates the new snapshot and succeeds or fails, or the direct store.
\<close>

definition cell_step ::
  "('u \<Rightarrow> 'v \<Rightarrow> 'v option) \<Rightarrow> ('u \<Rightarrow> bool) \<Rightarrow> nat \<Rightarrow> ('v, 'u) cell \<Rightarrow> ('v, 'u) cell option" where
  "cell_step upd direct i c =
     (case todo c i of
        [] \<Rightarrow> None
      | u # us \<Rightarrow>
          (case loaded c i of
             None \<Rightarrow>
               (case upd u (snapshot c) of
                  None \<Rightarrow> Some (finish i u c)
                | Some v \<Rightarrow> if direct u then Some (finish i u (publish v c))
                             else Some (c\<lparr>loaded := (loaded c)(i \<mapsto> cur c)\<rparr>))
           | Some a \<Rightarrow>
               (case upd u (heap c ! a) of
                  None \<Rightarrow> None
                | Some v \<Rightarrow>
                    if cur c = a then Some (finish i u (publish v c))
                    else Some (c\<lparr>heap := heap c @ [v], loaded := (loaded c)(i := None)\<rparr>))))"

inductive cell_run ::
  "('u \<Rightarrow> 'v \<Rightarrow> 'v option) \<Rightarrow> ('u \<Rightarrow> bool) \<Rightarrow> ('v, 'u) cell \<Rightarrow> ('v, 'u) cell \<Rightarrow> bool"
  for upd direct where
  run_refl: "cell_run upd direct c c"
| run_step: "cell_run upd direct c c' \<Longrightarrow> cell_step upd direct i c' = Some c'' \<Longrightarrow> cell_run upd direct c c''"

text \<open>A schedule that is run to its end.\<close>

lemma foldl_run:
  "foldl (\<lambda>c i. Option.bind c (cell_step upd direct i)) (Some c0) is = Some c \<Longrightarrow> cell_run upd direct c0 c"
proof (induction "is" arbitrary: c rule: rev_induct)
  case (snoc i "is")
  then show ?case by (auto simp: bind_Some_iff intro: run_step)
qed (simp add: run_refl)

section \<open>Linearizability\<close>

definition effect :: "('u \<Rightarrow> 'v \<Rightarrow> 'v option) \<Rightarrow> nat \<times> 'u \<Rightarrow> 'v \<Rightarrow> 'v" where
  "effect upd iu v = (case upd (snd iu) v of None \<Rightarrow> v | Some v' \<Rightarrow> v')"

definition replay :: "('u \<Rightarrow> 'v \<Rightarrow> 'v option) \<Rightarrow> (nat \<times> 'u) list \<Rightarrow> 'v \<Rightarrow> 'v" where
  "replay upd l v = foldl (\<lambda>v iu. effect upd iu v) v l"

definition done_by :: "nat \<Rightarrow> (nat \<times> 'u) list \<Rightarrow> 'u list" where
  "done_by i l = map snd (filter (\<lambda>x. fst x = i) l)"

text \<open>
  The invariant: the cell's snapshot is the history replayed on the initial one, every loaded address
  points to a snapshot on which the pending update has an effect, and each goroutine has done its
  program in order.
\<close>

definition cell_inv ::
  "('u \<Rightarrow> 'v \<Rightarrow> 'v option) \<Rightarrow> 'v \<Rightarrow> (nat \<Rightarrow> 'u list) \<Rightarrow> ('v, 'u) cell \<Rightarrow> bool" where
  "cell_inv upd v0 prog c \<longleftrightarrow>
     cur c < length (heap c) \<and> snapshot c = replay upd (history c) v0
     \<and> (\<forall>i. done_by i (history c) @ todo c i = prog i)
     \<and> (\<forall>i a. loaded c i = Some a \<longrightarrow> a < length (heap c) \<and> todo c i \<noteq> [] \<and> upd (hd (todo c i)) (heap c ! a) \<noteq> None)"

lemma cell_invD:
  assumes "cell_inv upd v0 prog c"
  shows "cur c < length (heap c)" and "snapshot c = replay upd (history c) v0"
    and "done_by i (history c) @ todo c i = prog i"
    and "loaded c i = Some a \<Longrightarrow> a < length (heap c) \<and> todo c i \<noteq> [] \<and> upd (hd (todo c i)) (heap c ! a) \<noteq> None"
  using assms by (simp_all add: cell_inv_def)

lemma cell_inv_initial: "cell_inv upd v prog (initial v prog)"
  by (simp add: cell_inv_def initial_def snapshot_def replay_def done_by_def)

lemma done_by_append: "done_by i (l @ [(j, u)]) = done_by i l @ (if i = j then [u] else [])"
  by (simp add: done_by_def)

lemma replay_append: "replay upd (l @ [x]) v = effect upd x (replay upd l v)"
  by (simp add: replay_def)

lemma snapshot_finish [simp]: "snapshot (finish i u c) = snapshot c"
  by (simp add: snapshot_def finish_def)

lemma snapshot_publish [simp]: "snapshot (publish v c) = v"
  by (simp add: snapshot_def publish_def)

lemma finish_publish_inv:
  assumes inv: "cell_inv upd v0 prog c" and u: "todo c i = u # us" and v: "upd u (snapshot c) = Some v"
  shows "cell_inv upd v0 prog (finish i u (publish v c))"
proof -
  have "done_by j (history c @ [(i, u)]) @ ((todo c)(i := us)) j = prog j" for j
    using cell_invD(3) [OF inv, of j] u by (cases "j = i") (simp_all add: done_by_append)
  moreover have "v = replay upd (history c @ [(i, u)]) v0"
    using inv v by (simp add: cell_inv_def replay_append effect_def)
  ultimately show ?thesis
    using inv u by (auto simp: cell_inv_def finish_def publish_def snapshot_def nth_append intro: less_SucI)
qed

lemma finish_inv:
  assumes inv: "cell_inv upd v0 prog c" and u: "todo c i = u # us" and n: "upd u (snapshot c) = None"
  shows "cell_inv upd v0 prog (finish i u c)"
proof -
  have "done_by j (history c @ [(i, u)]) @ ((todo c)(i := us)) j = prog j" for j
    using cell_invD(3) [OF inv, of j] u by (cases "j = i") (simp_all add: done_by_append)
  moreover have "snapshot c = replay upd (history c @ [(i, u)]) v0"
    using inv n by (simp add: cell_inv_def replay_append effect_def)
  ultimately show ?thesis
    using inv u by (auto simp: cell_inv_def finish_def snapshot_def)
qed

lemma cell_step_inv:
  assumes inv: "cell_inv upd v0 prog c" and s: "cell_step upd direct i c = Some c'"
  shows "cell_inv upd v0 prog c'"
proof -
  obtain u us where u: "todo c i = u # us"
    using s by (auto simp: cell_step_def split: list.splits)
  show ?thesis
  proof (cases "loaded c i")
    case None
    show ?thesis
    proof (cases "upd u (snapshot c)")
      case none: None
      then show ?thesis using s finish_inv [OF inv u none] by (simp add: cell_step_def u None)
    next
      case (Some v)
      show ?thesis
      proof (cases "direct u")
        case True
        then show ?thesis using s finish_publish_inv [OF inv u Some] by (simp add: cell_step_def u None Some)
      next
        case False
        then have "c' = c\<lparr>loaded := (loaded c)(i \<mapsto> cur c)\<rparr>" using s by (simp add: cell_step_def u None Some)
        then show ?thesis using inv u Some by (auto simp: cell_inv_def snapshot_def)
      qed
    qed
  next
    case (Some a)
    have a: "upd u (heap c ! a) \<noteq> None" using cell_invD(4) [OF inv Some] u by simp
    then obtain v where v: "upd u (heap c ! a) = Some v" by blast
    show ?thesis
    proof (cases "cur c = a")
      case True
      then have "upd u (snapshot c) = Some v" using v by (simp add: snapshot_def)
      from finish_publish_inv [OF inv u this] show ?thesis using s by (simp add: cell_step_def u Some v True)
    next
      case False
      then have "c' = c\<lparr>heap := heap c @ [v], loaded := (loaded c)(i := None)\<rparr>"
        using s by (simp add: cell_step_def u Some v)
      then show ?thesis using inv by (auto simp: cell_inv_def snapshot_def nth_append intro: less_SucI)
    qed
  qed
qed

lemma cell_run_inv: "cell_run upd direct c c' \<Longrightarrow> cell_inv upd v0 prog c \<Longrightarrow> cell_inv upd v0 prog c'"
  by (induction rule: cell_run.induct) (auto intro: cell_step_inv)

text \<open>
  Whatever the interleaving: the snapshot is that of the updates done one after the other in some
  order that keeps the order of each goroutine.
\<close>

lemma cell_linearizable:
  assumes "cell_run upd direct (initial v prog) c"
  shows "snapshot c = replay upd (history c) v" and "done_by i (history c) @ todo c i = prog i"
  using cell_run_inv [OF assms cell_inv_initial] by (simp_all add: cell_inv_def)

section \<open>Progress\<close>

text \<open>A goroutine that runs alone completes its update: at most a failing swap, a load and a swap.\<close>

lemma cell_alone:
  assumes inv: "cell_inv upd v0 prog c" and u: "todo c i = u # us"
  shows "\<exists>c'. (cell_step upd direct i c = Some c'
      \<or> (\<exists>c1. cell_step upd direct i c = Some c1 \<and> cell_step upd direct i c1 = Some c')
      \<or> (\<exists>c1 c2. cell_step upd direct i c = Some c1 \<and> cell_step upd direct i c1 = Some c2
           \<and> cell_step upd direct i c2 = Some c'))
    \<and> todo c' i = us \<and> history c' = history c @ [(i, u)]"
proof -
  have two: "\<exists>c'. (cell_step upd direct i d = Some c'
      \<or> (\<exists>c1. cell_step upd direct i d = Some c1 \<and> cell_step upd direct i c1 = Some c'))
    \<and> todo c' i = us \<and> history c' = history d @ [(i, u)]"
    if d: "todo d i = u # us" "loaded d i = None" for d
  proof (cases "upd u (snapshot d)")
    case None
    then have "cell_step upd direct i d = Some (finish i u d)" using d by (simp add: cell_step_def)
    then show ?thesis using d by (intro exI [of _ "finish i u d"]) (simp add: finish_def)
  next
    case (Some v)
    show ?thesis
    proof (cases "direct u")
      case True
      then have "cell_step upd direct i d = Some (finish i u (publish v d))" using d Some by (simp add: cell_step_def)
      then show ?thesis using d
        by (intro exI [of _ "finish i u (publish v d)"]) (simp add: finish_def publish_def)
    next
      case False
      let ?d1 = "d\<lparr>loaded := (loaded d)(i \<mapsto> cur d)\<rparr>"
      have "cell_step upd direct i d = Some ?d1" using d Some False by (simp add: cell_step_def)
      moreover have "cell_step upd direct i ?d1 = Some (finish i u (publish v ?d1))"
        using d Some by (simp add: cell_step_def snapshot_def)
      ultimately show ?thesis using d
        by (intro exI [of _ "finish i u (publish v ?d1)"]) (simp add: finish_def publish_def)
    qed
  qed
  show ?thesis
  proof (cases "loaded c i")
    case None
    from two [OF u None] show ?thesis by blast
  next
    case (Some a)
    then obtain v where v: "upd u (heap c ! a) = Some v" using cell_invD(4) [OF inv Some] u by auto
    show ?thesis
    proof (cases "cur c = a")
      case True
      then have "cell_step upd direct i c = Some (finish i u (publish v c))"
        using u Some v by (simp add: cell_step_def)
      then show ?thesis using u
        by (intro exI [of _ "finish i u (publish v c)"]) (simp add: finish_def publish_def)
    next
      case False
      let ?c1 = "c\<lparr>heap := heap c @ [v], loaded := (loaded c)(i := None)\<rparr>"
      have s: "cell_step upd direct i c = Some ?c1" using u Some v False by (simp add: cell_step_def)
      have "todo ?c1 i = u # us" "loaded ?c1 i = None" "history ?c1 = history c" using u by simp_all
      from two [OF this(1,2)] this(3) s show ?thesis by auto
    qed
  qed
qed

section \<open>The clients' interface\<close>

text \<open>
  A client has a property \<open>ok\<close> of its snapshots that every update keeps; then every snapshot that any
  goroutine ever reads has it.
\<close>

locale cell_client =
  fixes upd :: "'u \<Rightarrow> 'v \<Rightarrow> 'v option" and ok :: "'v \<Rightarrow> bool"
  assumes upd_ok: "ok v \<Longrightarrow> upd u v = Some v' \<Longrightarrow> ok v'"
begin

lemma effect_ok: "ok v \<Longrightarrow> ok (effect upd x v)"
  by (auto simp: effect_def intro: upd_ok split: option.split)

lemma replay_ok: "ok v \<Longrightarrow> ok (replay upd l v)"
  by (induction l arbitrary: v) (simp_all add: replay_def effect_ok)

lemma snapshot_ok: "cell_run upd direct (initial v prog) c \<Longrightarrow> ok v \<Longrightarrow> ok (snapshot c)"
  using cell_linearizable(1) replay_ok by metis

end

end
