(* ===== verification/Telemetry.thy ===== *)
theory Telemetry
  imports AtomicCell Float64
begin

text \<open>
  The telemetry of \<open>src/common/a_star\<close>: the smoothed round-trip time (\<open>rtt.go\<close>) and the four
  measures of a node (\<open>weight.go\<close>), each a snapshot behind an \<open>atomic.Pointer\<close>.
\<close>

section \<open>Round-trip time\<close>

record rttMetrics =
  RttOld :: f64
  RttNew :: f64
  RttSmoothed :: f64
  RttCoefficient :: f64

definition coefficientA :: rat where "coefficientA = 1 / 8"
definition maxPing :: rat where "maxPing = 500"

definition newRtt :: rttMetrics where
  "newRtt = \<lparr>RttOld = Fin 0, RttNew = Fin 0, RttSmoothed = Fin 0, RttCoefficient = Fin 0\<rparr>"

definition isValidRtt :: "f64 \<Rightarrow> bool" where
  "isValidRtt val \<longleftrightarrow> \<not> is_nan val \<and> \<not> is_inf val \<and> le64 (Fin 0) val"

text \<open>
  Go may compute \<open>x * y + z\<close> with one rounding; the argument says whether, and which product.
\<close>

datatype fusing = Unfused | FusedFirst | FusedSecond

definition smoothed :: "fusing \<Rightarrow> f64 \<Rightarrow> f64 \<Rightarrow> f64" where
  "smoothed fz rttOld rttNew =
     (case fz of
        Unfused \<Rightarrow> fadd64 (scale64 (1 - coefficientA) rttOld) (scale64 coefficientA rttNew)
      | FusedFirst \<Rightarrow> fma64 (1 - coefficientA) rttOld (scale64 coefficientA rttNew)
      | FusedSecond \<Rightarrow> fma64 coefficientA rttNew (scale64 (1 - coefficientA) rttOld))"

definition coefficient :: "f64 \<Rightarrow> f64" where
  "coefficient rttSmoothed = (let c = scale64 (1 / maxPing) rttSmoothed in
     if lt64 (Fin 1) c then Fin 1 else if lt64 c (Fin 0) then Fin 0 else c)"

datatype rttOp = UpdateRttOld f64 | UpdateRtt f64

fun rtt_upd :: "fusing \<Rightarrow> rttOp \<Rightarrow> rttMetrics \<Rightarrow> rttMetrics option" where
  "rtt_upd fz (UpdateRttOld val) current =
     (if \<not> isValidRtt val then None else Some (current\<lparr>RttOld := val\<rparr>))"
| "rtt_upd fz (UpdateRtt rttNew) current =
     (if \<not> isValidRtt rttNew then None
      else let old = (if eq64 (RttSmoothed current) (Fin 0) then RttOld current else RttSmoothed current);
               s = smoothed fz old rttNew in
        Some \<lparr>RttOld = old, RttNew = rttNew, RttSmoothed = s, RttCoefficient = coefficient s\<rparr>)"

definition getRtt :: "(rttMetrics, rttOp) cell \<Rightarrow> rttMetrics" where "getRtt c = snapshot c"

definition rtt_ok :: "rttMetrics \<Rightarrow> bool" where
  "rtt_ok m \<longleftrightarrow> nonneg (RttOld m) \<and> nonneg (RttSmoothed m) \<and> isValidRtt (RttNew m)
     \<and> le64 (Fin 0) (RttCoefficient m) \<and> le64 (RttCoefficient m) (Fin 1)"

lemma isValidRtt_nonneg: "isValidRtt val \<Longrightarrow> nonneg val"
  by (cases val) (auto simp: isValidRtt_def is_nan_def is_inf_def le64_def lt64_def eq64_def nonneg_def)

lemma isValidRtt_zero [simp]: "isValidRtt (Fin 0)"
  by (simp add: isValidRtt_def is_nan_def is_inf_def le64_def eq64_def)

lemma smoothed_nonneg: "nonneg a \<Longrightarrow> nonneg b \<Longrightarrow> nonneg (smoothed fz a b)"
  by (cases fz) (auto simp: smoothed_def coefficientA_def intro!: nonneg_intro)

lemma coefficient_range:
  assumes "nonneg s"
  shows "le64 (Fin 0) (coefficient s) \<and> le64 (coefficient s) (Fin 1)"
proof -
  have "nonneg (scale64 (1 / maxPing) s)" using assms by (intro scale64_nonneg) (simp_all add: maxPing_def)
  then show ?thesis
    by (cases "scale64 (1 / maxPing) s") (auto simp: coefficient_def Let_def le64_def lt64_def eq64_def nonneg_def)
qed

lemma rtt_upd_ok: "rtt_ok m \<Longrightarrow> rtt_upd fz u m = Some m' \<Longrightarrow> rtt_ok m'"
  by (cases u) (auto simp: rtt_ok_def Let_def isValidRtt_nonneg smoothed_nonneg coefficient_range
      split: if_splits)

interpretation rtt: cell_client "rtt_upd fz" rtt_ok
  by unfold_locales (rule rtt_upd_ok)

lemma newRtt_ok: "rtt_ok newRtt"
  by (simp add: rtt_ok_def newRtt_def nonneg_def le64_def lt64_def eq64_def)

text \<open>
  C33. However many goroutines update a round-trip time, with any values, NaN,
  infinities and negative ones included, every snapshot ever read has a coefficient between 0 and 1,
  a valid last sample, and a smoothed value that is neither NaN nor negative.
\<close>

theorem rtt_coefficient_range:
  assumes "cell_run (rtt_upd fz) (\<lambda>_. False) (initial newRtt prog) c"
  shows "le64 (Fin 0) (RttCoefficient (snapshot c)) \<and> le64 (RttCoefficient (snapshot c)) (Fin 1)
    \<and> isValidRtt (RttNew (snapshot c)) \<and> nonneg (RttSmoothed (snapshot c)) \<and> nonneg (RttOld (snapshot c))"
  using rtt.snapshot_ok [OF assms newRtt_ok] by (simp add: rtt_ok_def)

definition demo_rtt_prog :: "nat \<Rightarrow> rttOp list" where
  "demo_rtt_prog i = (if i < 2 then [UpdateRtt NaN] else [])"

theorem rtt_coefficient_range_witness:
  "\<exists>c. cell_run (rtt_upd Unfused) (\<lambda>_. False) (initial newRtt demo_rtt_prog) c
    \<and> todo c 0 = [] \<and> le64 (RttCoefficient (snapshot c)) (Fin 1)"
proof -
  let ?c0 = "initial newRtt demo_rtt_prog"
  have "cell_step (rtt_upd Unfused) (\<lambda>_. False) 0 ?c0 = Some (finish 0 (UpdateRtt NaN) ?c0)"
    by (simp add: cell_step_def initial_def demo_rtt_prog_def isValidRtt_def is_nan_def)
  then have r: "cell_run (rtt_upd Unfused) (\<lambda>_. False) ?c0 (finish 0 (UpdateRtt NaN) ?c0)"
    by (rule run_step [OF run_refl])
  from rtt_coefficient_range [OF r] r show ?thesis
    by (intro exI [of _ "finish 0 (UpdateRtt NaN) ?c0"]) (simp add: finish_def initial_def demo_rtt_prog_def)
qed

section \<open>Telemetry of a node\<close>

record telemetrySnapshot =
  Loss :: f64
  Rtt :: f64
  Load :: f64
  Energy :: f64

definition maxLoss :: rat where "maxLoss = 1"

definition newGMetrics :: telemetrySnapshot where
  "newGMetrics = \<lparr>Loss = Fin 0, Rtt = Fin 0, Load = Fin 0, Energy = Fin 0\<rparr>"

definition isValidTelemetry :: "f64 \<Rightarrow> bool" where
  "isValidTelemetry val \<longleftrightarrow> \<not> is_nan val \<and> \<not> is_inf val"

datatype gOp = UpdateLoss f64 | UpdateRttT f64 | UpdateLoad f64 | UpdateEnergy f64

fun g_upd :: "gOp \<Rightarrow> telemetrySnapshot \<Rightarrow> telemetrySnapshot option" where
  "g_upd (UpdateLoss val) current =
     (if \<not> isValidTelemetry val \<or> lt64 val (Fin 0) \<or> lt64 (Fin maxLoss) val then None
      else Some \<lparr>Loss = val, Rtt = Rtt current, Load = Load current, Energy = Energy current\<rparr>)"
| "g_upd (UpdateRttT val) current =
     (if \<not> isValidTelemetry val \<or> lt64 val (Fin 0) then None
      else Some \<lparr>Loss = Loss current, Rtt = val, Load = Load current, Energy = Energy current\<rparr>)"
| "g_upd (UpdateLoad val) current =
     (if \<not> isValidTelemetry val \<or> lt64 val (Fin 0) \<or> lt64 (Fin 1) val then None
      else Some \<lparr>Loss = Loss current, Rtt = Rtt current, Load = val, Energy = Energy current\<rparr>)"
| "g_upd (UpdateEnergy val) current =
     (if \<not> isValidTelemetry val \<or> lt64 val (Fin 0) \<or> lt64 (Fin 1) val then None
      else Some \<lparr>Loss = Loss current, Rtt = Rtt current, Load = Load current, Energy = val\<rparr>)"

text \<open>A finite value of at least 0, and at most \<open>b\<close> if there is a bound.\<close>

fun in_range :: "rat option \<Rightarrow> f64 \<Rightarrow> bool" where
  "in_range b (Fin x) = (0 \<le> x \<and> (case b of None \<Rightarrow> True | Some y \<Rightarrow> x \<le> y))"
| "in_range b _ = False"

definition g_ok :: "telemetrySnapshot \<Rightarrow> bool" where
  "g_ok m \<longleftrightarrow> in_range (Some 1) (Loss m) \<and> in_range None (Rtt m) \<and> in_range (Some 1) (Load m)
     \<and> in_range (Some 1) (Energy m)"

text \<open>The tests of the code accept exactly the values in range.\<close>

lemma g_upd_accepts:
  "g_upd (UpdateLoss val) m = (if in_range (Some 1) val then Some (m\<lparr>Loss := val\<rparr>) else None)"
  "g_upd (UpdateRttT val) m = (if in_range None val then Some (m\<lparr>Rtt := val\<rparr>) else None)"
  "g_upd (UpdateLoad val) m = (if in_range (Some 1) val then Some (m\<lparr>Load := val\<rparr>) else None)"
  "g_upd (UpdateEnergy val) m = (if in_range (Some 1) val then Some (m\<lparr>Energy := val\<rparr>) else None)"
  by (cases val; auto simp: isValidTelemetry_def is_nan_def is_inf_def lt64_def maxLoss_def)+

declare g_upd.simps [simp del]
declare g_upd_accepts [simp]

lemma g_upd_ok: "g_ok m \<Longrightarrow> g_upd u m = Some m' \<Longrightarrow> g_ok m'"
  by (cases u) (auto simp: g_ok_def split: if_splits)

interpretation gmetrics: cell_client g_upd g_ok
  by unfold_locales (rule g_upd_ok)

lemma newGMetrics_ok: "g_ok newGMetrics"
  by (simp add: g_ok_def newGMetrics_def)

text \<open>The last value that the log gives a field, \<open>v\<close> if there is none.\<close>

definition last_value :: "(gOp \<Rightarrow> f64 option) \<Rightarrow> (nat \<times> gOp) list \<Rightarrow> f64 \<Rightarrow> f64" where
  "last_value field l v = last (v # List.map_filter (field \<circ> snd) l)"

fun loss_of :: "gOp \<Rightarrow> f64 option" where
  "loss_of (UpdateLoss val) = (if in_range (Some 1) val then Some val else None)"
| "loss_of _ = None"

fun rtt_of :: "gOp \<Rightarrow> f64 option" where
  "rtt_of (UpdateRttT val) = (if in_range None val then Some val else None)"
| "rtt_of _ = None"

fun load_of :: "gOp \<Rightarrow> f64 option" where
  "load_of (UpdateLoad val) = (if in_range (Some 1) val then Some val else None)"
| "load_of _ = None"

fun energy_of :: "gOp \<Rightarrow> f64 option" where
  "energy_of (UpdateEnergy val) = (if in_range (Some 1) val then Some val else None)"
| "energy_of _ = None"

lemma last_value_append:
  "last_value field (l @ [x]) v = (case field (snd x) of None \<Rightarrow> last_value field l v | Some y \<Rightarrow> y)"
  by (simp add: last_value_def List.map_filter_def split: option.split)

lemma effect_fields:
  "Loss (effect g_upd x m) = (case loss_of (snd x) of None \<Rightarrow> Loss m | Some y \<Rightarrow> y)"
  "Rtt (effect g_upd x m) = (case rtt_of (snd x) of None \<Rightarrow> Rtt m | Some y \<Rightarrow> y)"
  "Load (effect g_upd x m) = (case load_of (snd x) of None \<Rightarrow> Load m | Some y \<Rightarrow> y)"
  "Energy (effect g_upd x m) = (case energy_of (snd x) of None \<Rightarrow> Energy m | Some y \<Rightarrow> y)"
  by (cases "snd x"; auto simp: effect_def)+

lemma replay_fields:
  "Loss (replay g_upd l m) = last_value loss_of l (Loss m)
   \<and> Rtt (replay g_upd l m) = last_value rtt_of l (Rtt m)
   \<and> Load (replay g_upd l m) = last_value load_of l (Load m)
   \<and> Energy (replay g_upd l m) = last_value energy_of l (Energy m)"
proof (induction l rule: rev_induct)
  case Nil
  then show ?case by (simp add: replay_def last_value_def List.map_filter_simps)
next
  case (snoc x l)
  then show ?case by (auto simp: replay_append last_value_append effect_fields split: option.split)
qed

text \<open>
  C21. Goroutines update the four measures of a node concurrently, in any
  interleaving. There is an order of the updates done so far that keeps the order of each goroutine
  such that every field of the snapshot holds the last accepted value of that field in this order:
  no update is lost to a concurrent one of another field, rejected values change nothing.
\<close>

theorem telemetry_no_lost_update:
  assumes "cell_run g_upd (\<lambda>_. False) (initial newGMetrics prog) c"
  shows "(\<forall>i. done_by i (history c) @ todo c i = prog i)
    \<and> snapshot c = \<lparr>Loss = last_value loss_of (history c) (Fin 0), Rtt = last_value rtt_of (history c) (Fin 0),
         Load = last_value load_of (history c) (Fin 0), Energy = last_value energy_of (history c) (Fin 0)\<rparr>"
proof -
  note l = cell_linearizable [OF assms]
  have "snapshot c = \<lparr>Loss = Loss (snapshot c), Rtt = Rtt (snapshot c), Load = Load (snapshot c),
      Energy = Energy (snapshot c)\<rparr>" by simp
  then show ?thesis using l replay_fields [of "history c" newGMetrics] by (simp add: newGMetrics_def)
qed

definition demo_g_prog :: "nat \<Rightarrow> gOp list" where
  "demo_g_prog i = (if i = 0 then [UpdateLoss (Fin (1 / 2))] else if i = 1 then [UpdateLoad (Fin 1)] else [])"

text \<open>Two goroutines load the same snapshot; the swap of the second one fails and is tried again.\<close>

definition demo_g_run :: "(telemetrySnapshot, gOp) cell option" where
  "demo_g_run = foldl (\<lambda>c i. Option.bind c (cell_step g_upd (\<lambda>_. False) i)) (Some (initial newGMetrics demo_g_prog))
     [0, 1, 0, 1, 1, 1]"

lemma demo_g_run_result:
  "\<exists>c. demo_g_run = Some c \<and> history c = [(0, UpdateLoss (Fin (1 / 2))), (1, UpdateLoad (Fin 1))] \<and> todo c 0 = [] \<and> todo c 1 = []"
  by (simp add: demo_g_run_def cell_step_def initial_def demo_g_prog_def snapshot_def
      finish_def publish_def newGMetrics_def)

theorem telemetry_no_lost_update_witness:
  "\<exists>c. cell_run g_upd (\<lambda>_. False) (initial newGMetrics demo_g_prog) c
    \<and> snapshot c = \<lparr>Loss = Fin (1 / 2), Rtt = Fin 0, Load = Fin 1, Energy = Fin 0\<rparr>"
proof -
  obtain c where c: "demo_g_run = Some c" "history c = [(0, UpdateLoss (Fin (1 / 2))), (1, UpdateLoad (Fin 1))]"
    using demo_g_run_result by blast
  have r: "cell_run g_upd (\<lambda>_. False) (initial newGMetrics demo_g_prog) c"
    using c(1) unfolding demo_g_run_def by (rule foldl_run)
  from telemetry_no_lost_update [OF r] r show ?thesis
    by (intro exI [of _ c]) (simp add: c(2) last_value_def List.map_filter_def)
qed

text \<open>
  At every moment of every interleaving the snapshot holds finite values in their
  ranges: loss, load and energy between 0 and 1, the round-trip time at least 0.
\<close>

theorem telemetry_range:
  assumes "cell_run g_upd (\<lambda>_. False) (initial newGMetrics prog) c"
  shows "in_range (Some 1) (Loss (snapshot c)) \<and> in_range None (Rtt (snapshot c))
    \<and> in_range (Some 1) (Load (snapshot c)) \<and> in_range (Some 1) (Energy (snapshot c))"
  using gmetrics.snapshot_ok [OF assms newGMetrics_ok] by (simp add: g_ok_def)

theorem telemetry_range_witness:
  "in_range (Some 1) (Loss (snapshot (initial newGMetrics demo_g_prog)))"
  using telemetry_range [OF run_refl, of demo_g_prog] by blast

text \<open>
  An update of a goroutine that runs undisturbed completes, from every
  state that any interleaving has led to, in at most three steps: a swap that fails because another
  goroutine has come first, a load and a swap.
\<close>

theorem telemetry_update_completes:
  assumes "cell_run g_upd (\<lambda>_. False) (initial newGMetrics prog) c" and "todo c i = u # us"
  shows "\<exists>n c'. n < 3 \<and> ((\<lambda>c. Option.bind c (cell_step g_upd (\<lambda>_. False) i)) ^^ Suc n) (Some c) = Some c'
    \<and> todo c' i = us \<and> history c' = history c @ [(i, u)]"
proof -
  note inv = cell_run_inv [OF assms(1) cell_inv_initial]
  let ?s = "cell_step g_upd (\<lambda>_. False) i"
  obtain c' where c': "?s c = Some c' \<or> (\<exists>c1. ?s c = Some c1 \<and> ?s c1 = Some c')
      \<or> (\<exists>c1 c2. ?s c = Some c1 \<and> ?s c1 = Some c2 \<and> ?s c2 = Some c')"
    and r: "todo c' i = us" "history c' = history c @ [(i, u)]"
    using cell_alone [OF inv assms(2), of "\<lambda>_. False"] by blast
  from c' show ?thesis
  proof (elim disjE exE conjE)
    assume "?s c = Some c'"
    then show ?thesis using r by (intro exI [of _ 0] exI [of _ c']) simp
  next
    fix c1 assume "?s c = Some c1" "?s c1 = Some c'"
    then show ?thesis using r by (intro exI [of _ 1] exI [of _ c']) simp
  next
    fix c1 c2 assume "?s c = Some c1" "?s c1 = Some c2" "?s c2 = Some c'"
    then show ?thesis using r by (intro exI [of _ 2] exI [of _ c']) (simp add: numeral_2_eq_2)
  qed
qed

theorem telemetry_update_completes_witness:
  "\<exists>n c'. n < 3 \<and> ((\<lambda>c. Option.bind c (cell_step g_upd (\<lambda>_. False) 0)) ^^ Suc n) (Some (initial newGMetrics demo_g_prog)) = Some c'
    \<and> todo c' 0 = []"
  using telemetry_update_completes [OF run_refl, of demo_g_prog 0 "UpdateLoss (Fin (1 / 2))" "[]"]
  by (simp add: initial_def demo_g_prog_def) blast

end
