(* ===== verification/ConfigManager.thy ===== *)
theory ConfigManager
  imports "HOL-Library.Multiset" AtomicCell Float64 Virtio
begin

text \<open>
  \<open>src/common/a_star/config.go\<close>: validating a configuration, \<open>Reload\<close>, \<open>SwitchProfile\<close> and the
  metrics. Go strings from the JSON decoder are lists of code points. A map is an association list
  in the order of an iteration over it, with distinct keys.

  Reading the file and decoding it (\<open>os.ReadFile\<close> and \<open>encoding/json\<close> in strict mode) are
  arguments: \<open>readFile\<close> is an error or the bytes, \<open>decodeRaw\<close> an error or the decoded value and
  whether the second \<open>Decode\<close> answers \<open>io.EOF\<close>.
\<close>

section \<open>Data\<close>

type_synonym gostring = "nat list"

record profileWeights =
  profName :: gostring
  profDescription :: gostring
  weightLoss :: f64
  weightPing :: f64
  weightLoad :: f64
  weightPower :: f64

record rawMeshConfig =
  rawActive :: gostring
  rawProfiles :: "(gostring \<times> profileWeights) list"

record configSnapshot =
  activeProfile :: gostring
  profiles :: "(gostring \<times> profileWeights) list"

record configMetrics =
  lastReloadTime :: nat
  reloadSuccess :: u64
  reloadFailure :: u64

definition epsilon :: f64 where "epsilon = rnd64 (1 / 10 ^ 9)"
definition maxWeight :: f64 where "maxWeight = Fin 100"

section \<open>Validation\<close>

datatype validationError =
    EmptyActiveProfile
  | ActiveUndefined gostring
  | EmptyIdentifier
  | NegativeField gostring string f64
  | InvalidField gostring string
  | ExceedsMax gostring string
  | AllZero gostring

text \<open>Unicode white space, as \<open>strings.TrimSpace\<close> trims it; trimmed, a string is empty if it has nothing else.\<close>

definition is_space :: "nat \<Rightarrow> bool" where
  "is_space r \<longleftrightarrow> r \<in> {9, 10, 11, 12, 13, 32, 0x85, 0xA0, 0x1680, 0x2028, 0x2029, 0x202F, 0x205F, 0x3000}
     \<or> 0x2000 \<le> r \<and> r \<le> 0x200A"

definition blank :: "gostring \<Rightarrow> bool" where
  "blank s \<longleftrightarrow> dropWhile is_space s = []"

text \<open>The loop over the fields of a profile: an error or the sum.\<close>

fun check_fields :: "gostring \<Rightarrow> (string \<times> f64) list \<Rightarrow> f64 \<Rightarrow> validationError + f64" where
  "check_fields pname [] s = Inr s"
| "check_fields pname ((f, v) # fs) s =
     (if lt64 v (Fin 0) then Inl (NegativeField pname f v)
      else if is_nan v \<or> is_inf v then Inl (InvalidField pname f)
      else if lt64 maxWeight v then Inl (ExceedsMax pname f)
      else check_fields pname fs (fadd64 s v))"

definition fields_of :: "profileWeights \<Rightarrow> (string \<times> f64) list" where
  "fields_of p = [(''weight_loss'', weightLoss p), (''weight_ping'', weightPing p),
                  (''weight_load'', weightLoad p), (''weight_power'', weightPower p)]"

definition check_profile :: "gostring \<times> profileWeights \<Rightarrow> validationError option" where
  "check_profile np = (let (pname, prof) = np in
     if blank pname then Some EmptyIdentifier
     else case check_fields pname (fields_of prof) (Fin 0) of
       Inl err \<Rightarrow> Some err
     | Inr s \<Rightarrow> if lt64 (abs64 s) epsilon then Some (AllZero pname) else None)"

fun check_profiles :: "(gostring \<times> profileWeights) list \<Rightarrow> validationError option" where
  "check_profiles [] = None"
| "check_profiles (np # ps) = (case check_profile np of Some err \<Rightarrow> Some err | None \<Rightarrow> check_profiles ps)"

definition validateRawConfig :: "rawMeshConfig \<Rightarrow> validationError option" where
  "validateRawConfig raw =
     (if blank (rawActive raw) then Some EmptyActiveProfile
      else if map_of (rawProfiles raw) (rawActive raw) = None then Some (ActiveUndefined (rawActive raw))
      else check_profiles (rawProfiles raw))"

section \<open>The two cells\<close>

datatype metricsOp = CountSuccess nat | CountFailure

fun metrics_upd :: "metricsOp \<Rightarrow> configMetrics \<Rightarrow> configMetrics option" where
  "metrics_upd (CountSuccess now) old = Some \<lparr>lastReloadTime = now,
     reloadSuccess = reloadSuccess old + 1, reloadFailure = reloadFailure old\<rparr>"
| "metrics_upd CountFailure old = Some \<lparr>lastReloadTime = lastReloadTime old,
     reloadSuccess = reloadSuccess old, reloadFailure = reloadFailure old + 1\<rparr>"

text \<open>
  The updates of the snapshot: \<open>Publish\<close> is the store of \<open>Reload\<close> after the validation, \<open>Switch\<close> the
  loop of \<open>SwitchProfile\<close>.
\<close>

datatype snapshotOp = Publish rawMeshConfig | Switch gostring

fun snapshot_upd :: "snapshotOp \<Rightarrow> configSnapshot \<Rightarrow> configSnapshot option" where
  "snapshot_upd (Publish raw) current =
     (if validateRawConfig raw \<noteq> None then None
      else Some \<lparr>activeProfile = rawActive raw, profiles = rawProfiles raw\<rparr>)"
| "snapshot_upd (Switch pname) current =
     (if map_of (profiles current) pname = None then None
      else Some \<lparr>activeProfile = pname, profiles = profiles current\<rparr>)"

fun is_publish :: "snapshotOp \<Rightarrow> bool" where
  "is_publish (Publish raw) = True"
| "is_publish (Switch pname) = False"

section \<open>The manager\<close>

datatype configError =
    ReadError goerror
  | ParseError goerror
  | TrailingData
  | ValidationFailed validationError
  | NoSuchProfile gostring
  | InitialLoadFailed configError

text \<open>A nil snapshot pointer is \<open>None\<close>.\<close>

record configManager =
  filePath :: gostring
  cmMetrics :: configMetrics
  cmSnapshot :: "configSnapshot option"

definition incrementFailureMetric :: "configManager \<Rightarrow> configManager" where
  "incrementFailureMetric cm = cm\<lparr>cmMetrics := the (metrics_upd CountFailure (cmMetrics cm))\<rparr>"

type_synonym reader = "gostring \<Rightarrow> goerror + byte list"
type_synonym rawDecoder = "byte list \<Rightarrow> goerror + rawMeshConfig \<times> bool"

definition reload :: "reader \<Rightarrow> rawDecoder \<Rightarrow> nat \<Rightarrow> configManager \<Rightarrow> configError option \<times> configManager" where
  "reload readFile decodeRaw now cm =
     (case readFile (filePath cm) of
        Inl err \<Rightarrow> (Some (ReadError err), incrementFailureMetric cm)
      | Inr fileBytes \<Rightarrow>
          (case decodeRaw fileBytes of
             Inl err \<Rightarrow> (Some (ParseError err), incrementFailureMetric cm)
           | Inr (raw, eof) \<Rightarrow>
               if \<not> eof then (Some TrailingData, incrementFailureMetric cm)
               else (case validateRawConfig raw of
                 Some err \<Rightarrow> (Some (ValidationFailed err), incrementFailureMetric cm)
               | None \<Rightarrow>
                   (None, cm\<lparr>cmSnapshot := Some \<lparr>activeProfile = rawActive raw, profiles = rawProfiles raw\<rparr>,
                             cmMetrics := the (metrics_upd (CountSuccess now) (cmMetrics cm))\<rparr>))))"

definition newConfigManager ::
  "reader \<Rightarrow> rawDecoder \<Rightarrow> nat \<Rightarrow> gostring \<Rightarrow> configError + configManager" where
  "newConfigManager readFile decodeRaw now path =
     (case reload readFile decodeRaw now \<lparr>filePath = path,
        cmMetrics = \<lparr>lastReloadTime = 0, reloadSuccess = 0, reloadFailure = 0\<rparr>, cmSnapshot = None\<rparr> of
        (Some err, cm) \<Rightarrow> Inl (InitialLoadFailed err)
      | (None, cm) \<Rightarrow> Inr cm)"

text \<open>\<open>None\<close> is the panic.\<close>

definition mustNewConfigManager :: "reader \<Rightarrow> rawDecoder \<Rightarrow> nat \<Rightarrow> gostring \<Rightarrow> configManager option" where
  "mustNewConfigManager readFile decodeRaw now path =
     (case newConfigManager readFile decodeRaw now path of Inl err \<Rightarrow> None | Inr cm \<Rightarrow> Some cm)"

text \<open>A key that is missing gives the zero value of the struct. \<open>None\<close> is the nil dereference.\<close>

definition zeroWeights :: profileWeights where
  "zeroWeights = \<lparr>profName = [], profDescription = [], weightLoss = Fin 0, weightPing = Fin 0,
     weightLoad = Fin 0, weightPower = Fin 0\<rparr>"

definition weights_of :: "configSnapshot \<Rightarrow> profileWeights" where
  "weights_of current = (case map_of (profiles current) (activeProfile current) of
     None \<Rightarrow> zeroWeights | Some w \<Rightarrow> w)"

definition getCurrentWeights :: "configManager \<Rightarrow> profileWeights option" where
  "getCurrentWeights cm = map_option weights_of (cmSnapshot cm)"

definition getMetrics :: "configManager \<Rightarrow> configMetrics" where "getMetrics cm = cmMetrics cm"

definition switchProfile :: "gostring \<Rightarrow> configManager \<Rightarrow> (configError option \<times> configManager) option" where
  "switchProfile pname cm = map_option (\<lambda>current.
     (case snapshot_upd (Switch pname) current of
        None \<Rightarrow> (Some (NoSuchProfile pname), cm)
      | Some nextSnapshot \<Rightarrow> (None, cm\<lparr>cmSnapshot := Some nextSnapshot\<rparr>))) (cmSnapshot cm)"

section \<open>What validation accepts\<close>

definition weight_ok :: "f64 \<Rightarrow> bool" where
  "weight_ok v \<longleftrightarrow> (case v of Fin x \<Rightarrow> 0 \<le> x \<and> x \<le> 100 | _ \<Rightarrow> False)"

definition weight_sum :: "profileWeights \<Rightarrow> f64" where
  "weight_sum p = foldl fadd64 (Fin 0) (map snd (fields_of p))"

definition profile_ok :: "profileWeights \<Rightarrow> bool" where
  "profile_ok p \<longleftrightarrow> (\<forall>v \<in> set (map snd (fields_of p)). weight_ok v) \<and> le64 epsilon (weight_sum p)"

lemma weight_ok_test:
  "(\<not> lt64 v (Fin 0) \<and> \<not> (is_nan v \<or> is_inf v) \<and> \<not> lt64 maxWeight v) = weight_ok v"
  by (cases v) (auto simp: weight_ok_def lt64_def is_nan_def is_inf_def maxWeight_def)

lemma check_fields_Inr:
  "check_fields pname fs s = Inr t \<longleftrightarrow> (\<forall>v \<in> set (map snd fs). weight_ok v) \<and> t = foldl fadd64 s (map snd fs)"
proof (induction pname fs s rule: check_fields.induct)
  case (2 pname f v fs s)
  show ?case
  proof (cases "weight_ok v")
    case True
    then have "\<not> lt64 v (Fin 0)" "\<not> (is_nan v \<or> is_inf v)" "\<not> lt64 maxWeight v" using weight_ok_test [of v] by blast+
    then show ?thesis using "2.IH" True by simp
  next
    case False
    then show ?thesis using weight_ok_test [of v] by (auto split: if_splits)
  qed
qed auto

lemma foldl_fadd64_nonneg: "nonneg s \<Longrightarrow> \<forall>v \<in> set vs. weight_ok v \<Longrightarrow> nonneg (foldl fadd64 s vs)"
proof (induction vs arbitrary: s)
  case (Cons v vs)
  have "nonneg v" using Cons.prems(2) by (cases v) (auto simp: weight_ok_def nonneg_def)
  then have "nonneg (fadd64 s v)" by (rule fadd64_nonneg [OF Cons.prems(1)])
  then show ?case using Cons by simp
qed simp

lemma epsilon_pos: "\<exists>x. epsilon = Fin x \<and> 0 \<le> x"
proof -
  have "(1 / 10 ^ 9 :: rat) \<le> 1" by simp
  also have "\<dots> \<le> 2 ^ 971" by (rule one_le_power) simp
  finally show ?thesis unfolding epsilon_def by (intro rnd64_finite) simp_all
qed

lemma not_below_epsilon: "nonneg s \<Longrightarrow> \<not> lt64 (abs64 s) epsilon \<longleftrightarrow> le64 epsilon s"
proof -
  obtain x where x: "epsilon = Fin x" "0 \<le> x" using epsilon_pos by blast
  show "nonneg s \<Longrightarrow> \<not> lt64 (abs64 s) epsilon \<longleftrightarrow> le64 epsilon s"
    unfolding x(1) by (cases s) (auto simp: nonneg_def abs64_def lt64_def le64_def eq64_def)
qed

lemma check_profile_None: "check_profile (pname, p) = None \<longleftrightarrow> \<not> blank pname \<and> profile_ok p"
proof (cases "check_fields pname (fields_of p) (Fin 0)")
  case (Inl err)
  then have "\<not> (\<forall>v \<in> set (map snd (fields_of p)). weight_ok v)"
    using check_fields_Inr [of pname "fields_of p" "Fin 0"] by fastforce
  then show ?thesis using Inl by (auto simp: check_profile_def profile_ok_def)
next
  case (Inr s)
  then have s: "\<forall>v \<in> set (map snd (fields_of p)). weight_ok v" "s = weight_sum p"
    using check_fields_Inr [of pname "fields_of p" "Fin 0"] by (auto simp: weight_sum_def)
  have "nonneg s" unfolding s(2) weight_sum_def by (rule foldl_fadd64_nonneg [OF _ s(1)]) (simp add: nonneg_def)
  then show ?thesis using Inr s not_below_epsilon [of s] by (auto simp: check_profile_def profile_ok_def)
qed

lemma check_profiles_None: "check_profiles ps = None \<longleftrightarrow> (\<forall>np \<in> set ps. check_profile np = None)"
  by (induction ps) (auto split: option.split)

lemma valid_iff:
  "validateRawConfig raw = None \<longleftrightarrow> \<not> blank (rawActive raw) \<and> rawActive raw \<in> dom (map_of (rawProfiles raw))
     \<and> (\<forall>(pname, p) \<in> set (rawProfiles raw). \<not> blank pname \<and> profile_ok p)"
proof -
  have "check_profiles (rawProfiles raw) = None
      \<longleftrightarrow> (\<forall>(pname, p) \<in> set (rawProfiles raw). \<not> blank pname \<and> profile_ok p)"
    unfolding check_profiles_None using check_profile_None by fastforce
  then show ?thesis by (auto simp: validateRawConfig_def domIff)
qed

text \<open>
  A configuration is accepted if and only if the active profile's name is not
  blank and is the name of a profile, no profile has a blank name, and in each profile all four
  weights are numbers between 0 and 100 whose sum, as \<open>float64\<close> addition computes it, is at least
  \<open>epsilon\<close>. The order in which Go iterates over the map does not matter for it.
\<close>

theorem validate_accepts:
  "(validateRawConfig raw = None \<longleftrightarrow> \<not> blank (rawActive raw) \<and> rawActive raw \<in> dom (map_of (rawProfiles raw))
     \<and> (\<forall>(pname, p) \<in> set (rawProfiles raw). \<not> blank pname \<and> profile_ok p))
   \<and> (distinct (map fst (rawProfiles raw)) \<and> mset ps = mset (rawProfiles raw)
      \<longrightarrow> (validateRawConfig (raw\<lparr>rawProfiles := ps\<rparr>) = None \<longleftrightarrow> validateRawConfig raw = None))"
proof (intro conjI impI)
  show "validateRawConfig raw = None \<longleftrightarrow> \<not> blank (rawActive raw) \<and> rawActive raw \<in> dom (map_of (rawProfiles raw))
     \<and> (\<forall>(pname, p) \<in> set (rawProfiles raw). \<not> blank pname \<and> profile_ok p)" by (rule valid_iff)
  assume "distinct (map fst (rawProfiles raw)) \<and> mset ps = mset (rawProfiles raw)"
  then have "set ps = set (rawProfiles raw)" by (auto dest: mset_eq_setD)
  then show "validateRawConfig (raw\<lparr>rawProfiles := ps\<rparr>) = None \<longleftrightarrow> validateRawConfig raw = None"
    by (simp add: valid_iff dom_map_of_conv_image_fst)
qed

definition demo_weights :: profileWeights where
  "demo_weights = zeroWeights\<lparr>weightPing := Fin 101\<rparr>"

theorem validate_accepts_witness:
  "validateRawConfig \<lparr>rawActive = [97], rawProfiles = [([98], demo_weights), ([97], demo_weights)]\<rparr> \<noteq> None
   \<and> validateRawConfig \<lparr>rawActive = [97], rawProfiles = [([97], demo_weights), ([98], demo_weights)]\<rparr> \<noteq> None"
proof -
  let ?raw = "\<lparr>rawActive = [97], rawProfiles = [([97], demo_weights), ([98], demo_weights)]\<rparr>"
  have no: "\<not> profile_ok demo_weights"
    by (simp add: profile_ok_def fields_of_def demo_weights_def weight_ok_def)
  from validate_accepts [where raw = ?raw and ps = "[([98], demo_weights), ([97], demo_weights)]"] show ?thesis
    using no by auto
qed

section \<open>Reload and SwitchProfile\<close>

text \<open>
  C34. \<open>Reload\<close> is all or nothing. If reading, decoding or validating fails, the
  snapshot is as before and the failure counter alone has gone up; otherwise the snapshot is the
  configuration of the file, which is valid, and the success counter and the time alone have
  changed.
\<close>

theorem reload_transactional:
  assumes "reload readFile decodeRaw now cm = (err, cm')"
  shows "(err \<noteq> None \<longrightarrow> cm' = cm\<lparr>cmMetrics := (cmMetrics cm)\<lparr>reloadFailure := reloadFailure (cmMetrics cm) + 1\<rparr>\<rparr>)
    \<and> (err = None \<longrightarrow> (\<exists>bytes raw. readFile (filePath cm) = Inr bytes \<and> decodeRaw bytes = Inr (raw, True)
         \<and> validateRawConfig raw = None
         \<and> cm' = cm\<lparr>cmSnapshot := Some \<lparr>activeProfile = rawActive raw, profiles = rawProfiles raw\<rparr>,
                    cmMetrics := (cmMetrics cm)\<lparr>lastReloadTime := now,
                                   reloadSuccess := reloadSuccess (cmMetrics cm) + 1\<rparr>\<rparr>))"
proof -
  have fail: "incrementFailureMetric cm
      = cm\<lparr>cmMetrics := (cmMetrics cm)\<lparr>reloadFailure := reloadFailure (cmMetrics cm) + 1\<rparr>\<rparr>"
    by (simp add: incrementFailureMetric_def)
  show ?thesis
    using assms by (auto simp: reload_def fail split: sum.splits prod.splits option.splits if_splits)
qed

theorem reload_transactional_witness:
  "reload (\<lambda>_. Inl (FileError 2)) (\<lambda>_. Inl (FileError 0)) 5
       \<lparr>filePath = [], cmMetrics = \<lparr>lastReloadTime = 3, reloadSuccess = 1, reloadFailure = 0\<rparr>, cmSnapshot = None\<rparr>
     = (Some (ReadError (FileError 2)),
        \<lparr>filePath = [], cmMetrics = \<lparr>lastReloadTime = 3, reloadSuccess = 1, reloadFailure = 1\<rparr>, cmSnapshot = None\<rparr>)"
proof -
  let ?cm = "\<lparr>filePath = [], cmMetrics = \<lparr>lastReloadTime = 3, reloadSuccess = 1, reloadFailure = 0\<rparr>, cmSnapshot = None\<rparr>"
  obtain cm' where r: "reload (\<lambda>_. Inl (FileError 2)) (\<lambda>_. Inl (FileError 0)) 5 ?cm = (Some (ReadError (FileError 2)), cm')"
    by (simp add: reload_def)
  from reload_transactional [OF r] r show ?thesis by simp
qed

text \<open>The configurations that a snapshot can hold.\<close>

definition config_ok :: "configSnapshot \<Rightarrow> bool" where
  "config_ok c \<longleftrightarrow> activeProfile c \<in> dom (map_of (profiles c))
     \<and> (\<forall>(pname, p) \<in> set (profiles c). \<not> blank pname \<and> profile_ok p)"

lemma snapshot_upd_ok: "config_ok c \<Longrightarrow> snapshot_upd u c = Some c' \<Longrightarrow> config_ok c'"
  by (cases u) (auto simp: config_ok_def valid_iff domIff split: if_splits)

interpretation config: cell_client snapshot_upd config_ok
  by unfold_locales (rule snapshot_upd_ok)

lemma config_ok_weights:
  assumes "config_ok c"
  shows "profile_ok (weights_of c)"
proof -
  from assms obtain p where p: "map_of (profiles c) (activeProfile c) = Some p"
    by (auto simp: config_ok_def)
  then have "(activeProfile c, p) \<in> set (profiles c)" by (rule map_of_SomeD)
  then have "profile_ok p" using assms by (auto simp: config_ok_def)
  then show ?thesis by (simp add: weights_of_def p)
qed

text \<open>
  C20. Let \<open>NewConfigManager\<close> have loaded a configuration, and goroutines switch
  profiles and reload in any interleaving. Then the weights that \<open>GetCurrentWeights\<close> reads at any
  moment are those of a validated profile: the active profile always exists, its weights lie
  between 0 and 100 and their sum is at least \<open>epsilon\<close>. The zero value of a missing profile is never
  returned.
\<close>

theorem current_weights_valid:
  assumes "newConfigManager readFile decodeRaw now path = Inr cm" and "cmSnapshot cm = Some c0"
    and "cell_run snapshot_upd is_publish (initial c0 prog) c"
  shows "profile_ok (weights_of (snapshot c)) \<and> getCurrentWeights cm = Some (weights_of c0)"
proof -
  have "config_ok c0"
    using assms(1,2)
    by (auto simp: newConfigManager_def reload_def config_ok_def valid_iff
        split: sum.splits prod.splits option.splits if_splits)
  then have "config_ok (snapshot c)" by (rule config.snapshot_ok [OF assms(3)])
  then show ?thesis using assms(2) by (simp add: config_ok_weights getCurrentWeights_def)
qed

text \<open>A configuration with one profile, which weighs latency only.\<close>

definition demo_raw :: rawMeshConfig where
  "demo_raw = \<lparr>rawActive = [97], rawProfiles = [([97], zeroWeights\<lparr>weightPing := Fin 1\<rparr>)]\<rparr>"

lemma epsilon_le_one: "\<exists>y. epsilon = Fin y \<and> y \<le> 1"
proof -
  have "(1 / 10 ^ 9 :: rat) < 2" by simp
  then obtain y where "epsilon = Fin y" "y \<le> 1 / 10 ^ 9 + 1 / 2 ^ 52"
    unfolding epsilon_def using rnd64_le [of "1 / 10 ^ 9"] by auto
  moreover have "(1 / 10 ^ 9 + 1 / 2 ^ 52 :: rat) \<le> 1" by simp
  ultimately show ?thesis by auto
qed

lemma demo_profile_ok: "profile_ok (zeroWeights\<lparr>weightPing := Fin 1\<rparr>)"
proof -
  have add: "fadd64 (Fin 0) (Fin 1) = Fin 1" "fadd64 (Fin 1) (Fin 0) = Fin 1" "fadd64 (Fin 0) (Fin 0) = Fin 0"
    using rnd64_of_nat [of 1] rnd64_of_nat [of 0] by (simp_all add: fadd64_def)
  have s: "weight_sum (zeroWeights\<lparr>weightPing := Fin 1\<rparr>) = Fin 1"
    by (simp add: weight_sum_def fields_of_def zeroWeights_def add)
  obtain y where y: "epsilon = Fin y" "y \<le> 1" using epsilon_le_one by blast
  have "le64 epsilon (Fin 1)"
    unfolding y(1) using y(2) by (auto simp: le64_def lt64_def eq64_def)
  then show ?thesis
    unfolding profile_ok_def s by (simp add: fields_of_def zeroWeights_def weight_ok_def)
qed

lemma demo_raw_valid: "validateRawConfig demo_raw = None"
  using demo_profile_ok by (simp add: valid_iff demo_raw_def blank_def is_space_def)

theorem current_weights_valid_witness:
  "\<exists>cm. newConfigManager (\<lambda>_. Inr []) (\<lambda>_. Inr (demo_raw, True)) 5 [99] = Inr cm
    \<and> getCurrentWeights cm = Some (zeroWeights\<lparr>weightPing := Fin 1\<rparr>)"
proof -
  let ?c0 = "\<lparr>activeProfile = [97], profiles = [([97], zeroWeights\<lparr>weightPing := Fin 1\<rparr>)]\<rparr>"
  obtain cm where cm: "newConfigManager (\<lambda>_. Inr []) (\<lambda>_. Inr (demo_raw, True)) 5 [99] = Inr cm" "cmSnapshot cm = Some ?c0"
    using demo_raw_valid by (simp add: newConfigManager_def reload_def) (simp add: demo_raw_def)
  from current_weights_valid [OF cm run_refl, of "\<lambda>_. []"] cm(1) show ?thesis
    by (simp add: weights_of_def)
qed

text \<open>
  The counters are exact: after any interleaving of reloads they are the numbers of
  successful and of failed reloads that have taken effect, modulo \<open>2 ^ 64\<close>, and all goroutines' reloads
  have taken effect when they are done.
\<close>

theorem reload_counts:
  assumes "cell_run metrics_upd (\<lambda>_. False) (initial \<lparr>lastReloadTime = 0, reloadSuccess = 0, reloadFailure = 0\<rparr> prog) c"
  shows "reloadFailure (snapshot c) = of_nat (length (filter (\<lambda>x. snd x = CountFailure) (history c)))
    \<and> reloadSuccess (snapshot c) = of_nat (length (filter (\<lambda>x. snd x \<noteq> CountFailure) (history c)))
    \<and> (\<forall>i. todo c i = [] \<longrightarrow> done_by i (history c) = prog i)"
proof -
  have count: "reloadFailure (replay metrics_upd l m) = reloadFailure m + of_nat (length (filter (\<lambda>x. snd x = CountFailure) l))
      \<and> reloadSuccess (replay metrics_upd l m) = reloadSuccess m + of_nat (length (filter (\<lambda>x. snd x \<noteq> CountFailure) l))"
    for l m
  proof (induction l rule: rev_induct)
    case (snoc x l)
    then show ?case by (cases "snd x") (simp_all add: replay_append effect_def)
  qed (simp add: replay_def)
  note l = cell_linearizable [OF assms]
  have "done_by i (history c) = prog i" if "todo c i = []" for i using l(2) [of i] that by simp
  then show ?thesis using l(1) count by simp
qed

definition demo_counts :: "nat \<Rightarrow> metricsOp list" where
  "demo_counts i = (if i = 0 then [CountSuccess 5] else if i = 1 then [CountFailure] else [])"

theorem reload_counts_witness:
  "\<exists>c. cell_run metrics_upd (\<lambda>_. False)
      (initial \<lparr>lastReloadTime = 0, reloadSuccess = 0, reloadFailure = 0\<rparr> demo_counts) c
    \<and> reloadSuccess (snapshot c) = 1 \<and> reloadFailure (snapshot c) = 1"
proof -
  let ?c0 = "initial \<lparr>lastReloadTime = 0, reloadSuccess = 0, reloadFailure = 0\<rparr> demo_counts"
  obtain c where c: "foldl (\<lambda>c i. Option.bind c (cell_step metrics_upd (\<lambda>_. False) i)) (Some ?c0) [0, 1, 0, 1, 1, 1] = Some c"
    "history c = [(0, CountSuccess 5), (1, CountFailure)]"
    by (simp add: cell_step_def initial_def demo_counts_def snapshot_def finish_def publish_def)
  note r = foldl_run [OF c(1)]
  from reload_counts [OF r] r show ?thesis by (intro exI [of _ c]) (simp add: c(2))
qed

end
