(* ===== verification/DomainName.thy ===== *)
theory DomainName
  imports Prelude
begin

text \<open>
  The names of the DNS client in \<open>src/tun/netstack/tun.go\<close>: \<open>isDomainName\<close>, with a specification by
  labels, and \<open>equalASCIIName\<close>. Go strings are byte lists; \<open>46\<close> is the dot and \<open>45\<close> the hyphen.
\<close>

section \<open>The code\<close>

definition is_alpha :: "byte \<Rightarrow> bool" where
  "is_alpha c \<longleftrightarrow> 97 \<le> c \<and> c \<le> 122 \<or> 65 \<le> c \<and> c \<le> 90 \<or> c = 95"

definition is_digit :: "byte \<Rightarrow> bool" where
  "is_digit c \<longleftrightarrow> 48 \<le> c \<and> c \<le> 57"

text \<open>The variables of the loop: \<open>last\<close>, \<open>nonNumeric\<close> and \<open>partlen\<close>. \<open>None\<close> is \<open>return false\<close>.\<close>

type_synonym nameScan = "byte \<times> bool \<times> nat"

fun name_step :: "byte \<Rightarrow> nameScan \<Rightarrow> nameScan option" where
  "name_step c (lst, nonNumeric, partlen) =
     (if is_alpha c then Some (c, True, Suc partlen)
      else if is_digit c then Some (c, nonNumeric, Suc partlen)
      else if c = 45 then (if lst = 46 then None else Some (c, True, Suc partlen))
      else if c = 46 then
        (if lst = 46 \<or> lst = 45 then None
         else if 63 < partlen \<or> partlen = 0 then None
         else Some (c, nonNumeric, 0))
      else None)"

fun name_loop :: "byte list \<Rightarrow> nameScan \<Rightarrow> nameScan option" where
  "name_loop [] st = Some st"
| "name_loop (c # s) st = (case name_step c st of None \<Rightarrow> None | Some st \<Rightarrow> name_loop s st)"

definition isDomainName :: "byte list \<Rightarrow> bool" where
  "isDomainName s = (let l = length s in
     if l = 0 \<or> 254 < l \<or> l = 254 \<and> s ! (l - 1) \<noteq> 46 then False
     else case name_loop s (46, False, 0) of
       None \<Rightarrow> False
     | Some (lst, nonNumeric, partlen) \<Rightarrow>
         if lst = 45 \<or> 63 < partlen then False else nonNumeric)"

text \<open>
  \<open>dnsmessage.Name\<close> is an array of 255 bytes and a \<open>uint8\<close> length, so that the loop stays inside the
  array.
\<close>

record dnsName =
  nameData :: "byte list"
  nameLength :: u8

definition ascii_lower :: "byte \<Rightarrow> byte" where
  "ascii_lower a = (if 65 \<le> a \<and> a \<le> 90 then a + 0x20 else a)"

fun equal_loop :: "byte list \<Rightarrow> byte list \<Rightarrow> nat list \<Rightarrow> bool" where
  "equal_loop x y [] = True"
| "equal_loop x y (i # is) = (if ascii_lower (x ! i) \<noteq> ascii_lower (y ! i) then False else equal_loop x y is)"

definition equalASCIIName :: "dnsName \<Rightarrow> dnsName \<Rightarrow> bool" where
  "equalASCIIName x y =
     (if nameLength x \<noteq> nameLength y then False
      else equal_loop (nameData x) (nameData y) [0..<unat (nameLength x)])"

section \<open>The specification of a domain name\<close>

definition label_char :: "byte \<Rightarrow> bool" where
  "label_char c \<longleftrightarrow> is_alpha c \<or> is_digit c \<or> c = 45"

definition label_ok :: "byte list \<Rightarrow> bool" where
  "label_ok l \<longleftrightarrow> l \<noteq> [] \<and> length l \<le> 63 \<and> list_all label_char l \<and> hd l \<noteq> 45 \<and> last l \<noteq> 45"

definition join_dots :: "byte list list \<Rightarrow> byte list" where
  "join_dots ls = concat (map (\<lambda>l. l @ [46]) ls)"

text \<open>A name: labels separated by dots, with or without a dot at the end.\<close>

definition domain_name :: "byte list \<Rightarrow> bool" where
  "domain_name s \<longleftrightarrow> (length s \<le> 253 \<or> length s = 254 \<and> last s = 46)
     \<and> (\<exists>ls. ls \<noteq> [] \<and> list_all label_ok ls \<and> (s = join_dots ls \<or> s @ [46] = join_dots ls))
     \<and> (\<exists>c \<in> set s. \<not> is_digit c \<and> c \<noteq> 46)"

section \<open>The scan reads labels\<close>

lemma dot_no_label_char [simp]: "\<not> label_char 46" "\<not> is_alpha 46" "\<not> is_digit 46" "\<not> is_alpha 45" "\<not> is_digit 45"
  by (simp_all add: label_char_def is_alpha_def is_digit_def)

lemma name_loop_append:
  "name_loop (s @ t) st = (case name_loop s st of None \<Rightarrow> None | Some st \<Rightarrow> name_loop t st)"
  by (induction s arbitrary: st) (auto split: option.split)

abbreviation non_numeric :: "byte list \<Rightarrow> bool" where
  "non_numeric l \<equiv> \<exists>c \<in> set l. \<not> is_digit c \<and> c \<noteq> 46"

lemma not_digit_alpha: "is_alpha c \<Longrightarrow> \<not> is_digit c"
  by (auto simp: is_alpha_def is_digit_def word_le_nat_alt)

text \<open>Inside a label only its characters matter.\<close>

lemma name_loop_inside:
  assumes "46 \<notin> set l" and "lst \<noteq> 46"
  shows "name_loop l (lst, nn, n) =
    (if list_all label_char l then Some (last (lst # l), nn \<or> non_numeric l, n + length l) else None)"
  using assms
proof (induction l arbitrary: lst nn n)
  case (Cons c l)
  then have c: "c \<noteq> 46" "46 \<notin> set l" by auto
  consider "is_alpha c" | "is_digit c" "\<not> is_alpha c" | "c = 45" | "\<not> label_char c" "c \<noteq> 45" "\<not> is_alpha c" "\<not> is_digit c"
    by (auto simp: label_char_def)
  then show ?case
  proof cases
    case 1
    then have "label_char c" "\<not> is_digit c" by (simp_all add: label_char_def not_digit_alpha)
    then show ?thesis using Cons.IH [OF c(2,1), of True "Suc n"] 1 c by auto
  next
    case 2
    then have "label_char c" by (simp add: label_char_def)
    then show ?thesis using Cons.IH [OF c(2,1), of nn "Suc n"] 2 c by auto
  next
    case 3
    then have "label_char c" by (simp add: label_char_def)
    then show ?thesis using Cons.IH [OF c(2,1), of True "Suc n"] 3 c Cons.prems by auto
  next
    case 4
    then show ?thesis using c by simp
  qed
qed simp

lemma name_loop_label:
  assumes "46 \<notin> set l"
  shows "name_loop l (46, nn, 0) =
    (if l = [] then Some (46, nn, 0)
     else if list_all label_char l \<and> hd l \<noteq> 45 then Some (last l, nn \<or> non_numeric l, length l) else None)"
proof (cases l)
  case (Cons c k)
  then have c: "c \<noteq> 46" "46 \<notin> set k" using assms by auto
  consider "is_alpha c" | "is_digit c" "\<not> is_alpha c" | "c = 45" | "\<not> label_char c" "c \<noteq> 45" "\<not> is_alpha c" "\<not> is_digit c"
    by (auto simp: label_char_def)
  then show ?thesis
  proof cases
    case 1
    then have "label_char c" "\<not> is_digit c" "c \<noteq> 45" by (auto simp: label_char_def not_digit_alpha)
    then show ?thesis using name_loop_inside [OF c(2,1), of True 1] 1 c Cons by auto
  next
    case 2
    then have "label_char c" "c \<noteq> 45" by (auto simp: label_char_def)
    then show ?thesis using name_loop_inside [OF c(2,1), of nn 1] 2 c Cons by auto
  qed (use c Cons in auto)
qed simp

lemma name_loop_label_dot:
  assumes "46 \<notin> set l"
  shows "name_loop (l @ [46]) (46, nn, 0) = (if label_ok l then Some (46, nn \<or> non_numeric l, 0) else None)"
proof (cases "l = []")
  case False
  then have "last l \<noteq> 46" using assms last_in_set by metis
  then show ?thesis
    using False by (auto simp: name_loop_append name_loop_label [OF assms] label_ok_def)
qed (simp add: label_ok_def)

lemma name_loop_labels:
  assumes "list_all (\<lambda>l. 46 \<notin> set l) ls"
  shows "name_loop (join_dots ls) (46, nn, 0) =
    (if list_all label_ok ls then Some (46, nn \<or> non_numeric (join_dots ls), 0) else None)"
  using assms
proof (induction ls arbitrary: nn)
  case (Cons l ls)
  then have l: "46 \<notin> set l" by simp
  have "join_dots (l # ls) = (l @ [46]) @ join_dots ls" by (simp add: join_dots_def)
  then have "name_loop (join_dots (l # ls)) (46, nn, 0)
      = (if label_ok l then name_loop (join_dots ls) (46, nn \<or> non_numeric l, 0) else None)"
    by (simp only: name_loop_append [of "l @ [46]"] name_loop_label_dot [OF l]) simp
  also have "\<dots> = (if list_all label_ok (l # ls)
      then Some (46, nn \<or> non_numeric (join_dots (l # ls)), 0) else None)"
    using Cons by (auto simp: join_dots_def)
  finally show ?case .
qed (simp add: join_dots_def)

text \<open>Every string is labels, each with its dot, and a rest without one.\<close>

lemma split_at_dots: "\<exists>ls r. s = join_dots ls @ r \<and> list_all (\<lambda>l. 46 \<notin> set l) ls \<and> 46 \<notin> set r"
proof (induction s rule: rev_induct)
  case (snoc c s)
  then obtain ls r where s: "s = join_dots ls @ r" "list_all (\<lambda>l. 46 \<notin> set l) ls" "46 \<notin> set r" by blast
  show ?case
  proof (cases "c = 46")
    case True
    then show ?thesis using s by (intro exI [of _ "ls @ [r]"] exI [of _ "[]"]) (simp add: join_dots_def)
  next
    case False
    then show ?thesis using s by (intro exI [of _ ls] exI [of _ "r @ [c]"]) simp
  qed
qed (simp add: join_dots_def)

lemma label_ok_no_dot: "label_ok l \<Longrightarrow> 46 \<notin> set l"
  by (auto simp: label_ok_def list_all_iff)

text \<open>The result of the scan in terms of the labels.\<close>

lemma scan_iff:
  assumes s: "s = join_dots ls @ r" and "list_all (\<lambda>l. 46 \<notin> set l) ls" and r: "46 \<notin> set r" and "s \<noteq> []"
  shows "(case name_loop s (46, False, 0) of None \<Rightarrow> False
      | Some (lst, nonNumeric, partlen) \<Rightarrow> if lst = 45 \<or> 63 < partlen then False else nonNumeric)
    \<longleftrightarrow> list_all label_ok ls \<and> (r = [] \<or> label_ok r) \<and> non_numeric s"
proof -
  have "name_loop s (46, False, 0) = (if list_all label_ok ls then name_loop r (46, non_numeric (join_dots ls), 0) else None)"
    by (simp add: s name_loop_append name_loop_labels [OF assms(2)])
  then show ?thesis
    unfolding name_loop_label [OF r]
    by (cases "r = []") (auto simp: s label_ok_def)
qed

lemma takeWhile_until: "c \<notin> set l \<Longrightarrow> takeWhile (\<lambda>x. x \<noteq> c) (l @ c # k) = l"
  by (induction l) auto

lemma split_unique:
  assumes "join_dots ls @ r = join_dots ls' @ r'" and "list_all (\<lambda>l. 46 \<notin> set l) ls" "46 \<notin> set r"
    and "list_all (\<lambda>l. 46 \<notin> set l) ls'" "46 \<notin> set r'"
  shows "ls = ls' \<and> r = r'"
  using assms
proof (induction ls arbitrary: ls')
  case Nil
  then show ?case by (cases ls') (auto simp: join_dots_def)
next
  case (Cons l ls)
  then obtain l' ks where ls': "ls' = l' # ks" by (cases ls') (auto simp: join_dots_def)
  have e: "l @ 46 # (join_dots ls @ r) = l' @ 46 # (join_dots ks @ r')"
    using Cons.prems(1) by (simp add: ls' join_dots_def)
  have "46 \<notin> set l" "46 \<notin> set l'" using Cons.prems by (simp_all add: ls')
  then have "l = l'" using arg_cong [OF e, of "takeWhile (\<lambda>c. c \<noteq> 46)"] by (simp add: takeWhile_until)
  then have "l = l' \<and> join_dots ls @ r = join_dots ks @ r'" using e by simp
  then show ?case using Cons by (auto simp: ls')
qed

text \<open>
  C29. \<open>isDomainName\<close> accepts exactly the names that consist of labels separated by
  dots, with or without a final dot, of at most 253 bytes without it: each label has 1 to 63
  letters, digits, underscores and hyphens, with no hyphen at either end, and the name as a whole is
  not made of digits and dots only.
\<close>

theorem domain_name_labels: "isDomainName s = domain_name s"
proof (cases "s = []")
  case True
  then show ?thesis by (simp add: isDomainName_def domain_name_def)
next
  case False
  obtain ls r where s: "s = join_dots ls @ r" "list_all (\<lambda>l. 46 \<notin> set l) ls" "46 \<notin> set r"
    using split_at_dots by blast
  have labels: "(\<exists>ls. ls \<noteq> [] \<and> list_all label_ok ls \<and> (s = join_dots ls \<or> s @ [46] = join_dots ls))
      \<longleftrightarrow> list_all label_ok ls \<and> (r = [] \<or> label_ok r)"
  proof (intro iffI; (elim exE conjE)?)
    fix ks assume ks: "ks \<noteq> []" "list_all label_ok ks" and eq: "s = join_dots ks \<or> s @ [46] = join_dots ks"
    have no_dots: "list_all (\<lambda>l. 46 \<notin> set l) ks" using ks(2) by (auto simp: list_all_iff label_ok_no_dot)
    from eq show "list_all label_ok ls \<and> (r = [] \<or> label_ok r)"
    proof
      assume "s = join_dots ks"
      then show ?thesis using split_unique [of ls r ks "[]"] s no_dots ks(2) by simp
    next
      assume "s @ [46] = join_dots ks"
      then have "join_dots (ls @ [r]) @ [] = join_dots ks @ []" by (simp add: s(1) join_dots_def)
      then have "ls @ [r] = ks" using split_unique [of "ls @ [r]" "[]" ks "[]"] s no_dots by simp
      then show ?thesis using ks(2) by auto
    qed
  next
    assume ok: "list_all label_ok ls" "r = [] \<or> label_ok r"
    show "\<exists>ls. ls \<noteq> [] \<and> list_all label_ok ls \<and> (s = join_dots ls \<or> s @ [46] = join_dots ls)"
    proof (cases "r = []")
      case True
      then show ?thesis using ok s False by (intro exI [of _ ls]) (auto simp: join_dots_def)
    next
      case False
      then show ?thesis using ok s by (intro exI [of _ "ls @ [r]"]) (auto simp: join_dots_def)
    qed
  qed
  have "s ! (length s - 1) = last s" using False by (simp add: last_conv_nth)
  then have "isDomainName s \<longleftrightarrow> (length s \<le> 253 \<or> length s = 254 \<and> last s = 46)
      \<and> list_all label_ok ls \<and> (r = [] \<or> label_ok r) \<and> non_numeric s"
    using scan_iff [OF s False] False by (auto simp: isDomainName_def Let_def)
  then show ?thesis unfolding domain_name_def labels by blast
qed

lemma domain_name_examples:
  "isDomainName [97, 46, 98, 46] \<and> \<not> isDomainName [49, 46, 50] \<and> \<not> isDomainName [97, 45]"
  by code_simp

section \<open>Names are compared without case\<close>

lemma equal_loop_iff: "equal_loop x y is \<longleftrightarrow> (\<forall>i \<in> set is. ascii_lower (x ! i) = ascii_lower (y ! i))"
  by (induction "is") auto

lemma equalASCIIName_iff:
  assumes "length (nameData x) = 255" and "length (nameData y) = 255"
  shows "equalASCIIName x y \<longleftrightarrow> map ascii_lower (take (unat (nameLength x)) (nameData x))
      = map ascii_lower (take (unat (nameLength y)) (nameData y))"
proof -
  have le: "unat (nameLength z) \<le> 255" for z :: dnsName 
  proof -
    have "unat (nameLength z) < 2 ^ 8" using unsigned_less [of "nameLength z"] by simp
    then show ?thesis by simp
  qed
  show ?thesis
  proof (cases "nameLength x = nameLength y")
    case True
    then show ?thesis
      using assms le [of y] by (auto simp: equalASCIIName_def equal_loop_iff list_eq_iff_nth_eq)
  next
    case False
    then have "unat (nameLength x) \<noteq> unat (nameLength y)" by (simp add: word_unat_eq_iff)
    then have "length (take (unat (nameLength x)) (nameData x)) \<noteq> length (take (unat (nameLength y)) (nameData y))"
      using assms le [of x] le [of y] by simp
    then show ?thesis using False by (metis equalASCIIName_def length_map)
  qed
qed

lemma equalASCIIName_refl: "equalASCIIName x x"
  by (simp add: equalASCIIName_def equal_loop_iff)

end
