(* ===== verification/Netstack.thy ===== *)
theory Netstack
  imports LinuxTun
begin

text \<open>
  The user-space network stack of \<open>src/tun/netstack/tun.go\<close>: the device \<open>netTun\<close>, the conversion of
  addresses and the dials. gvisor's stack is the argument \<open>N\<close>, a record with one function for each
  call the code makes, on a state of its own type; \<open>'c\<close> are its connections and endpoints, \<open>'x\<close> the
  contexts.
\<close>

section \<open>Addresses\<close>

text \<open>\<open>netip.Addr\<close>: the zero value, an IPv4 address of 4 bytes, or an IPv6 address of 16 with a zone.\<close>

datatype ipAddr = NoAddr | IP4 "byte list" | IP6 "byte list" "byte list"

type_synonym addrPort = "ipAddr \<times> u16"

fun is_4 :: "ipAddr \<Rightarrow> bool" where
  "is_4 (IP4 a) = True"
| "is_4 _ = False"

fun is_6 :: "ipAddr \<Rightarrow> bool" where
  "is_6 (IP6 a z) = True"
| "is_6 _ = False"

fun as_slice :: "ipAddr \<Rightarrow> byte list" where
  "as_slice NoAddr = []"
| "as_slice (IP4 a) = a"
| "as_slice (IP6 a z) = a"

definition is_valid :: "ipAddr \<Rightarrow> bool" where
  "is_valid a \<longleftrightarrow> a \<noteq> NoAddr"

text \<open>\<open>netip.AddrFromSlice\<close>, whose second result the code drops: the zero address on any other length.\<close>

definition addrFromSlice :: "byte list \<Rightarrow> ipAddr" where
  "addrFromSlice b = (if length b = 4 then IP4 b else if length b = 16 then IP6 b [] else NoAddr)"

datatype protoNumber = NoProto | IPv4Proto | IPv6Proto
datatype icmpProto = ICMPv4Proto | ICMPv6Proto

text \<open>\<open>tcpip.FullAddress\<close>, with the slice its address is made from.\<close>

record fullAddr =
  faNIC :: nat
  faAddr :: "byte list"
  faPort :: u16

definition convertToFullAddr :: "addrPort \<Rightarrow> fullAddr \<times> protoNumber" where
  "convertToFullAddr endpoint =
     (\<lparr>faNIC = 1, faAddr = as_slice (fst endpoint), faPort = snd endpoint\<rparr>,
      if is_4 (fst endpoint) then IPv4Proto else IPv6Proto)"

section \<open>What the code calls\<close>

text \<open>
  The errors of the client. \<open>ExternalError i timeout op\<close> is an error of a library: \<open>timeout\<close> if it is a
  \<open>net.Error\<close> that timed out, \<open>op\<close> if it is a \<open>*net.OpError\<close>. \<open>SectionDone\<close> is
  \<open>dnsmessage.ErrSectionDone\<close>, \<open>Canceled\<close> and \<open>DeadlineExceeded\<close> are those of \<open>context\<close>.
\<close>

datatype netError =
    ErrNoSuchHost | ErrLameReferral | ErrCannotUnmarshalDNSMessage | ErrCannotMarshalDNSMessage
  | ErrServerMisbehaving | ErrInvalidDNSResponse | ErrNoAnswerFromDNSServer
  | ErrServerTemporarilyMisbehaving | ErrCanceled | ErrTimeout | ErrNumericPort
  | ErrNoSuitableAddress | ErrMissingAddress
  | SectionDone | Canceled | DeadlineExceeded
  | ErrAFNoSupport | ErrFileClosed
  | PingInvalidAddress | PingWrongAddrType | PingMismatch | PingDeadline | PingNotImplemented | PingError string netError
  | StackError string netError
  | UnknownNetwork "byte list"
  | OpError netError
  | DNSError netError "byte list" "ipAddr option" bool bool bool
  | ExternalError nat bool bool

record ('c, 'x, 'w) netSys =
  stackSetSACK :: "'w \<Rightarrow> netError option \<times> 'w"
  stackCreateNIC :: "nat \<Rightarrow> 'w \<Rightarrow> netError option \<times> 'w"
  stackAddAddress :: "nat \<Rightarrow> protoNumber \<Rightarrow> byte list \<Rightarrow> 'w \<Rightarrow> netError option \<times> 'w"
  stackAddRoute :: "protoNumber \<Rightarrow> nat \<Rightarrow> 'w \<Rightarrow> 'w"
  stackRemoveNIC :: "nat \<Rightarrow> 'w \<Rightarrow> 'w"
  stackClose :: "'w \<Rightarrow> 'w"
  epRemoveNotify :: "'w \<Rightarrow> 'w"
  epClose :: "'w \<Rightarrow> 'w"
  injectInbound :: "protoNumber \<Rightarrow> byte list \<Rightarrow> 'w \<Rightarrow> 'w"
  recvPacket :: "'w \<Rightarrow> byte list option \<times> 'w"
  gonetDialContextTCP :: "'x \<Rightarrow> fullAddr \<Rightarrow> protoNumber \<Rightarrow> 'w \<Rightarrow> (netError + 'c) \<times> 'w"
  gonetDialUDP :: "fullAddr option \<Rightarrow> fullAddr option \<Rightarrow> protoNumber \<Rightarrow> 'w \<Rightarrow> (netError + 'c) \<times> 'w"
  newEndpoint :: "icmpProto \<Rightarrow> protoNumber \<Rightarrow> 'w \<Rightarrow> (netError + 'c) \<times> 'w"
  epBind :: "'c \<Rightarrow> fullAddr \<Rightarrow> 'w \<Rightarrow> netError option \<times> 'w"
  epConnect :: "'c \<Rightarrow> fullAddr \<Rightarrow> 'w \<Rightarrow> netError option \<times> 'w"
  epWrite :: "'c \<Rightarrow> byte list \<Rightarrow> fullAddr \<Rightarrow> 'w \<Rightarrow> (nat \<times> netError option) \<times> 'w"
  connWrite :: "'c \<Rightarrow> byte list \<Rightarrow> 'w \<Rightarrow> netError option \<times> 'w"
  connRead :: "'c \<Rightarrow> nat \<Rightarrow> 'w \<Rightarrow> (netError + byte list) \<times> 'w"
  connSetDeadline :: "'c \<Rightarrow> int \<Rightarrow> 'w \<Rightarrow> netError option \<times> 'w"
  connClose :: "'c \<Rightarrow> 'w \<Rightarrow> 'w"
  randRead :: "'w \<Rightarrow> (netError + byte list) \<times> 'w"
  timeNow :: "'w \<Rightarrow> int \<times> 'w"
  withDeadline :: "'x \<Rightarrow> int \<Rightarrow> 'x"
  ctxDeadline :: "'x \<Rightarrow> int option"
  ctxDone :: "'x \<Rightarrow> 'w \<Rightarrow> netError option"
  gonetDialTCP :: "fullAddr \<Rightarrow> protoNumber \<Rightarrow> 'w \<Rightarrow> (netError + 'c) \<times> 'w"
  gonetListenTCP :: "fullAddr \<Rightarrow> protoNumber \<Rightarrow> 'w \<Rightarrow> (netError + 'c) \<times> 'w"
  epRead :: "'w \<Rightarrow> byte list option \<times> 'w"
  viewRead :: "byte list \<Rightarrow> nat \<Rightarrow> netError + byte list"
  sendView :: "byte list \<Rightarrow> 'w \<Rightarrow> 'w"
  pingDeadline :: "'c \<Rightarrow> 'w \<Rightarrow> bool \<times> 'w"
  pingRecv :: "'c \<Rightarrow> nat \<Rightarrow> 'w \<Rightarrow> (netError + byte list \<times> byte list) \<times> 'w"
  pingTimer :: "'c \<Rightarrow> int \<Rightarrow> 'w \<Rightarrow> 'w"
  pingClose :: "'c \<Rightarrow> 'w \<Rightarrow> 'w"

text \<open>
  \<open>epRead\<close> is the next outgoing packet of the stack, if any, \<open>viewRead\<close> what \<open>view.Read\<close> puts into a buffer of
  that length, \<open>sendView\<close> the hand-over of a packet to a reader of the
  unbuffered channel of packets. \<open>pingDeadline\<close> is the \<open>select\<close> of a ping connection: \<open>True\<close> if its timer
  fires before a packet is there. \<open>pingRecv\<close> answers the bytes, as far as they fit, and the address they
  come from; \<open>pingTimer\<close> resets the timer.
\<close>

section \<open>The device\<close>

text \<open>
  \<open>Net\<close> and \<open>netTun\<close> are one struct; the handles of the stack are in the state. A channel is nil, open or
  closed; \<open>ntPending\<close> is what the channel of events holds.
\<close>

record netTun =
  ntMTU :: int
  ntEvents :: chan
  ntPending :: "event list"
  ntIncoming :: chan
  dnsServers :: "ipAddr list"
  hasV4 :: bool
  hasV6 :: bool

fun add_addresses :: "('c, 'x, 'w) netSys \<Rightarrow> ipAddr list \<Rightarrow> netTun \<Rightarrow> 'w \<Rightarrow> (netError + netTun) \<times> 'w" where
  "add_addresses N [] dev w = (Inr dev, w)"
| "add_addresses N (ip # ips) dev w =
     (let protoNumber = (if is_4 ip then IPv4Proto else if is_6 ip then IPv6Proto else NoProto);
          (err, w) = stackAddAddress N 1 protoNumber (as_slice ip) w in
      case err of
        Some err \<Rightarrow> (Inl (StackError ''AddProtocolAddress'' err), w)
      | None \<Rightarrow> add_addresses N ips
          (if is_4 ip then dev\<lparr>hasV4 := True\<rparr> else if is_6 ip then dev\<lparr>hasV6 := True\<rparr> else dev) w)"

definition createNetTUN ::
  "('c, 'x, 'w) netSys \<Rightarrow> ipAddr list \<Rightarrow> ipAddr list \<Rightarrow> int \<Rightarrow> 'w \<Rightarrow> (netError + netTun) \<times> 'w" where
  "createNetTUN N localAddresses servers mtu w =
     (let dev = \<lparr>ntMTU = mtu, ntEvents = chanOpen, ntPending = [], ntIncoming = chanOpen,
                     dnsServers = servers, hasV4 = False, hasV6 = False\<rparr>;
          (err, w) = stackSetSACK N w in
      case err of
        Some err \<Rightarrow> (Inl (StackError ''could not enable TCP SACK'' err), w)
      | None \<Rightarrow>
          (let (err, w) = stackCreateNIC N 1 w in
           case err of
             Some err \<Rightarrow> (Inl (StackError ''CreateNIC'' err), w)
           | None \<Rightarrow>
               (case add_addresses N localAddresses dev w of
                  (Inl err, w) \<Rightarrow> (Inl err, w)
                | (Inr dev, w) \<Rightarrow>
                    (let w = (if hasV4 dev then stackAddRoute N IPv4Proto 1 w else w);
                         w = (if hasV6 dev then stackAddRoute N IPv6Proto 1 w else w)
                     in (Inr (dev\<lparr>ntPending := ntPending dev @ [EventUp]\<rparr>), w)))))"

text \<open>\<open>Read\<close>: a packet from the channel, \<open>None\<close> once it is closed.\<close>

definition netTunRead ::
  "('c, 'x, 'w) netSys \<Rightarrow> byte list list \<Rightarrow> nat list \<Rightarrow> int \<Rightarrow> 'w
    \<Rightarrow> ((nat \<times> netError option) \<times> byte list list \<times> nat list \<times> 'w) option" where
  "netTunRead N buf sizes offset w =
     (case recvPacket N w of
        (None, w) \<Rightarrow> Some ((0, Some ErrFileClosed), buf, sizes, w)
      | (Some view, w) \<Rightarrow> do {
          b \<leftarrow> idx buf 0;
          dst \<leftarrow> slice_from_int b offset;
          case viewRead N view (length dst) of
            Inl err \<Rightarrow> Some ((0, Some err), buf, sizes, w)
          | Inr got \<Rightarrow> do {
              b \<leftarrow> copy_at b (nat offset) got;
              buf \<leftarrow> set_at buf 0 b;
              sizes \<leftarrow> set_at sizes 0 (length got);
              Some ((1, None), buf, sizes, w)
            }
        })"

fun netTun_write_loop :: "('c, 'x, 'w) netSys \<Rightarrow> byte list list \<Rightarrow> int \<Rightarrow> 'w \<Rightarrow> (netError option \<times> 'w) option" where
  "netTun_write_loop N [] offset w = Some (None, w)"
| "netTun_write_loop N (b # bs) offset w = do {
     packet \<leftarrow> slice_from_int b offset;
     if packet = [] then netTun_write_loop N bs offset w
     else if drop_bit 4 (hd packet) = 4 then netTun_write_loop N bs offset (injectInbound N IPv4Proto packet w)
     else if drop_bit 4 (hd packet) = 6 then netTun_write_loop N bs offset (injectInbound N IPv6Proto packet w)
     else Some (Some ErrAFNoSupport, w)
   }"

definition netTunWrite ::
  "('c, 'x, 'w) netSys \<Rightarrow> byte list list \<Rightarrow> int \<Rightarrow> 'w \<Rightarrow> ((nat \<times> netError option) \<times> 'w) option" where
  "netTunWrite N buf offset w = do {
     (err, w) \<leftarrow> netTun_write_loop N buf offset w;
     Some ((if err = None then length buf else 0, err), w)
   }"

definition netTunClose :: "('c, 'x, 'w) netSys \<Rightarrow> netTun \<Rightarrow> 'w \<Rightarrow> (netTun \<times> 'w) option" where
  "netTunClose N dev w = do {
     let w = epClose N (epRemoveNotify N (stackClose N (stackRemoveNIC N 1 w)));
     evs \<leftarrow> (if ntEvents dev \<noteq> chanNil then close_chan (ntEvents dev) else Some chanNil);
     inc \<leftarrow> (if ntIncoming dev \<noteq> chanNil then close_chan (ntIncoming dev) else Some chanNil);
     Some (dev\<lparr>ntEvents := evs, ntIncoming := inc\<rparr>, w)
   }"

text \<open>\<open>WriteNotify\<close>: sending on the channel that \<open>Close\<close> has closed is a panic.\<close>

definition writeNotify :: "('c, 'x, 'w) netSys \<Rightarrow> netTun \<Rightarrow> 'w \<Rightarrow> 'w option" where
  "writeNotify N dev w =
     (case epRead N w of
        (None, w) \<Rightarrow> Some w
      | (Some view, w) \<Rightarrow> if ntIncoming dev = chanOpen then Some (sendView N view w) else None)"

definition netTunName :: "byte list" where "netTunName = [103, 111]"

definition netTunMTU :: "netTun \<Rightarrow> int" where "netTunMTU dev = ntMTU dev"

section \<open>Dials\<close>

definition dialContextTCPAddrPort ::
  "('c, 'x, 'w) netSys \<Rightarrow> 'x \<Rightarrow> addrPort \<Rightarrow> 'w \<Rightarrow> (netError + 'c) \<times> 'w" where
  "dialContextTCPAddrPort N ctx addr w =
     (let (fa, pn) = convertToFullAddr addr in gonetDialContextTCP N ctx fa pn w)"

text \<open>\<open>*net.TCPAddr\<close> is the bytes of its \<open>IP\<close> and its port, an \<open>int\<close>.\<close>

definition dialContextTCP ::
  "('c, 'x, 'w) netSys \<Rightarrow> 'x \<Rightarrow> (byte list \<times> int) option \<Rightarrow> 'w \<Rightarrow> (netError + 'c) \<times> 'w" where
  "dialContextTCP N ctx addr w =
     (case addr of
        None \<Rightarrow> dialContextTCPAddrPort N ctx (NoAddr, 0) w
      | Some (ip, port) \<Rightarrow> dialContextTCPAddrPort N ctx (addrFromSlice ip, of_int port) w)"

definition dialTCPAddrPort :: "('c, 'x, 'w) netSys \<Rightarrow> addrPort \<Rightarrow> 'w \<Rightarrow> (netError + 'c) \<times> 'w" where
  "dialTCPAddrPort N addr w = (let (fa, pn) = convertToFullAddr addr in gonetDialTCP N fa pn w)"

definition dialTCP :: "('c, 'x, 'w) netSys \<Rightarrow> (byte list \<times> int) option \<Rightarrow> 'w \<Rightarrow> (netError + 'c) \<times> 'w" where
  "dialTCP N addr w =
     (case addr of
        None \<Rightarrow> dialTCPAddrPort N (NoAddr, 0) w
      | Some (ip, port) \<Rightarrow> dialTCPAddrPort N (addrFromSlice ip, of_int port) w)"

definition listenTCPAddrPort :: "('c, 'x, 'w) netSys \<Rightarrow> addrPort \<Rightarrow> 'w \<Rightarrow> (netError + 'c) \<times> 'w" where
  "listenTCPAddrPort N addr w = (let (fa, pn) = convertToFullAddr addr in gonetListenTCP N fa pn w)"

definition listenTCP :: "('c, 'x, 'w) netSys \<Rightarrow> (byte list \<times> int) option \<Rightarrow> 'w \<Rightarrow> (netError + 'c) \<times> 'w" where
  "listenTCP N addr w =
     (case addr of
        None \<Rightarrow> listenTCPAddrPort N (NoAddr, 0) w
      | Some (ip, port) \<Rightarrow> listenTCPAddrPort N (addrFromSlice ip, of_int port) w)"

definition dialUDPAddrPort ::
  "('c, 'x, 'w) netSys \<Rightarrow> addrPort \<Rightarrow> addrPort \<Rightarrow> 'w \<Rightarrow> (netError + 'c) \<times> 'w" where
  "dialUDPAddrPort N laddr raddr w =
     (let (lfa, pn) = (if is_valid (fst laddr) \<or> 0 < snd laddr
                       then let (addr, pn) = convertToFullAddr laddr in (Some addr, pn)
                       else (None, NoProto));
          (rfa, pn) = (if is_valid (fst raddr) \<or> 0 < snd raddr
                       then let (addr, pn) = convertToFullAddr raddr in (Some addr, pn)
                       else (None, pn))
      in gonetDialUDP N lfa rfa pn w)"

definition listenUDPAddrPort :: "('c, 'x, 'w) netSys \<Rightarrow> addrPort \<Rightarrow> 'w \<Rightarrow> (netError + 'c) \<times> 'w" where
  "listenUDPAddrPort N laddr w = dialUDPAddrPort N laddr (NoAddr, 0) w"

definition udp_addr :: "(byte list \<times> int) option \<Rightarrow> addrPort" where
  "udp_addr a = (case a of None \<Rightarrow> (NoAddr, 0) | Some (ip, port) \<Rightarrow> (addrFromSlice ip, of_int port))"

definition dialUDP ::
  "('c, 'x, 'w) netSys \<Rightarrow> (byte list \<times> int) option \<Rightarrow> (byte list \<times> int) option \<Rightarrow> 'w \<Rightarrow> (netError + 'c) \<times> 'w" where
  "dialUDP N laddr raddr w = dialUDPAddrPort N (udp_addr laddr) (udp_addr raddr) w"

definition listenUDP :: "('c, 'x, 'w) netSys \<Rightarrow> (byte list \<times> int) option \<Rightarrow> 'w \<Rightarrow> (netError + 'c) \<times> 'w" where
  "listenUDP N laddr w = dialUDP N laddr None w"

section \<open>Ping\<close>

record 'c pingConn =
  pcLaddr :: ipAddr
  pcRaddr :: ipAddr
  pcEp :: 'c

definition pingNetwork :: "ipAddr \<Rightarrow> string" where
  "pingNetwork ia = (if is_4 ia then ''ping4'' else if is_6 ia then ''ping6'' else ''ping'')"

definition dialPingAddr ::
  "('c, 'x, 'w) netSys \<Rightarrow> ipAddr \<Rightarrow> ipAddr \<Rightarrow> 'w \<Rightarrow> (netError + 'c pingConn) \<times> 'w" where
  "dialPingAddr N laddr raddr w =
     (if \<not> is_valid laddr \<and> \<not> is_valid raddr then (Inl PingInvalidAddress, w)
      else let v6 = (is_6 laddr \<or> is_6 raddr);
               bind = is_valid laddr;
               laddr = (if \<not> bind then (if v6 then IP6 (replicate 16 0) [] else IP4 (replicate 4 0)) else laddr);
               tn = (if v6 then ICMPv6Proto else ICMPv4Proto);
               pn = (if v6 then IPv6Proto else IPv4Proto);
               (r, w) = newEndpoint N tn pn w in
        case r of
          Inl err \<Rightarrow> (Inl (PingError ''endpoint'' err), w)
        | Inr ep \<Rightarrow>
            (let (err, w) = (if bind then epBind N ep (fst (convertToFullAddr (laddr, 0))) w else (None, w)) in
             case err of
               Some err \<Rightarrow> (Inl (PingError ''bind'' err), w)
             | None \<Rightarrow>
                 if is_valid raddr then
                   (let (err, w) = epConnect N ep (fst (convertToFullAddr (raddr, 0))) w in
                    case err of
                      Some err \<Rightarrow> (Inl (PingError ''connect'' err), w)
                    | None \<Rightarrow> (Inr \<lparr>pcLaddr = laddr, pcRaddr = raddr, pcEp = ep\<rparr>, w))
                 else (Inr \<lparr>pcLaddr = laddr, pcRaddr = NoAddr, pcEp = ep\<rparr>, w)))"

definition listenPingAddr :: "('c, 'x, 'w) netSys \<Rightarrow> ipAddr \<Rightarrow> 'w \<Rightarrow> (netError + 'c pingConn) \<times> 'w" where
  "listenPingAddr N laddr w = dialPingAddr N laddr NoAddr w"

definition dialPing ::
  "('c, 'x, 'w) netSys \<Rightarrow> ipAddr option \<Rightarrow> ipAddr option \<Rightarrow> 'w \<Rightarrow> (netError + 'c pingConn) \<times> 'w" where
  "dialPing N laddr raddr w =
     dialPingAddr N (case laddr of None \<Rightarrow> NoAddr | Some a \<Rightarrow> a) (case raddr of None \<Rightarrow> NoAddr | Some a \<Rightarrow> a) w"

definition listenPing :: "('c, 'x, 'w) netSys \<Rightarrow> ipAddr option \<Rightarrow> 'w \<Rightarrow> (netError + 'c pingConn) \<times> 'w" where
  "listenPing N laddr w = listenPingAddr N (case laddr of None \<Rightarrow> NoAddr | Some a \<Rightarrow> a) w"

text \<open>The dynamic type of a \<open>net.Addr\<close>, as \<open>WriteTo\<close> distinguishes it.\<close>

datatype goAddr = PingAddr ipAddr | IPAddr "byte list" | OtherAddr

definition pingAddrFromAddr :: "ipAddr \<Rightarrow> goAddr" where "pingAddrFromAddr addr = PingAddr addr"
definition pingLocalAddr :: "'c pingConn \<Rightarrow> goAddr" where "pingLocalAddr pc = PingAddr (pcLaddr pc)"
definition pingRemoteAddr :: "'c pingConn \<Rightarrow> goAddr" where "pingRemoteAddr pc = PingAddr (pcRaddr pc)"

definition pingWriteTo ::
  "('c, 'x, 'w) netSys \<Rightarrow> 'c pingConn \<Rightarrow> byte list \<Rightarrow> goAddr \<Rightarrow> 'w \<Rightarrow> (nat \<times> netError option) \<times> 'w" where
  "pingWriteTo N pc p addr w =
     (let send = (\<lambda>na.
            if \<not> (is_4 na \<and> is_4 (pcLaddr pc) \<or> is_6 na \<and> is_6 (pcLaddr pc))
            then ((0, Some PingMismatch), w)
            else let ((n64, err), w) = epWrite N (pcEp pc) p (fst (convertToFullAddr (na, 0))) w in
              ((n64, map_option (PingError ''write'') err), w)) in
      case addr of
        PingAddr a \<Rightarrow> send a
      | IPAddr ip \<Rightarrow> send (addrFromSlice ip)
      | OtherAddr \<Rightarrow> ((0, Some PingWrongAddrType), w))"

definition pingWrite :: "('c, 'x, 'w) netSys \<Rightarrow> 'c pingConn \<Rightarrow> byte list \<Rightarrow> 'w \<Rightarrow> (nat \<times> netError option) \<times> 'w" where
  "pingWrite N pc p w = pingWriteTo N pc p (PingAddr (pcRaddr pc)) w"

text \<open>\<open>ReadFrom\<close> and \<open>Read\<close>: what is read is at the front of \<open>p\<close>.\<close>

definition pingReadFrom ::
  "('c, 'x, 'w) netSys \<Rightarrow> 'c pingConn \<Rightarrow> byte list \<Rightarrow> 'w
    \<Rightarrow> ((nat \<times> ipAddr option \<times> netError option) \<times> byte list \<times> 'w) option" where
  "pingReadFrom N pc p w =
     (case pingDeadline N (pcEp pc) w of
        (True, w) \<Rightarrow> Some ((0, None, Some PingDeadline), p, w)
      | (False, w) \<Rightarrow>
          (case pingRecv N (pcEp pc) (length p) w of
             (Inl err, w) \<Rightarrow> Some ((0, None, Some (PingError ''read'' err)), p, w)
           | (Inr (got, from), w) \<Rightarrow> do {
               p \<leftarrow> copy_at p 0 got;
               Some ((length got, Some (addrFromSlice from), None), p, w)
             }))"

definition pingRead ::
  "('c, 'x, 'w) netSys \<Rightarrow> 'c pingConn \<Rightarrow> byte list \<Rightarrow> 'w \<Rightarrow> ((nat \<times> netError option) \<times> byte list \<times> 'w) option" where
  "pingRead N pc p w = map_option (\<lambda>((n, a, err), p, w). ((n, err), p, w)) (pingReadFrom N pc p w)"

text \<open>Deadlines: \<open>time.Until\<close> saturates at the ends of \<open>int64\<close>.\<close>

definition time_sub :: "int \<Rightarrow> int \<Rightarrow> int" where
  "time_sub t u = max (- (2 ^ 63)) (min (2 ^ 63 - 1) (t - u))"

definition pingSetReadDeadline :: "('c, 'x, 'w) netSys \<Rightarrow> 'c pingConn \<Rightarrow> int \<Rightarrow> 'w \<Rightarrow> netError option \<times> 'w" where
  "pingSetReadDeadline N pc t w = (let (now, w) = timeNow N w in (None, pingTimer N (pcEp pc) (time_sub t now) w))"

definition pingSetDeadline :: "('c, 'x, 'w) netSys \<Rightarrow> 'c pingConn \<Rightarrow> int \<Rightarrow> 'w \<Rightarrow> netError option \<times> 'w" where
  "pingSetDeadline N pc t w = pingSetReadDeadline N pc t w"

definition pingSetWriteDeadline :: "int \<Rightarrow> netError option" where
  "pingSetWriteDeadline t = Some PingNotImplemented"

definition pingConnClose :: "('c, 'x, 'w) netSys \<Rightarrow> 'c pingConn \<Rightarrow> 'w \<Rightarrow> netError option \<times> 'w" where
  "pingConnClose N pc w = (let w = pingTimer N (pcEp pc) 0 w; w = pingClose N (pcEp pc) w in (None, w))"

section \<open>Facts about the device and the pings\<close>

text \<open>\<open>Write\<close> injects the packets that are not empty, in order, with the protocol of their version.\<close>

definition inject_all :: "('c, 'x, 'w) netSys \<Rightarrow> byte list list \<Rightarrow> 'w \<Rightarrow> 'w" where
  "inject_all N ps w = fold (\<lambda>p. injectInbound N (if drop_bit 4 (hd p) = 4 then IPv4Proto else IPv6Proto) p) ps w"

lemma netTunWrite_injects:
  assumes "\<forall>b \<in> set packets. offset \<le> length b \<and> (offset < length b \<longrightarrow> drop_bit 4 (b ! offset) \<in> {4, 6})"
  shows "netTunWrite N packets (int offset) w =
    Some ((length packets, None), inject_all N (filter (\<lambda>p. p \<noteq> []) (map (drop offset) packets)) w)"
proof -
  have "netTun_write_loop N bs (int offset) w = Some (None, inject_all N (filter (\<lambda>p. p \<noteq> []) (map (drop offset) bs)) w)"
    if "\<forall>b \<in> set bs. offset \<le> length b \<and> (offset < length b \<longrightarrow> drop_bit 4 (b ! offset) \<in> {4, 6})" for bs w
    using that
  proof (induction bs arbitrary: w)
    case (Cons b bs)
    note ih = Cons.IH [of "injectInbound N p (drop offset b) w" for p]
    show ?case
    proof (cases "offset < length b")
      case True
      then have h: "hd (drop offset b) = b ! offset" "drop offset b \<noteq> []" by (simp_all add: hd_drop_conv_nth)
      have v: "drop_bit 4 (b ! offset) = 4 \<or> drop_bit 4 (b ! offset) = 6" using Cons.prems True by simp
      show ?thesis using v Cons.prems ih True
        by (elim disjE) (simp_all add: slice_from_int_def slice_from_def h inject_all_def)
    next
      case False
      then show ?thesis using Cons.prems Cons.IH [of w] by (auto simp: slice_from_int_def slice_from_def)
    qed
  qed (simp add: inject_all_def)
  with assms show ?thesis by (simp add: netTunWrite_def)
qed

text \<open>\<open>Close\<close> is not guarded: a second call closes the closed channel of events, which is a panic.\<close>

lemma netTunClose_twice_panics: "netTunClose N dev w = Some (dev', w') \<Longrightarrow> ntEvents dev \<noteq> chanNil \<Longrightarrow> netTunClose N dev' w' = None"
  by (cases "ntEvents dev") (auto simp: netTunClose_def close_chan_def split: if_splits chan.splits)

text \<open>\<open>DialPingAddr\<close> does not close the endpoint when it cannot be bound or connected.\<close>

lemma ping_endpoint_left_open:
  assumes "newEndpoint N ICMPv4Proto IPv4Proto w = (Inr ep, w1)"
    and "epConnect N ep (fst (convertToFullAddr (IP4 a, 0))) w1 = (Some err, w2)"
  shows "dialPingAddr N NoAddr (IP4 a) w = (Inl (PingError ''connect'' err), w2)"
  using assms by (simp add: dialPingAddr_def is_valid_def)

end
