(* ===== verification/DNS.thy ===== *)
theory DNS
  imports DomainName Netstack
begin

text \<open>
  The DNS client of \<open>src/tun/netstack/tun.go\<close>: the request, the round trips over UDP and TCP, \<open>exchange\<close>
  and \<open>tryOneName\<close>. The package \<open>dnsmessage\<close> is the argument \<open>D\<close>: \<open>'p\<close> are its parsers, \<open>'b\<close> its builders.

  A call that reads in a loop may never return. Its result is an option; \<open>None\<close> is that it does not
  return, or panics.
\<close>

section \<open>The package dnsmessage\<close>

record dnsHeader =
  msgID :: u16
  msgResponse :: bool
  msgAuthoritative :: bool
  msgTruncated :: bool
  msgRecursionDesired :: bool
  msgRecursionAvailable :: bool
  msgRCode :: u16

record dnsQuestion =
  qName :: dnsName
  qType :: u16
  qClass :: u16

text \<open>The methods of a parser take it by reference: they return the parser they leave.\<close>

record ('p, 'b) dnsLib =
  newName :: "byte list \<Rightarrow> netError + dnsName"
  startQuestions :: "byte list \<Rightarrow> dnsHeader \<Rightarrow> netError + 'b"
  addQuestion :: "'b \<Rightarrow> dnsQuestion \<Rightarrow> netError + 'b"
  finishMessage :: "'b \<Rightarrow> netError + byte list"
  parserZero :: 'p
  parserStart :: "byte list \<Rightarrow> netError + 'p \<times> dnsHeader"
  parserQuestion :: "'p \<Rightarrow> (netError + dnsQuestion) \<times> 'p"
  parserSkipQuestion :: "'p \<Rightarrow> netError option \<times> 'p"
  parserAnswerType :: "'p \<Rightarrow> (netError + u16) \<times> 'p"
  parserSkipAnswer :: "'p \<Rightarrow> netError option \<times> 'p"
  parserA :: "'p \<Rightarrow> (netError + byte list) \<times> 'p"
  parserAAAA :: "'p \<Rightarrow> (netError + byte list) \<times> 'p"

definition TypeA :: u16 where "TypeA = 1"
definition TypeAAAA :: u16 where "TypeAAAA = 28"
definition ClassINET :: u16 where "ClassINET = 1"
definition RCodeSuccess :: u16 where "RCodeSuccess = 0"
definition RCodeServerFailure :: u16 where "RCodeServerFailure = 2"
definition RCodeNameError :: u16 where "RCodeNameError = 3"

section \<open>Request and response\<close>

text \<open>A failure of the random source is a panic.\<close>

definition randU16 :: "('c, 'x, 'w) netSys \<Rightarrow> 'w \<Rightarrow> (u16 \<times> 'w) option" where
  "randU16 N w =
     (case randRead N w of
        (Inl err, w) \<Rightarrow> None
      | (Inr b, w) \<Rightarrow> do {
          b0 \<leftarrow> idx b 0;
          b1 \<leftarrow> idx b 1;
          Some (ucast b0 OR push_bit 8 (ucast b1), w)
        })"

definition newRequest ::
  "('p, 'b) dnsLib \<Rightarrow> ('c, 'x, 'w) netSys \<Rightarrow> dnsQuestion \<Rightarrow> 'w
    \<Rightarrow> ((netError + u16 \<times> byte list \<times> byte list) \<times> 'w) option" where
  "newRequest D N q w = do {
     (ident, w) \<leftarrow> randU16 N w;
     let hdr = \<lparr>msgID = ident, msgResponse = False, msgAuthoritative = False, msgTruncated = False,
                msgRecursionDesired = True, msgRecursionAvailable = False, msgRCode = 0\<rparr>;
     case startQuestions D [0, 0] hdr of
       Inl err \<Rightarrow> Some (Inl err, w)
     | Inr b \<Rightarrow>
         (case addQuestion D b q of
            Inl err \<Rightarrow> Some (Inl err, w)
          | Inr b \<Rightarrow> do {
              let tcpReq = (case finishMessage D b of Inl err \<Rightarrow> [] | Inr msg \<Rightarrow> msg);
              udpReq \<leftarrow> slice_from tcpReq 2;
              let l = int (length tcpReq) - 2;
              tcpReq \<leftarrow> set_at tcpReq 0 (of_int (l div 256));
              tcpReq \<leftarrow> set_at tcpReq 1 (of_int l);
              Some (case finishMessage D b of Inl err \<Rightarrow> Inl err | Inr msg \<Rightarrow> Inr (ident, udpReq, tcpReq), w)
            })
   }"

definition checkResponse :: "u16 \<Rightarrow> dnsQuestion \<Rightarrow> dnsHeader \<Rightarrow> dnsQuestion \<Rightarrow> bool" where
  "checkResponse reqID reqQues respHdr respQues =
     (if \<not> msgResponse respHdr then False
      else if reqID \<noteq> msgID respHdr then False
      else if qType reqQues \<noteq> qType respQues \<or> qClass reqQues \<noteq> qClass respQues
        \<or> \<not> equalASCIIName (qName reqQues) (qName respQues) then False
      else True)"

section \<open>Round trips\<close>

text \<open>
  The body of the loop over the datagrams: what cannot be parsed or does not match is skipped
  (\<open>None\<close>, the \<open>continue\<close> of the code).
\<close>

definition dns_packet_step ::
  "('p, 'b) dnsLib \<Rightarrow> ('c, 'x, 'w) netSys \<Rightarrow> 'c \<Rightarrow> u16 \<Rightarrow> dnsQuestion \<Rightarrow> 'w
    \<Rightarrow> (netError + 'p \<times> dnsHeader) option \<times> 'w" where
  "dns_packet_step D N c ident query w =
     (case connRead N c 512 w of
        (Inl err, w) \<Rightarrow> (Some (Inl err), w)
      | (Inr b, w) \<Rightarrow>
          (case parserStart D b of
             Inl err \<Rightarrow> (None, w)
           | Inr (p, h) \<Rightarrow>
               (case parserQuestion D p of
                  (Inl err, p) \<Rightarrow> (None, w)
                | (Inr q, p) \<Rightarrow>
                    if \<not> checkResponse ident query h q then (None, w) else (Some (Inr (p, h)), w))))"

partial_function (option) dns_packet_loop ::
  "('p, 'b) dnsLib \<Rightarrow> ('c, 'x, 'w) netSys \<Rightarrow> 'c \<Rightarrow> u16 \<Rightarrow> dnsQuestion \<Rightarrow> 'w
    \<Rightarrow> ((netError + 'p \<times> dnsHeader) \<times> 'w) option" where
  "dns_packet_loop D N c ident query w =
     (case dns_packet_step D N c ident query w of
        (Some r, w) \<Rightarrow> Some (r, w)
      | (None, w) \<Rightarrow> dns_packet_loop D N c ident query w)"

definition dnsPacketRoundTrip ::
  "('p, 'b) dnsLib \<Rightarrow> ('c, 'x, 'w) netSys \<Rightarrow> 'c \<Rightarrow> u16 \<Rightarrow> dnsQuestion \<Rightarrow> byte list \<Rightarrow> 'w
    \<Rightarrow> ((netError + 'p \<times> dnsHeader) \<times> 'w) option" where
  "dnsPacketRoundTrip D N c ident query b w =
     (case connWrite N c b w of
        (Some err, w) \<Rightarrow> Some (Inl err, w)
      | (None, w) \<Rightarrow> dns_packet_loop D N c ident query w)"

text \<open>
  \<open>io.ReadFull\<close>: reads until the buffer is full. What it has read before an error is dropped by the
  code. A connection that answers nothing, without an error, forever keeps it from returning.
\<close>

partial_function (option) read_full ::
  "('c, 'x, 'w) netSys \<Rightarrow> 'c \<Rightarrow> nat \<Rightarrow> byte list \<Rightarrow> 'w \<Rightarrow> ((netError + byte list) \<times> 'w) option" where
  "read_full N c n got w =
     (if n \<le> length got then Some (Inr got, w)
      else (case connRead N c (n - length got) w of
        (Inl err, w) \<Rightarrow> Some (Inl err, w)
      | (Inr b, w) \<Rightarrow> read_full N c n (got @ b) w))"

definition dnsStreamRoundTrip ::
  "('p, 'b) dnsLib \<Rightarrow> ('c, 'x, 'w) netSys \<Rightarrow> 'c \<Rightarrow> u16 \<Rightarrow> dnsQuestion \<Rightarrow> byte list \<Rightarrow> 'w
    \<Rightarrow> ((netError + 'p \<times> dnsHeader) \<times> 'w) option" where
  "dnsStreamRoundTrip D N c ident query b w =
     (case connWrite N c b w of
        (Some err, w) \<Rightarrow> Some (Inl err, w)
      | (None, w) \<Rightarrow> do {
          (r, w) \<leftarrow> read_full N c 2 [] w;
          case r of
            Inl err \<Rightarrow> Some (Inl err, w)
          | Inr b \<Rightarrow> do {
              b0 \<leftarrow> idx b 0;
              b1 \<leftarrow> idx b 1;
              let l = 256 * unat b0 + unat b1;
              (r, w) \<leftarrow> read_full N c l [] w;
              case r of
                Inl err \<Rightarrow> Some (Inl err, w)
              | Inr b \<Rightarrow>
                  (case parserStart D b of
                     Inl err \<Rightarrow> Some (Inl ErrCannotUnmarshalDNSMessage, w)
                   | Inr (p, h) \<Rightarrow>
                       (case parserQuestion D p of
                          (Inl err, p) \<Rightarrow> Some (Inl ErrCannotUnmarshalDNSMessage, w)
                        | (Inr q, p) \<Rightarrow>
                            if \<not> checkResponse ident query h q then Some (Inl ErrInvalidDNSResponse, w)
                            else Some (Inr (p, h), w)))
            }
        })"

section \<open>exchange\<close>

definition ctx_error :: "netError \<Rightarrow> netError" where
  "ctx_error err = (if err = Canceled then ErrCanceled else if err = DeadlineExceeded then ErrTimeout else err)"

text \<open>
  The loop over the transports. The deferred \<open>cancel\<close> only releases timers. A deadline of 0 is the
  zero time.
\<close>

fun exchange_loop ::
  "('p, 'b) dnsLib \<Rightarrow> ('c, 'x, 'w) netSys \<Rightarrow> 'x \<Rightarrow> ipAddr \<Rightarrow> dnsQuestion \<Rightarrow> int \<Rightarrow> u16 \<Rightarrow> byte list \<Rightarrow> byte list
    \<Rightarrow> bool list \<Rightarrow> 'w \<Rightarrow> ((netError + 'p \<times> dnsHeader) \<times> 'w) option" where
  "exchange_loop D N ctx server q timeout ident udpReq tcpReq [] w = Some (Inl ErrNoAnswerFromDNSServer, w)"
| "exchange_loop D N ctx server q timeout ident udpReq tcpReq (useUDP # us) w =
     (let (now, w) = timeNow N w;
          ctx1 = withDeadline N ctx (now + timeout);
          (r, w) = (if useUDP then dialUDPAddrPort N (NoAddr, 0) (server, 53) w
                    else dialContextTCPAddrPort N ctx1 (server, 53) w) in
      case r of
        Inl err \<Rightarrow> Some (Inl err, w)
      | Inr c \<Rightarrow>
          (let (err, w) = (case ctxDeadline N ctx1 of
                 None \<Rightarrow> (None, w)
               | Some d \<Rightarrow> if d = 0 then (None, w) else connSetDeadline N c d w) in
           case err of
             Some err \<Rightarrow> Some (Inl err, w)
           | None \<Rightarrow> do {
               (r, w) \<leftarrow> (if useUDP then dnsPacketRoundTrip D N c ident q udpReq w
                          else dnsStreamRoundTrip D N c ident q tcpReq w);
               let w = connClose N c w;
               case r of
                 Inl err \<Rightarrow> Some (Inl (ctx_error err), w)
               | Inr (p, h) \<Rightarrow>
                   (let (err, p) = parserSkipQuestion D p in
                    if err \<noteq> Some SectionDone then Some (Inl ErrInvalidDNSResponse, w)
                    else if msgTruncated h
                    then exchange_loop D N ctx server q timeout ident udpReq tcpReq us w
                    else Some (Inr (p, h), w))
             }))"

definition exchange ::
  "('p, 'b) dnsLib \<Rightarrow> ('c, 'x, 'w) netSys \<Rightarrow> 'x \<Rightarrow> ipAddr \<Rightarrow> dnsQuestion \<Rightarrow> int \<Rightarrow> 'w
    \<Rightarrow> ((netError + 'p \<times> dnsHeader) \<times> 'w) option" where
  "exchange D N ctx server q timeout w = do {
     let q = q\<lparr>qClass := ClassINET\<rparr>;
     (r, w) \<leftarrow> newRequest D N q w;
     case r of
       Inl err \<Rightarrow> Some (Inl ErrCannotMarshalDNSMessage, w)
     | Inr (ident, udpReq, tcpReq) \<Rightarrow>
         exchange_loop D N ctx server q timeout ident udpReq tcpReq [True, False] w
   }"

section \<open>Answers\<close>

definition checkHeader :: "('p, 'b) dnsLib \<Rightarrow> 'p \<Rightarrow> dnsHeader \<Rightarrow> netError option \<times> 'p" where
  "checkHeader D p h =
     (if msgRCode h = RCodeNameError then (Some ErrNoSuchHost, p)
      else let (r, p) = parserAnswerType D p;
               err = (case r of Inl err \<Rightarrow> Some err | Inr t \<Rightarrow> None) in
        if err \<noteq> None \<and> err \<noteq> Some SectionDone then (Some ErrCannotUnmarshalDNSMessage, p)
        else if msgRCode h = RCodeSuccess \<and> \<not> msgAuthoritative h \<and> \<not> msgRecursionAvailable h
          \<and> err = Some SectionDone then (Some ErrLameReferral, p)
        else if msgRCode h \<noteq> RCodeSuccess \<and> msgRCode h \<noteq> RCodeNameError then
          (if msgRCode h = RCodeServerFailure then (Some ErrServerTemporarilyMisbehaving, p)
           else (Some ErrServerMisbehaving, p))
        else (None, p))"

partial_function (option) skipToAnswer ::
  "('p, 'b) dnsLib \<Rightarrow> u16 \<Rightarrow> 'p \<Rightarrow> (netError option \<times> 'p) option" where
  "skipToAnswer D qtype p =
     (case parserAnswerType D p of
        (Inl err, p) \<Rightarrow>
          if err = SectionDone then Some (Some ErrNoSuchHost, p) else Some (Some ErrCannotUnmarshalDNSMessage, p)
      | (Inr t, p) \<Rightarrow>
          if t = qtype then Some (None, p)
          else (case parserSkipAnswer D p of
            (Some err, p) \<Rightarrow> Some (Some ErrCannotUnmarshalDNSMessage, p)
          | (None, p) \<Rightarrow> skipToAnswer D qtype p))"

section \<open>tryOneName\<close>

text \<open>
  The tests for a \<open>net.Error\<close> that timed out and for a \<open>*net.OpError\<close>.
\<close>

fun is_timeout :: "netError \<Rightarrow> bool" where
  "is_timeout (ExternalError i t op) = t"
| "is_timeout DeadlineExceeded = True"
| "is_timeout _ = False"

fun is_op_error :: "netError \<Rightarrow> bool" where
  "is_op_error (ExternalError i t op) = op"
| "is_op_error _ = False"

text \<open>
  The loops over the servers, flattened: the list is \<open>dnsServers\<close> twice. The fields of \<open>DNSError\<close> are
  the error, the name, the server, and the flags \<open>IsTimeout\<close>, \<open>IsTemporary\<close> and \<open>IsNotFound\<close>. A server
  \<open>None\<close> is the empty string.
\<close>

type_synonym 'p nameResult = "'p \<times> ipAddr option \<times> netError option"

fun try_servers ::
  "('p, 'b) dnsLib \<Rightarrow> ('c, 'x, 'w) netSys \<Rightarrow> 'x \<Rightarrow> byte list \<Rightarrow> dnsQuestion \<Rightarrow> netError option \<Rightarrow> ipAddr list \<Rightarrow> 'w
    \<Rightarrow> ('p nameResult \<times> 'w) option" where
  "try_servers D N ctx name q lastErr [] w = Some ((parserZero D, None, lastErr), w)"
| "try_servers D N ctx name q lastErr (server # servers) w = do {
     (r, w) \<leftarrow> exchange D N ctx server q 5000000000 w;
     case r of
       Inl err \<Rightarrow>
         try_servers D N ctx name q
           (Some (DNSError err name (Some server) (is_timeout err) (is_op_error err) False)) servers w
     | Inr (p, h) \<Rightarrow>
         (case checkHeader D p h of
            (Some err, p) \<Rightarrow>
              (let temporary = (err = ErrServerTemporarilyMisbehaving) in
               if err = ErrNoSuchHost
               then Some ((p, Some server, Some (DNSError err name (Some server) False temporary True)), w)
               else try_servers D N ctx name q
                 (Some (DNSError err name (Some server) False temporary False)) servers w)
          | (None, p) \<Rightarrow> do {
              (err, p) \<leftarrow> skipToAnswer D (qType q) p;
              case err of
                None \<Rightarrow> Some ((p, Some server, None), w)
              | Some err \<Rightarrow>
                  if err = ErrNoSuchHost
                  then Some ((p, Some server, Some (DNSError err name (Some server) False False True)), w)
                  else try_servers D N ctx name q
                    (Some (DNSError err name (Some server) False False False)) servers w
            })
   }"

definition tryOneName ::
  "('p, 'b) dnsLib \<Rightarrow> ('c, 'x, 'w) netSys \<Rightarrow> netTun \<Rightarrow> 'x \<Rightarrow> byte list \<Rightarrow> u16 \<Rightarrow> 'w
    \<Rightarrow> ('p nameResult \<times> 'w) option" where
  "tryOneName D N tnet ctx name qtype w =
     (case newName D name of
        Inl err \<Rightarrow> Some ((parserZero D, None, Some ErrCannotMarshalDNSMessage), w)
      | Inr n \<Rightarrow>
          try_servers D N ctx name \<lparr>qName = n, qType = qtype, qClass = ClassINET\<rparr> None
            (concat (replicate 2 (dnsServers tnet))) w)"

end
