(* ===== verification/DNSProps.thy ===== *)
theory DNSProps
  imports "HOL-Library.Multiset" DNS
begin

text \<open>
  What the DNS client of \<open>src/tun/netstack/tun.go\<close> accepts, when it returns, and what it does with its
  connections.
\<close>

section \<open>Accepted responses\<close>

text \<open>
  The message \<open>b\<close> has a header and a question that answer the request; reading them gives \<open>h\<close> and leaves
  the parser \<open>p\<close>.
\<close>

definition msg_answers :: "('p, 'b) dnsLib \<Rightarrow> u16 \<Rightarrow> dnsQuestion \<Rightarrow> byte list \<Rightarrow> 'p \<Rightarrow> dnsHeader \<Rightarrow> bool" where
  "msg_answers D ident q b p h \<longleftrightarrow> (\<exists>p0 q'. parserStart D b = Inr (p0, h) \<and> parserQuestion D p0 = (Inr q', p)
     \<and> msgResponse h \<and> msgID h = ident \<and> qType q' = qType q \<and> qClass q' = qClass q
     \<and> equalASCIIName (qName q) (qName q'))"

definition answers :: "('p, 'b) dnsLib \<Rightarrow> u16 \<Rightarrow> dnsQuestion \<Rightarrow> 'p \<Rightarrow> dnsHeader \<Rightarrow> bool" where
  "answers D ident q p h \<longleftrightarrow> (\<exists>b. msg_answers D ident q b p h)"

lemma checkResponse_iff:
  "checkResponse ident q h q' \<longleftrightarrow> msgResponse h \<and> msgID h = ident \<and> qType q' = qType q \<and> qClass q' = qClass q
     \<and> equalASCIIName (qName q) (qName q')"
  by (auto simp: checkResponse_def)

lemma answers_intro:
  "parserStart D b = Inr (p0, h) \<Longrightarrow> parserQuestion D p0 = (Inr q', p) \<Longrightarrow> checkResponse ident q h q' \<Longrightarrow> answers D ident q p h"
  unfolding answers_def msg_answers_def checkResponse_iff by blast

lemma dns_packet_step_answers:
  "dns_packet_step D N c ident q w = (Some (Inr (p, h)), w') \<Longrightarrow> answers D ident q p h"
  by (auto simp: dns_packet_step_def intro: answers_intro split: prod.splits sum.splits if_splits)

lemma dns_packet_loop_answers:
  fixes D :: "('p, 'b) dnsLib" and N :: "('c, 'x, 'w) netSys"
  assumes "dns_packet_loop D N c ident q w = Some r"
  shows "\<forall>p h. fst r = Inr (p, h) \<longrightarrow> answers D ident q p h"
proof (rule dns_packet_loop.raw_induct [where P = "\<lambda>D N c ident q w r. \<forall>p h. fst r = Inr (p, h) \<longrightarrow> answers D ident q p h", OF _ assms])
  fix loop :: "('p, 'b) dnsLib \<Rightarrow> ('c, 'x, 'w) netSys \<Rightarrow> 'c \<Rightarrow> u16 \<Rightarrow> dnsQuestion \<Rightarrow> 'w
      \<Rightarrow> ((netError + 'p \<times> dnsHeader) \<times> 'w) option"
    and D N c ident q w r
  assume ih: "\<And>D N c ident q w r. loop D N c ident q w = Some r \<Longrightarrow> \<forall>p h. fst r = Inr (p, h) \<longrightarrow> answers D ident q p h"
    and r: "(case dns_packet_step D N c ident q w of (Some r, w) \<Rightarrow> Some (r, w) | (None, w) \<Rightarrow> loop D N c ident q w) = Some r"
  obtain x w1 where x: "dns_packet_step D N c ident q w = (x, w1)" by fastforce
  show "\<forall>p h. fst r = Inr (p, h) \<longrightarrow> answers D ident q p h"
  proof (cases x)
    case None
    then show ?thesis using ih [of D N c ident q w1 r] r x by simp
  next
    case (Some y)
    then show ?thesis using r x dns_packet_step_answers by fastforce
  qed
qed

lemma dnsPacketRoundTrip_answers:
  assumes "dnsPacketRoundTrip D N c ident q b w = Some (Inr (p, h), w')"
  shows "answers D ident q p h"
proof -
  obtain w1 where "dns_packet_loop D N c ident q w1 = Some (Inr (p, h), w')"
    using assms by (auto simp: dnsPacketRoundTrip_def split: prod.splits option.splits)
  from dns_packet_loop_answers [OF this] show ?thesis by simp
qed

lemma dnsStreamRoundTrip_answers:
  assumes "dnsStreamRoundTrip D N c ident q b w = Some (Inr (p, h), w')"
  shows "answers D ident q p h"
proof -
  obtain w1 where w1: "connWrite N c b w = (None, w1)"
    using assms by (auto simp: dnsStreamRoundTrip_def split: prod.splits option.splits)
  obtain m w2 where m: "read_full N c 2 [] w1 = Some (m, w2)"
    using assms by (auto simp: dnsStreamRoundTrip_def bind_Some_iff w1)
  obtain hd where hd: "m = Inr hd" using assms by (cases m) (auto simp: dnsStreamRoundTrip_def w1 m)
  obtain b0 b1 where b: "idx hd 0 = Some b0" "idx hd (Suc 0) = Some b1"
    using assms by (auto simp: dnsStreamRoundTrip_def w1 m hd bind_Some_iff)
  obtain n w3 where n: "read_full N c (256 * unat b0 + unat b1) [] w2 = Some (n, w3)"
    using assms by (auto simp: dnsStreamRoundTrip_def w1 m hd b bind_Some_iff Let_def)
  obtain msg where msg: "n = Inr msg" using assms by (cases n) (auto simp: dnsStreamRoundTrip_def w1 m hd b n)
  obtain p0 h0 where start: "parserStart D msg = Inr (p0, h0)"
    using assms by (cases "parserStart D msg") (auto simp: dnsStreamRoundTrip_def w1 m hd b n msg)
  obtain x p1 where question: "parserQuestion D p0 = (x, p1)" by fastforce
  obtain q' where q': "x = Inr q'"
    using assms by (cases x) (auto simp: dnsStreamRoundTrip_def w1 m hd b n msg start question)
  have "checkResponse ident q h0 q' \<and> p1 = p \<and> h0 = h"
    using assms by (auto simp: dnsStreamRoundTrip_def w1 m hd b n msg start question q' split: if_splits)
  then show ?thesis using answers_intro [OF start] question q' by blast
qed

lemma exchange_loop_answers:
  assumes "exchange_loop D N ctx server q timeout ident udpReq tcpReq us w = Some (Inr (p, h), w')"
  shows "\<exists>p0. answers D ident q p0 h \<and> parserSkipQuestion D p0 = (Some SectionDone, p) \<and> \<not> msgTruncated h"
  using assms
proof (induction us arbitrary: w)
  case (Cons useUDP us)
  obtain now w1 where t: "timeNow N w = (now, w1)" by fastforce
  let ?ctx1 = "withDeadline N ctx (now + timeout)"
  obtain r w2 where dial: "(if useUDP then dialUDPAddrPort N (NoAddr, 0) (server, 53) w1
      else dialContextTCPAddrPort N ?ctx1 (server, 53) w1) = (r, w2)" by fastforce
  obtain c where c: "r = Inr c" using Cons.prems by (cases r) (auto simp: t dial)
  obtain err w3 where dl: "(case ctxDeadline N ?ctx1 of None \<Rightarrow> (None, w2)
      | Some d \<Rightarrow> if d = 0 then (None, w2) else connSetDeadline N c d w2) = (err, w3)" by fastforce
  have err: "err = None" using Cons.prems by (cases err) (auto simp: t dial c dl)
  obtain x w4 where x: "(if useUDP then dnsPacketRoundTrip D N c ident q udpReq w3
      else dnsStreamRoundTrip D N c ident q tcpReq w3) = Some (x, w4)"
    using Cons.prems by (auto simp: t dial c dl err bind_Some_iff)
  obtain p0 h0 where x': "x = Inr (p0, h0)" using Cons.prems by (cases x) (auto simp: t dial c dl err x)
  have ans: "answers D ident q p0 h0"
    using x x' dnsPacketRoundTrip_answers dnsStreamRoundTrip_answers by (cases useUDP) fastforce+
  obtain e p1 where skip: "parserSkipQuestion D p0 = (e, p1)" by fastforce
  have e: "e = Some SectionDone" using Cons.prems by (rule_tac ccontr) (auto simp: t dial c dl err x x' skip)
  show ?case
  proof (cases "msgTruncated h0")
    case True
    then show ?thesis using Cons by (auto simp: t dial c dl err x x' skip e)
  next
    case False
    then show ?thesis using Cons.prems ans skip by (auto simp: t dial c dl err x x' skip e)
  qed
qed simp

text \<open>
  C22. A response that \<open>exchange\<close> accepts answers the request it has just sent: it has
  the response bit, the ID of the request, exactly one question, of the type and the class asked
  for and with the name asked for up to the case of letters, and it is not truncated. Everything
  else a server or an attacker sends is skipped or an error.
\<close>

theorem dns_reply_matches:
  assumes "exchange D N ctx server q timeout w = Some (Inr (p, h), w')"
  shows "\<exists>ident udpReq tcpReq w1 b p0 q' p1.
    newRequest D N (q\<lparr>qClass := ClassINET\<rparr>) w = Some (Inr (ident, udpReq, tcpReq), w1)
    \<and> parserStart D b = Inr (p0, h) \<and> parserQuestion D p0 = (Inr q', p1)
    \<and> parserSkipQuestion D p1 = (Some SectionDone, p)
    \<and> msgResponse h \<and> msgID h = ident \<and> \<not> msgTruncated h
    \<and> qType q' = qType q \<and> qClass q' = ClassINET \<and> equalASCIIName (qName q) (qName q')"
proof -
  obtain r w1 where r: "newRequest D N (q\<lparr>qClass := ClassINET\<rparr>) w = Some (r, w1)"
    using assms unfolding exchange_def Let_def by (cases "newRequest D N (q\<lparr>qClass := ClassINET\<rparr>) w") auto
  obtain ident udpReq tcpReq where req: "r = Inr (ident, udpReq, tcpReq)"
    using assms by (cases r) (auto simp: exchange_def r)
  have "exchange_loop D N ctx server (q\<lparr>qClass := ClassINET\<rparr>) timeout ident udpReq tcpReq [True, False] w1
      = Some (Inr (p, h), w')"
    using assms by (simp add: exchange_def r req del: exchange_loop.simps)
  from exchange_loop_answers [OF this] obtain p1 where p1: "answers D ident (q\<lparr>qClass := ClassINET\<rparr>) p1 h"
    "parserSkipQuestion D p1 = (Some SectionDone, p)" "\<not> msgTruncated h" by blast
  from p1(1) obtain b p0 q' where "parserStart D b = Inr (p0, h)" "parserQuestion D p0 = (Inr q', p1)"
    "msgResponse h" "msgID h = ident" "qType q' = qType q" "qClass q' = ClassINET" "equalASCIIName (qName q) (qName q')"
    by (auto simp: answers_def msg_answers_def)
  then show ?thesis using r req p1(2,3) by blast
qed

section \<open>The loop over datagrams ends\<close>

text \<open>One step on the datagram \<open>b\<close>: it is skipped, or it answers.\<close>

lemma dns_packet_step_datagram:
  assumes "connRead N c 512 w = (Inr b, w')"
  shows "(\<exists>p h. msg_answers D ident q b p h \<and> dns_packet_step D N c ident q w = (Some (Inr (p, h)), w'))
    \<or> (\<nexists>p h. msg_answers D ident q b p h) \<and> dns_packet_step D N c ident q w = (None, w')"
proof (cases "parserStart D b")
  case (Inl err)
  then show ?thesis using assms by (simp add: dns_packet_step_def msg_answers_def)
next
  case (Inr ph)
  obtain p0 h x p where x: "ph = (p0, h)" "parserQuestion D p0 = (x, p)" by fastforce
  show ?thesis
  proof (cases x)
    case err: (Inl err)
    then show ?thesis using assms x Inr by (simp add: dns_packet_step_def msg_answers_def)
  next
    case q': (Inr q')
    then show ?thesis
      using assms x Inr by (cases "checkResponse ident q h q'")
        (auto simp: dns_packet_step_def msg_answers_def checkResponse_iff)
  qed
qed

lemma dns_packet_loop_step:
  "dns_packet_step D N c ident q w = (x, w') \<Longrightarrow> dns_packet_loop D N c ident q w
     = (case x of None \<Rightarrow> dns_packet_loop D N c ident q w' | Some r \<Rightarrow> Some (r, w'))"
  by (subst dns_packet_loop.simps) (simp split: option.split)

text \<open>
  C36. A UDP query on a connection that delivers any list of datagrams and errors,
  and then the error of the deadline, always returns. It skips exactly the datagrams at the
  front that do not answer the query, however many they are, and returns the first answer, the
  first error of the connection or, if neither comes, the error of the deadline.
\<close>

theorem dns_packet_returns:
  fixes N :: "('c, 'x, (netError + byte list) list) netSys"
  assumes "\<forall>n. connRead N c n [] = (Inl deadline, [])" and "\<forall>n r rs. connRead N c n (r # rs) = (r, rs)"
    and "\<forall>rs. connWrite N c b rs = (None, rs)"
  shows "\<exists>skipped rest. rs = map Inr skipped @ rest
    \<and> (\<forall>b \<in> set skipped. \<nexists>p h. msg_answers D ident q b p h)
    \<and> (case rest of
         [] \<Rightarrow> dnsPacketRoundTrip D N c ident q b rs = Some (Inl deadline, [])
       | Inl err # rs' \<Rightarrow> dnsPacketRoundTrip D N c ident q b rs = Some (Inl err, rs')
       | Inr reply # rs' \<Rightarrow> (\<exists>p h. msg_answers D ident q reply p h
           \<and> dnsPacketRoundTrip D N c ident q b rs = Some (Inr (p, h), rs')))"
proof -
  have start: "dnsPacketRoundTrip D N c ident q b rs = dns_packet_loop D N c ident q rs" for rs
    using assms(3) by (simp add: dnsPacketRoundTrip_def)
  show ?thesis
    unfolding start
  proof (induction rs)
    case Nil
    have "dns_packet_step D N c ident q [] = (Some (Inl deadline), [])"
      using assms(1) by (simp add: dns_packet_step_def)
    then show ?case by (intro exI [of _ "[]"] exI [of _ "[]"]) (simp add: dns_packet_loop_step)
  next
    case (Cons r rs)
    show ?case
    proof (cases r)
      case (Inl err)
      have "dns_packet_step D N c ident q (r # rs) = (Some (Inl err), rs)"
        using assms(2) Inl by (simp add: dns_packet_step_def)
      then show ?thesis using Inl by (intro exI [of _ "[]"] exI [of _ "r # rs"]) (simp add: dns_packet_loop_step)
    next
      case (Inr m)
      then have "connRead N c 512 (r # rs) = (Inr m, rs)" using assms(2) by simp
      from dns_packet_step_datagram [OF this, of D ident q] show ?thesis
      proof (elim disjE exE conjE)
        fix p h assume "msg_answers D ident q m p h"
          and "dns_packet_step D N c ident q (r # rs) = (Some (Inr (p, h)), rs)"
        then show ?thesis using Inr
          by (intro exI [of _ "[]"] exI [of _ "r # rs"]) (auto simp: dns_packet_loop_step)
      next
        assume skip: "\<nexists>p h. msg_answers D ident q m p h" "dns_packet_step D N c ident q (r # rs) = (None, rs)"
        obtain skipped rest where ih: "rs = map Inr skipped @ rest"
          "\<forall>b \<in> set skipped. \<nexists>p h. msg_answers D ident q b p h"
          "case rest of
             [] \<Rightarrow> dns_packet_loop D N c ident q rs = Some (Inl deadline, [])
           | Inl err # rs' \<Rightarrow> dns_packet_loop D N c ident q rs = Some (Inl err, rs')
           | Inr reply # rs' \<Rightarrow> (\<exists>p h. msg_answers D ident q reply p h
               \<and> dns_packet_loop D N c ident q rs = Some (Inr (p, h), rs'))"
          using Cons.IH by blast
        have eq: "dns_packet_loop D N c ident q (r # rs) = dns_packet_loop D N c ident q rs"
          by (simp add: dns_packet_loop_step [OF skip(2)])
        have "r # rs = map Inr (m # skipped) @ rest" using ih(1) Inr by simp
        moreover have "\<forall>b \<in> set (m # skipped). \<nexists>p h. msg_answers D ident q b p h" using ih(2) skip(1) by simp
        ultimately show ?thesis unfolding eq using ih(3) by blast
      qed
    qed
  qed
qed

section \<open>Connections\<close>

text \<open>
  What gvisor and the runtime promise of open connections: a successful dial opens one, \<open>Close\<close> closes
  it, no other call opens or closes any. \<open>opened\<close> reads the open connections off the state.
\<close>

definition tracks_conns :: "('c, 'x, 'w) netSys \<Rightarrow> ('w \<Rightarrow> 'c multiset) \<Rightarrow> bool" where
  "tracks_conns N opened \<longleftrightarrow>
     (\<forall>ctx fa pn w. opened (snd (gonetDialContextTCP N ctx fa pn w))
        = (case fst (gonetDialContextTCP N ctx fa pn w) of Inl err \<Rightarrow> opened w | Inr c \<Rightarrow> add_mset c (opened w)))
     \<and> (\<forall>la ra pn w. opened (snd (gonetDialUDP N la ra pn w))
        = (case fst (gonetDialUDP N la ra pn w) of Inl err \<Rightarrow> opened w | Inr c \<Rightarrow> add_mset c (opened w)))
     \<and> (\<forall>c w. opened (connClose N c w) = opened w - {#c#})
     \<and> (\<forall>c b w. opened (snd (connWrite N c b w)) = opened w)
     \<and> (\<forall>c n w. opened (snd (connRead N c n w)) = opened w)
     \<and> (\<forall>c d w. opened (snd (connSetDeadline N c d w)) = opened w)
     \<and> (\<forall>w. opened (snd (randRead N w)) = opened w) \<and> (\<forall>w. opened (snd (timeNow N w)) = opened w)"

lemma tracks_connsD:
  assumes "tracks_conns N opened"
  shows "gonetDialContextTCP N ctx fa pn w = (r, w') \<Longrightarrow> opened w' = (case r of Inl err \<Rightarrow> opened w | Inr c \<Rightarrow> add_mset c (opened w))"
    and "gonetDialUDP N la ra pn w = (r, w') \<Longrightarrow> opened w' = (case r of Inl err \<Rightarrow> opened w | Inr c \<Rightarrow> add_mset c (opened w))"
    and "opened (connClose N c w) = opened w - {#c#}"
    and "connWrite N c b w = (x, w') \<Longrightarrow> opened w' = opened w"
    and "connRead N c n w = (y, w') \<Longrightarrow> opened w' = opened w"
    and "connSetDeadline N c d w = (x, w') \<Longrightarrow> opened w' = opened w"
    and "randRead N w = (y, w') \<Longrightarrow> opened w' = opened w"
    and "timeNow N w = (t, w') \<Longrightarrow> opened w' = opened w"
  using assms unfolding tracks_conns_def by (metis fst_conv snd_conv)+

text \<open>The loops that read keep whatever reading keeps.\<close>

lemma read_full_keeps:
  assumes "read_full N c n got w = Some r"
  shows "(\<forall>n w. I (snd (connRead N c n w)) = I w) \<longrightarrow> I (snd r) = I w"
proof (rule read_full.raw_induct [where P = "\<lambda>N c n got w r. (\<forall>n w. I (snd (connRead N c n w)) = I w) \<longrightarrow> I (snd r) = I w", OF _ assms])
  fix loop N c n got w r
  assume ih: "\<And>N c n got w r. loop N c n got w = Some r \<Longrightarrow> (\<forall>n w. I (snd (connRead N c n w)) = I w) \<longrightarrow> I (snd r) = I w"
    and r: "(if n \<le> length got then Some (Inr got, w)
      else (case connRead N c (n - length got) w of
        (Inl err, w) \<Rightarrow> Some (Inl err, w)
      | (Inr b, w) \<Rightarrow> loop N c n (got @ b) w)) = Some r"
  show "(\<forall>n w. I (snd (connRead N c n w)) = I w) \<longrightarrow> I (snd r) = I w"
  proof
    assume keeps: "\<forall>n w. I (snd (connRead N c n w)) = I w"
    obtain x w1 where x: "connRead N c (n - length got) w = (x, w1)" by fastforce
    then have w1: "I w1 = I w" using keeps by (metis snd_conv)
    show "I (snd r) = I w"
    proof (cases "n \<le> length got")
      case False
      then show ?thesis using r x w1 keeps ih by (cases x) auto
    qed (use r in auto)
  qed
qed

lemma dns_packet_loop_keeps:
  assumes "dns_packet_loop D N c ident q w = Some r"
  shows "(\<forall>n w. I (snd (connRead N c n w)) = I w) \<longrightarrow> I (snd r) = I w"
proof (rule dns_packet_loop.raw_induct [where P = "\<lambda>D N c ident q w r. (\<forall>n w. I (snd (connRead N c n w)) = I w) \<longrightarrow> I (snd r) = I w", OF _ assms])
  fix loop D N c ident q w r
  assume ih: "\<And>D N c ident q w r. loop D N c ident q w = Some r \<Longrightarrow> (\<forall>n w. I (snd (connRead N c n w)) = I w) \<longrightarrow> I (snd r) = I w"
    and r: "(case dns_packet_step D N c ident q w of (Some r, w) \<Rightarrow> Some (r, w) | (None, w) \<Rightarrow> loop D N c ident q w) = Some r"
  obtain x w1 where x: "dns_packet_step D N c ident q w = (x, w1)" by fastforce
  then have "w1 = snd (connRead N c 512 w)"
    by (auto simp: dns_packet_step_def split: prod.splits sum.splits if_splits)
  then show "(\<forall>n w. I (snd (connRead N c n w)) = I w) \<longrightarrow> I (snd r) = I w"
    using r x ih by (cases x) auto
qed

lemma round_trip_conns:
  assumes "tracks_conns N opened"
  shows "dnsPacketRoundTrip D N c ident q b w = Some (r, w') \<Longrightarrow> opened w' = opened w"
    and "dnsStreamRoundTrip D N c ident q b w = Some (r, w') \<Longrightarrow> opened w' = opened w"
proof -
  have reads: "\<forall>n w. opened (snd (connRead N c n w)) = opened w" using assms by (simp add: tracks_conns_def)
  obtain x w1 where x: "connWrite N c b w = (x, w1)" by fastforce
  then have w1: "opened w1 = opened w" by (rule tracks_connsD(4) [OF assms])
  {
    assume "dnsPacketRoundTrip D N c ident q b w = Some (r, w')"
    then show "opened w' = opened w"
      using x w1 dns_packet_loop_keeps [of D N c ident q w1 "(r, w')" opened] reads
      by (cases x) (auto simp: dnsPacketRoundTrip_def)
  next
    assume s: "dnsStreamRoundTrip D N c ident q b w = Some (r, w')"
    show "opened w' = opened w"
    proof (cases x)
      case (Some err)
      then show ?thesis using s x w1 by (simp add: dnsStreamRoundTrip_def)
    next
      case None
      then obtain m w2 where m: "read_full N c 2 [] w1 = Some (m, w2)"
        using s by (auto simp: dnsStreamRoundTrip_def bind_Some_iff x)
      then have w2: "opened w2 = opened w" using read_full_keeps [of N c 2 "[]" w1 "(m, w2)" opened] reads w1 by simp
      show ?thesis
      proof (cases m)
        case (Inl err)
        then show ?thesis using s x None m w2 by (simp add: dnsStreamRoundTrip_def)
      next
        case (Inr hd)
        then obtain b0 b1 where b: "idx hd 0 = Some b0" "idx hd (Suc 0) = Some b1"
          using s by (auto simp: dnsStreamRoundTrip_def x None m bind_Some_iff)
        obtain n w3 where n: "read_full N c (256 * unat b0 + unat b1) [] w2 = Some (n, w3)"
          using s by (auto simp: dnsStreamRoundTrip_def x None m Inr b bind_Some_iff Let_def)
        then have "opened w3 = opened w"
          using read_full_keeps [of N c _ "[]" w2 "(n, w3)" opened] reads w2 by simp
        moreover have "w' = w3"
          using s by (auto simp: dnsStreamRoundTrip_def x None m Inr b n split: sum.splits prod.splits if_splits)
        ultimately show ?thesis by simp
      qed
    qed
  }
qed

text \<open>A connection is left behind by a \<open>SetDeadline\<close> that fails, and in no other way.\<close>

definition left_open :: "('c, 'x, 'w) netSys \<Rightarrow> ('w \<Rightarrow> 'c multiset) \<Rightarrow> 'w \<Rightarrow> netError + 'r \<Rightarrow> 'w \<Rightarrow> bool" where
  "left_open N opened w r w' \<longleftrightarrow> (\<exists>c d w1 err. connSetDeadline N c d w1 = (Some err, w') \<and> r = Inl err
     \<and> opened w' = add_mset c (opened w))"

lemma dial_conns:
  assumes "tracks_conns N opened"
    and "(if useUDP then dialUDPAddrPort N la ra w else dialContextTCPAddrPort N ctx ra w) = (r, w')"
  shows "opened w' = (case r of Inl err \<Rightarrow> opened w | Inr c \<Rightarrow> add_mset c (opened w))"
  using assms(2) tracks_connsD(1,2) [OF assms(1)]
  by (auto simp: dialUDPAddrPort_def dialContextTCPAddrPort_def split: if_splits prod.splits)

lemma exchange_loop_conns:
  assumes conns: "tracks_conns N opened"
    and "exchange_loop D N ctx server q timeout ident udpReq tcpReq us w = Some (r, w')"
  shows "opened w' = opened w \<or> left_open N opened w r w'"
  using assms(2)
proof (induction us arbitrary: w)
  case (Cons useUDP us)
  note loop = Cons.prems
  obtain now w1 where t: "timeNow N w = (now, w1)" by fastforce
  let ?ctx1 = "withDeadline N ctx (now + timeout)"
  obtain dialed w2 where dial: "(if useUDP then dialUDPAddrPort N (NoAddr, 0) (server, 53) w1
      else dialContextTCPAddrPort N ?ctx1 (server, 53) w1) = (dialed, w2)" by fastforce
  have w2: "opened w2 = (case dialed of Inl err \<Rightarrow> opened w | Inr c \<Rightarrow> add_mset c (opened w))"
    using dial_conns [OF conns dial] tracks_connsD(8) [OF conns t] by (cases dialed) simp_all
  show ?case
  proof (cases dialed)
    case (Inl err)
    then show ?thesis using loop w2 by (simp add: t dial)
  next
    case (Inr c)
    obtain err w3 where dl: "(case ctxDeadline N ?ctx1 of None \<Rightarrow> (None, w2)
        | Some d \<Rightarrow> if d = 0 then (None, w2) else connSetDeadline N c d w2) = (err, w3)" by fastforce
    have w3: "opened w3 = add_mset c (opened w)"
      using dl w2 Inr tracks_connsD(6) [OF conns] by (auto split: option.splits if_splits)
    show ?thesis
    proof (cases err)
      case (Some e)
      then obtain d where "connSetDeadline N c d w2 = (Some e, w3)"
        using dl by (auto split: option.splits if_splits)
      moreover have "r = Inl e" "w' = w3" using loop by (simp_all add: t dial Inr dl Some)
      ultimately show ?thesis using w3 unfolding left_open_def by blast
    next
      case None
      obtain x w4 where x: "(if useUDP then dnsPacketRoundTrip D N c ident q udpReq w3
          else dnsStreamRoundTrip D N c ident q tcpReq w3) = Some (x, w4)"
        using loop by (auto simp: t dial Inr dl None bind_Some_iff)
      have "opened w4 = opened w3" using x round_trip_conns [OF conns] by (auto split: if_splits)
      then have closed: "opened (connClose N c w4) = opened w" using w3 tracks_connsD(3) [OF conns] by simp
      show ?thesis
      proof (cases x)
        case e: (Inl e)
        then show ?thesis using loop closed by (auto simp: t dial Inr dl None x)
      next
        case ph: (Inr ph)
        obtain p h e p1 where p: "ph = (p, h)" "parserSkipQuestion D p = (e, p1)" by fastforce
        show ?thesis
        proof (cases "e = Some SectionDone \<and> msgTruncated h")
          case True
          then have "exchange_loop D N ctx server q timeout ident udpReq tcpReq us (connClose N c w4) = Some (r, w')"
            using loop by (simp add: t dial Inr dl None x ph p)
          from Cons.IH [OF this] closed show ?thesis by (auto simp: left_open_def)
        next
          case False
          then show ?thesis using loop closed by (auto simp: t dial Inr dl None x ph p Let_def split: if_splits)
        qed
      qed
    qed
  qed
qed simp

lemma newRequest_conns:
  assumes "tracks_conns N opened" and "newRequest D N q w = Some (r, w')"
  shows "opened w' = opened w"
proof -
  obtain ident w1 where x: "randU16 N w = Some (ident, w1)"
    using assms(2) unfolding newRequest_def by (cases "randU16 N w") auto
  then have "opened w1 = opened w"
    using tracks_connsD(7) [OF assms(1)] by (auto simp: randU16_def bind_Some_iff split: prod.splits sum.splits)
  moreover have "w' = w1"
  proof (cases "startQuestions D [0, 0] \<lparr>msgID = ident, msgResponse = False, msgAuthoritative = False, msgTruncated = False,
      msgRecursionDesired = True, msgRecursionAvailable = False, msgRCode = 0\<rparr>")
    case (Inl err)
    then show ?thesis using assms(2) by (simp add: newRequest_def x Let_def)
  next
    case (Inr b)
    then show ?thesis
      using assms(2) by (cases "addQuestion D b q") (auto simp: newRequest_def x Let_def bind_Some_iff)
  qed
  ultimately show ?thesis by simp
qed

text \<open>
  C37. Every return of \<open>exchange\<close>, on success and on each of its errors, has closed
  the connections it has opened, over UDP and over TCP, with one exception: if setting the deadline of a
  new connection fails, that connection stays open and its handle is lost.
\<close>

theorem exchange_connections:
  assumes "tracks_conns N opened" and "exchange D N ctx server q timeout w = Some (r, w')"
  shows "opened w' = opened w
    \<or> (\<exists>c d w1 err. connSetDeadline N c d w1 = (Some err, w') \<and> r = Inl err \<and> opened w' = add_mset c (opened w))"
proof -
  obtain req w1 where req: "newRequest D N (q\<lparr>qClass := ClassINET\<rparr>) w = Some (req, w1)"
    using assms(2) unfolding exchange_def Let_def by (cases "newRequest D N (q\<lparr>qClass := ClassINET\<rparr>) w") auto
  note w1 = newRequest_conns [OF assms(1) req]
  show ?thesis
  proof (cases req)
    case (Inl err)
    then show ?thesis using assms(2) w1 by (simp add: exchange_def req)
  next
    case (Inr parts)
    obtain ident udpReq tcpReq where parts: "parts = (ident, udpReq, tcpReq)" by (cases parts)
    have "exchange_loop D N ctx server (q\<lparr>qClass := ClassINET\<rparr>) timeout ident udpReq tcpReq [True, False] w1 = Some (r, w')"
      using assms(2) by (simp add: exchange_def req Inr parts del: exchange_loop.simps)
    from exchange_loop_conns [OF assms(1) this] w1 show ?thesis by (simp add: left_open_def)
  qed
qed

section \<open>A concrete server\<close>

text \<open>
  A message of the toy format is its ID, the type of its question and one byte for the type of each
  answer. All addresses are \<open>10.0.0.1\<close> and \<open>101:101::101\<close>.
\<close>

definition demo_name :: dnsName where "demo_name = \<lparr>nameData = replicate 255 97, nameLength = 1\<rparr>"

definition demo_lib :: "(byte list, byte list) dnsLib" where
  "demo_lib = \<lparr>newName = \<lambda>s. Inr demo_name, startQuestions = \<lambda>b h. Inr b, addQuestion = \<lambda>b q. Inr b,
     finishMessage = Inr, parserZero = [],
     parserStart = \<lambda>b. case b of [] \<Rightarrow> Inl (ExternalError 1 False False) | i # p \<Rightarrow>
       Inr (p, \<lparr>msgID = ucast i, msgResponse = True, msgAuthoritative = True, msgTruncated = False,
                msgRecursionDesired = True, msgRecursionAvailable = True, msgRCode = 0\<rparr>),
     parserQuestion = \<lambda>p. case p of [] \<Rightarrow> (Inl SectionDone, p) | t # p \<Rightarrow>
       (Inr \<lparr>qName = demo_name, qType = ucast t, qClass = 1\<rparr>, p),
     parserSkipQuestion = \<lambda>p. (Some SectionDone, p),
     parserAnswerType = \<lambda>p. case p of [] \<Rightarrow> (Inl SectionDone, p) | t # r \<Rightarrow> (Inr (ucast t), p),
     parserSkipAnswer = \<lambda>p. (None, tl p),
     parserA = \<lambda>p. (Inr [10, 0, 0, 1], tl p), parserAAAA = \<lambda>p. (Inr (replicate 16 1), tl p)\<rparr>"

text \<open>A network whose connections read with \<open>rd\<close>; opening and closing one does \<open>opn\<close> and \<open>cls\<close>.\<close>

definition demo_net :: "('w \<Rightarrow> (netError + byte list) \<times> 'w) \<Rightarrow> ('w \<Rightarrow> 'w) \<Rightarrow> (nat \<Rightarrow> 'w \<Rightarrow> 'w) \<Rightarrow> (nat, int, 'w) netSys" where
  "demo_net rd opn cls = \<lparr>stackSetSACK = \<lambda>w. (None, w), stackCreateNIC = \<lambda>n w. (None, w),
     stackAddAddress = \<lambda>n p a w. (None, w), stackAddRoute = \<lambda>p n w. w, stackRemoveNIC = \<lambda>n w. w,
     stackClose = \<lambda>w. w, epRemoveNotify = \<lambda>w. w, epClose = \<lambda>w. w, injectInbound = \<lambda>p b w. w,
     recvPacket = \<lambda>w. (None, w), gonetDialContextTCP = \<lambda>x fa pn w. (Inr 0, opn w),
     gonetDialUDP = \<lambda>l r pn w. (Inr 0, opn w), newEndpoint = \<lambda>t p w. (Inr 0, w),
     epBind = \<lambda>c a w. (None, w), epConnect = \<lambda>c a w. (None, w), epWrite = \<lambda>c b a w. ((length b, None), w),
     connWrite = \<lambda>c b w. (None, w), connRead = \<lambda>c n w. rd w, connSetDeadline = \<lambda>c d w. (None, w),
     connClose = cls, randRead = \<lambda>w. (Inr [7, 0], w), timeNow = \<lambda>w. (100, w),
     withDeadline = \<lambda>x d. d, ctxDeadline = \<lambda>x. if x = 0 then None else Some x, ctxDone = \<lambda>x w. None,
     gonetDialTCP = \<lambda>fa pn w. (Inr 0, opn w), gonetListenTCP = \<lambda>fa pn w. (Inr 0, opn w),
     epRead = \<lambda>w. (None, w), viewRead = \<lambda>v n. Inr (take n v), sendView = \<lambda>v w. w, pingDeadline = \<lambda>c w. (True, w),
     pingRecv = \<lambda>c n w. (Inr ([], []), w), pingTimer = \<lambda>c d w. w, pingClose = \<lambda>c w. w\<rparr>"

fun pop_reply :: "(netError + byte list) list \<Rightarrow> (netError + byte list) \<times> (netError + byte list) list" where
  "pop_reply [] = (Inl (ExternalError 0 True True), [])"
| "pop_reply (r # rs) = (r, rs)"

definition demo_question :: dnsQuestion where
  "demo_question = \<lparr>qName = demo_name, qType = 1, qClass = 1\<rparr>"

declare dns_packet_loop.simps [code] read_full.simps [code] skipToAnswer.simps [code]

text \<open>The first datagram has another ID: it is skipped.\<close>

theorem dns_reply_matches_witness:
  "\<exists>h. exchange demo_lib (demo_net pop_reply id (\<lambda>_. id)) 0 NoAddr demo_question 5 [Inr [9, 1], Inr [7, 1, 1]]
      = Some (Inr ([1], h), []) \<and> msgID h = 7 \<and> \<not> msgTruncated h"
proof -
  obtain h where h: "exchange demo_lib (demo_net pop_reply id (\<lambda>_. id)) 0 NoAddr demo_question 5 [Inr [9, 1], Inr [7, 1, 1]]
      = Some (Inr ([1], h), [])" "msgID h = 7"
  proof
    show "exchange demo_lib (demo_net pop_reply id (\<lambda>_. id)) 0 NoAddr demo_question 5 [Inr [9, 1], Inr [7, 1, 1]]
      = Some (Inr ([1], \<lparr>msgID = 7, msgResponse = True, msgAuthoritative = True, msgTruncated = False,
                msgRecursionDesired = True, msgRecursionAvailable = True, msgRCode = 0\<rparr>), [])"
      by code_simp
  qed simp
  from dns_reply_matches [OF h(1)] h show ?thesis by blast
qed

theorem dns_packet_returns_witness:
  "\<exists>skipped rest. [Inr [9, 1], Inr [7, 1, 1]] = map Inr skipped @ rest
    \<and> dnsPacketRoundTrip demo_lib (demo_net pop_reply id (\<lambda>_. id)) 0 7 demo_question [] [Inr [9, 1], Inr [7, 1, 1]] \<noteq> None"
proof -
  let ?N = "demo_net pop_reply id (\<lambda>_. id)"
  have "\<forall>n. connRead ?N 0 n [] = (Inl (ExternalError 0 True True), [])" "\<forall>n r rs. connRead ?N 0 n (r # rs) = (r, rs)"
    "\<forall>rs. connWrite ?N 0 [] rs = (None, rs)" by (simp_all add: demo_net_def)
  from dns_packet_returns [OF this, of "[Inr [9, 1], Inr [7, 1, 1]]" demo_lib 7 demo_question]
  show ?thesis by (elim exE conjE) (fastforce split: list.splits sum.splits)
qed

definition demo_conns :: "(nat, int, (netError + byte list) list \<times> nat multiset) netSys" where
  "demo_conns = demo_net (\<lambda>(rs, cs). let (r, rs) = pop_reply rs in (r, (rs, cs)))
     (\<lambda>(rs, cs). (rs, add_mset 0 cs)) (\<lambda>c (rs, cs). (rs, cs - {#c#}))"

text \<open>Setting the deadline fails: the connection stays open.\<close>

theorem exchange_connections_witness:
  "\<exists>r w'. exchange demo_lib (demo_conns\<lparr>connSetDeadline := \<lambda>c d w. (Some ErrTimeout, w)\<rparr>) 0 NoAddr demo_question 5 ([], {#})
      = Some (r, w') \<and> snd w' = {#0#} \<and> r = Inl ErrTimeout"
proof -
  let ?N = "demo_conns\<lparr>connSetDeadline := \<lambda>c d w. (Some ErrTimeout, w)\<rparr>"
  have "tracks_conns ?N snd" by (auto simp: tracks_conns_def demo_conns_def demo_net_def split_def Let_def)
  moreover have e: "exchange demo_lib ?N 0 NoAddr demo_question 5 ([], {#}) = Some (Inl ErrTimeout, ([], {#0#}))"
    by (simp add: exchange_def newRequest_def randU16_def demo_conns_def demo_net_def demo_lib_def demo_question_def
        dialUDPAddrPort_def go_simps Let_def convertToFullAddr_def)
  ultimately have "snd ([] :: (netError + byte list) list, {#0::nat#}) = snd ([] :: (netError + byte list) list, {#})
    \<or> (\<exists>c d w1 err. connSetDeadline ?N c d w1 = (Some err, ([], {#0#})) \<and> Inl ErrTimeout = (Inl err :: netError + byte list \<times> dnsHeader)
        \<and> snd ([] :: (netError + byte list) list, {#0::nat#}) = add_mset c (snd ([] :: (netError + byte list) list, {#})))"
    by (rule exchange_connections)
  then show ?thesis using e by (intro exI conjI) auto
qed

end
