(* ===== verification/Dial.thy ===== *)
theory Dial
  imports DNSProps
begin

text \<open>
  \<open>LookupContextHost\<close> and \<open>DialContext\<close> of \<open>src/tun/netstack/tun.go\<close>. Parsing and printing an address
  (\<open>net/netip\<close>) and splitting host and port (\<open>net.SplitHostPort\<close>) are the argument \<open>I\<close>. Times are
  nanoseconds, 0 is the zero time. An option is \<open>None\<close> where the code panics or does not return.
\<close>

record ipLib =
  parseAddr :: "byte list \<Rightarrow> ipAddr option"
  addrString :: "ipAddr \<Rightarrow> byte list"
  splitHostPort :: "byte list \<Rightarrow> netError + byte list \<times> byte list"

section \<open>Looking up a host\<close>

text \<open>
  The answers of one lane: the addresses of type A and AAAA it appends, and the error with which it
  stops, if any.
\<close>

partial_function (option) lane_answers ::
  "('p, 'b) dnsLib \<Rightarrow> byte list \<Rightarrow> ipAddr option \<Rightarrow> 'p \<Rightarrow> (ipAddr list \<times> ipAddr list \<times> netError option) option" where
  "lane_answers D host server p =
     (let failed = Some ([], [], Some (DNSError ErrCannotMarshalDNSMessage host server False False False)) in
      case parserAnswerType D p of
        (Inl err, p) \<Rightarrow> if err \<noteq> SectionDone then failed else Some ([], [], None)
      | (Inr t, p) \<Rightarrow>
          if t = TypeA then
            (case parserA D p of
               (Inl err, p) \<Rightarrow> failed
             | (Inr a, p) \<Rightarrow> do { (a4, a6, err) \<leftarrow> lane_answers D host server p; Some (IP4 a # a4, a6, err) })
          else if t = TypeAAAA then
            (case parserAAAA D p of
               (Inl err, p) \<Rightarrow> failed
             | (Inr a, p) \<Rightarrow> do { (a4, a6, err) \<leftarrow> lane_answers D host server p; Some (a4, IP6 a [] # a6, err) })
          else (case parserSkipAnswer D p of
               (Some err, p) \<Rightarrow> failed
             | (None, p) \<Rightarrow> lane_answers D host server p))"

text \<open>
  The loop that receives the results of the lanes, in the order in which the channel delivers them.
  The variables are \<open>addrsV4\<close>, \<open>addrsV6\<close> and \<open>lastErr\<close>.
\<close>

fun gather ::
  "('p, 'b) dnsLib \<Rightarrow> byte list \<Rightarrow> 'p nameResult list \<Rightarrow> ipAddr list \<Rightarrow> ipAddr list \<Rightarrow> netError option
    \<Rightarrow> (ipAddr list \<times> ipAddr list \<times> netError option) option" where
  "gather D host [] addrsV4 addrsV6 lastErr = Some (addrsV4, addrsV6, lastErr)"
| "gather D host ((p, server, Some err) # rs) addrsV4 addrsV6 lastErr =
     gather D host rs addrsV4 addrsV6 (if lastErr = None then Some err else lastErr)"
| "gather D host ((p, server, None) # rs) addrsV4 addrsV6 lastErr = do {
     (a4, a6, err) \<leftarrow> lane_answers D host server p;
     gather D host rs (addrsV4 @ a4) (addrsV6 @ a6) (if err = None then lastErr else err)
   }"

text \<open>The host without an IPv6 zone: up to the last \<open>%\<close>, if it contains a colon.\<close>

definition before_last :: "byte \<Rightarrow> byte list \<Rightarrow> byte list" where
  "before_last c s = (if c \<in> set s then rev (tl (dropWhile (\<lambda>x. x \<noteq> c) (rev s))) else s)"

definition without_zone :: "byte list \<Rightarrow> byte list" where
  "without_zone host = (if 58 \<in> set host then before_last 37 host else host)"

text \<open>
  The lanes: an A query if the device has IPv4, an AAAA query if it has IPv6, for the host and a dot.
  They run one after the other, in the order in which they deliver their results (\<open>order\<close>: whether the
  lane started last is the first to deliver); the steps of concurrent lanes are not interleaved.
\<close>

definition lanes :: "netTun \<Rightarrow> u16 list" where
  "lanes tnet = (if hasV4 tnet then [TypeA] else []) @ (if hasV6 tnet then [TypeAAAA] else [])"

fun run_lanes ::
  "('p, 'b) dnsLib \<Rightarrow> ('c, 'x, 'w) netSys \<Rightarrow> netTun \<Rightarrow> 'x \<Rightarrow> byte list \<Rightarrow> u16 list \<Rightarrow> 'w
    \<Rightarrow> ('p nameResult list \<times> 'w) option" where
  "run_lanes D N tnet ctx host [] w = Some ([], w)"
| "run_lanes D N tnet ctx host (t # ts) w = do {
     (r, w) \<leftarrow> tryOneName D N tnet ctx (host @ [46]) t w;
     (rs, w) \<leftarrow> run_lanes D N tnet ctx host ts w;
     Some (r # rs, w)
   }"

definition lookupContextHost ::
  "('p, 'b) dnsLib \<Rightarrow> ipLib \<Rightarrow> ('c, 'x, 'w) netSys \<Rightarrow> netTun \<Rightarrow> 'x \<Rightarrow> byte list \<Rightarrow> bool \<Rightarrow> 'w
    \<Rightarrow> ((netError + byte list list) \<times> 'w) option" where
  "lookupContextHost D I N tnet ctx host order w =
     (if host = [] \<or> \<not> hasV6 tnet \<and> \<not> hasV4 tnet
      then Some (Inl (DNSError ErrNoSuchHost host None False False True), w)
      else case parseAddr I (without_zone host) of
        Some ip \<Rightarrow> Some (Inr [addrString I ip], w)
      | None \<Rightarrow>
          if \<not> isDomainName host then Some (Inl (DNSError ErrNoSuchHost host None False False True), w)
          else do {
            (rs, w) \<leftarrow> run_lanes D N tnet ctx host (if order then rev (lanes tnet) else lanes tnet) w;
            (addrsV4, addrsV6, lastErr) \<leftarrow> gather D host rs [] [] None;
            let addrs = (if hasV6 tnet then addrsV6 @ addrsV4 else addrsV4 @ addrsV6);
            Some (case lastErr of
                Some err \<Rightarrow> if addrs = [] then Inl err else Inr (map (addrString I) addrs)
              | None \<Rightarrow> Inr (map (addrString I) addrs), w)
          })"

section \<open>Dialing\<close>

definition saneMinimum :: int where "saneMinimum = 2000000000"

text \<open>\<open>deadline.Sub(now)\<close> saturates as well; a division by zero is a panic.\<close>

definition partialDeadline :: "int \<Rightarrow> int \<Rightarrow> nat \<Rightarrow> (netError + int) option" where
  "partialDeadline now deadline addrsRemaining =
     (if deadline = 0 then Some (Inr deadline)
      else let timeRemaining = time_sub deadline now in
        if timeRemaining \<le> 0 then Some (Inl ErrTimeout)
        else if addrsRemaining = 0 then None
        else let timeout = timeRemaining div int addrsRemaining;
                 timeout = (if timeout < saneMinimum
                            then (if timeRemaining < saneMinimum then timeRemaining else saneMinimum)
                            else timeout)
             in Some (Inr (now + timeout)))"

text \<open>The regular expression \<open>^(tcp|udp|ping)(4|6)?$\<close>: the two groups.\<close>

datatype netProto = ProtoTCP | ProtoUDP | ProtoPing

definition proto_name :: "netProto \<Rightarrow> byte list" where
  "proto_name p = (case p of ProtoTCP \<Rightarrow> [116, 99, 112] | ProtoUDP \<Rightarrow> [117, 100, 112] | ProtoPing \<Rightarrow> [112, 105, 110, 103])"

definition protoSplitter :: "byte list \<Rightarrow> (netProto \<times> byte option) option" where
  "protoSplitter network = List.find (\<lambda>(p, v). network = proto_name p @ (case v of None \<Rightarrow> [] | Some c \<Rightarrow> [c]))
     [(p, v). p \<leftarrow> [ProtoTCP, ProtoUDP, ProtoPing], v \<leftarrow> [None, Some 52, Some 54]]"

text \<open>\<open>strconv.Atoi\<close>: an optional sign and digits, within \<open>int64\<close>.\<close>

definition digits_val :: "byte list \<Rightarrow> int" where
  "digits_val ds = foldl (\<lambda>n d. 10 * n + int (unat (d - 48))) 0 ds"

definition atoi :: "byte list \<Rightarrow> int option" where
  "atoi s = (let (neg, ds) = (case s of [] \<Rightarrow> (False, []) | c # r \<Rightarrow>
                 if c = 45 then (True, r) else if c = 43 then (False, r) else (False, s));
                 v = (if neg then - digits_val ds else digits_val ds)
             in if ds \<noteq> [] \<and> list_all is_digit ds \<and> - (2 ^ 63) \<le> v \<and> v < 2 ^ 63 then Some v else None)"

datatype 'c netConn = TCPConn 'c | UDPConn 'c | PingConn "'c pingConn"

definition dial_one ::
  "('c, 'x, 'w) netSys \<Rightarrow> 'x \<Rightarrow> netProto \<Rightarrow> addrPort \<Rightarrow> 'w \<Rightarrow> (netError + 'c netConn) \<times> 'w" where
  "dial_one N ctx proto addr w =
     (case proto of
        ProtoTCP \<Rightarrow> (case dialContextTCPAddrPort N ctx addr w of (r, w) \<Rightarrow> (map_sum id TCPConn r, w))
      | ProtoUDP \<Rightarrow> (case dialUDPAddrPort N (NoAddr, 0) addr w of (r, w) \<Rightarrow> (map_sum id UDPConn r, w))
      | ProtoPing \<Rightarrow> (case dialPingAddr N NoAddr (fst addr) w of (r, w) \<Rightarrow> (map_sum id PingConn r, w)))"

text \<open>
  The loop over the addresses; before each dial the context of the dial, or the error that ends the
  loop. After it, \<open>firstErr\<close> or \<open>errMissingAddress\<close>.
\<close>

definition no_conn :: "netError option \<Rightarrow> netError" where
  "no_conn firstErr = (case firstErr of None \<Rightarrow> OpError ErrMissingAddress | Some err \<Rightarrow> err)"

definition dial_ctx ::
  "('c, 'x, 'w) netSys \<Rightarrow> 'x \<Rightarrow> nat \<Rightarrow> 'w \<Rightarrow> ((netError + 'x) \<times> 'w) option" where
  "dial_ctx N ctx addrsRemaining w =
     (case ctxDeadline N ctx of
        None \<Rightarrow> Some (Inr ctx, w)
      | Some deadline \<Rightarrow>
          (let (now, w) = timeNow N w in
           case partialDeadline now deadline addrsRemaining of
             None \<Rightarrow> None
           | Some (Inl err) \<Rightarrow> Some (Inl err, w)
           | Some (Inr pd) \<Rightarrow> Some (Inr (if pd < deadline then withDeadline N ctx pd else ctx), w)))"

fun dial_loop ::
  "('c, 'x, 'w) netSys \<Rightarrow> 'x \<Rightarrow> netProto \<Rightarrow> addrPort list \<Rightarrow> netError option \<Rightarrow> 'w
    \<Rightarrow> ((netError + 'c netConn) \<times> 'w) option" where
  "dial_loop N ctx proto [] firstErr w = Some (Inl (no_conn firstErr), w)"
| "dial_loop N ctx proto (addr # addrs) firstErr w =
     (case ctxDone N ctx w of
        Some err \<Rightarrow> Some (Inl (OpError (ctx_error err)), w)
      | None \<Rightarrow> do {
          (d, w) \<leftarrow> dial_ctx N ctx (length (addr # addrs)) w;
          case d of
            Inl err \<Rightarrow> Some (Inl (no_conn (Some (case firstErr of None \<Rightarrow> OpError err | Some err0 \<Rightarrow> err0))), w)
          | Inr dialCtx \<Rightarrow>
              (case dial_one N dialCtx proto addr w of
                 (Inr c, w) \<Rightarrow> Some (Inr c, w)
               | (Inl err, w) \<Rightarrow>
                   dial_loop N ctx proto addrs (Some (case firstErr of None \<Rightarrow> err | Some err0 \<Rightarrow> err0)) w)
        })"

text \<open>
  The part before the lookup: the protocol, the accepted families, the host and the port. For a ping
  the port is 0.
\<close>

definition dial_target :: "ipLib \<Rightarrow> byte list \<Rightarrow> byte list \<Rightarrow> netError + netProto \<times> bool \<times> bool \<times> byte list \<times> int" where
  "dial_target I network address =
     (case protoSplitter network of
        None \<Rightarrow> Inl (OpError (UnknownNetwork network))
      | Some (proto, v) \<Rightarrow>
          let (acceptV4, acceptV6) = (case v of None \<Rightarrow> (True, True) | Some c \<Rightarrow> (c = 52, c \<noteq> 52)) in
          if proto = ProtoPing then Inr (proto, acceptV4, acceptV6, address, 0)
          else case splitHostPort I address of
            Inl err \<Rightarrow> Inl (OpError err)
          | Inr (host, sport) \<Rightarrow>
              (case atoi sport of
                 None \<Rightarrow> Inl (OpError ErrNumericPort)
               | Some port \<Rightarrow> if port < 0 \<or> 65535 < port then Inl (OpError ErrNumericPort)
                              else Inr (proto, acceptV4, acceptV6, host, port)))"

definition dial_addrs :: "ipLib \<Rightarrow> bool \<Rightarrow> bool \<Rightarrow> int \<Rightarrow> byte list list \<Rightarrow> addrPort list" where
  "dial_addrs I acceptV4 acceptV6 port allAddr = List.map_filter (\<lambda>addr.
     (case parseAddr I addr of
        None \<Rightarrow> None
      | Some ip \<Rightarrow> if is_4 ip \<and> acceptV4 \<or> is_6 ip \<and> acceptV6 then Some (ip, of_int port) else None)) allAddr"

text \<open>A nil context is a panic.\<close>

definition dialContext ::
  "('p, 'b) dnsLib \<Rightarrow> ipLib \<Rightarrow> ('c, 'x, 'w) netSys \<Rightarrow> netTun \<Rightarrow> 'x option \<Rightarrow> byte list \<Rightarrow> byte list \<Rightarrow> bool \<Rightarrow> 'w
    \<Rightarrow> ((netError + 'c netConn) \<times> 'w) option" where
  "dialContext D I N tnet ctx network address order w =
     (case ctx of
        None \<Rightarrow> None
      | Some ctx \<Rightarrow>
          (case dial_target I network address of
             Inl err \<Rightarrow> Some (Inl err, w)
           | Inr (proto, acceptV4, acceptV6, host, port) \<Rightarrow> do {
               (r, w) \<leftarrow> lookupContextHost D I N tnet ctx host order w;
               case r of
                 Inl err \<Rightarrow> Some (Inl (OpError err), w)
               | Inr allAddr \<Rightarrow>
                   (let addrs = dial_addrs I acceptV4 acceptV6 port allAddr in
                    if addrs = [] \<and> allAddr \<noteq> [] then Some (Inl (OpError ErrNoSuitableAddress), w)
                    else dial_loop N ctx proto addrs None w)
             }))"

text \<open>\<open>Dial\<close> and \<open>LookupHost\<close> use \<open>context.Background()\<close>, which is the argument \<open>background\<close>.\<close>

definition dialBackground ::
  "('p, 'b) dnsLib \<Rightarrow> ipLib \<Rightarrow> ('c, 'x, 'w) netSys \<Rightarrow> 'x \<Rightarrow> netTun \<Rightarrow> byte list \<Rightarrow> byte list \<Rightarrow> bool \<Rightarrow> 'w
    \<Rightarrow> ((netError + 'c netConn) \<times> 'w) option" where
  "dialBackground D I N background tnet network address order w =
     dialContext D I N tnet (Some background) network address order w"

definition lookupHost ::
  "('p, 'b) dnsLib \<Rightarrow> ipLib \<Rightarrow> ('c, 'x, 'w) netSys \<Rightarrow> 'x \<Rightarrow> netTun \<Rightarrow> byte list \<Rightarrow> bool \<Rightarrow> 'w
    \<Rightarrow> ((netError + byte list list) \<times> 'w) option" where
  "lookupHost D I N background tnet host order w = lookupContextHost D I N tnet background host order w"

section \<open>What a lookup returns\<close>

text \<open>What one lane contributes.\<close>

fun lane_out ::
  "('p, 'b) dnsLib \<Rightarrow> byte list \<Rightarrow> 'p nameResult \<Rightarrow> (ipAddr list \<times> ipAddr list \<times> netError option) option" where
  "lane_out D host (p, server, Some err) = Some ([], [], Some err)"
| "lane_out D host (p, server, None) = lane_answers D host server p"

lemma gather_result:
  "gather D host rs v4 v6 e = Some (a4, a6, err) \<Longrightarrow>
     a4 = v4 @ concat (map (fst \<circ> (the \<circ> lane_out D host)) rs)
     \<and> a6 = v6 @ concat (map (fst \<circ> snd \<circ> (the \<circ> lane_out D host)) rs)
     \<and> (err = None \<longleftrightarrow> e = None \<and> (\<forall>x \<in> set rs. snd (snd (the (lane_out D host x))) = None))"
proof (induction D host rs v4 v6 e rule: gather.induct)
  case (3 D host p server rs v4 v6 e)
  obtain b4 b6 e' where l: "lane_answers D host server p = Some (b4, b6, e')"
    using "3.prems" by (auto simp: bind_Some_iff)
  then have "gather D host rs (v4 @ b4) (v6 @ b6) (if e' = None then e else e') = Some (a4, a6, err)"
    using "3.prems" by simp
  from "3.IH" [OF l refl refl this] l show ?case by auto
qed (auto split: if_splits)

lemma gather_returns:
  "gather D host rs v4 v6 e \<noteq> None \<longleftrightarrow> (\<forall>r \<in> set rs. lane_out D host r \<noteq> None)"
  by (induction D host rs v4 v6 e rule: gather.induct) (auto split: option.splits bind_splits)

text \<open>
  The records a parser hands out, one after the other, and whether it comes to the end of the section (\<open>True\<close>)
  or stops with an error.
\<close>

datatype dnsRecord = RecA "byte list" | RecAAAA "byte list" | RecOther u16

inductive delivers :: "('p, 'b) dnsLib \<Rightarrow> 'p \<Rightarrow> dnsRecord list \<Rightarrow> bool \<Rightarrow> bool" for D where
  del_end: "parserAnswerType D p = (Inl SectionDone, p') \<Longrightarrow> delivers D p [] True"
| del_bad: "parserAnswerType D p = (Inl err, p') \<Longrightarrow> err \<noteq> SectionDone \<Longrightarrow> delivers D p [] False"
| del_a: "parserAnswerType D p = (Inr TypeA, p1) \<Longrightarrow> parserA D p1 = (Inr a, p2) \<Longrightarrow> delivers D p2 rs ok
    \<Longrightarrow> delivers D p (RecA a # rs) ok"
| del_aaaa: "parserAnswerType D p = (Inr TypeAAAA, p1) \<Longrightarrow> parserAAAA D p1 = (Inr a, p2) \<Longrightarrow> delivers D p2 rs ok
    \<Longrightarrow> delivers D p (RecAAAA a # rs) ok"
| del_other: "parserAnswerType D p = (Inr t, p1) \<Longrightarrow> t \<noteq> TypeA \<Longrightarrow> t \<noteq> TypeAAAA \<Longrightarrow> parserSkipAnswer D p1 = (None, p2)
    \<Longrightarrow> delivers D p2 rs ok \<Longrightarrow> delivers D p (RecOther t # rs) ok"
| del_a_bad: "parserAnswerType D p = (Inr TypeA, p1) \<Longrightarrow> parserA D p1 = (Inl err, p2) \<Longrightarrow> delivers D p [] False"
| del_aaaa_bad: "parserAnswerType D p = (Inr TypeAAAA, p1) \<Longrightarrow> parserAAAA D p1 = (Inl err, p2) \<Longrightarrow> delivers D p [] False"
| del_other_bad: "parserAnswerType D p = (Inr t, p1) \<Longrightarrow> t \<noteq> TypeA \<Longrightarrow> t \<noteq> TypeAAAA
    \<Longrightarrow> parserSkipAnswer D p1 = (Some err, p2) \<Longrightarrow> delivers D p [] False"

definition addrs4 :: "dnsRecord list \<Rightarrow> ipAddr list" where "addrs4 recs = [IP4 a. RecA a \<leftarrow> recs]"
definition addrs6 :: "dnsRecord list \<Rightarrow> ipAddr list" where "addrs6 recs = [IP6 a []. RecAAAA a \<leftarrow> recs]"

lemma addrs_simps [simp]:
  "addrs4 [] = []" "addrs4 (RecA a # rs) = IP4 a # addrs4 rs" "addrs4 (RecAAAA a # rs) = addrs4 rs" "addrs4 (RecOther t # rs) = addrs4 rs"
  "addrs6 [] = []" "addrs6 (RecA a # rs) = addrs6 rs" "addrs6 (RecAAAA a # rs) = IP6 a [] # addrs6 rs" "addrs6 (RecOther t # rs) = addrs6 rs"
  by (simp_all add: addrs4_def addrs6_def)

text \<open>What a parser hands out is determined.\<close>

lemma delivers_unique: "delivers D p rs ok \<Longrightarrow> delivers D p rs' ok' \<Longrightarrow> rs = rs' \<and> ok = ok'"
proof (induction arbitrary: rs' ok' rule: delivers.induct)
  case (del_a p p1 a p2 rs ok)
  from del_a.prems del_a.hyps(1,2) del_a.IH show ?case by (cases rule: delivers.cases) (auto simp: TypeA_def TypeAAAA_def)
next
  case (del_aaaa p p1 a p2 rs ok)
  from del_aaaa.prems del_aaaa.hyps(1,2) del_aaaa.IH show ?case by (cases rule: delivers.cases) (auto simp: TypeA_def TypeAAAA_def)
next
  case (del_other p t p1 p2 rs ok)
  from del_other.prems del_other.hyps(1-4) del_other.IH show ?case by (cases rule: delivers.cases) auto
qed (erule delivers.cases; auto simp: TypeA_def TypeAAAA_def)+

lemma lane_answers_delivers:
  assumes "lane_answers D host server p = Some r"
  shows "\<exists>recs. delivers D p recs (snd (snd r) = None) \<and> fst r = addrs4 recs \<and> fst (snd r) = addrs6 recs"
proof (rule lane_answers.raw_induct [where P = "\<lambda>D host server p r. \<exists>recs. delivers D p recs (snd (snd r) = None)
      \<and> fst r = addrs4 recs \<and> fst (snd r) = addrs6 recs", OF _ assms])
  fix loop D host server p r
  assume ih: "\<And>D host server p r. loop D host server p = Some r \<Longrightarrow>
      \<exists>recs. delivers D p recs (snd (snd r) = None) \<and> fst r = addrs4 recs \<and> fst (snd r) = addrs6 recs"
    and r: "(let failed = Some ([], [], Some (DNSError ErrCannotMarshalDNSMessage host server False False False)) in
      case parserAnswerType D p of
        (Inl err, p) \<Rightarrow> if err \<noteq> SectionDone then failed else Some ([], [], None)
      | (Inr t, p) \<Rightarrow>
          if t = TypeA then
            (case parserA D p of
               (Inl err, p) \<Rightarrow> failed
             | (Inr a, p) \<Rightarrow> do { (a4, a6, err) \<leftarrow> loop D host server p; Some (IP4 a # a4, a6, err) })
          else if t = TypeAAAA then
            (case parserAAAA D p of
               (Inl err, p) \<Rightarrow> failed
             | (Inr a, p) \<Rightarrow> do { (a4, a6, err) \<leftarrow> loop D host server p; Some (a4, IP6 a [] # a6, err) })
          else (case parserSkipAnswer D p of
               (Some err, p) \<Rightarrow> failed
             | (None, p) \<Rightarrow> loop D host server p)) = Some r"
  obtain x p1 where x: "parserAnswerType D p = (x, p1)" by fastforce
  show "\<exists>recs. delivers D p recs (snd (snd r) = None) \<and> fst r = addrs4 recs \<and> fst (snd r) = addrs6 recs"
  proof (cases x)
    case (Inl err)
    then show ?thesis using r x by (auto simp: Let_def split: if_splits intro!: exI [of _ "[]"] intro: delivers.intros)
  next
    case (Inr t)
    consider "t = TypeA" | "t \<noteq> TypeA" "t = TypeAAAA" | "t \<noteq> TypeA" "t \<noteq> TypeAAAA" by blast
    then show ?thesis
    proof cases
      case 1
      obtain y p2 where y: "parserA D p1 = (y, p2)" by fastforce
      show ?thesis
      proof (cases y)
        case (Inl err)
        then show ?thesis using r x Inr 1 y del_a_bad [of D p p1 err p2]
          by (auto simp: Let_def intro!: exI [of _ "[]"])
      next
        case (Inr a)
        then obtain q where q: "loop D host server p2 = Some q" "r = (IP4 a # fst q, snd q)"
          using r x \<open>x = Inr t\<close> 1 y by (auto simp: Let_def bind_Some_iff)
        with ih [OF q(1)] obtain recs where "delivers D p2 recs (snd (snd q) = None)" "fst q = addrs4 recs" "fst (snd q) = addrs6 recs"
          by blast
        then show ?thesis using q(2) del_a [of D p p1 a p2 recs] x \<open>x = Inr t\<close> 1 y Inr
          by (intro exI [of _ "RecA a # recs"]) simp
      qed
    next
      case 2
      obtain y p2 where y: "parserAAAA D p1 = (y, p2)" by fastforce
      show ?thesis
      proof (cases y)
        case (Inl err)
        then show ?thesis using r x Inr 2 y del_aaaa_bad [of D p p1 err p2]
          by (auto simp: Let_def intro!: exI [of _ "[]"])
      next
        case (Inr a)
        then obtain q where q: "loop D host server p2 = Some q" "r = (fst q, IP6 a [] # fst (snd q), snd (snd q))"
          using r x \<open>x = Inr t\<close> 2 y by (auto simp: Let_def bind_Some_iff)
        with ih [OF q(1)] obtain recs where "delivers D p2 recs (snd (snd q) = None)" "fst q = addrs4 recs" "fst (snd q) = addrs6 recs"
          by blast
        then show ?thesis using q(2) del_aaaa [of D p p1 a p2 recs] x \<open>x = Inr t\<close> 2 y Inr
          by (intro exI [of _ "RecAAAA a # recs"]) simp
      qed
    next
      case 3
      obtain y p2 where y: "parserSkipAnswer D p1 = (y, p2)" by fastforce
      show ?thesis
      proof (cases y)
        case (Some err)
        then show ?thesis using r x Inr 3 y del_other_bad [of D p t p1 err p2]
          by (auto simp: Let_def intro!: exI [of _ "[]"])
      next
        case None
        then obtain recs where "delivers D p2 recs (snd (snd r) = None)" "fst r = addrs4 recs" "fst (snd r) = addrs6 recs"
          using ih [of D host server p2 r] r x Inr 3 y by (auto simp: Let_def)
        then show ?thesis using del_other [of D p t p1 p2 recs] x Inr 3 y None
          by (intro exI [of _ "RecOther t # recs"]) simp
      qed
    qed
  qed
qed

text \<open>What a lane hands over: its answers, unless it had no response.\<close>

definition lane_gives :: "('p, 'b) dnsLib \<Rightarrow> 'p nameResult \<Rightarrow> dnsRecord list \<times> bool \<Rightarrow> bool" where
  "lane_gives D res ans = (case res of (p, server, err) \<Rightarrow>
     if err = None then delivers D p (fst ans) (snd ans) else ans = ([], False))"

lemma lane_out_gives:
  assumes "lane_out D host x = Some r"
  shows "\<exists>recs. lane_gives D x (recs, snd (snd r) = None) \<and> fst r = addrs4 recs \<and> fst (snd r) = addrs6 recs"
  using assms by (induction D host x rule: lane_out.induct) (auto simp: lane_gives_def dest: lane_answers_delivers)

lemma lanes_give:
  assumes "\<forall>x \<in> set rs. lane_out D host x \<noteq> None"
  shows "\<exists>outs. list_all2 (lane_gives D) rs outs
    \<and> concat (map (fst \<circ> (the \<circ> lane_out D host)) rs) = addrs4 (concat (map fst outs))
    \<and> concat (map (fst \<circ> snd \<circ> (the \<circ> lane_out D host)) rs) = addrs6 (concat (map fst outs))
    \<and> ((\<forall>x \<in> set rs. snd (snd (the (lane_out D host x))) = None) \<longleftrightarrow> (\<forall>ans \<in> set outs. snd ans))"
  using assms
proof (induction rs)
  case (Cons x rs)
  obtain r where r: "lane_out D host x = Some r" using Cons.prems by auto
  obtain recs where recs: "lane_gives D x (recs, snd (snd r) = None)" "fst r = addrs4 recs" "fst (snd r) = addrs6 recs"
    using lane_out_gives [OF r] by blast
  obtain outs where outs: "list_all2 (lane_gives D) rs outs"
    "concat (map (fst \<circ> (the \<circ> lane_out D host)) rs) = addrs4 (concat (map fst outs))"
    "concat (map (fst \<circ> snd \<circ> (the \<circ> lane_out D host)) rs) = addrs6 (concat (map fst outs))"
    "(\<forall>x \<in> set rs. snd (snd (the (lane_out D host x))) = None) \<longleftrightarrow> (\<forall>ans \<in> set outs. snd ans)"
    using Cons.IH Cons.prems by (metis list.set_intros(2))
  have "addrs4 (a @ b) = addrs4 a @ addrs4 b" "addrs6 (a @ b) = addrs6 a @ addrs6 b" for a b
    by (simp_all add: addrs4_def addrs6_def)
  then show ?case using outs(1,4) outs(2,3) [unfolded comp_def] recs r
    by (intro exI [of _ "(recs, snd (snd r) = None) # outs"]) (simp add: comp_def)
qed simp

text \<open>
  C26. Once the name has to be resolved, \<open>LookupContextHost\<close> starts a lane for A records if the device has
  IPv4 and one for AAAA records if it has IPv6, and returns the addresses of all the A and AAAA records that the
  responses of the lanes hold, up to the first that cannot be parsed, the IPv6 ones first if the device has IPv6.
  An error of one lane does not hide the addresses of the other: the call fails if and only if
  there is no address at all and some lane had no response or one that cannot be parsed to its end. The order in
  which the lanes deliver their results changes only the order of the addresses within a family, and which error
  is reported.
\<close>

theorem lookup_result:
  assumes "lookupContextHost D I N tnet ctx host order w = Some (r, w')"
    and "hasV4 tnet \<or> hasV6 tnet" and "isDomainName host" and "parseAddr I (without_zone host) = None"
  shows "\<exists>ts rs outs. mset ts = mset ((if hasV4 tnet then [TypeA] else []) @ (if hasV6 tnet then [TypeAAAA] else []))
    \<and> run_lanes D N tnet ctx host ts w = Some (rs, w')
    \<and> list_all2 (lane_gives D) rs outs
    \<and> (let v4 = addrs4 (concat (map fst outs)); v6 = addrs6 (concat (map fst outs)) in
       ((\<exists>err. r = Inl err) \<longleftrightarrow> v4 = [] \<and> v6 = [] \<and> (\<exists>ans \<in> set outs. \<not> snd ans))
       \<and> (\<forall>saddrs. r = Inr saddrs \<longrightarrow> saddrs = map (addrString I) (if hasV6 tnet then v6 @ v4 else v4 @ v6))
       \<and> (\<forall>rs'. mset rs' = mset rs \<longrightarrow> (\<exists>v4' v6' err. gather D host rs' [] [] None = Some (v4', v6', err)
            \<and> mset v4' = mset v4 \<and> mset v6' = mset v6 \<and> (err = None \<longleftrightarrow> (\<forall>ans \<in> set outs. snd ans)))))"
proof -
  let ?out = "the \<circ> lane_out D host" and ?ts = "if order then rev (lanes tnet) else lanes tnet"
  have ts: "mset ?ts = mset ((if hasV4 tnet then [TypeA] else []) @ (if hasV6 tnet then [TypeAAAA] else []))"
    by (simp add: lanes_def)
  have "host \<noteq> []" using assms(3) by (auto simp: isDomainName_def)
  then have eq: "lookupContextHost D I N tnet ctx host order w = do {
      (rs, w) \<leftarrow> run_lanes D N tnet ctx host ?ts w;
      (addrsV4, addrsV6, lastErr) \<leftarrow> gather D host rs [] [] None;
      let addrs = (if hasV6 tnet then addrsV6 @ addrsV4 else addrsV4 @ addrsV6);
      Some (case lastErr of
          Some err \<Rightarrow> if addrs = [] then Inl err else Inr (map (addrString I) addrs)
        | None \<Rightarrow> Inr (map (addrString I) addrs), w) }"
    using assms(2-4) by (auto simp: lookupContextHost_def)
  obtain rs where rs: "run_lanes D N tnet ctx host ?ts w = Some (rs, w')"
    and g0: "gather D host rs [] [] None \<noteq> None"
    using assms(1) by (auto simp: eq bind_Some_iff Let_def)
  obtain a4 a6 err where g: "gather D host rs [] [] None = Some (a4, a6, err)" using g0 by auto
  note res = gather_result [OF g]
  have some: "\<forall>x \<in> set rs. lane_out D host x \<noteq> None" using g0 by (simp only: gather_returns)
  obtain outs where outs: "list_all2 (lane_gives D) rs outs"
    "concat (map (fst \<circ> ?out) rs) = addrs4 (concat (map fst outs))"
    "concat (map (fst \<circ> snd \<circ> ?out) rs) = addrs6 (concat (map fst outs))"
    "(\<forall>x \<in> set rs. snd (snd (the (lane_out D host x))) = None) \<longleftrightarrow> (\<forall>ans \<in> set outs. snd ans)"
    using lanes_give [OF some] by (elim exE conjE) (rule that)
  have a: "a4 = addrs4 (concat (map fst outs))" "a6 = addrs6 (concat (map fst outs))"
    "err = None \<longleftrightarrow> (\<forall>ans \<in> set outs. snd ans)"
    using res outs(2-4) by simp_all
  have r: "r = (case err of
      Some err \<Rightarrow> if a4 = [] \<and> a6 = [] then Inl err else Inr (map (addrString I) (if hasV6 tnet then a6 @ a4 else a4 @ a6))
    | None \<Rightarrow> Inr (map (addrString I) (if hasV6 tnet then a6 @ a4 else a4 @ a6)))"
    using assms(1) by (auto simp: eq rs g Let_def split: option.splits if_splits)
  have perm: "\<exists>v4' v6' err'. gather D host rs' [] [] None = Some (v4', v6', err')
      \<and> mset v4' = mset a4 \<and> mset v6' = mset a6 \<and> (err' = None \<longleftrightarrow> (\<forall>ans \<in> set outs. snd ans))"
    if m: "mset rs' = mset rs" for rs'
  proof -
    have set: "set rs' = set rs" using m by (rule mset_eq_setD)
    then have "gather D host rs' [] [] None \<noteq> None" using some by (simp only: gather_returns)
    then obtain b4 b6 err' where g': "gather D host rs' [] [] None = Some (b4, b6, err')" by auto
    have "mset (concat (map f rs')) = mset (concat (map f rs))" for f :: "_ \<Rightarrow> ipAddr list"
      using m by (simp add: mset_concat mset_map flip: sum_mset_sum_list)
    then show ?thesis using gather_result [OF g'] res set g' a(3) by auto
  qed
  have "(\<exists>e. r = Inl e) \<longleftrightarrow> a4 = [] \<and> a6 = [] \<and> (\<exists>ans \<in> set outs. \<not> snd ans)"
    using r a(3) by (cases err) auto
  moreover have "\<forall>saddrs. r = Inr saddrs \<longrightarrow> saddrs = map (addrString I) (if hasV6 tnet then a6 @ a4 else a4 @ a6)"
    using r by (auto split: option.splits if_splits)
  ultimately have "let v4 = addrs4 (concat (map fst outs)); v6 = addrs6 (concat (map fst outs)) in
       ((\<exists>err. r = Inl err) \<longleftrightarrow> v4 = [] \<and> v6 = [] \<and> (\<exists>ans \<in> set outs. \<not> snd ans))
       \<and> (\<forall>saddrs. r = Inr saddrs \<longrightarrow> saddrs = map (addrString I) (if hasV6 tnet then v6 @ v4 else v4 @ v6))
       \<and> (\<forall>rs'. mset rs' = mset rs \<longrightarrow> (\<exists>v4' v6' err. gather D host rs' [] [] None = Some (v4', v6', err)
            \<and> mset v4' = mset v4 \<and> mset v6' = mset v6 \<and> (err = None \<longleftrightarrow> (\<forall>ans \<in> set outs. snd ans))))"
    using perm unfolding Let_def a(1,2) [symmetric] by blast
  then show ?thesis using ts rs outs(1) by blast
qed

declare lane_answers.simps [code]

definition demo_ips :: ipLib where
  "demo_ips = \<lparr>parseAddr = \<lambda>s. if length s = 4 then Some (IP4 s) else if length s = 16 then Some (IP6 s []) else None,
     addrString = as_slice, splitHostPort = \<lambda>s. Inr ([97], drop 2 s)\<rparr>"

definition demo_dev :: netTun where
  "demo_dev = \<lparr>ntMTU = 1420, ntEvents = chanOpen, ntPending = [], ntIncoming = chanOpen,
     dnsServers = [IP4 [1, 1, 1, 1]], hasV4 = True, hasV6 = True\<rparr>"

text \<open>The lane for IPv4 delivers first, the address of the other one comes first.\<close>

theorem lookup_result_witness:
  "lookupContextHost demo_lib demo_ips (demo_net pop_reply id (\<lambda>_. id)) demo_dev 0 [97] False
        [Inr [7, 1, 1], Inr [7, 28, 28]] = Some (Inr [replicate 16 1, [10, 0, 0, 1]], [])
   \<and> (\<exists>rs outs. list_all2 (lane_gives demo_lib) rs outs
        \<and> map (addrString demo_ips) (addrs6 (concat (map fst outs)) @ addrs4 (concat (map fst outs))) = [replicate 16 1, [10, 0, 0, 1]])"
proof -
  have l: "lookupContextHost demo_lib demo_ips (demo_net pop_reply id (\<lambda>_. id)) demo_dev 0 [97] False
        [Inr [7, 1, 1], Inr [7, 28, 28]] = Some (Inr [replicate 16 1, [10, 0, 0, 1]], [])" by code_simp
  have d: "hasV4 demo_dev \<or> hasV6 demo_dev" "isDomainName [97]" "parseAddr demo_ips (without_zone [97]) = None"
    by (simp add: demo_dev_def) code_simp+
  have "hasV6 demo_dev" by (simp add: demo_dev_def)
  with lookup_result [OF l d] l show ?thesis unfolding Let_def by (elim exE conjE) auto
qed

section \<open>What a dial does\<close>

text \<open>The context of a dial is that of the caller, or one with an earlier deadline.\<close>

definition dial_context :: "('c, 'x, 'w) netSys \<Rightarrow> 'x \<Rightarrow> 'x \<Rightarrow> bool" where
  "dial_context N ctx ctx' \<longleftrightarrow>
     ctx' = ctx \<or> (\<exists>deadline pd. ctxDeadline N ctx = Some deadline \<and> pd < deadline \<and> ctx' = withDeadline N ctx pd)"

lemma dial_ctx_context: "dial_ctx N ctx n w = Some (Inr ctx', w1) \<Longrightarrow> dial_context N ctx ctx'"
  by (auto simp: dial_ctx_def dial_context_def split: option.splits sum.splits prod.splits if_splits)

lemma dial_loop_conn:
  "dial_loop N ctx proto addrs firstErr w = Some (Inr conn, w') \<Longrightarrow>
     \<exists>addr \<in> set addrs. \<exists>ctx' w1. dial_context N ctx ctx' \<and> dial_one N ctx' proto addr w1 = (Inr conn, w')"
proof (induction addrs arbitrary: firstErr w)
  case (Cons addr addrs)
  note loop = Cons.prems
  have nd: "ctxDone N ctx w = None" using loop by (cases "ctxDone N ctx w") auto
  obtain d w1 where d: "dial_ctx N ctx (length (addr # addrs)) w = Some (d, w1)"
    using loop nd by (cases "dial_ctx N ctx (length (addr # addrs)) w") auto
  obtain ctx' where ctx': "d = Inr ctx'" using loop by (cases d) (auto simp: nd d simp del: length_Cons list.size)
  obtain r w2 where r: "dial_one N ctx' proto addr w1 = (r, w2)" by fastforce
  show ?case
  proof (cases r)
    case (Inl err)
    then have "\<exists>e. dial_loop N ctx proto addrs e w2 = Some (Inr conn, w')"
      using loop by (auto simp: nd d ctx' r simp del: length_Cons list.size)
    then show ?thesis using Cons.IH by auto
  next
    case (Inr c)
    then have "c = conn \<and> w2 = w'" using loop by (simp add: nd d ctx' r del: length_Cons list.size)
    then show ?thesis using r Inr dial_ctx_context [OF d [unfolded ctx']] by auto
  qed
qed simp

text \<open>
  What a successful dial has asked of the network: the call of the protocol, with the address it was given. A ping
  connection is bound to nothing, and its own address is the zero address of the family.
\<close>

lemma dial_one_calls:
  assumes "dial_one N ctx proto (ip, port) w = (Inr conn, w')" and ip: "is_4 ip \<or> is_6 ip"
  shows "let fa = \<lparr>faNIC = 1, faAddr = as_slice ip, faPort = port\<rparr>; pn = (if is_4 ip then IPv4Proto else IPv6Proto) in
    case proto of
      ProtoTCP \<Rightarrow> \<exists>c. conn = TCPConn c \<and> gonetDialContextTCP N ctx fa pn w = (Inr c, w')
    | ProtoUDP \<Rightarrow> \<exists>c. conn = UDPConn c \<and> gonetDialUDP N None (Some fa) pn w = (Inr c, w')
    | ProtoPing \<Rightarrow> \<exists>ep w1. newEndpoint N (if is_4 ip then ICMPv4Proto else ICMPv6Proto) pn w = (Inr ep, w1)
        \<and> epConnect N ep (fa\<lparr>faPort := 0\<rparr>) w1 = (None, w')
        \<and> conn = PingConn \<lparr>pcLaddr = (if is_4 ip then IP4 (replicate 4 0) else IP6 (replicate 16 0) []), pcRaddr = ip, pcEp = ep\<rparr>"
proof -
  have "is_valid ip \<and> (is_6 ip \<longleftrightarrow> \<not> is_4 ip)" using ip by (cases ip) (simp_all add: is_valid_def)
  then have valid: "is_valid ip" "is_6 ip \<longleftrightarrow> \<not> is_4 ip" "\<not> is_valid NoAddr" "\<not> is_6 NoAddr"
    by (simp_all add: is_valid_def)
  show ?thesis
  proof (cases proto)
    case ProtoTCP
    then show ?thesis using assms(1)
      by (auto simp: dial_one_def dialContextTCPAddrPort_def convertToFullAddr_def Let_def map_sum_def split: prod.splits sum.splits if_splits)
  next
    case ProtoUDP
    then show ?thesis using assms(1) valid
      by (auto simp: dial_one_def dialUDPAddrPort_def convertToFullAddr_def Let_def map_sum_def split: prod.splits sum.splits if_splits)
  next
    case ProtoPing
    then show ?thesis using assms(1) valid
      by (auto simp: dial_one_def dialPingAddr_def convertToFullAddr_def Let_def map_sum_def
          split: prod.splits sum.splits if_splits option.splits)
  qed
qed

lemma dial_addrs_iff:
  "(ip, port') \<in> set (dial_addrs I acceptV4 acceptV6 port saddrs) \<longleftrightarrow>
     port' = of_int port \<and> (is_4 ip \<and> acceptV4 \<or> is_6 ip \<and> acceptV6) \<and> (\<exists>s \<in> set saddrs. parseAddr I s = Some ip)"
  by (induction saddrs) (auto simp: dial_addrs_def List.map_filter_simps split: option.splits if_splits)

text \<open>Where a connection comes from.\<close>

lemma dial_context_conn:
  assumes "dialContext D I N tnet ctx network address order w = Some (Inr conn, w')"
  shows "\<exists>proto v host port saddrs w1 ip ctx' w2. protoSplitter network = Some (proto, v)
    \<and> (if proto = ProtoPing then host = address \<and> port = 0
       else \<exists>sport. splitHostPort I address = Inr (host, sport) \<and> atoi sport = Some port)
    \<and> 0 \<le> port \<and> port \<le> 65535
    \<and> lookupContextHost D I N tnet (the ctx) host order w = Some (Inr saddrs, w1)
    \<and> (\<exists>s \<in> set saddrs. parseAddr I s = Some ip)
    \<and> (case v of None \<Rightarrow> is_4 ip \<or> is_6 ip | Some c \<Rightarrow> if c = 52 then is_4 ip else is_6 ip)
    \<and> dial_context N (the ctx) ctx' \<and> dial_one N ctx' proto (ip, of_int port) w2 = (Inr conn, w')"
proof -
  obtain ctx0 where ctx: "ctx = Some ctx0" using assms by (cases ctx) (auto simp: dialContext_def)
  obtain t where t: "dial_target I network address = Inr t"
    using assms by (cases "dial_target I network address") (auto simp: dialContext_def ctx)
  obtain proto a4 a6 host port where t': "t = (proto, a4, a6, host, port)" by (cases t)
  obtain r w1 where l: "lookupContextHost D I N tnet ctx0 host order w = Some (r, w1)"
    using assms by (auto simp: dialContext_def ctx t t' bind_Some_iff)
  obtain saddrs where r: "r = Inr saddrs" using assms by (cases r) (auto simp: dialContext_def ctx t t' l)
  have "dial_loop N ctx0 proto (dial_addrs I a4 a6 port saddrs) None w1 = Some (Inr conn, w')"
    using assms by (auto simp: dialContext_def ctx t t' l r Let_def split: if_splits)
  from dial_loop_conn [OF this] obtain ip port' ctx' w2 where
    dc: "dial_context N ctx0 ctx'" and d: "(ip, port') \<in> set (dial_addrs I a4 a6 port saddrs)" "dial_one N ctx' proto (ip, port') w2 = (Inr conn, w')"
    by auto
  note ip = d(1) [unfolded dial_addrs_iff]
  obtain v where v: "protoSplitter network = Some (proto, v)"
    "(a4, a6) = (case v of None \<Rightarrow> (True, True) | Some c \<Rightarrow> (c = 52, c \<noteq> 52))"
    "if proto = ProtoPing then host = address \<and> port = 0
     else (\<exists>sport. splitHostPort I address = Inr (host, sport) \<and> atoi sport = Some port \<and> 0 \<le> port \<and> port \<le> 65535)"
    using t unfolding t' by (auto simp: dial_target_def split: option.splits prod.splits if_splits sum.splits)
  have "case v of None \<Rightarrow> is_4 ip \<or> is_6 ip | Some c \<Rightarrow> if c = 52 then is_4 ip else is_6 ip"
    using ip v(2) by (auto split: option.splits)
  moreover have "0 \<le> port \<and> port \<le> 65535" using v(3) by (auto split: if_splits)
  moreover have "if proto = ProtoPing then host = address \<and> port = 0
       else \<exists>sport. splitHostPort I address = Inr (host, sport) \<and> atoi sport = Some port" using v(3) by (auto split: if_splits)
  moreover have "dial_one N ctx' proto (ip, of_int port) w2 = (Inr conn, w')" using d(2) ip by simp
  moreover have "lookupContextHost D I N tnet (the ctx) host order w = Some (Inr saddrs, w1)" using l r ctx by simp
  moreover have "dial_context N (the ctx) ctx'" using dc ctx by simp
  ultimately show ?thesis using v(1) ip by blast
qed

lemma protoSplitter_name:
  "protoSplitter network = Some (proto, v) \<Longrightarrow>
     network = proto_name proto @ (case v of None \<Rightarrow> [] | Some c \<Rightarrow> [c]) \<and> (v = None \<or> v = Some 52 \<or> v = Some 54)"
proof -
  assume r: "protoSplitter network = Some (proto, v)"
  have find: "List.find P xs = Some x \<Longrightarrow> P x \<and> x \<in> set xs" for P and xs :: "(netProto \<times> byte option) list" and x
    by (induction xs) (auto split: if_splits)
  note f = find [OF r [unfolded protoSplitter_def]]
  have "network = proto_name proto @ (case v of None \<Rightarrow> [] | Some c \<Rightarrow> [c])" using conjunct1 [OF f] by simp
  moreover have "v \<in> {None, Some 52, Some 54}" using conjunct2 [OF f] by (simp only: set_concat set_map set_simps) auto
  ultimately show "network = proto_name proto @ (case v of None \<Rightarrow> [] | Some c \<Rightarrow> [c]) \<and> (v = None \<or> v = Some 52 \<or> v = Some 54)"
    by simp
qed

text \<open>
  C27. A connection that \<open>DialContext\<close> returns was made by dialing, over the protocol the
  network names (\<open>tcp\<close>, \<open>udp\<close> or \<open>ping\<close>, and perhaps 4 or 6), one of the addresses the lookup of the host returned,
  of the family that the network asks for (any, if it names none) and with the port of the address string, between 0
  and 65535: it is the connection of gvisor's TCP dial of that address, of its UDP dial without a local address, or
  an ICMP endpoint of the address's family that has been connected to it. The dial had the caller's context, or that
  with an earlier deadline.
\<close>

theorem dial_result:
  assumes "dialContext D I N tnet ctx network address order w = Some (Inr conn, w')"
  shows "\<exists>proto v host port saddrs w1 ip ctx' w2.
      network = (case proto of ProtoTCP \<Rightarrow> [116, 99, 112] | ProtoUDP \<Rightarrow> [117, 100, 112] | ProtoPing \<Rightarrow> [112, 105, 110, 103])
        @ (case v of None \<Rightarrow> [] | Some c \<Rightarrow> [c])
    \<and> (if proto = ProtoPing then host = address \<and> port = 0
       else \<exists>sport. splitHostPort I address = Inr (host, sport) \<and> atoi sport = Some port)
    \<and> 0 \<le> port \<and> port \<le> 65535
    \<and> lookupContextHost D I N tnet (the ctx) host order w = Some (Inr saddrs, w1)
    \<and> (\<exists>s \<in> set saddrs. parseAddr I s = Some ip)
    \<and> (case v of None \<Rightarrow> is_4 ip \<or> is_6 ip | Some c \<Rightarrow> c = 52 \<and> is_4 ip \<or> c = 54 \<and> is_6 ip)
    \<and> dial_context N (the ctx) ctx'
    \<and> (let fa = \<lparr>faNIC = 1, faAddr = as_slice ip, faPort = of_int port\<rparr>; pn = (if is_4 ip then IPv4Proto else IPv6Proto) in
       case proto of
         ProtoTCP \<Rightarrow> \<exists>c. conn = TCPConn c \<and> gonetDialContextTCP N ctx' fa pn w2 = (Inr c, w')
       | ProtoUDP \<Rightarrow> \<exists>c. conn = UDPConn c \<and> gonetDialUDP N None (Some fa) pn w2 = (Inr c, w')
       | ProtoPing \<Rightarrow> \<exists>ep w3. newEndpoint N (if is_4 ip then ICMPv4Proto else ICMPv6Proto) pn w2 = (Inr ep, w3)
           \<and> epConnect N ep (fa\<lparr>faPort := 0\<rparr>) w3 = (None, w')
           \<and> conn = PingConn \<lparr>pcLaddr = (if is_4 ip then IP4 (replicate 4 0) else IP6 (replicate 16 0) []), pcRaddr = ip, pcEp = ep\<rparr>)"
proof -
  obtain proto v host port saddrs w1 ip ctx' w2 where c: "protoSplitter network = Some (proto, v)"
    "if proto = ProtoPing then host = address \<and> port = 0
       else \<exists>sport. splitHostPort I address = Inr (host, sport) \<and> atoi sport = Some port"
    "0 \<le> port" "port \<le> 65535"
    "lookupContextHost D I N tnet (the ctx) host order w = Some (Inr saddrs, w1)"
    "\<exists>s \<in> set saddrs. parseAddr I s = Some ip"
    "case v of None \<Rightarrow> is_4 ip \<or> is_6 ip | Some c \<Rightarrow> if c = 52 then is_4 ip else is_6 ip"
    "dial_context N (the ctx) ctx'" "dial_one N ctx' proto (ip, of_int port) w2 = (Inr conn, w')"
    using dial_context_conn [OF assms] by blast
  note n = protoSplitter_name [OF c(1)]
  have fam: "is_4 ip \<or> is_6 ip" using c(7) by (auto split: option.splits if_splits)
  have v: "case v of None \<Rightarrow> is_4 ip \<or> is_6 ip | Some c \<Rightarrow> c = 52 \<and> is_4 ip \<or> c = 54 \<and> is_6 ip"
    using c(7) n by (auto split: option.splits if_splits)
  have nm: "network = (case proto of ProtoTCP \<Rightarrow> [116, 99, 112] | ProtoUDP \<Rightarrow> [117, 100, 112] | ProtoPing \<Rightarrow> [112, 105, 110, 103])
        @ (case v of None \<Rightarrow> [] | Some c \<Rightarrow> [c])" using n by (simp add: proto_name_def)
  show ?thesis using nm c(2-6) v c(8) dial_one_calls [OF c(9) fam] by blast
qed

theorem dial_result_witness:
  "dialContext demo_lib demo_ips (demo_net pop_reply id (\<lambda>_. id)) demo_dev (Some 0) [116, 99, 112, 52] [97, 58, 56, 48] False
      [Inr [7, 1, 1], Inr [7, 28, 28]] = Some (Inr (TCPConn 0), [])
   \<and> (\<exists>ctx' fa w2. gonetDialContextTCP (demo_net pop_reply id (\<lambda>_. id)) ctx' fa IPv4Proto w2 = (Inr 0, []))"
proof -
  have d: "dialContext demo_lib demo_ips (demo_net pop_reply id (\<lambda>_. id)) demo_dev (Some 0) [116, 99, 112, 52] [97, 58, 56, 48] False
      [Inr [7, 1, 1], Inr [7, 28, 28]] = Some (Inr (TCPConn 0), [])" by code_simp
  from dial_result [OF d] show ?thesis using d
    by (elim exE conjE) (auto simp: Let_def split: netProto.splits option.splits)
qed

section \<open>Deadlines\<close>

text \<open>
  While time remains and \<open>n\<close> addresses are left, the deadline of the next
  dial lies after \<open>now\<close> and not after that of the caller; the dial has at least two seconds, or all
  the time that remains; and unless it is given this minimum it takes at most its share, an \<open>n\<close>-th of
  the time that remains. At the deadline and after it the dial times out.
\<close>

theorem partial_deadline_bounds:
  assumes "deadline \<noteq> 0" and "0 < n"
  shows "(now < deadline \<longrightarrow> (\<exists>d. partialDeadline now deadline n = Some (Inr d) \<and> now < d \<and> d \<le> deadline
      \<and> min deadline (now + saneMinimum) \<le> d \<and> (now + saneMinimum < d \<longrightarrow> (d - now) * int n \<le> deadline - now)))
    \<and> (deadline \<le> now \<longrightarrow> partialDeadline now deadline n = Some (Inl ErrTimeout))"
proof (intro conjI impI)
  assume lt: "now < deadline"
  define rem where "rem = time_sub deadline now"
  have rem: "0 < rem" "rem \<le> deadline - now" "rem = deadline - now \<or> saneMinimum < rem"
    using lt by (auto simp: rem_def time_sub_def saneMinimum_def)
  define d where "d = (if rem div int n < saneMinimum then (if rem < saneMinimum then rem else saneMinimum) else rem div int n)"
  have n: "1 \<le> int n" using assms(2) by simp
  have split: "rem div int n * int n + rem mod int n = rem" by (rule div_mult_mod_eq)
  have pos: "0 \<le> rem mod int n" "0 \<le> rem div int n"
    using n rem(1) by (simp_all add: pos_imp_zdiv_nonneg_iff)
  have "rem div int n * 1 \<le> rem div int n * int n" using pos(2) n by (intro mult_left_mono)
  then have share: "rem div int n \<le> rem" "rem div int n * int n \<le> rem" using split pos by linarith+
  have "partialDeadline now deadline n = Some (Inr (now + d))"
    using assms rem(1) unfolding partialDeadline_def d_def rem_def by (simp add: Let_def)
  moreover have "0 < d" "d \<le> rem" "min rem saneMinimum \<le> d" "saneMinimum < d \<longrightarrow> d * int n \<le> rem"
    using rem(1) share by (auto simp: d_def saneMinimum_def)
  ultimately show "\<exists>d. partialDeadline now deadline n = Some (Inr d) \<and> now < d \<and> d \<le> deadline
      \<and> min deadline (now + saneMinimum) \<le> d \<and> (now + saneMinimum < d \<longrightarrow> (d - now) * int n \<le> deadline - now)"
    using rem by (intro exI [of _ "now + d"]) (auto simp: min_def split: if_splits)
next
  assume "deadline \<le> now"
  then show "partialDeadline now deadline n = Some (Inl ErrTimeout)"
    using assms by (simp add: partialDeadline_def time_sub_def)
qed

text \<open>Ten seconds for four addresses; then three for four.\<close>

theorem partial_deadline_bounds_witness:
  "partialDeadline 5 10000000005 4 = Some (Inr 2500000005) \<and> partialDeadline 5 3000000005 4 = Some (Inr 2000000005)
   \<and> partialDeadline 5 4 4 = Some (Inl ErrTimeout)"
  using partial_deadline_bounds [of 4 4 5]
  by (simp add: partialDeadline_def time_sub_def saneMinimum_def)

section \<open>No servers\<close>

text \<open>
  Without a DNS server a name gives a parser that was never started, and no error. Reading it fails,
  as \<open>dnsmessage\<close> documents, and the lookup reports a message that could not be marshalled.
\<close>

lemma tryOneName_no_servers:
  "dnsServers tnet = [] \<Longrightarrow> newName D name = Inr n \<Longrightarrow> tryOneName D N tnet ctx name t w = Some ((parserZero D, None, None), w)"
  by (simp add: tryOneName_def)

lemma lookup_no_servers:
  assumes "dnsServers tnet = []" and "newName D (host @ [46]) = Inr n" and "hasV4 tnet" "\<not> hasV6 tnet"
    and "isDomainName host" and "parseAddr I (without_zone host) = None"
    and "parserAnswerType D (parserZero D) = (Inl err, p)" and "err \<noteq> SectionDone"
  shows "lookupContextHost D I N tnet ctx host order w
      = Some (Inl (DNSError ErrCannotMarshalDNSMessage host None False False False), w)"
proof -
  have "host \<noteq> []" using assms(5) by (auto simp: isDomainName_def)
  moreover have "lane_answers D host None (parserZero D)
      = Some ([], [], Some (DNSError ErrCannotMarshalDNSMessage host None False False False))"
    using assms(7,8) by (subst lane_answers.simps) (simp add: Let_def)
  ultimately show ?thesis
    using assms(3-6) by (simp add: lookupContextHost_def lanes_def tryOneName_no_servers [OF assms(1,2)])
qed

end
