(* ===== verification/TestTun.thy ===== *)
theory TestTun
  imports Checksum LinuxTun
begin

text \<open>
  \<open>src/tun/tuntest/tuntest.go\<close>: the test device, its own internet checksum and the ping packets it
  makes. The checksum is related to the one of \<open>checksum.go\<close>.
\<close>

section \<open>The checksum\<close>

fun test_sum :: "byte list \<Rightarrow> u32 \<Rightarrow> u32" where
  "test_sum (a # b # bs) v = test_sum bs (v + ucast (be16_of a b))"
| "test_sum [a] v = v + push_bit 8 (ucast a)"
| "test_sum [] v = v"

definition test_fold_once :: "u32 \<Rightarrow> u32" where
  "test_fold_once v = drop_bit 16 v + (v AND 0xffff)"

lemma unat_test_fold_once: "unat (test_fold_once v) = unat v div 65536 + unat v mod 65536"
proof -
  have "unat v div 65536 + unat v mod 65536 < 2 ^ 32" using unat_u32_less [of v] by simp
  moreover have "unat (drop_bit 16 v) = unat v div 65536" by (simp add: drop_bit_eq_div unat_div)
  moreover have "v AND 0xffff = take_bit 16 v" by (simp add: take_bit_eq_mask mask_eq_exp_minus_1)
  then have "unat (v AND 0xffff) = unat v mod 65536" by (simp add: take_bit_eq_mod unat_mod)
  ultimately show ?thesis by (simp add: test_fold_once_def unat_word_ariths)
qed

lemma above_16_bits: "0xffff < (v :: u32) \<longleftrightarrow> 0 < unat v div 65536"
  by (auto simp: word_less_nat_alt div_greater_zero_iff)

function test_fold :: "u32 \<Rightarrow> u32" where
  "test_fold v = (if 0xffff < v then test_fold (test_fold_once v) else v)"
  by pat_completeness auto
termination
  by (relation "measure unat") (simp_all add: above_16_bits unat_test_fold_once fold_less)

declare test_fold.simps [simp del]

definition test_checksum :: "byte list \<Rightarrow> u16 \<Rightarrow> u16" where
  "test_checksum buf initial = NOT (ucast (test_fold (test_sum buf (ucast initial))))"

lemma unat_test_fold: "unat (test_fold v) = ones16 (unat v)"
proof (induction v rule: test_fold.induct)
  case (1 v)
  show ?case
  proof (cases "0xffff < v")
    case True
    have "sums 1 (unat (test_fold_once v)) (unat v)"
      unfolding unat_test_fold_once by (rule sums_fold) (simp add: sums_def)
    then have "ones16 (unat (test_fold_once v)) = ones16 (unat v)"
      by (intro ones16_cong) (auto simp: sums_def)
    with True 1 show ?thesis by (simp add: test_fold.simps [of v])
  next
    case False
    then have "unat v div 65536 = 0" by (simp add: above_16_bits)
    then have "unat v \<le> 65535" by linarith
    from ones16_unique [OF this, of "unat v"] False show ?thesis
      by (simp add: test_fold.simps [of v] sums_def)
  qed
qed

lemma unat_ucast_u32: "unat (ucast (x :: u16) :: u32) = unat x"
  using unat_u16_less [of x] by (simp add: unsigned_ucast_eq take_bit_eq_mod)

lemma unat_test_sum:
  "unat v + 65536 * length b < 2 ^ 32 \<Longrightarrow> unat (test_sum b v) = unat v + besum b"
proof (induction b v rule: test_sum.induct)
  case (1 a b bs v)
  have less: "unat (be16_of a b) < 65536" by (rule unat_u16_less)
  then have step: "unat (v + ucast (be16_of a b)) = unat v + unat (be16_of a b)"
    using "1.prems" by (simp add: unat_word_ariths unat_ucast_u32)
  have "unat (v + ucast (be16_of a b)) + 65536 * length bs < 2 ^ 32"
    using "1.prems" less unfolding step by simp
  from "1.IH" [OF this] step show ?case by (simp add: unat_be16_of)
next
  case (2 a v)
  have "unat a < 256" by (rule unat_byte_less)
  with "2.prems" show ?case
    by (simp add: unat_word_ariths unsigned_push_bit_eq take_bit_eq_mod push_bit_eq_mult unsigned_ucast_eq)
qed simp

text \<open>The test's checksum is the complement of the device's.\<close>

lemma test_checksum_eq:
  assumes "length buf < 65535"
  shows "test_checksum buf initial = NOT (checksum e buf (ucast initial))"
proof -
  have "unat (test_sum buf (ucast initial)) = unat initial + besum buf"
    using unat_test_sum [of "ucast initial" buf] assms unat_u16_less [of initial]
    by (simp add: unat_ucast_u32)
  then have "unat (test_fold (test_sum buf (ucast initial))) = unat (checksum e buf (ucast initial))"
    by (simp add: unat_test_fold unat_checksum unat_ucast_u64)
  then have "unat (ucast (test_fold (test_sum buf (ucast initial))) :: u16) = unat (checksum e buf (ucast initial))"
    using unat_u16_less [of "checksum e buf (ucast initial)"] by (simp add: unsigned_ucast_eq take_bit_eq_mod)
  then have "ucast (test_fold (test_sum buf (ucast initial))) = checksum e buf (ucast initial)"
    by (simp only: word_unat_eq_iff)
  then show ?thesis by (simp add: test_checksum_def)
qed

section \<open>The ping packet\<close>

text \<open>
  \<open>ip\<close>, \<open>icmpv4\<close> and the payload are disjoint parts of one slice; the model builds them apart and joins
  them. A length is converted to \<open>uint16\<close>, an address is copied as far as the header reaches.
\<close>

definition genICMPv4 :: "byte list \<Rightarrow> byte list \<Rightarrow> byte list \<Rightarrow> byte list option" where
  "genICMPv4 payload dst src = do {
     let icmpv4 = replicate 8 0;
     icmpv4 \<leftarrow> set_at icmpv4 0 8;
     icmpv4 \<leftarrow> set_at icmpv4 1 0;
     let chksum = NOT (test_checksum icmpv4 (test_checksum payload 0));
     icmpv4 \<leftarrow> put16 icmpv4 2 chksum;
     let ip = replicate 20 0;
     ip \<leftarrow> set_at ip 0 (push_bit 4 4 OR (20 div 4));
     ip \<leftarrow> put16 ip 2 (of_nat (28 + length payload));
     ip \<leftarrow> set_at ip 8 65;
     ip \<leftarrow> set_at ip 9 1;
     ip \<leftarrow> copy_at ip 12 src;
     ip \<leftarrow> copy_at ip 16 dst;
     let chksum = NOT (test_checksum ip 0);
     ip \<leftarrow> put16 ip 10 chksum;
     Some (ip @ icmpv4 @ payload)
   }"

definition ping :: "byte list \<Rightarrow> byte list \<Rightarrow> byte list option" where
  "ping dst src = do {
     let payload = replicate 4 0;
     payload \<leftarrow> put16 payload 0 1337;
     payload \<leftarrow> put16 payload 2 0;
     genICMPv4 payload dst src
   }"

section \<open>The channel device\<close>

text \<open>
  A receive or a send on an unbuffered channel may wait for the other side or see the device closed:
  \<open>SelClosed\<close> is the branch of \<open>closed\<close>. \<open>offset\<close> is a Go \<open>int\<close>.
\<close>

record channelTUN =
  ctClosed :: chan
  ctEvents :: chan
  ctPending :: "event list"

definition newChannelTUN :: channelTUN where
  "newChannelTUN = \<lparr>ctClosed = chanOpen, ctEvents = chanOpen, ctPending = [EventUp]\<rparr>"

datatype 'a select = SelClosed | SelMsg 'a

definition chRead ::
  "byte list select \<Rightarrow> byte list list \<Rightarrow> nat list \<Rightarrow> int
    \<Rightarrow> ((nat \<times> goerror option) \<times> byte list list \<times> nat list) option" where
  "chRead sel packets sizes offset =
     (case sel of
        SelClosed \<Rightarrow> Some ((0, Some ErrClosed), packets, sizes)
      | SelMsg msg \<Rightarrow> do {
          b \<leftarrow> idx packets 0;
          dst \<leftarrow> slice_from_int b offset;
          b \<leftarrow> copy_at b (nat offset) msg;
          packets \<leftarrow> set_at packets 0 b;
          sizes \<leftarrow> set_at sizes 0 (min (length dst) (length msg));
          Some ((1, None), packets, sizes)
        })"

text \<open>\<open>sel\<close> answers the sends one by one; the third component of the result is what has been sent.\<close>

fun ch_write_loop ::
  "unit select list \<Rightarrow> nat \<Rightarrow> int \<Rightarrow> byte list list \<Rightarrow> byte list list
    \<Rightarrow> ((nat \<times> goerror option) \<times> byte list list) option" where
  "ch_write_loop sel i offset [] sent = Some ((i, None), sent)"
| "ch_write_loop sel i offset (d # ds) sent = do {
     msg \<leftarrow> slice_from_int d offset;
     s \<leftarrow> idx sel i;
     case s of
       SelClosed \<Rightarrow> Some ((i, Some ErrClosed), sent)
     | SelMsg _ \<Rightarrow> ch_write_loop sel (Suc i) offset ds (sent @ [msg])
   }"

definition chWrite ::
  "channelTUN \<Rightarrow> unit select list \<Rightarrow> byte list list \<Rightarrow> int
    \<Rightarrow> ((nat \<times> goerror option) \<times> byte list list \<times> channelTUN) option" where
  "chWrite t sel packets offset =
     (if offset = -1 then do {
        c \<leftarrow> close_chan (ctClosed t);
        ev \<leftarrow> close_chan (ctEvents t);
        Some ((0, Some (ErrEOF)), [], t\<lparr>ctClosed := c, ctEvents := ev\<rparr>)
      }
      else do {
        (r, sent) \<leftarrow> ch_write_loop sel 0 offset packets [];
        Some (r, sent, t)
      })"

definition chClose :: "channelTUN \<Rightarrow> channelTUN option" where
  "chClose t = map_option (\<lambda>(r, sent, t). t) (chWrite t [] [] (-1))"

section \<open>The checksums of a ping are wrong\<close>

lemma ones16_add_self: "0 < n \<Longrightarrow> ones16 (n + ones16 n) = 65535 \<longleftrightarrow> n mod 65535 = 0"
proof -
  assume n: "0 < n"
  have m: "ones16 n mod 65535 = n mod 65535" "0 < ones16 n"
    using ones16_sums [of n] n by (auto simp: sums_def)
  have s: "ones16 k = 65535 \<longleftrightarrow> k mod 65535 = 0" if "0 < k" for k
  proof
    assume "ones16 k = 65535"
    then show "k mod 65535 = 0" using ones16_sums [of k] by (simp add: sums_def)
  next
    assume "k mod 65535 = 0"
    then have "ones16 k mod 65535 = 0" "0 < ones16 k" using ones16_sums [of k] that by (auto simp: sums_def)
    then show "ones16 k = 65535" using ones16_le [of k] by (cases "ones16 k < 65535") simp_all
  qed
  have "(n + ones16 n) mod 65535 = (n + n) mod 65535" using m(1) by (metis mod_add_right_eq)
  then have "ones16 (n + ones16 n) = 65535 \<longleftrightarrow> (2 * n) mod 65535 = 0"
    using s [of "n + ones16 n"] n by (simp add: mult_2)
  also have "\<dots> \<longleftrightarrow> n mod 65535 = 0"
  proof -
    have "coprime (65535 :: nat) 2" by (simp add: coprime_right_2_iff_odd)
    then show ?thesis by (simp add: mod_eq_0_iff_dvd coprime_dvd_mult_right_iff)
  qed
  finally show ?thesis .
qed

lemma NOT_test_checksum: "length buf < 65535 \<Longrightarrow> NOT (test_checksum buf initial) = checksum e buf (ucast initial)"
  by (simp add: test_checksum_eq [of buf initial e])

lemma list_4: "length xs = 4 \<Longrightarrow> \<exists>a b c d. xs = [a, b, c, d]"
  by (auto simp: length_Suc_conv eval_nat_numeral)

lemma ping_bytes:
  "ping [d0, d1, d2, d3] [s0, s1, s2, s3] = Some
     (let c = checksum e [0x45, 0, 0, 32, 0, 0, 0, 0, 65, 1, 0, 0, s0, s1, s2, s3, d0, d1, d2, d3] 0 in
      [0x45, 0, 0, 32, 0, 0, 0, 0, 65, 1, ucast (drop_bit 8 c), ucast c, s0, s1, s2, s3, d0, d1, d2, d3]
      @ [8, 0, 0x02, 0xc7, 0, 0, 0, 0, 0x05, 0x39, 0, 0])"
proof -
  have icmp: "NOT (test_checksum [8, 0, 0, 0, 0, 0, 0, 0] (test_checksum [5, 57, 0, 0] 0)) = 0x02c7"
    by code_simp
  have "NOT (test_checksum ip 0) = checksum e ip 0" if "length ip = 20" for ip
    using NOT_test_checksum [of ip 0 e] that by simp
  then have sums: "NOT (test_checksum ip 0) = checksum e ip 0" if "length ip = 20" for ip
    using that by simp
  have zeros: "replicate 4 0 = [0, 0, 0, 0 :: byte]" "replicate 8 0 = [0, 0, 0, 0, 0, 0, 0, 0 :: byte]"
    "replicate 20 0 = [0, 0, 0, 0, 0, 0, 0, 0, 0, 0, 0, 0, 0, 0, 0, 0, 0, 0, 0, 0 :: byte]" by code_simp+
  have low: "(1337 :: byte) = 57" by simp
  show ?thesis
    unfolding ping_def genICMPv4_def zeros Let_def
    by (simp add: go_simps copy_at_def sums icmp low)
qed

text \<open>
  \<open>Ping\<close> makes a well-formed ICMP echo request between two IPv4 addresses, but
  complements each of its checksums twice: the ICMP checksum never verifies, whatever the addresses,
  and the header checksum verifies only if the sum of the header is a multiple of 65535.
\<close>

theorem ping_checksums_wrong:
  assumes "length dst = 4" and "length src = 4"
  shows "\<exists>pkt. ping dst src = Some pkt \<and> length pkt = 32 \<and> take 4 (drop 12 pkt) = src \<and> take 4 (drop 16 pkt) = dst
    \<and> get16 pkt 2 = Some 32 \<and> pkt ! 9 = 1 \<and> pkt ! 20 = 8
    \<and> checksum e (drop 20 pkt) 0 \<noteq> 0xFFFF
    \<and> (checksum e (take 20 pkt) 0 = 0xFFFF \<longleftrightarrow> (34337 + besum src + besum dst) mod 65535 = 0)"
proof -
  obtain d0 d1 d2 d3 s0 s1 s2 s3 where d: "dst = [d0, d1, d2, d3]" and s: "src = [s0, s1, s2, s3]"
    using list_4 [OF assms(1)] list_4 [OF assms(2)] by blast
  define c where "c = checksum e [0x45, 0, 0, 32, 0, 0, 0, 0, 65, 1, 0, 0, s0, s1, s2, s3, d0, d1, d2, d3] 0"
  let ?hdr = "[0x45, 0, 0, 32, 0, 0, 0, 0, 65, 1, ucast (drop_bit 8 c), ucast c, s0, s1, s2, s3, d0, d1, d2, d3]"
  let ?icmp = "[8, 0, 0x02, 0xc7, 0, 0, 0, 0, 0x05, 0x39, 0, 0 :: byte]"
  have pkt: "ping dst src = Some (?hdr @ ?icmp)"
    unfolding d s by (subst ping_bytes [of _ _ _ _ _ _ _ _ e]) (simp add: Let_def c_def)
  let ?n = "34337 + besum src + besum dst"
  have bytes: "unat (69 :: byte) = 69" "unat (32 :: byte) = 32" "unat (65 :: byte) = 65" by code_simp+
  have sum: "besum [0x45, 0, 0, 32, 0, 0, 0, 0, 65, 1, a, b, s0, s1, s2, s3, d0, d1, d2, d3]
      = ?n + (256 * unat a + unat b)" for a b
    unfolding d s besum.simps bytes by simp
  have c: "unat c = ones16 ?n" by (simp only: c_def unat_checksum sum) simp
  have "unat (checksum e ?hdr 0) = ones16 (?n + ones16 ?n)"
    by (simp only: unat_checksum sum u16_bytes c) simp
  moreover have "ones16 (?n + ones16 ?n) = 65535 \<longleftrightarrow> ?n mod 65535 = 0" by (rule ones16_add_self) simp
  moreover have "checksum e ?hdr 0 = 0xFFFF \<longleftrightarrow> unat (checksum e ?hdr 0) = 65535"
    by (simp add: word_unat_eq_iff)
  ultimately have ip: "checksum e ?hdr 0 = 0xFFFF \<longleftrightarrow> ?n mod 65535 = 0" by simp
  have "unat (checksum e ?icmp 0) = 4096" by (simp add: unat_checksum ones16_def)
  then have icmp: "checksum e ?icmp 0 \<noteq> 0xFFFF" by (simp add: word_unat_eq_iff)
  show ?thesis
    using pkt ip icmp by (intro exI [of _ "?hdr @ ?icmp"]) (simp add: d s go_simps be16_of_def)
qed

theorem ping_checksums_wrong_witness:
  "\<exists>pkt. ping [10, 0, 0, 1] [10, 0, 0, 2] = Some pkt \<and> checksum LittleE (take 20 pkt) 0 \<noteq> 0xFFFF"
  using ping_checksums_wrong [of "[10, 0, 0, 1]" "[10, 0, 0, 2]" LittleE] by auto

end
