(* ===== verification/BsdTun.thy ===== *)
theory BsdTun
  imports LinuxTun
begin

text \<open>
  The TUN devices of macOS, FreeBSD and OpenBSD: \<open>src/tun/tun_darwin.go\<close>, \<open>tun_freebsd.go\<close>,
  \<open>tun_openbsd.go\<close>, and \<open>operateonfd.go\<close>. Where the three files have the same code up to constants and
  single checks there is one definition with the platform as an argument, and an instance per file.
  The operating system is the argument \<open>S\<close>. An option is \<open>None\<close> where the code panics or blocks
  forever.
\<close>

section \<open>The system calls\<close>

datatype platform = Darwin | FreeBSD | OpenBSD

datatype bsdSock = InetDgram | Inet6Dgram | RouteSock | SystemDgram

datatype bsdReq =
    TUNSIFHEAD | TUNSIFMODE | TUNGIFNAME | TUNSIFPID | SIOCGIFINFO_IN6 | SIOCSIFINFO_IN6
  | SIOCIFDESTROY | BSD_SIOCSIFNAME | BSD_SIOCSIFMTU | BSD_SIOCGIFMTU

text \<open>
  \<open>fIoctl\<close> answers an errno, 0 for success, and the buffer. \<open>fControlName\<close> is \<open>GetsockoptString\<close> for the
  name of a utun socket, \<open>fRdev\<close> the device number of \<open>Stat\<close>, \<open>fScan\<close> the \<open>Sscanf\<close> of an index,
  \<open>fNameFile\<close> writes the name to the file that \<open>WG_TUN_NAME_FILE\<close> names, if any.
\<close>

record 'w bsdSys =
  fSyscallConn :: "int \<Rightarrow> 'w \<Rightarrow> goerror option"
  fControl :: "int \<Rightarrow> 'w \<Rightarrow> goerror option"
  fIoctl :: "int \<Rightarrow> bsdReq \<Rightarrow> byte list \<Rightarrow> 'w \<Rightarrow> nat \<times> byte list \<times> 'w"
  fControlName :: "int \<Rightarrow> 'w \<Rightarrow> (goerror + byte list) \<times> 'w"
  fRdev :: "int \<Rightarrow> 'w \<Rightarrow> (goerror + nat) \<times> 'w"
  fSocket :: "bsdSock \<Rightarrow> 'w \<Rightarrow> (goerror + int) \<times> 'w"
  fClose :: "int \<Rightarrow> 'w \<Rightarrow> goerror option \<times> 'w"
  fShutdown :: "int \<Rightarrow> 'w \<Rightarrow> 'w"
  fInterfaceByName :: "byte list \<Rightarrow> 'w \<Rightarrow> (goerror + int) \<times> 'w"
  fOpen :: "byte list \<Rightarrow> 'w \<Rightarrow> (goerror + int) \<times> 'w"
  fCtlInfo :: "int \<Rightarrow> 'w \<Rightarrow> (goerror + u32) \<times> 'w"
  fConnectCtl :: "int \<Rightarrow> u32 \<Rightarrow> u32 \<Rightarrow> 'w \<Rightarrow> goerror option \<times> 'w"
  fSetNonblock :: "int \<Rightarrow> 'w \<Rightarrow> goerror option \<times> 'w"
  fScan :: "byte list \<Rightarrow> int option"
  fNameFile :: "byte list \<Rightarrow> 'w \<Rightarrow> 'w"
  fByteString :: "byte list \<Rightarrow> byte list"
  fRead :: "int \<Rightarrow> nat \<Rightarrow> 'w \<Rightarrow> (byte list \<times> goerror option) \<times> 'w"
  fWrite :: "int \<Rightarrow> byte list \<Rightarrow> 'w \<Rightarrow> goerror option \<times> 'w"

section \<open>The device\<close>

text \<open>
  \<open>bErrors\<close> is what the channel \<open>errors\<close> holds, \<open>bErrCap\<close> its capacity (0 for a nil channel, on which a
  send blocks as well); \<open>bListening\<close> the interface index the listener was started with.
\<close>

record bsdTun =
  bName :: "byte list"
  bFile :: int
  bEvents :: chan
  bErrors :: "goerror list"
  bErrCap :: nat
  bRoute :: int
  bCloseDone :: bool
  bListening :: "int option"

definition bsd_new :: "int \<Rightarrow> nat \<Rightarrow> bsdTun" where
  "bsd_new file c = \<lparr>bName = [], bFile = file, bEvents = chanOpen, bErrors = [], bErrCap = c, bRoute = 0,
     bCloseDone = False, bListening = None\<rparr>"

text \<open>A send to the channel of errors, which nobody receives from meanwhile.\<close>

definition send_error :: "goerror \<Rightarrow> bsdTun \<Rightarrow> bsdTun option" where
  "send_error err t = (if length (bErrors t) < bErrCap t then Some (t\<lparr>bErrors := bErrors t @ [err]\<rparr>) else None)"

text \<open>
  \<open>operateOnFd\<close>: the function is not called if the file is closed; then the result of the caller's
  variables is \<open>dflt\<close>.
\<close>

definition operateOnFd ::
  "'w bsdSys \<Rightarrow> (int \<Rightarrow> 'w \<Rightarrow> 'a \<times> 'w) \<Rightarrow> 'a \<Rightarrow> bsdTun \<Rightarrow> 'w \<Rightarrow> ('a \<times> bsdTun \<times> 'w) option" where
  "operateOnFd S fn dflt t w =
     (case fSyscallConn S (bFile t) w of
        Some err \<Rightarrow> map_option (\<lambda>t. (dflt, t, w)) (send_error (ErrWrapped ''unable to find sysconn for tunfile'' err) t)
      | None \<Rightarrow>
          (case fControl S (bFile t) w of
             Some err \<Rightarrow> map_option (\<lambda>t. (dflt, t, w)) (send_error (ErrWrapped ''unable to control sysconn for tunfile'' err) t)
           | None \<Rightarrow> let (r, w) = fn (bFile t) w in Some (r, t, w)))"

section \<open>Interface requests\<close>

definition req_name :: "byte list \<Rightarrow> byte list" where
  "req_name ifname = take IFNAMSIZ ifname @ replicate (IFNAMSIZ - length ifname) 0"

definition mtu_req :: "endian \<Rightarrow> byte list \<Rightarrow> u32 \<Rightarrow> byte list" where
  "mtu_req e ifname mtu = req_name ifname @ native_bytes32 e mtu @ replicate 12 0"

text \<open>The error of OpenBSD does not carry the errno.\<close>

definition mtu_error :: "platform \<Rightarrow> string \<Rightarrow> nat \<Rightarrow> goerror" where
  "mtu_error p msg errno = (if p = OpenBSD then ErrText msg else ErrWrapped msg (FileError errno))"

definition bsdSetMTU :: "platform \<Rightarrow> endian \<Rightarrow> 'w bsdSys \<Rightarrow> bsdTun \<Rightarrow> int \<Rightarrow> 'w \<Rightarrow> goerror option \<times> 'w" where
  "bsdSetMTU p e S t n w =
     (case fSocket S InetDgram w of
        (Inl err, w) \<Rightarrow> (Some err, w)
      | (Inr fd, w) \<Rightarrow>
          let (errno, ifr, w) = fIoctl S fd BSD_SIOCSIFMTU (mtu_req e (bName t) (of_int n)) w;
              w = snd (fClose S fd w) in
          (if errno \<noteq> 0 then Some (mtu_error p ''failed to set MTU'' errno) else None, w))"

definition bsdMTU :: "platform \<Rightarrow> endian \<Rightarrow> 'w bsdSys \<Rightarrow> bsdTun \<Rightarrow> 'w \<Rightarrow> (goerror + int) \<times> 'w" where
  "bsdMTU p e S t w =
     (case fSocket S InetDgram w of
        (Inl err, w) \<Rightarrow> (Inl err, w)
      | (Inr fd, w) \<Rightarrow>
          let (errno, ifr, w) = fIoctl S fd BSD_SIOCGIFMTU (mtu_req e (bName t) 0) w;
              w = snd (fClose S fd w) in
          (if errno \<noteq> 0 then Inl (mtu_error p ''failed to get MTU'' errno)
           else Inr (sint (u32_at e ifr IFNAMSIZ)), w))"

definition darwinSetMTU where "darwinSetMTU = bsdSetMTU Darwin"
definition freebsdSetMTU where "freebsdSetMTU = bsdSetMTU FreeBSD"
definition openbsdSetMTU where "openbsdSetMTU = bsdSetMTU OpenBSD"

definition darwinMTU where "darwinMTU = bsdMTU Darwin"
definition freebsdMTU where "freebsdMTU = bsdMTU FreeBSD"
definition openbsdMTU where "openbsdMTU = bsdMTU OpenBSD"

section \<open>Read and Write\<close>

text \<open>
  A packet on the file has the address family in front, in the last of four bytes. \<open>offset\<close> is a Go
  \<open>int\<close>. FreeBSD alone checks that there is a byte of the packet to look at.
\<close>

definition AF_INET :: byte where "AF_INET = 2"

definition AF_INET6 :: "platform \<Rightarrow> byte" where
  "AF_INET6 p = (case p of Darwin \<Rightarrow> 30 | FreeBSD \<Rightarrow> 28 | OpenBSD \<Rightarrow> 24)"

definition EAFNOSUPPORT :: nat where "EAFNOSUPPORT = 47"

fun bsd_write_loop ::
  "platform \<Rightarrow> 'w bsdSys \<Rightarrow> int \<Rightarrow> int \<Rightarrow> nat \<Rightarrow> byte list list \<Rightarrow> byte list list \<Rightarrow> 'w
    \<Rightarrow> ((nat \<times> goerror option) \<times> byte list list \<times> 'w) option" where
  "bsd_write_loop p S file offset i bss [] w = Some ((i, None), bss, w)"
| "bsd_write_loop p S file offset i bss (b # bs) w = do {
     buf \<leftarrow> slice_from_int b (offset - 4);
     if p = FreeBSD \<and> length buf < 5 then Some ((i, Some ErrShortBuffer), bss, w)
     else do {
       buf \<leftarrow> set_at buf 0 0;
       buf \<leftarrow> set_at buf 1 0;
       buf \<leftarrow> set_at buf 2 0;
       v \<leftarrow> idx buf 4;
       if drop_bit 4 v \<noteq> 4 \<and> drop_bit 4 v \<noteq> 6
       then Some ((i, Some (FileError EAFNOSUPPORT)), bss[i := take (nat (offset - 4)) b @ buf], w)
       else do {
         buf \<leftarrow> set_at buf 3 (if drop_bit 4 v = 4 then AF_INET else AF_INET6 p);
         let bss = bss[i := take (nat (offset - 4)) b @ buf];
         (case fWrite S file buf w of
            (Some err, w) \<Rightarrow> Some ((i, Some err), bss, w)
          | (None, w) \<Rightarrow> bsd_write_loop p S file offset (Suc i) bss bs w)
       }
     }
   }"

definition bsdWrite ::
  "platform \<Rightarrow> 'w bsdSys \<Rightarrow> bsdTun \<Rightarrow> byte list list \<Rightarrow> int \<Rightarrow> 'w
    \<Rightarrow> ((nat \<times> goerror option) \<times> byte list list \<times> 'w) option" where
  "bsdWrite p S t bss offset w =
     (if offset < 4 then Some ((0, Some ErrShortBuffer), bss, w)
      else bsd_write_loop p S (bFile t) offset 0 bss bss w)"

text \<open>The bytes that are read and the error are both answers of one call.\<close>

definition bsdRead ::
  "'w bsdSys \<Rightarrow> bsdTun \<Rightarrow> byte list list \<Rightarrow> nat list \<Rightarrow> int \<Rightarrow> 'w
    \<Rightarrow> ((nat \<times> goerror option) \<times> byte list list \<times> nat list \<times> bsdTun \<times> 'w) option" where
  "bsdRead S t bss sizes offset w =
     (case bErrors t of
        err # errs \<Rightarrow> Some ((0, Some err), bss, sizes, t\<lparr>bErrors := errs\<rparr>, w)
      | [] \<Rightarrow> do {
          b \<leftarrow> idx bss 0;
          buf \<leftarrow> slice_from_int b (offset - 4);
          let ((got, err), w) = fRead S (bFile t) (length buf) w;
          b \<leftarrow> copy_at b (nat (offset - 4)) got;
          bss \<leftarrow> set_at bss 0 b;
          if length got < 4 then Some ((0, err), bss, sizes, t, w)
          else do {
            sizes \<leftarrow> set_at sizes 0 (length got - 4);
            Some ((1, err), bss, sizes, t, w)
          }
        })"

definition darwinWrite where "darwinWrite = bsdWrite Darwin"
definition freebsdWrite where "freebsdWrite = bsdWrite FreeBSD"
definition openbsdWrite where "openbsdWrite = bsdWrite OpenBSD"

definition darwinRead where "darwinRead = bsdRead"
definition freebsdRead where "freebsdRead = bsdRead"
definition openbsdRead where "openbsdRead = bsdRead"

section \<open>The route listeners\<close>

text \<open>
  The variables \<open>statusUp\<close> and \<open>statusMTU\<close>, and the events for a report of the interface's flags and
  MTU.
\<close>

type_synonym linkStatus = "bool \<times> int"

definition link_report :: "linkStatus \<Rightarrow> linkStatus \<Rightarrow> event list" where
  "link_report old new =
     (if fst new \<noteq> fst old \<and> fst new then [EventUp] else [])
     @ (if fst new \<noteq> fst old \<and> \<not> fst new then [EventDown] else [])
     @ (if snd new \<noteq> snd old then [EventMTUUpdate] else [])"

text \<open>
  What a read of the routing socket answers: an error that is retried, another error, or a message,
  with what \<open>InterfaceByIndex\<close> answers if it is asked after it.
\<close>

datatype routeRead = RouteEINTR | RouteError goerror | RouteMsg "byte list" "goerror + linkStatus"

definition RTM_IFINFO :: "platform \<Rightarrow> byte" where "RTM_IFINFO p = 0x0e"

text \<open>The code reads 16 and 32 bits in host order; \<open>Some\<close> the report of a message about our interface.\<close>

definition darwin_msg :: "endian \<Rightarrow> int \<Rightarrow> byte list \<Rightarrow> linkStatus option" where
  "darwin_msg e tunIfindex msg =
     (if length msg < 28 then None
      else if msg ! 3 \<noteq> RTM_IFINFO Darwin then None
      else if int (unat (u16_at e msg 12)) \<noteq> tunIfindex then None
      else Some (u32_at e msg 8 AND 0x1 \<noteq> 0, int (unat (u32_at e msg 24))))"

definition freebsd_about :: "endian \<Rightarrow> int \<Rightarrow> byte list \<Rightarrow> bool" where
  "freebsd_about e tunIfindex msg \<longleftrightarrow> \<not> length msg < 14 \<and> msg ! 3 = RTM_IFINFO FreeBSD
     \<and> int (unat (u16_at e msg 12)) = tunIfindex"

definition openbsd_about :: "endian \<Rightarrow> int \<Rightarrow> byte list \<Rightarrow> bool" where
  "openbsd_about e tunIfindex msg \<longleftrightarrow> \<not> length msg < 8 \<and> msg ! 3 = RTM_IFINFO OpenBSD
     \<and> int (unat (u16_at e msg 6)) = tunIfindex"

text \<open>A message: nothing, an error that ends the listener, or a report.\<close>

definition route_msg :: "platform \<Rightarrow> endian \<Rightarrow> int \<Rightarrow> byte list \<Rightarrow> goerror + linkStatus \<Rightarrow> (goerror + linkStatus) option" where
  "route_msg p e tunIfindex msg iface =
     (case p of
        Darwin \<Rightarrow> map_option Inr (darwin_msg e tunIfindex msg)
      | FreeBSD \<Rightarrow> if freebsd_about e tunIfindex msg then Some iface else None
      | OpenBSD \<Rightarrow> if openbsd_about e tunIfindex msg then Some iface else None)"

text \<open>
  The loop: the events sent and the error that ends it. \<open>None\<close> as the error is that it still waits for
  a message.
\<close>

fun route_loop ::
  "platform \<Rightarrow> endian \<Rightarrow> int \<Rightarrow> linkStatus \<Rightarrow> routeRead list \<Rightarrow> event list \<times> goerror option" where
  "route_loop p e tunIfindex st [] = ([], None)"
| "route_loop p e tunIfindex st (RouteEINTR # rs) = route_loop p e tunIfindex st rs"
| "route_loop p e tunIfindex st (RouteError err # rs) = ([], Some err)"
| "route_loop p e tunIfindex st (RouteMsg msg iface # rs) =
     (case route_msg p e tunIfindex msg iface of
        None \<Rightarrow> route_loop p e tunIfindex st rs
      | Some (Inl err) \<Rightarrow> ([], Some err)
      | Some (Inr new) \<Rightarrow>
          let (evs, r) = route_loop p e tunIfindex new rs in (link_report st new @ evs, r))"

definition darwinRouteListener :: "endian \<Rightarrow> int \<Rightarrow> routeRead list \<Rightarrow> event list \<times> goerror option" where
  "darwinRouteListener e tunIfindex rs = route_loop Darwin e tunIfindex (False, 0) rs"

definition freebsdRouteListener :: "endian \<Rightarrow> int \<Rightarrow> routeRead list \<Rightarrow> event list \<times> goerror option" where
  "freebsdRouteListener e tunIfindex rs = route_loop FreeBSD e tunIfindex (False, 0) rs"

text \<open>OpenBSD first asks for the state of the interface.\<close>

definition openbsdRouteListener ::
  "endian \<Rightarrow> int \<Rightarrow> goerror + linkStatus \<Rightarrow> routeRead list \<Rightarrow> event list \<times> goerror option" where
  "openbsdRouteListener e tunIfindex iface rs =
     (case iface of
        Inl err \<Rightarrow> ([], Some err)
      | Inr new \<Rightarrow> let (evs, r) = route_loop OpenBSD e tunIfindex new rs in (link_report (False, 0) new @ evs, r))"

section \<open>Names\<close>

text \<open>
  \<open>Name\<close> on the three platforms; the name is kept in the device. On macOS and FreeBSD it is empty,
  without an error, when \<open>operateOnFd\<close> has put an error into the channel.
\<close>

definition darwinName :: "'w bsdSys \<Rightarrow> bsdTun \<Rightarrow> 'w \<Rightarrow> ((goerror + byte list) \<times> bsdTun \<times> 'w) option" where
  "darwinName S t w = do {
     (r, t, w) \<leftarrow> operateOnFd S (\<lambda>fd w. map_prod Some id (fControlName S fd w)) None t w;
     Some (case r of
         None \<Rightarrow> (Inr (bName t), t, w)
       | Some (Inl err) \<Rightarrow> (Inl (ErrWrapped ''GetSockoptString'' err), t\<lparr>bName := []\<rparr>, w)
       | Some (Inr ifname) \<Rightarrow> (Inr ifname, t\<lparr>bName := ifname\<rparr>, w))
   }"

definition freebsd_tunName :: "'w bsdSys \<Rightarrow> int \<Rightarrow> 'w \<Rightarrow> (goerror + byte list) \<times> 'w" where
  "freebsd_tunName S fd w =
     (let (errno, ifr, w) = fIoctl S fd TUNGIFNAME (replicate 32 0) w in
      (if errno \<noteq> 0 then Inl (FileError errno) else Inr (fByteString S (take IFNAMSIZ ifr)), w))"

definition freebsdName :: "'w bsdSys \<Rightarrow> bsdTun \<Rightarrow> 'w \<Rightarrow> ((goerror + byte list) \<times> bsdTun \<times> 'w) option" where
  "freebsdName S t w = do {
     (r, t, w) \<leftarrow> operateOnFd S (freebsd_tunName S) (Inr []) t w;
     Some (case r of
         Inl err \<Rightarrow> (Inl err, t, w)
       | Inr ifname \<Rightarrow> (Inr ifname, t\<lparr>bName := ifname\<rparr>, w))
   }"

text \<open>\<open>%d\<close> of a number that is not negative.\<close>

fun tun_digits :: "nat \<Rightarrow> byte list" where
  "tun_digits n = (if n < 10 then [48 + of_nat n] else tun_digits (n div 10) @ [48 + of_nat (n mod 10)])"

declare tun_digits.simps [simp del]

definition openbsdName :: "'w bsdSys \<Rightarrow> bsdTun \<Rightarrow> 'w \<Rightarrow> ((goerror + byte list) \<times> bsdTun \<times> 'w) option" where
  "openbsdName S t w = Some
     (case fRdev S (bFile t) w of
        (Inl err, w) \<Rightarrow> (Inl err, t\<lparr>bName := []\<rparr>, w)
      | (Inr rdev, w) \<Rightarrow>
          let ifname = [116, 117, 110] @ tun_digits (rdev mod 256) in (Inr ifname, t\<lparr>bName := ifname\<rparr>, w))"

section \<open>Close\<close>

definition tunDestroy :: "'w bsdSys \<Rightarrow> byte list \<Rightarrow> 'w \<Rightarrow> goerror option \<times> 'w" where
  "tunDestroy S ifname w =
     (case fSocket S InetDgram w of
        (Inl err, w) \<Rightarrow> (Some err, w)
      | (Inr fd, w) \<Rightarrow>
          let (errno, ifr, w) = fIoctl S fd SIOCIFDESTROY (take 32 ifname @ replicate (32 - length ifname) 0) w;
              w = snd (fClose S fd w) in
          (if errno \<noteq> 0 then Some (ErrWrapped ''failed to destroy interface'' (FileError errno)) else None, w))"

text \<open>
  What \<open>closeOnce\<close> runs. FreeBSD destroys the interface between closing the file and the socket, macOS
  does not mark the socket as closed.
\<close>

definition bsd_close_body :: "platform \<Rightarrow> 'w bsdSys \<Rightarrow> bsdTun \<Rightarrow> 'w \<Rightarrow> (goerror option \<times> bsdTun \<times> 'w) option" where
  "bsd_close_body p S t w = (
     let (err1, w) = fClose S (bFile t) w;
         (err2, w) = (if p = FreeBSD then tunDestroy S (bName t) w else (None, w));
         first = (\<lambda>err3. if err1 \<noteq> None then err1 else if err2 \<noteq> None then err2 else err3) in
     if bRoute t \<noteq> -1 then
       let w = fShutdown S (bRoute t) w;
           (err3, w) = fClose S (bRoute t) w in
       Some (first err3, (if p = Darwin then t else t\<lparr>bRoute := -1\<rparr>), w)
     else if bEvents t \<noteq> chanNil then do {
       c \<leftarrow> close_chan (bEvents t);
       Some (first None, t\<lparr>bEvents := c\<rparr>, w)
     }
     else Some (first None, t, w))"

definition bsdClose :: "platform \<Rightarrow> 'w bsdSys \<Rightarrow> bsdTun \<Rightarrow> 'w \<Rightarrow> (goerror option \<times> bsdTun \<times> 'w) option" where
  "bsdClose p S t w =
     (if bCloseDone t then Some (None, t, w) else bsd_close_body p S (t\<lparr>bCloseDone := True\<rparr>) w)"

definition darwinClose where "darwinClose = bsdClose Darwin"
definition freebsdClose where "freebsdClose = bsdClose FreeBSD"
definition openbsdClose where "openbsdClose = bsdClose OpenBSD"

section \<open>CreateTUNFromFile\<close>

text \<open>The steps after the name: the index, the routing socket, the listener and the MTU.\<close>

definition bsdName :: "platform \<Rightarrow> 'w bsdSys \<Rightarrow> bsdTun \<Rightarrow> 'w \<Rightarrow> ((goerror + byte list) \<times> bsdTun \<times> 'w) option" where
  "bsdName p = (case p of Darwin \<Rightarrow> darwinName | FreeBSD \<Rightarrow> freebsdName | OpenBSD \<Rightarrow> openbsdName)"

text \<open>macOS sets a positive MTU, FreeBSD always sets it, OpenBSD sets it if the device has another.\<close>

definition initial_mtu :: "platform \<Rightarrow> endian \<Rightarrow> 'w bsdSys \<Rightarrow> bsdTun \<Rightarrow> int \<Rightarrow> 'w \<Rightarrow> goerror option \<times> 'w" where
  "initial_mtu p e S t mtu w =
     (case p of
        Darwin \<Rightarrow> if 0 < mtu then bsdSetMTU p e S t mtu w else (None, w)
      | FreeBSD \<Rightarrow> bsdSetMTU p e S t mtu w
      | OpenBSD \<Rightarrow> let (r, w) = bsdMTU p e S t w in if r \<noteq> Inr mtu then bsdSetMTU p e S t mtu w else (None, w))"

definition bsd_from_named ::
  "platform \<Rightarrow> endian \<Rightarrow> 'w bsdSys \<Rightarrow> bsdTun \<Rightarrow> int \<Rightarrow> 'w \<Rightarrow> ((goerror + bsdTun) \<times> 'w) option" where
  "bsd_from_named p e S t mtu w = do {
     (r, t, w) \<leftarrow> bsdName p S t w;
     case r of
       Inl err \<Rightarrow> Some (Inl err, snd (fClose S (bFile t) w))
     | Inr ifname \<Rightarrow>
         (case fInterfaceByName S ifname w of
            (Inl err, w) \<Rightarrow> Some (Inl err, snd (fClose S (bFile t) w))
          | (Inr index, w) \<Rightarrow>
              (case fSocket S RouteSock w of
                 (Inl err, w) \<Rightarrow> Some (Inl err, snd (fClose S (bFile t) w))
               | (Inr sock, w) \<Rightarrow>
                   let t = t\<lparr>bRoute := sock, bListening := Some index\<rparr>;
                       (err, w) = initial_mtu p e S t mtu w in
                   (case err of
                      None \<Rightarrow> Some (Inr t, w)
                    | Some err \<Rightarrow> do { (err', t, w) \<leftarrow> bsdClose p S t w; Some (Inl err, w) })))
   }"

definition darwinCreateTUNFromFile :: "endian \<Rightarrow> 'w bsdSys \<Rightarrow> int \<Rightarrow> int \<Rightarrow> 'w \<Rightarrow> ((goerror + bsdTun) \<times> 'w) option" where
  "darwinCreateTUNFromFile e S file mtu w = bsd_from_named Darwin e S (bsd_new file 5) mtu w"

definition openbsdCreateTUNFromFile :: "endian \<Rightarrow> 'w bsdSys \<Rightarrow> int \<Rightarrow> int \<Rightarrow> 'w \<Rightarrow> ((goerror + bsdTun) \<times> 'w) option" where
  "openbsdCreateTUNFromFile e S file mtu w = bsd_from_named OpenBSD e S (bsd_new file 1) mtu w"

text \<open>\<open>run_ioctl\<close> is the function passed to \<open>operateOnFd\<close>: it leaves the errno.\<close>

definition run_ioctl :: "'w bsdSys \<Rightarrow> bsdReq \<Rightarrow> byte list \<Rightarrow> int \<Rightarrow> 'w \<Rightarrow> nat \<times> 'w" where
  "run_ioctl S req arg fd w = (case fIoctl S fd req arg w of (errno, b, w) \<Rightarrow> (errno, w))"

definition freebsdCreateTUNFromFile :: "endian \<Rightarrow> 'w bsdSys \<Rightarrow> int \<Rightarrow> int \<Rightarrow> 'w \<Rightarrow> ((goerror + bsdTun) \<times> 'w) option" where
  "freebsdCreateTUNFromFile e S file mtu w = do {
     (errno, t, w) \<leftarrow> operateOnFd S (run_ioctl S TUNSIFPID []) 0 (bsd_new file 1) w;
     if errno \<noteq> 0
     then Some (Inl (ErrWrapped ''unable to become controlling TUN process'' (FileError errno)), snd (fClose S (bFile t) w))
     else bsd_from_named FreeBSD e S t mtu w
   }"

section \<open>CreateTUN\<close>

text \<open>The index in a name: -1 for the bare prefix, \<open>None\<close> if the name is malformed.\<close>

definition name_index :: "'w bsdSys \<Rightarrow> byte list \<Rightarrow> byte list \<Rightarrow> int option" where
  "name_index S prefix ifname =
     (if ifname = prefix then Some (-1)
      else case fScan S ifname of None \<Rightarrow> None | Some i \<Rightarrow> if i < 0 then None else Some i)"

definition utun :: "byte list" where "utun = [117, 116, 117, 110]"
definition tun_prefix :: "byte list" where "tun_prefix = [116, 117, 110]"

text \<open>The name is written to a file if the caller has left it open.\<close>

definition write_name_file ::
  "'w bsdSys \<Rightarrow> bool \<Rightarrow> (goerror + bsdTun) \<times> 'w \<Rightarrow> (goerror + bsdTun) \<times> 'w" where
  "write_name_file S anyName r =
     (case r of (Inr t, w) \<Rightarrow> (Inr t, if anyName then fNameFile S (bName t @ [10]) w else w) | (Inl err, w) \<Rightarrow> (Inl err, w))"

definition darwinCreateTUN :: "endian \<Rightarrow> 'w bsdSys \<Rightarrow> byte list \<Rightarrow> int \<Rightarrow> 'w \<Rightarrow> ((goerror + bsdTun) \<times> 'w) option" where
  "darwinCreateTUN e S ifname mtu w =
     (case name_index S utun ifname of
        None \<Rightarrow> Some (Inl ErrBadName, w)
      | Some devIndex \<Rightarrow>
          (case fSocket S SystemDgram w of
             (Inl err, w) \<Rightarrow> Some (Inl err, w)
           | (Inr fd, w) \<Rightarrow>
               (case fCtlInfo S fd w of
                  (Inl err, w) \<Rightarrow> Some (Inl (ErrWrapped ''IoctlGetCtlInfo'' err), snd (fClose S fd w))
                | (Inr ctl, w) \<Rightarrow>
                    (case fConnectCtl S fd ctl (of_int devIndex + 1) w of
                       (Some err, w) \<Rightarrow> Some (Inl err, snd (fClose S fd w))
                     | (None, w) \<Rightarrow>
                         (case fSetNonblock S fd w of
                            (Some err, w) \<Rightarrow> Some (Inl err, snd (fClose S fd w))
                          | (None, w) \<Rightarrow>
                              map_option (write_name_file S (ifname = utun)) (darwinCreateTUNFromFile e S fd mtu w))))))"

text \<open>OpenBSD without an index tries \<open>/dev/tun0\<close> to \<open>/dev/tun255\<close> while they are busy.\<close>

definition EBUSY :: nat where "EBUSY = 16"

definition dev_tun :: "int \<Rightarrow> byte list" where
  "dev_tun i = [47, 100, 101, 118, 47, 116, 117, 110] @ tun_digits (nat i)"

fun open_first :: "'w bsdSys \<Rightarrow> nat list \<Rightarrow> goerror + int \<Rightarrow> 'w \<Rightarrow> (goerror + int) \<times> 'w" where
  "open_first S [] r w = (r, w)"
| "open_first S (i # is) r w =
     (case fOpen S (dev_tun (int i)) w of
        (Inr f, w) \<Rightarrow> (Inr f, w)
      | (Inl err, w) \<Rightarrow> if err \<noteq> FileError EBUSY then (Inl err, w) else open_first S is (Inl err) w)"

definition openbsdCreateTUN :: "endian \<Rightarrow> 'w bsdSys \<Rightarrow> byte list \<Rightarrow> int \<Rightarrow> 'w \<Rightarrow> ((goerror + bsdTun) \<times> 'w) option" where
  "openbsdCreateTUN e S ifname mtu w =
     (case name_index S tun_prefix ifname of
        None \<Rightarrow> Some (Inl ErrBadName, w)
      | Some devIndex \<Rightarrow>
          (case (if devIndex \<noteq> -1 then fOpen S (dev_tun devIndex) w
                 else open_first S [0..<256] (Inl ErrClosed) w) of
             (Inl err, w) \<Rightarrow> Some (Inl err, w)
           | (Inr f, w) \<Rightarrow>
               map_option (write_name_file S (ifname = tun_prefix)) (openbsdCreateTUNFromFile e S f mtu w)))"

text \<open>
  FreeBSD opens a new device through \<open>/dev/tun\<close> and sets it up under the name the kernel gave it, with
  a \<open>NativeTun\<close> of which only \<open>tunFile\<close> is set. \<open>freebsd_give_up\<close> are the steps of every error path from
  there on.
\<close>

definition freebsd_give_up ::
  "'w bsdSys \<Rightarrow> int \<Rightarrow> byte list \<Rightarrow> goerror \<Rightarrow> 'w \<Rightarrow> ((goerror + bsdTun) \<times> 'w) option" where
  "freebsd_give_up S file assigned err w =
     (let w = snd (fClose S file w); w = snd (tunDestroy S assigned w) in Some (Inl err, w))"

text \<open>The flags of the interface's neighbour discovery are the 32 bits at 36 of an \<open>nd6Req\<close>.\<close>

definition nd6_flags :: "endian \<Rightarrow> byte list \<Rightarrow> byte list" where
  "nd6_flags e ndireq =
     take 36 ndireq @ native_bytes32 e ((u32_at e ndireq 36 AND NOT 0x20) OR 0x100) @ drop 40 ndireq"

definition freebsd_nd6 :: "endian \<Rightarrow> 'w bsdSys \<Rightarrow> int \<Rightarrow> byte list \<Rightarrow> 'w \<Rightarrow> goerror option \<times> 'w" where
  "freebsd_nd6 e S confd6 assigned w =
     (let (errno, ndireq, w) = fIoctl S confd6 SIOCGIFINFO_IN6 (req_name assigned @ replicate 64 0) w in
      if errno \<noteq> 0 then (Some (ErrWrapped ''unable to get nd6 flags'' (FileError errno)), w)
      else
        let (errno, ndireq, w) = fIoctl S confd6 SIOCSIFINFO_IN6 (nd6_flags e ndireq) w in
        (if errno \<noteq> 0 then Some (ErrWrapped ''unable to set nd6 flags'' (FileError errno)) else None, w))"

text \<open>\<open>deferred_close\<close> runs when the function returns; the new name is passed behind a pointer.\<close>

definition deferred_close :: "'w bsdSys \<Rightarrow> int \<Rightarrow> ('a \<times> 'w) option \<Rightarrow> ('a \<times> 'w) option" where
  "deferred_close S fd r = map_option (\<lambda>(x, w). (x, snd (fClose S fd w))) r"

definition freebsd_rename ::
  "endian \<Rightarrow> 'w bsdSys \<Rightarrow> int \<Rightarrow> byte list \<Rightarrow> byte list \<Rightarrow> int \<Rightarrow> 'w \<Rightarrow> ((goerror + bsdTun) \<times> 'w) option" where
  "freebsd_rename e S file ifname assigned mtu w =
     (if ifname = [] then freebsdCreateTUNFromFile e S file mtu w
      else case fSocket S InetDgram w of
        (Inl err, w) \<Rightarrow> freebsd_give_up S file assigned err w
      | (Inr confd, w) \<Rightarrow>
          deferred_close S confd
            (let (errno, ifr, w) = fIoctl S confd BSD_SIOCSIFNAME (req_name assigned @ req_name ifname) w in
             if errno \<noteq> 0
             then freebsd_give_up S file assigned (ErrWrapped ''Failed to rename'' (FileError errno)) w
             else freebsdCreateTUNFromFile e S file mtu w))"

definition freebsd_configure ::
  "endian \<Rightarrow> 'w bsdSys \<Rightarrow> bsdTun \<Rightarrow> byte list \<Rightarrow> byte list \<Rightarrow> int \<Rightarrow> 'w \<Rightarrow> ((goerror + bsdTun) \<times> 'w) option" where
  "freebsd_configure e S t ifname assigned mtu w = do {
     (errno, t, w) \<leftarrow> operateOnFd S (run_ioctl S TUNSIFHEAD (native_bytes64 e 1)) 0 t w;
     if errno \<noteq> 0
     then freebsd_give_up S (bFile t) assigned (ErrWrapped ''unable to put into IFHEAD mode'' (FileError errno)) w
     else do {
       (errno, t, w) \<leftarrow> operateOnFd S (run_ioctl S TUNSIFMODE (native_bytes64 e 0x8002)) 0 t w;
       if errno \<noteq> 0
       then freebsd_give_up S (bFile t) assigned (ErrWrapped ''unable to put into IFF_BROADCAST mode'' (FileError errno)) w
       else (case fSocket S Inet6Dgram w of
         (Inl err, w) \<Rightarrow> freebsd_give_up S (bFile t) assigned err w
       | (Inr confd6, w) \<Rightarrow>
           deferred_close S confd6
             (case freebsd_nd6 e S confd6 assigned w of
                (Some err, w) \<Rightarrow> freebsd_give_up S (bFile t) assigned err w
              | (None, w) \<Rightarrow> freebsd_rename e S (bFile t) ifname assigned mtu w))
     }
   }"

definition freebsdCreateTUN :: "endian \<Rightarrow> 'w bsdSys \<Rightarrow> byte list \<Rightarrow> int \<Rightarrow> 'w \<Rightarrow> ((goerror + bsdTun) \<times> 'w) option" where
  "freebsdCreateTUN e S ifname mtu w =
     (if IFNAMSIZ - 1 < length ifname then Some (Inl ErrNameTooLong, w)
      else case fInterfaceByName S ifname w of
        (Inr iface, w) \<Rightarrow> Some (Inl ErrInterfaceExists, w)
      | (Inl _, w) \<Rightarrow>
          (case fOpen S [47, 100, 101, 118, 47, 116, 117, 110] w of
             (Inl err, w) \<Rightarrow> Some (Inl err, w)
           | (Inr file, w) \<Rightarrow> do {
               (r, t, w) \<leftarrow> operateOnFd S (freebsd_tunName S) (Inr []) ((bsd_new file 0)\<lparr>bEvents := chanNil\<rparr>) w;
               case r of
                 Inl err \<Rightarrow> Some (Inl err, snd (fClose S file w))
               | Inr assigned \<Rightarrow> freebsd_configure e S t ifname assigned mtu w
             }))"

end
