(* ===== verification/BsdProps.thy ===== *)
theory BsdProps
  imports "HOL-Library.Multiset" BsdTun
begin

text \<open>
  The properties of the devices of macOS, FreeBSD and OpenBSD: the events of the route listeners, a
  packet through \<open>Write\<close> and \<open>Read\<close>, and the descriptors that the constructors and \<open>Close\<close> hold.
\<close>

section \<open>The route listeners\<close>

text \<open>
  What the listener learns: the reports of the messages about its interface, up to the read or message
  that ends it.
\<close>

definition route_ends :: "platform \<Rightarrow> endian \<Rightarrow> int \<Rightarrow> routeRead \<Rightarrow> bool" where
  "route_ends p e i r = (case r of
     RouteEINTR \<Rightarrow> False | RouteError err \<Rightarrow> True
   | RouteMsg msg iface \<Rightarrow> (case route_msg p e i msg iface of Some (Inl err) \<Rightarrow> True | _ \<Rightarrow> False))"

definition route_report :: "platform \<Rightarrow> endian \<Rightarrow> int \<Rightarrow> routeRead \<Rightarrow> linkStatus option" where
  "route_report p e i r = (case r of
     RouteMsg msg iface \<Rightarrow> (case route_msg p e i msg iface of Some (Inr s) \<Rightarrow> Some s | _ \<Rightarrow> None)
   | _ \<Rightarrow> None)"

definition route_reports :: "platform \<Rightarrow> endian \<Rightarrow> int \<Rightarrow> routeRead list \<Rightarrow> linkStatus list" where
  "route_reports p e i rs = List.map_filter (route_report p e i) (takeWhile (\<lambda>r. \<not> route_ends p e i r) rs)"

text \<open>The events that tell of a sequence of states.\<close>

definition updown :: "bool \<Rightarrow> event" where
  "updown up = (if up then EventUp else EventDown)"

definition tells :: "linkStatus \<Rightarrow> linkStatus list \<Rightarrow> event list \<Rightarrow> bool" where
  "tells st sts evs \<longleftrightarrow>
     filter (\<lambda>v. v \<noteq> EventMTUUpdate) evs = map updown (tl (remdups_adj (fst st # map fst sts)))
     \<and> count_list evs EventMTUUpdate = length (tl (remdups_adj (snd st # map snd sts)))"

lemma tl_remdups_adj: "tl (remdups_adj (x # y # ys)) = (if x = y then [] else [y]) @ tl (remdups_adj (y # ys))"
proof -
  have "remdups_adj (y # ys) = y # tl (remdups_adj (y # ys))"
    by (metis hd_remdups_adj list.collapse list.discI list.sel(1) remdups_adj_Nil_iff)
  then show ?thesis by simp
qed

lemma tells_report: "tells new sts evs \<Longrightarrow> tells old (new # sts) (link_report old new @ evs)"
  unfolding tells_def list.map tl_remdups_adj by (auto simp: link_report_def updown_def count_list_append)

lemma route_reports_simps:
  "route_reports p e i [] = []"
  "route_reports p e i (r # rs) = (if route_ends p e i r then []
     else case route_report p e i r of None \<Rightarrow> route_reports p e i rs | Some st \<Rightarrow> st # route_reports p e i rs)"
  by (simp_all add: route_reports_def List.map_filter_simps split: option.split)

lemma route_loop_tells: "tells st (route_reports p e i rs) (fst (route_loop p e i st rs))"
proof (induction rs arbitrary: st)
  case Nil
  show ?case by (simp add: tells_def route_reports_simps)
next
  case (Cons r rs)
  show ?case
  proof (cases r)
    case (RouteMsg msg iface)
    consider "route_msg p e i msg iface = None" | err where "route_msg p e i msg iface = Some (Inl err)"
      | new where "route_msg p e i msg iface = Some (Inr new)"
      by (cases "route_msg p e i msg iface"; cases "the (route_msg p e i msg iface)") auto
    then show ?thesis
    proof cases
      case 1
      then show ?thesis using Cons.IH [of st] by (simp add: route_reports_simps route_ends_def route_report_def RouteMsg)
    next
      case 2
      then show ?thesis by (simp add: route_reports_simps route_ends_def tells_def RouteMsg)
    next
      case 3
      then show ?thesis using tells_report [OF Cons.IH [of new], of st]
        by (simp add: route_reports_simps route_ends_def route_report_def RouteMsg split_def Let_def)
    qed
  qed (use Cons.IH [of st] in \<open>simp_all add: route_reports_simps route_ends_def route_report_def tells_def\<close>)
qed

text \<open>
  What the users of a device may rely on, whatever the listener: \<open>learns\<close> are the states it has learnt of,
  \<open>run\<close> its events.
\<close>

abbreviation link_state_events :: "event list \<Rightarrow> event list" where
  "link_state_events evs \<equiv> filter (\<lambda>v. v \<noteq> EventMTUUpdate) evs"

locale link_listener =
  fixes run :: "'r \<Rightarrow> event list"
    and learns :: "'r \<Rightarrow> linkStatus list"
  assumes tells_learnt: "tells (False, 0) (learns r) (run r)"
begin

lemma down_then_events:
  "EventDown # link_state_events (run r) = map updown (remdups_adj (False # map fst (learns r)))"
proof -
  have "remdups_adj (False # map fst (learns r)) = False # tl (remdups_adj (False # map fst (learns r)))"
    by (metis hd_remdups_adj list.collapse list.discI list.sel(1) remdups_adj_Nil_iff)
  then have "map updown (remdups_adj (False # map fst (learns r)))
      = updown False # map updown (tl (remdups_adj (False # map fst (learns r))))" by (metis list.simps(9))
  then show ?thesis using tells_learnt [of r] by (simp add: tells_def updown_def)
qed

lemma alternates: "distinct_adj (EventDown # link_state_events (run r))"
proof -
  have "inj updown" by (auto simp: inj_def updown_def split: if_splits)
  then show ?thesis unfolding down_then_events by (simp add: distinct_adj_mapI inj_on_def)
qed

lemma ends_in_state: "last (EventDown # link_state_events (run r)) = updown (last (False # map fst (learns r)))"
  unfolding down_then_events by (simp add: last_map del: last.simps remdups_adj.simps)

lemma quiet: "learns r = [] \<Longrightarrow> run r = []"
  using tells_learnt [of r] by (cases "run r") (auto simp: tells_def split: if_splits)

end

definition openbsd_reports :: "endian \<Rightarrow> int \<Rightarrow> goerror + linkStatus \<Rightarrow> routeRead list \<Rightarrow> linkStatus list" where
  "openbsd_reports e i iface rs = (case iface of Inl err \<Rightarrow> [] | Inr st \<Rightarrow> st # route_reports OpenBSD e i rs)"

interpretation darwin_link: link_listener "\<lambda>rs. fst (darwinRouteListener e i rs)" "route_reports Darwin e i" for e i
  by unfold_locales (simp add: darwinRouteListener_def route_loop_tells)

interpretation freebsd_link: link_listener "\<lambda>rs. fst (freebsdRouteListener e i rs)" "route_reports FreeBSD e i" for e i
  by unfold_locales (simp add: freebsdRouteListener_def route_loop_tells)

interpretation openbsd_link: link_listener "\<lambda>(iface, rs). fst (openbsdRouteListener e i iface rs)"
  "\<lambda>(iface, rs). openbsd_reports e i iface rs" for e i
proof
  show "tells (False, 0) (case r of (iface, rs) \<Rightarrow> openbsd_reports e i iface rs)
    (case r of (iface, rs) \<Rightarrow> fst (openbsdRouteListener e i iface rs))" for r
  proof (cases r)
    case (Pair iface rs)
    show ?thesis
      using tells_report [OF route_loop_tells [of "projr iface" OpenBSD e i rs], of "(False, 0)"]
      by (cases iface) (simp_all add: Pair openbsdRouteListener_def openbsd_reports_def tells_def split_def Let_def)
  qed
qed

definition faithful :: "linkStatus list \<Rightarrow> event list \<Rightarrow> bool" where
  "faithful sts evs \<longleftrightarrow> tells (False, 0) sts evs
     \<and> distinct_adj (EventDown # link_state_events evs)
     \<and> last (EventDown # link_state_events evs) = updown (last (False # map fst sts))"

text \<open>
  C31. On all three platforms, for every sequence of answers of the routing socket,
  the listener's \<open>Up\<close> and \<open>Down\<close> events are the states of the interface as the messages about it
  report them, each once when it changes, beginning from down: they alternate, the first is \<open>Up\<close>, and the
  last one is the last state reported. There is one \<open>EventMTUUpdate\<close> for each change of the MTU. Messages
  that are short, of another type or about another interface make no events.
\<close>

theorem route_listener_tells:
  "faithful (route_reports Darwin e i rs) (fst (darwinRouteListener e i rs))
   \<and> faithful (route_reports FreeBSD e i rs) (fst (freebsdRouteListener e i rs))
   \<and> faithful (openbsd_reports e i iface rs) (fst (openbsdRouteListener e i iface rs))"
  unfolding faithful_def
  using darwin_link.tells_learnt darwin_link.alternates darwin_link.ends_in_state
    freebsd_link.tells_learnt freebsd_link.alternates freebsd_link.ends_in_state
    openbsd_link.tells_learnt [of e i "(iface, rs)"] openbsd_link.alternates [of e i "(iface, rs)"]
    openbsd_link.ends_in_state [of e i "(iface, rs)"]
  by simp

section \<open>Write and Read\<close>

text \<open>A file that returns what has been written to it, a packet at a time, cut to the reader's buffer.\<close>

definition packet_file :: "'w bsdSys \<Rightarrow> int \<Rightarrow> ('w \<Rightarrow> byte list list) \<Rightarrow> bool" where
  "packet_file S f queue \<longleftrightarrow>
     (\<forall>x w. \<exists>w'. fWrite S f x w = (None, w') \<and> queue w' = queue w @ [x])
     \<and> (\<forall>n w x xs. queue w = x # xs \<longrightarrow> (\<exists>w'. fRead S f n w = ((take n x, None), w') \<and> queue w' = xs))"

definition ip_version_ok :: "byte list \<Rightarrow> nat \<Rightarrow> bool" where
  "ip_version_ok b off \<longleftrightarrow> off < length b \<and> (drop_bit 4 (b ! off) = 4 \<or> drop_bit 4 (b ! off) = 6)"

definition framed :: "platform \<Rightarrow> byte list \<Rightarrow> byte list" where
  "framed p pkt = [0, 0, 0, if drop_bit 4 (pkt ! 0) = 4 then AF_INET else AF_INET6 p] @ pkt"

definition framed_at :: "platform \<Rightarrow> nat \<Rightarrow> byte list \<Rightarrow> byte list" where
  "framed_at p off b = take (off - 4) b @ framed p (drop off b)"

lemma bsd_write_step:
  assumes ok: "ip_version_ok b off" and off: "4 \<le> off"
    and w: "fWrite S f (framed p (drop off b)) w = (None, w1)"
  shows "bsd_write_loop p S f (int off) i bss (b # bs) w = bsd_write_loop p S f (int off) (Suc i) (bss[i := framed_at p off b]) bs w1"
proof -
  define buf where "buf = drop (off - 4) b"
  have len: "5 \<le> length buf" using ok off by (auto simp: buf_def ip_version_ok_def)
  have d: "drop 4 buf = drop off b" using off by (simp add: buf_def)
  have v: "buf ! 4 = b ! off" "drop off b ! 0 = b ! off"
    using ok off by (auto simp: buf_def ip_version_ok_def nth_drop)
  obtain a0 a1 a2 a3 a4 rest where buf: "buf = a0 # a1 # a2 # a3 # a4 # rest"
    using len by (cases buf; cases "tl buf"; cases "tl (tl buf)"; cases "tl (tl (tl buf))"; cases "tl (tl (tl (tl buf)))") auto
  have n: "nat (int off - 4) = off - 4" using off by simp
  have s: "slice_from_int b (int off - 4) = Some buf"
    using ok off n by (auto simp: slice_from_int_def buf_def ip_version_ok_def slice_from_def)
  have a4: "a4 = b ! off" "drop off b = a4 # rest" using v(1) d by (simp_all add: buf)
  have nib: "drop_bit 4 a4 = 4 \<or> drop_bit 4 a4 = 6" using ok by (simp add: ip_version_ok_def a4(1))
  have w': "fWrite S f (0 # 0 # 0 # (if drop_bit 4 a4 = 4 then AF_INET else AF_INET6 p) # a4 # rest) w = (None, w1)"
    using w by (simp add: framed_def a4(2))
  have fr: "framed_at p off b = take (off - 4) b @ 0 # 0 # 0 # (if drop_bit 4 a4 = 4 then AF_INET else AF_INET6 p) # a4 # rest"
    by (simp add: framed_at_def framed_def a4(2))
  from nib show ?thesis
    by (elim disjE) (use w' in \<open>simp_all add: s buf n go_simps fr\<close>)
qed

lemma bsd_write_all:
  assumes k: "packet_file S f queue" and off: "4 \<le> off" and ok: "\<forall>b \<in> set bs. ip_version_ok b off"
    and len: "length pre = i"
  shows "\<exists>w'. bsd_write_loop p S f (int off) i (pre @ bs) bs w = Some ((i + length bs, None), pre @ map (framed_at p off) bs, w')
     \<and> queue w' = queue w @ map (\<lambda>b. framed p (drop off b)) bs"
  using ok len
proof (induction bs arbitrary: i pre w)
  case Nil
  then show ?case by simp
next
  case (Cons b bs)
  obtain w1 where w1: "fWrite S f (framed p (drop off b)) w = (None, w1)" "queue w1 = queue w @ [framed p (drop off b)]"
    using k unfolding packet_file_def by blast
  have b: "ip_version_ok b off" using Cons.prems by simp
  have pre: "(pre @ b # bs)[i := framed_at p off b] = (pre @ [framed_at p off b]) @ bs"
    using Cons.prems by (simp add: list_update_append)
  obtain w' where w': "bsd_write_loop p S f (int off) (Suc i) ((pre @ [framed_at p off b]) @ bs) bs w1
      = Some ((Suc i + length bs, None), (pre @ [framed_at p off b]) @ map (framed_at p off) bs, w')"
    "queue w' = queue w1 @ map (\<lambda>b. framed p (drop off b)) bs"
    using Cons.IH [of "pre @ [framed_at p off b]" "Suc i" w1] Cons.prems by auto
  show ?case
    unfolding bsd_write_step [OF b off w1(1)] pre using w' w1(2) by simp
qed

text \<open>A reader: \<open>n\<close> calls of \<open>Read\<close>, each into a fresh buffer of \<open>c\<close> bytes.\<close>

fun read_packets :: "'w bsdSys \<Rightarrow> bsdTun \<Rightarrow> nat \<Rightarrow> nat \<Rightarrow> nat \<Rightarrow> 'w \<Rightarrow> byte list list option" where
  "read_packets S t off c 0 w = Some []"
| "read_packets S t off c (Suc n) w = do {
     (r, bss, sizes, t, w) \<leftarrow> bsdRead S t [replicate c 0] [0] (int off) w;
     if r \<noteq> (1, None) then None
     else do { ps \<leftarrow> read_packets S t off c n w; Some (take (sizes ! 0) (drop off (bss ! 0)) # ps) }
   }"

lemma bsd_read_step:
  assumes k: "packet_file S (bFile t) queue" and q: "queue w = framed p pkt # xs"
    and off: "4 \<le> off" "off + length pkt \<le> c" and none: "bErrors t = []"
  shows "\<exists>b w'. bsdRead S t [replicate c 0] [0] (int off) w = Some ((1, None), [b], [length pkt], t, w')
     \<and> take (length pkt) (drop off b) = pkt \<and> queue w' = xs"
proof -
  have s: "slice_from_int (replicate c 0) (int off - 4) = Some (replicate (c - (off - 4)) (0 :: byte))"
    using off by (simp add: slice_from_int_def go_simps)
  have n: "nat (int off - 4) = off - 4" using off by simp
  have lf: "length (framed p pkt) = 4 + length pkt" by (simp add: framed_def)
  obtain w' where r: "fRead S (bFile t) (c - (off - 4)) w = ((framed p pkt, None), w')" "queue w' = xs"
  proof -
    have "take (c - (off - 4)) (framed p pkt) = framed p pkt" using off lf by (intro take_all) simp
    then show thesis using k q that unfolding packet_file_def by metis
  qed
  define b where "b = take (off - 4) (replicate c 0) @ framed p pkt @ drop (off + length pkt) (replicate c (0 :: byte))"
  have c: "copy_at (replicate c 0) (off - 4) (framed p pkt) = Some b"
    using off by (simp add: copy_at_def b_def lf add.commute min_def)
  have "drop off b = pkt @ drop (off + length pkt) (replicate c 0)"
    using off by (simp add: b_def framed_def drop_Cons' numeral_eq_Suc)
  then have "take (length pkt) (drop off b) = pkt" by simp
  moreover have "bsdRead S t [replicate c 0] [0] (int off) w = Some ((1, None), [b], [length pkt], t, w')"
    by (simp add: bsdRead_def none s n r c lf go_simps)
  ultimately show ?thesis using r(2) by blast
qed

lemma read_packets_all:
  assumes k: "packet_file S (bFile t) queue" and off: "4 \<le> off" and none: "bErrors t = []"
  shows "queue w = map (framed p) pkts @ xs \<Longrightarrow> \<forall>pkt \<in> set pkts. off + length pkt \<le> c \<Longrightarrow>
    read_packets S t off c (length pkts) w = Some pkts"
proof (induction pkts arbitrary: w)
  case (Cons pkt pkts)
  obtain b w' where b: "bsdRead S t [replicate c 0] [0] (int off) w = Some ((1, None), [b], [length pkt], t, w')"
    "take (length pkt) (drop off b) = pkt" "queue w' = map (framed p) pkts @ xs"
    using bsd_read_step [OF k _ off _ none, where pkt = pkt] Cons.prems by fastforce
  then show ?case using Cons.IH [OF b(3)] Cons.prems by simp
qed simp

text \<open>
  C30. On a file that returns the packets written to it, a \<open>Write\<close> of any number of
  buffers with an IPv4 or IPv6 packet at \<open>offset\<close> (at least 4) returns their number and no error, leaves the
  packets in the buffers as they were, and puts each on the file behind three zero bytes and its address
  family. The same number of reads, into buffers that are large enough, returns the packets in order.
\<close>

theorem bsd_write_read:
  assumes "packet_file S (bFile t) queue" and "queue w = []" and "4 \<le> off" and "4 \<le> off'"
    and "\<forall>b \<in> set bss. ip_version_ok b off \<and> off' + (length b - off) \<le> c" and "bErrors t = []"
  shows "\<exists>bss' w'. bsdWrite p S t bss (int off) w = Some ((length bss, None), bss', w')
    \<and> map (drop off) bss' = map (drop off) bss
    \<and> queue w' = map (framed p \<circ> drop off) bss
    \<and> read_packets S t off' c (length bss) w' = Some (map (drop off) bss)"
proof -
  obtain w' where w': "bsdWrite p S t bss (int off) w = Some ((length bss, None), map (framed_at p off) bss, w')"
    "queue w' = map (framed p \<circ> drop off) bss"
    using bsd_write_all [OF assms(1,3), of bss "[]" 0 p w] assms(2,3,5) by (auto simp: bsdWrite_def o_def)
  have "map (drop off) (map (framed_at p off) bss) = map (drop off) bss"
  proof (simp, intro ballI)
    fix b assume "b \<in> set bss"
    then have "off < length b" using assms(5) by (simp add: ip_version_ok_def)
    then show "drop off (framed_at p off b) = drop off b"
      using assms(3) by (simp add: framed_at_def framed_def drop_Cons' numeral_eq_Suc)
  qed
  moreover have "read_packets S t off' c (length (map (drop off) bss)) w' = Some (map (drop off) bss)"
    by (rule read_packets_all [OF assms(1,4,6), where xs = "[]" and p = p]) (use w'(2) assms(5) in auto)
  ultimately show ?thesis using w' by auto
qed

text \<open>A system whose state is the queue.\<close>

definition demo_bsd :: "byte list list bsdSys" where
  "demo_bsd = \<lparr>fSyscallConn = \<lambda>_ _. None, fControl = \<lambda>_ _. None, fIoctl = \<lambda>_ _ b w. (0, b, w),
     fControlName = \<lambda>_ w. (Inr utun, w), fRdev = \<lambda>_ w. (Inr 0, w), fSocket = \<lambda>_ w. (Inr 4, w),
     fClose = \<lambda>_ w. (None, w), fShutdown = \<lambda>_ w. w, fInterfaceByName = \<lambda>_ w. (Inr 1, w),
     fOpen = \<lambda>_ w. (Inr 3, w), fCtlInfo = \<lambda>_ w. (Inr 0, w), fConnectCtl = \<lambda>_ _ _ w. (None, w),
     fSetNonblock = \<lambda>_ w. (None, w), fScan = \<lambda>_. Some 0, fNameFile = \<lambda>_ w. w, fByteString = \<lambda>b. b,
     fRead = \<lambda>_ n w. (case w of [] \<Rightarrow> (([], Some ErrClosed), w) | x # xs \<Rightarrow> ((take n x, None), xs)),
     fWrite = \<lambda>_ x w. (None, w @ [x])\<rparr>"

theorem bsd_write_read_witness:
  "\<exists>bss' w'. bsdWrite OpenBSD demo_bsd (bsd_new 3 1) [[9, 9, 9, 9, 0x45, 7], [9, 9, 9, 9, 0x60]] 4 [] = Some ((2, None), bss', w')
    \<and> w' = [[0, 0, 0, 2, 0x45, 7], [0, 0, 0, 24, 0x60]]
    \<and> read_packets demo_bsd (bsd_new 3 1) 16 100 2 w' = Some [[0x45, 7], [0x60]]"
proof -
  have k: "packet_file demo_bsd (bFile (bsd_new 3 1)) (\<lambda>w. w)"
    by (simp add: packet_file_def demo_bsd_def)
  have v: "drop_bit 4 (0x45 :: byte) = 4" "drop_bit 4 (0x60 :: byte) = 6" by code_simp+
  define bss :: "byte list list" where "bss = [[9, 9, 9, 9, 0x45, 7], [9, 9, 9, 9, 0x60]]"
  have h: "\<forall>b \<in> set bss. ip_version_ok b 4 \<and> 16 + (length b - 4) \<le> 100"
    by (simp add: ip_version_ok_def v bss_def)
  obtain bss' w' where r: "bsdWrite OpenBSD demo_bsd (bsd_new 3 1) bss (int 4) [] = Some ((length bss, None), bss', w')"
    "w' = map (framed OpenBSD \<circ> drop 4) bss"
    "read_packets demo_bsd (bsd_new 3 1) 16 100 (length bss) w' = Some (map (drop 4) bss)"
    using bsd_write_read [OF k refl _ _ h, of OpenBSD] by (auto simp: bsd_new_def)
  have e: "length bss = 2" "map (drop 4) bss = [[0x45, 7], [0x60]]"
    "map (framed OpenBSD \<circ> drop 4) bss = [[0, 0, 0, 2, 0x45, 7], [0, 0, 0, 24, 0x60]]"
    by (simp_all add: bss_def framed_def v AF_INET_def AF_INET6_def)
  show ?thesis
    using r unfolding e by (intro exI [of _ bss'] exI [of _ w']) (simp add: bss_def)
qed

end
