(* ===== verification/BsdFds.thy ===== *)
theory BsdFds
  imports BsdProps
begin

text \<open>
  The descriptors of the BSD devices: what the constructors and \<open>Close\<close> open and close, on every path.
\<close>

text \<open>
  What the kernel documents of descriptors: they are not negative and open until they are closed, the
  other calls open and close none. \<open>fds\<close> is the bag of open descriptors.
\<close>

definition bsd_fd_kernel :: "'w bsdSys \<Rightarrow> ('w \<Rightarrow> int multiset) \<Rightarrow> bool" where
  "bsd_fd_kernel S fds \<longleftrightarrow>
     (\<forall>k w fd w'. fSocket S k w = (Inr fd, w') \<longrightarrow> 0 \<le> fd \<and> fds w' = add_mset fd (fds w))
     \<and> (\<forall>k w err w'. fSocket S k w = (Inl err, w') \<longrightarrow> fds w' = fds w)
     \<and> (\<forall>n w fd w'. fOpen S n w = (Inr fd, w') \<longrightarrow> 0 \<le> fd \<and> fds w' = add_mset fd (fds w))
     \<and> (\<forall>n w err w'. fOpen S n w = (Inl err, w') \<longrightarrow> fds w' = fds w)
     \<and> (\<forall>fd w. fds (snd (fClose S fd w)) = fds w - {#fd#})
     \<and> (\<forall>fd r b w. fds (snd (snd (fIoctl S fd r b w))) = fds w)
     \<and> (\<forall>fd w. fds (snd (fControlName S fd w)) = fds w)
     \<and> (\<forall>fd w. fds (snd (fRdev S fd w)) = fds w)
     \<and> (\<forall>fd w. fds (fShutdown S fd w) = fds w)
     \<and> (\<forall>n w. fds (snd (fInterfaceByName S n w)) = fds w)
     \<and> (\<forall>fd w. fds (snd (fCtlInfo S fd w)) = fds w)
     \<and> (\<forall>fd i u w. fds (snd (fConnectCtl S fd i u w)) = fds w)
     \<and> (\<forall>fd w. fds (snd (fSetNonblock S fd w)) = fds w)
     \<and> (\<forall>n w. fds (fNameFile S n w) = fds w)"

lemma bsd_fd_laws:
  assumes "bsd_fd_kernel S fds"
  shows "fSocket S k w = (Inr fd, w') \<Longrightarrow> 0 \<le> fd \<and> fds w' = add_mset fd (fds w)"
    "fSocket S k w = (Inl err, w') \<Longrightarrow> fds w' = fds w"
    "fOpen S n w = (Inr fd, w') \<Longrightarrow> 0 \<le> fd \<and> fds w' = add_mset fd (fds w)"
    "fOpen S n w = (Inl err, w') \<Longrightarrow> fds w' = fds w"
    "fClose S fd w = (r, w') \<Longrightarrow> fds w' = fds w - {#fd#}"
    "fIoctl S fd q b w = (errno, b', w') \<Longrightarrow> fds w' = fds w"
    "fControlName S fd w = (cn, w') \<Longrightarrow> fds w' = fds w"
    "fRdev S fd w = (rd, w') \<Longrightarrow> fds w' = fds w"
    "fds (fShutdown S fd w) = fds w"
    "fInterfaceByName S n w = (ix, w') \<Longrightarrow> fds w' = fds w"
    "fCtlInfo S fd w = (ci, w') \<Longrightarrow> fds w' = fds w"
    "fConnectCtl S fd i u w = (r, w') \<Longrightarrow> fds w' = fds w"
    "fSetNonblock S fd w = (r, w') \<Longrightarrow> fds w' = fds w"
    "fds (fNameFile S n w) = fds w"
  using assms unfolding bsd_fd_kernel_def by (metis snd_conv)+

lemma bsd_fd_close: "bsd_fd_kernel S fds \<Longrightarrow> fds (snd (fClose S fd w)) = fds w - {#fd#}"
  by (simp add: bsd_fd_kernel_def)

section \<open>The calls that keep the descriptors\<close>

lemma bsdSetMTU_fds:
  assumes k: "bsd_fd_kernel S fds"
  shows "bsdSetMTU p e S t n w = (r, w') \<Longrightarrow> fds w' = fds w"
  by (auto simp: bsdSetMTU_def Let_def bsd_fd_close [OF k] split: prod.splits sum.splits dest!: bsd_fd_laws(1,2,6) [OF k])

lemma bsdMTU_fds:
  assumes k: "bsd_fd_kernel S fds"
  shows "bsdMTU p e S t w = (r, w') \<Longrightarrow> fds w' = fds w"
  by (auto simp: bsdMTU_def Let_def bsd_fd_close [OF k] split: prod.splits sum.splits dest!: bsd_fd_laws(1,2,6) [OF k])

lemma tunDestroy_fds:
  assumes k: "bsd_fd_kernel S fds"
  shows "tunDestroy S n w = (r, w') \<Longrightarrow> fds w' = fds w"
  by (auto simp: tunDestroy_def Let_def bsd_fd_close [OF k] split: prod.splits sum.splits dest!: bsd_fd_laws(1,2,6) [OF k])

lemma initial_mtu_fds:
  assumes k: "bsd_fd_kernel S fds"
  shows "initial_mtu p e S t mtu w = (r, w') \<Longrightarrow> fds w' = fds w"
  by (auto simp: initial_mtu_def Let_def split: platform.splits if_splits prod.splits
      dest!: bsdSetMTU_fds [OF k] bsdMTU_fds [OF k])

text \<open>The function that \<open>operateOnFd\<close> calls, and what it leaves of the device.\<close>

lemma operateOnFd_cases:
  assumes "operateOnFd S fn dflt t w = Some (r, t', w')"
  obtains es where "t' = t\<lparr>bErrors := es\<rparr>" "w' = w" "r = dflt"
    | "t' = t" "fn (bFile t) w = (r, w')"
  using assms by (auto simp: operateOnFd_def send_error_def Let_def split: option.splits if_splits prod.splits)

lemma operateOnFd_fds:
  assumes "operateOnFd S fn dflt t w = Some (r, t', w')"
    and "\<And>fd w r w'. fn fd w = (r, w') \<Longrightarrow> fds w' = fds w"
  shows "fds w' = fds w \<and> (\<exists>es. t' = t\<lparr>bErrors := es\<rparr>)"
  using assms(1)
proof (cases rule: operateOnFd_cases)
  case (1 es)
  then show ?thesis by blast
next
  case 2
  then have "t' = t\<lparr>bErrors := bErrors t\<rparr>" by simp
  with 2 show ?thesis using assms(2) by blast
qed

lemma run_ioctl_fds:
  assumes k: "bsd_fd_kernel S fds"
  shows "run_ioctl S q b fd w = (r, w') \<Longrightarrow> fds w' = fds w"
  by (auto simp: run_ioctl_def split: prod.splits dest: bsd_fd_laws(6) [OF k])

lemma freebsd_tunName_fds:
  assumes k: "bsd_fd_kernel S fds"
  shows "freebsd_tunName S fd w = (r, w') \<Longrightarrow> fds w' = fds w"
  by (auto simp: freebsd_tunName_def Let_def split: prod.splits dest: bsd_fd_laws(6) [OF k])

lemma bsdName_fds:
  assumes k: "bsd_fd_kernel S fds" and n: "bsdName p S t w = Some (r, t', w')"
  shows "fds w' = fds w \<and> (\<exists>es n. t' = t\<lparr>bErrors := es, bName := n\<rparr>)"
proof (cases p)
  case Darwin
  then have n: "darwinName S t w = Some (r, t', w')" using n by (simp add: bsdName_def)
  let ?fn = "\<lambda>fd w. map_prod Some id (fControlName S fd w)"
  obtain r1 t1 where o: "operateOnFd S ?fn None t w = Some (r1, t1, w')"
    and t': "\<exists>n. t' = t1\<lparr>bName := n\<rparr>"
  proof -
    obtain x where x: "operateOnFd S ?fn None t w = Some x" "(case x of (r1, t1, w1) \<Rightarrow>
      Some (case r1 of None \<Rightarrow> (Inr (bName t1), t1, w1)
       | Some (Inl err) \<Rightarrow> (Inl (ErrWrapped ''GetSockoptString'' err), t1\<lparr>bName := []\<rparr>, w1)
       | Some (Inr ifname) \<Rightarrow> (Inr ifname, t1\<lparr>bName := ifname\<rparr>, w1))) = Some (r, t', w')"
      using n unfolding darwinName_def bind_eq_Some_conv by blast
    obtain r1 t1 w1 where xx: "x = (r1, t1, w1)" by (cases x)
    have "w1 = w' \<and> (\<exists>n. t' = t1\<lparr>bName := n\<rparr>)"
      using x(2) by (auto simp: xx split: option.splits sum.splits intro: exI [of _ "bName t'"])
    then show thesis using that x(1) xx by blast
  qed
  have "fds w' = fds w \<and> (\<exists>es. t1 = t\<lparr>bErrors := es\<rparr>)"
    by (rule operateOnFd_fds [OF o]) (use bsd_fd_laws(7) [OF k] in \<open>auto simp: map_prod_def split: prod.splits\<close>)
  then show ?thesis using t' by force
next
  case FreeBSD
  then have n: "freebsdName S t w = Some (r, t', w')" using n by (simp add: bsdName_def)
  obtain r1 t1 where o: "operateOnFd S (freebsd_tunName S) (Inr []) t w = Some (r1, t1, w')"
    and t': "\<exists>n. t' = t1\<lparr>bName := n\<rparr>"
  proof -
    obtain x where x: "operateOnFd S (freebsd_tunName S) (Inr []) t w = Some x" "(case x of (r1, t1, w1) \<Rightarrow>
      Some (case r1 of Inl err \<Rightarrow> (Inl err, t1, w1)
       | Inr ifname \<Rightarrow> (Inr ifname, t1\<lparr>bName := ifname\<rparr>, w1))) = Some (r, t', w')"
      using n unfolding freebsdName_def bind_eq_Some_conv by blast
    obtain r1 t1 w1 where xx: "x = (r1, t1, w1)" by (cases x)
    have "w1 = w' \<and> (\<exists>n. t' = t1\<lparr>bName := n\<rparr>)"
      using x(2) by (auto simp: xx split: sum.splits intro: exI [of _ "bName t'"])
    then show thesis using that x(1) xx by blast
  qed
  have "fds w' = fds w \<and> (\<exists>es. t1 = t\<lparr>bErrors := es\<rparr>)"
    by (rule operateOnFd_fds [OF o]) (use freebsd_tunName_fds [OF k] in blast)
  then show ?thesis using t' by force
next
  case OpenBSD
  have e: "t\<lparr>bName := n\<rparr> = t\<lparr>bErrors := bErrors t, bName := n\<rparr>" for n by simp
  show ?thesis
    using n OpenBSD bsd_fd_laws(8) [OF k]
    by (auto simp: bsdName_def openbsdName_def Let_def split: prod.splits sum.splits intro: e)
qed

section \<open>The constructors and \<open>Close\<close>\<close>

text \<open>
  \<open>device_open\<close>: a device on \<open>file\<close> that is not closed, with its routing socket.
\<close>

definition device_open :: "int \<Rightarrow> bsdTun \<Rightarrow> bool" where
  "device_open f t \<longleftrightarrow> bFile t = f \<and> 0 \<le> bRoute t \<and> \<not> bCloseDone t"

lemma bsdClose_fds:
  assumes k: "bsd_fd_kernel S fds" and t: "0 \<le> bRoute t" "\<not> bCloseDone t"
  shows "\<exists>err t' w'. bsdClose p S t w = Some (err, t', w') \<and> fds w' = fds w - {#bFile t#} - {#bRoute t#}"
proof -
  obtain e1 w1 where c1: "fClose S (bFile t) w = (e1, w1)" by (cases "fClose S (bFile t) w")
  obtain e2 w2 where c2: "(if p = FreeBSD then tunDestroy S (bName t) w1 else (None, w1)) = (e2, w2)"
    by (cases "(if p = FreeBSD then tunDestroy S (bName t) w1 else (None, w1))")
  obtain e3 w3 where c3: "fClose S (bRoute t) (fShutdown S (bRoute t) w2) = (e3, w3)"
    by (cases "fClose S (bRoute t) (fShutdown S (bRoute t) w2)")
  have f: "fds w2 = fds w1" using c2 tunDestroy_fds [OF k] by (auto split: if_splits)
  have "fds w3 = fds w - {#bFile t#} - {#bRoute t#}"
    using bsd_fd_laws(5) [OF k c1] bsd_fd_laws(5) [OF k c3] bsd_fd_laws(9) [OF k] f by simp
  moreover have "bRoute t \<noteq> -1" using t by simp
  ultimately show ?thesis using t(2) c2 c3
    by (cases p) (auto simp: bsdClose_def bsd_close_body_def Let_def c1)
qed

text \<open>\<open>settled\<close>: the result of a constructor that was given \<open>file\<close>.\<close>

definition settled :: "('w \<Rightarrow> int multiset) \<Rightarrow> int \<Rightarrow> 'w \<Rightarrow> (goerror + bsdTun) \<times> 'w \<Rightarrow> bool" where
  "settled fds f w r \<longleftrightarrow> (case r of
     (Inl err, w') \<Rightarrow> fds w' = fds w - {#f#}
   | (Inr t, w') \<Rightarrow> device_open f t \<and> fds w' = add_mset (bRoute t) (fds w))"

lemma bsd_from_named_returns:
  assumes k: "bsd_fd_kernel S fds" and n: "bsdName p S t w = Some (nr, t1, w1)" and t: "\<not> bCloseDone t"
  shows "\<exists>r. bsd_from_named p e S t mtu w = Some r \<and> settled fds (bFile t) w r"
proof -
  have nf: "fds w1 = fds w" "bFile t1 = bFile t" "bCloseDone t1 = bCloseDone t"
    using bsdName_fds [OF k n] by auto
  show ?thesis
  proof (cases nr)
    case (Inl err)
    then show ?thesis using n nf by (auto simp: bsd_from_named_def settled_def bsd_fd_close [OF k])
  next
    case ifname: (Inr ifname)
    obtain ix w2 where i: "fInterfaceByName S ifname w1 = (ix, w2)" by (cases "fInterfaceByName S ifname w1")
    have if': "fds w2 = fds w" using bsd_fd_laws(10) [OF k i] nf by simp
    show ?thesis
    proof (cases ix)
      case (Inl err)
      then show ?thesis using n nf i if' ifname by (auto simp: bsd_from_named_def settled_def bsd_fd_close [OF k])
    next
      case index: (Inr index)
      obtain sr w3 where s: "fSocket S RouteSock w2 = (sr, w3)" by (cases "fSocket S RouteSock w2")
      show ?thesis
      proof (cases sr)
        case (Inl err)
        then show ?thesis using n nf i if' ifname index s bsd_fd_laws(2) [OF k s [unfolded Inl]]
          by (auto simp: bsd_from_named_def settled_def bsd_fd_close [OF k])
      next
        case sock: (Inr sock)
        define t2 where "t2 = t1\<lparr>bRoute := sock, bListening := Some index\<rparr>"
        have sf: "0 \<le> sock" "fds w3 = add_mset sock (fds w)" using bsd_fd_laws(1) [OF k s [unfolded sock]] if' by simp_all
        obtain me w4 where m: "initial_mtu p e S t2 mtu w3 = (me, w4)" by (cases "initial_mtu p e S t2 mtu w3")
        have mf: "fds w4 = add_mset sock (fds w)" using initial_mtu_fds [OF k m] sf by simp
        have t2: "0 \<le> bRoute t2" "\<not> bCloseDone t2" "bFile t2 = bFile t" "bRoute t2 = sock"
          using sf nf t by (simp_all add: t2_def)
        obtain ce t3 w5 where c: "bsdClose p S t2 w4 = Some (ce, t3, w5)"
          "fds w5 = fds w4 - {#bFile t2#} - {#bRoute t2#}"
          using bsdClose_fds [OF k t2(1,2), of p w4] by blast
        have "bsd_from_named p e S t mtu w = Some (case me of None \<Rightarrow> (Inr t2, w4) | Some err \<Rightarrow> (Inl err, w5))"
          by (cases me) (simp_all add: bsd_from_named_def n ifname i index s sock t2_def [symmetric] m c(1))
        then show ?thesis using c(2) mf t2
          by (cases me) (auto simp: settled_def device_open_def diff_right_commute)
      qed
    qed
  qed
qed

lemma bsd_from_named_settled:
  assumes "bsd_fd_kernel S fds" and "bsd_from_named p e S t mtu w = Some r" and "\<not> bCloseDone t"
  shows "settled fds (bFile t) w r"
proof -
  obtain nr t1 w1 where "bsdName p S t w = Some (nr, t1, w1)"
    using assms(2) unfolding bsd_from_named_def bind_eq_Some_conv by auto
  from bsd_from_named_returns [OF assms(1) this assms(3), of e mtu] show ?thesis using assms(2) by auto
qed

text \<open>
  A constructor returns if \<open>operateOnFd\<close> never waits for the channel of errors: because there is room, or
  because the file is open.
\<close>

definition files_answer :: "'w bsdSys \<Rightarrow> bool" where
  "files_answer S \<longleftrightarrow> (\<forall>f w. fSyscallConn S f w = None \<and> fControl S f w = None)"

lemma operateOnFd_returns:
  assumes "length (bErrors t) < bErrCap t \<or> files_answer S"
  shows "\<exists>r t' w'. operateOnFd S fn dflt t w = Some (r, t', w')"
  using assms
  by (auto simp: operateOnFd_def send_error_def files_answer_def Let_def split: option.splits prod.splits)

lemma bsdName_returns:
  assumes "p = OpenBSD \<or> length (bErrors t) < bErrCap t \<or> files_answer S"
  shows "\<exists>nr t' w'. bsdName p S t w = Some (nr, t', w')"
proof (cases p)
  case Darwin
  then have "length (bErrors t) < bErrCap t \<or> files_answer S" using assms by simp
  from operateOnFd_returns [OF this, of "\<lambda>fd w. map_prod Some id (fControlName S fd w)" None w]
  show ?thesis by (auto simp: Darwin bsdName_def darwinName_def split: option.split sum.split)
next
  case FreeBSD
  then have "length (bErrors t) < bErrCap t \<or> files_answer S" using assms by simp
  from operateOnFd_returns [OF this, of "freebsd_tunName S" "Inr []" w]
  show ?thesis by (auto simp: FreeBSD bsdName_def freebsdName_def split: sum.split)
next
  case OpenBSD
  then show ?thesis by (auto simp: bsdName_def openbsdName_def Let_def split: prod.split sum.split)
qed

lemma from_file_settled:
  assumes k: "bsd_fd_kernel S fds"
  shows "darwinCreateTUNFromFile e S f mtu w = Some r \<Longrightarrow> settled fds f w r"
    and "openbsdCreateTUNFromFile e S f mtu w = Some r \<Longrightarrow> settled fds f w r"
    and "freebsdCreateTUNFromFile e S f mtu w = Some r \<Longrightarrow> settled fds f w r"
proof -
  have new: "bFile (bsd_new f c) = f" "\<not> bCloseDone (bsd_new f c)" for c by (simp_all add: bsd_new_def)
  note named = bsd_from_named_settled [OF k _ new(2), unfolded new(1)]
  show "settled fds f w r" if "darwinCreateTUNFromFile e S f mtu w = Some r"
    using that unfolding darwinCreateTUNFromFile_def by (rule named)
  show "settled fds f w r" if "openbsdCreateTUNFromFile e S f mtu w = Some r"
    using that unfolding openbsdCreateTUNFromFile_def by (rule named)
  show "settled fds f w r" if r: "freebsdCreateTUNFromFile e S f mtu w = Some r"
  proof -
    obtain errno t1 w1 where o: "operateOnFd S (run_ioctl S TUNSIFPID []) 0 (bsd_new f 1) w = Some (errno, t1, w1)"
      using r unfolding freebsdCreateTUNFromFile_def bind_eq_Some_conv by auto
    have "fds w1 = fds w \<and> (\<exists>es. t1 = (bsd_new f 1)\<lparr>bErrors := es\<rparr>)"
      by (rule operateOnFd_fds [OF o]) (use run_ioctl_fds [OF k] in blast)
    then have o': "fds w1 = fds w" "bFile t1 = f" "\<not> bCloseDone t1" using new by auto
    show ?thesis
    proof (cases "errno = 0")
      case True
      then have "bsd_from_named FreeBSD e S t1 mtu w1 = Some r" using r o by (simp add: freebsdCreateTUNFromFile_def)
      from bsd_from_named_settled [OF k this o'(3)] show ?thesis using o' by (simp add: settled_def split: prod.splits sum.splits)
    next
      case False
      then show ?thesis using r o o' by (auto simp: freebsdCreateTUNFromFile_def settled_def bsd_fd_close [OF k])
    qed
  qed
qed

text \<open>\<open>created\<close>: the result of a constructor that opens the file itself.\<close>

definition created :: "('w \<Rightarrow> int multiset) \<Rightarrow> 'w \<Rightarrow> (goerror + bsdTun) \<times> 'w \<Rightarrow> bool" where
  "created fds w r \<longleftrightarrow> (case r of
     (Inl err, w') \<Rightarrow> fds w' = fds w
   | (Inr t, w') \<Rightarrow> device_open (bFile t) t \<and> fds w' = fds w + {#bFile t, bRoute t#})"

lemma settled_created: "settled fds f w1 r \<Longrightarrow> fds w1 = add_mset f (fds w) \<Longrightarrow> created fds w r"
  by (cases r; cases "fst r") (auto simp: settled_def created_def device_open_def)

lemma created_name_file: "bsd_fd_kernel S fds \<Longrightarrow> created fds w r \<Longrightarrow> created fds w (write_name_file S any r)"
  by (cases r; cases "fst r") (auto simp: created_def write_name_file_def bsd_fd_laws(14))

lemma open_first_fds:
  assumes k: "bsd_fd_kernel S fds"
  shows "open_first S is (Inl err) w = (r, w') \<Longrightarrow>
    (case r of Inl err \<Rightarrow> fds w' = fds w | Inr f \<Rightarrow> fds w' = add_mset f (fds w))"
proof (induction "is" arbitrary: w err)
  case (Cons i "is")
  obtain x w1 where x: "fOpen S (dev_tun (int i)) w = (x, w1)" by (cases "fOpen S (dev_tun (int i)) w")
  show ?case
  proof (cases x)
    case (Inl err')
    have w1: "fds w1 = fds w" by (rule bsd_fd_laws(4) [OF k x [unfolded Inl]])
    then show ?thesis using Cons.prems Cons.IH [of err' w1] by (auto simp: x Inl split: if_splits sum.splits)
  next
    case (Inr f)
    then show ?thesis using Cons.prems bsd_fd_laws(3) [OF k x [unfolded Inr]] by (auto simp: x)
  qed
qed auto

lemma darwinCreateTUN_created:
  assumes k: "bsd_fd_kernel S fds" and r: "darwinCreateTUN e S ifname mtu w = Some r"
  shows "created fds w r"
proof (cases "name_index S utun ifname")
  case None
  then show ?thesis using r by (auto simp: darwinCreateTUN_def created_def)
next
  case ix: (Some i)
  obtain x w1 where s: "fSocket S SystemDgram w = (x, w1)" by (cases "fSocket S SystemDgram w")
  show ?thesis
  proof (cases x)
    case (Inl err)
    then show ?thesis using r s ix bsd_fd_laws(2) [OF k s [unfolded Inl]] by (auto simp: darwinCreateTUN_def created_def)
  next
    case fd: (Inr fd)
    have f1: "fds w1 = add_mset fd (fds w)" using bsd_fd_laws(1) [OF k s [unfolded fd]] by simp
    have given_up: "created fds w (Inl err, snd (fClose S fd w'))" if "fds w' = fds w1" for err w'
      using that f1 by (simp add: created_def bsd_fd_close [OF k])
    obtain c w2 where c: "fCtlInfo S fd w1 = (c, w2)" by (cases "fCtlInfo S fd w1")
    note f2 = bsd_fd_laws(11) [OF k c]
    show ?thesis
    proof (cases c)
      case (Inl err)
      then show ?thesis using r ix s fd c given_up [OF f2] by (auto simp: darwinCreateTUN_def)
    next
      case ctl: (Inr ctl)
      obtain d w3 where d: "fConnectCtl S fd ctl (of_int i + 1) w2 = (d, w3)" by (cases "fConnectCtl S fd ctl (of_int i + 1) w2")
      have f3: "fds w3 = fds w1" using bsd_fd_laws(12) [OF k d] f2 by simp
      obtain b w4 where b: "fSetNonblock S fd w3 = (b, w4)" by (cases "fSetNonblock S fd w3")
      have f4: "fds w4 = fds w1" using bsd_fd_laws(13) [OF k b] f3 by simp
      note run = r [unfolded darwinCreateTUN_def]
      show ?thesis
      proof (cases d)
        case (Some err)
        then show ?thesis using run ix s fd c ctl d given_up [OF f3] by auto
      next
        case dn: None
        show ?thesis
        proof (cases b)
          case (Some err)
          then show ?thesis using run ix s fd c ctl d dn b given_up [OF f4] by auto
        next
          case None
          then obtain r0 where r0: "darwinCreateTUNFromFile e S fd mtu w4 = Some r0" "r = write_name_file S (ifname = utun) r0"
            using run ix s fd c ctl d dn b by auto
          have "created fds w r0"
            by (rule settled_created [OF from_file_settled(1) [OF k r0(1)]]) (simp add: f4 f1)
          then show ?thesis unfolding r0(2) by (rule created_name_file [OF k])
        qed
      qed
    qed
  qed
qed

lemma openbsdCreateTUN_created:
  assumes k: "bsd_fd_kernel S fds" and r: "openbsdCreateTUN e S ifname mtu w = Some r"
  shows "created fds w r"
proof (cases "name_index S tun_prefix ifname")
  case None
  then show ?thesis using r by (auto simp: openbsdCreateTUN_def created_def)
next
  case ix: (Some i)
  obtain x w1 where x: "(if i \<noteq> -1 then fOpen S (dev_tun i) w else open_first S [0..<256] (Inl ErrClosed) w) = (x, w1)"
    by (cases "(if i \<noteq> -1 then fOpen S (dev_tun i) w else open_first S [0..<256] (Inl ErrClosed) w)")
  have f1: "case x of Inl err \<Rightarrow> fds w1 = fds w | Inr f \<Rightarrow> fds w1 = add_mset f (fds w)"
    using x open_first_fds [OF k] bsd_fd_laws(3,4) [OF k] by (auto split: if_splits sum.splits)
  show ?thesis
  proof (cases x)
    case (Inl err)
    then show ?thesis using r ix f1 unfolding openbsdCreateTUN_def by (simp only: ix x option.case) (auto simp: created_def)
  next
    case (Inr f)
    then obtain r0 where r0: "openbsdCreateTUNFromFile e S f mtu w1 = Some r0" "r = write_name_file S (ifname = tun_prefix) r0"
      using r unfolding openbsdCreateTUN_def by (simp only: ix x option.case) auto
    have "created fds w r0"
      by (rule settled_created [OF from_file_settled(2) [OF k r0(1)]]) (use f1 Inr in simp)
    then show ?thesis unfolding r0(2) by (rule created_name_file [OF k])
  qed
qed

text \<open>FreeBSD: the error paths, and the sockets that are closed when the function returns.\<close>

lemma give_up_settled: "bsd_fd_kernel S fds \<Longrightarrow> fds w' = fds w \<Longrightarrow> freebsd_give_up S f a err w' = Some r \<Longrightarrow> settled fds f w r"
  using tunDestroy_fds [of S fds a "snd (fClose S f w')"]
  by (cases "tunDestroy S a (snd (fClose S f w'))") (auto simp: freebsd_give_up_def settled_def bsd_fd_close)

lemma settled_eq: "fds w' = fds w \<Longrightarrow> settled fds f w' r = settled fds f w r"
  by (auto simp: settled_def split: prod.splits sum.splits)

lemma deferred_close_settled:
  assumes k: "bsd_fd_kernel S fds" and c: "fds w1 = add_mset c (fds w)"
    and r: "deferred_close S c x = Some r" and x: "\<And>r0. x = Some r0 \<Longrightarrow> settled fds f w1 r0"
  shows "settled fds f w r"
proof -
  obtain a w2 where a: "x = Some (a, w2)" "r = (a, snd (fClose S c w2))"
    using r by (auto simp: deferred_close_def)
  show ?thesis using x [OF a(1)] c
    by (cases a) (auto simp: a(2) settled_def bsd_fd_close [OF k] diff_right_commute [of _ "{#f#}"])
qed

lemma freebsd_rename_settled:
  assumes k: "bsd_fd_kernel S fds" and r: "freebsd_rename e S f ifname a mtu w = Some r"
  shows "settled fds f w r"
proof (cases "ifname = []")
  case True
  then show ?thesis using r from_file_settled(3) [OF k] by (simp add: freebsd_rename_def)
next
  case False
  obtain x w1 where s: "fSocket S InetDgram w = (x, w1)" by (cases "fSocket S InetDgram w")
  show ?thesis
  proof (cases x)
    case (Inl err)
    then show ?thesis using r False s give_up_settled [OF k bsd_fd_laws(2) [OF k s [unfolded Inl]]]
      by (simp add: freebsd_rename_def)
  next
    case (Inr confd)
    have f1: "fds w1 = add_mset confd (fds w)" using bsd_fd_laws(1) [OF k s [unfolded Inr]] by simp
    obtain errno ifr w2 where i: "fIoctl S confd BSD_SIOCSIFNAME (req_name a @ req_name ifname) w1 = (errno, ifr, w2)"
      by (metis prod_cases3)
    note f2 = bsd_fd_laws(6) [OF k i]
    have "settled fds f w1 r0" if "(if errno \<noteq> 0 then freebsd_give_up S f a (ErrWrapped ''Failed to rename'' (FileError errno)) w2
        else freebsdCreateTUNFromFile e S f mtu w2) = Some r0" for r0
      using that give_up_settled [OF k f2] from_file_settled(3) [OF k] settled_eq [where fds = fds and f = f and r = r0, OF f2]
      by (cases "errno = 0") simp_all
    then show ?thesis using r False
      by (intro deferred_close_settled [OF k f1, where r = r and x = "(if errno \<noteq> 0 then
          freebsd_give_up S f a (ErrWrapped ''Failed to rename'' (FileError errno)) w2 else freebsdCreateTUNFromFile e S f mtu w2)"])
        (simp_all add: freebsd_rename_def s Inr i)
  qed
qed

lemma freebsd_nd6_fds:
  assumes k: "bsd_fd_kernel S fds"
  shows "freebsd_nd6 e S c a w = (r, w') \<Longrightarrow> fds w' = fds w"
  by (auto simp: freebsd_nd6_def Let_def split: prod.splits if_splits dest!: bsd_fd_laws(6) [OF k])

lemma freebsd_configure_settled:
  assumes k: "bsd_fd_kernel S fds" and r: "freebsd_configure e S t ifname a mtu w = Some r"
  shows "settled fds (bFile t) w r"
proof -
  have op: "fds w' = fds w0 \<and> bFile t' = bFile t0"
    if "operateOnFd S (run_ioctl S q b) 0 t0 w0 = Some (x, t', w')" for q b t0 w0 x t' w'
    using operateOnFd_fds [OF that, of fds] run_ioctl_fds [OF k] by fastforce
  obtain e1 t1 w1 where o1: "operateOnFd S (run_ioctl S TUNSIFHEAD (native_bytes64 e 1)) 0 t w = Some (e1, t1, w1)"
    using r unfolding freebsd_configure_def bind_eq_Some_conv by auto
  note p1 = op [OF o1]
  note run = r [unfolded freebsd_configure_def o1 Option.bind.bind_lunit prod.case]
  show ?thesis
  proof (cases "e1 = 0")
    case False
    then show ?thesis using run p1 give_up_settled [OF k, of w1 w] by simp
  next
    case e1: True
    obtain e2 t2 w2 where o2: "operateOnFd S (run_ioctl S TUNSIFMODE (native_bytes64 e 0x8002)) 0 t1 w1 = Some (e2, t2, w2)"
      using run by (auto simp: e1 bind_eq_Some_conv)
    have p2: "fds w2 = fds w" "bFile t2 = bFile t" using op [OF o2] p1 by simp_all
    show ?thesis
    proof (cases "e2 = 0")
      case False
      then show ?thesis using run e1 o2 p2 give_up_settled [OF k, of w2 w] by simp
    next
      case e2: True
      obtain x w3 where s: "fSocket S Inet6Dgram w2 = (x, w3)" by (cases "fSocket S Inet6Dgram w2")
      show ?thesis
      proof (cases x)
        case (Inl err)
        have "fds w3 = fds w" using bsd_fd_laws(2) [OF k s [unfolded Inl]] p2 by simp
        then show ?thesis using run e1 o2 e2 s Inl p2 give_up_settled [OF k, of w3 w] by simp
      next
        case (Inr c)
        have f3: "fds w3 = add_mset c (fds w)" using bsd_fd_laws(1) [OF k s [unfolded Inr]] p2 by simp
        obtain n w4 where n: "freebsd_nd6 e S c a w3 = (n, w4)" by (cases "freebsd_nd6 e S c a w3")
        note f4 = freebsd_nd6_fds [OF k n]
        have "settled fds (bFile t) w3 r0" if "(case n of
            Some err \<Rightarrow> freebsd_give_up S (bFile t) a err w4 | None \<Rightarrow> freebsd_rename e S (bFile t) ifname a mtu w4) = Some r0" for r0
          using that give_up_settled [OF k f4] freebsd_rename_settled [OF k] settled_eq [where fds = fds and f = "bFile t" and r = r0, OF f4]
          by (cases n) simp_all
        moreover have "deferred_close S c (case n of
            Some err \<Rightarrow> freebsd_give_up S (bFile t) a err w4 | None \<Rightarrow> freebsd_rename e S (bFile t) ifname a mtu w4) = Some r"
          using run e1 o2 e2 s Inr n p2 by (cases n) simp_all
        ultimately show ?thesis using deferred_close_settled [OF k f3] by blast
      qed
    qed
  qed
qed

lemma freebsdCreateTUN_created:
  assumes k: "bsd_fd_kernel S fds" and r: "freebsdCreateTUN e S ifname mtu w = Some r"
  shows "created fds w r"
proof (cases "IFNAMSIZ - 1 < length ifname")
  case True
  then show ?thesis using r by (auto simp: freebsdCreateTUN_def created_def)
next
  case short: False
  obtain ix w1 where i: "fInterfaceByName S ifname w = (ix, w1)" by (cases "fInterfaceByName S ifname w")
  note f1 = bsd_fd_laws(10) [OF k i]
  note run = r [unfolded freebsdCreateTUN_def i prod.case]
  show ?thesis
  proof (cases ix)
    case (Inr iface)
    then show ?thesis using run short f1 by (auto simp: created_def)
  next
    case ix: (Inl ierr)
    obtain x w2 where o: "fOpen S [47, 100, 101, 118, 47, 116, 117, 110] w1 = (x, w2)"
      by (cases "fOpen S [47, 100, 101, 118, 47, 116, 117, 110] w1")
    show ?thesis
    proof (cases x)
      case (Inl err)
      then show ?thesis using run short ix o f1 bsd_fd_laws(4) [OF k o [unfolded Inl]] by (auto simp: created_def)
    next
      case opened: (Inr f)
      have f2: "fds w2 = add_mset f (fds w)" using bsd_fd_laws(3) [OF k o [unfolded opened]] f1 by simp
      define t0 where "t0 = (bsd_new f 0)\<lparr>bEvents := chanNil\<rparr>"
      obtain n t1 w3 where n: "operateOnFd S (freebsd_tunName S) (Inr []) t0 w2 = Some (n, t1, w3)"
        using run short ix o opened unfolding t0_def by (auto simp: bind_eq_Some_conv)
      have n': "fds w3 = fds w2" "bFile t1 = f"
        using operateOnFd_fds [OF n, of fds] freebsd_tunName_fds [OF k] by (auto simp: t0_def bsd_new_def)
      show ?thesis
      proof (cases n)
        case (Inl err)
        then show ?thesis using run short ix o opened n n' f2
          by (auto simp: t0_def [symmetric] created_def bsd_fd_close [OF k])
      next
        case (Inr a)
        have "freebsd_configure e S t1 ifname a mtu w3 = Some r"
          using run short ix o opened n Inr by (simp add: t0_def [symmetric])
        from freebsd_configure_settled [OF k this] show ?thesis
          by (rule settled_created) (simp add: n' f2)
      qed
    qed
  qed
qed

text \<open>The constructors return.\<close>

lemma from_file_returns:
  assumes k: "bsd_fd_kernel S fds"
  shows "darwinCreateTUNFromFile e S f mtu w \<noteq> None"
    and "openbsdCreateTUNFromFile e S f mtu w \<noteq> None"
    and "files_answer S \<Longrightarrow> freebsdCreateTUNFromFile e S f mtu w \<noteq> None"
proof -
  have new: "\<not> bCloseDone (bsd_new f c)" "length (bErrors (bsd_new f 5)) < bErrCap (bsd_new f 5)" for c
    by (simp_all add: bsd_new_def)
  have named: "bsd_from_named p e S t mtu w \<noteq> None"
    if c: "p = OpenBSD \<or> length (bErrors t) < bErrCap t \<or> files_answer S" "\<not> bCloseDone t" for p t w
  proof -
    obtain nr t' w' where "bsdName p S t w = Some (nr, t', w')" using bsdName_returns [OF c(1), of w] by blast
    from bsd_from_named_returns [OF k this c(2), of e mtu] show ?thesis by auto
  qed
  show "darwinCreateTUNFromFile e S f mtu w \<noteq> None"
    unfolding darwinCreateTUNFromFile_def by (rule named) (use new in auto)
  show "openbsdCreateTUNFromFile e S f mtu w \<noteq> None"
    unfolding openbsdCreateTUNFromFile_def by (rule named) (use new in auto)
  show "freebsdCreateTUNFromFile e S f mtu w \<noteq> None" if fa: "files_answer S"
  proof -
    obtain errno t' w' where o: "operateOnFd S (run_ioctl S TUNSIFPID []) 0 (bsd_new f 1) w = Some (errno, t', w')"
      using operateOnFd_returns [OF disjI2 [OF fa], where fn = "run_ioctl S TUNSIFPID []"] by blast
    have "\<not> bCloseDone t'" using operateOnFd_fds [OF o, of fds] run_ioctl_fds [OF k] new by auto
    then show ?thesis using o named [of FreeBSD t' w'] fa
      by (auto simp: freebsdCreateTUNFromFile_def simp del: not_None_eq)
  qed
qed

lemma darwin_create_returns: "bsd_fd_kernel S fds \<Longrightarrow> darwinCreateTUN e S ifname mtu w \<noteq> None"
  by (simp add: darwinCreateTUN_def from_file_returns(1) split: option.split sum.split prod.split del: not_None_eq)

lemma openbsd_create_returns: "bsd_fd_kernel S fds \<Longrightarrow> openbsdCreateTUN e S ifname mtu w \<noteq> None"
  by (simp add: openbsdCreateTUN_def from_file_returns(2) split: option.split sum.split prod.split del: not_None_eq)

lemma freebsd_create_returns:
  assumes k: "bsd_fd_kernel S fds" and fa: "files_answer S"
  shows "freebsdCreateTUN e S ifname mtu w \<noteq> None"
proof -
  have up: "freebsd_give_up S f a err w \<noteq> None" for f a err w by (simp add: freebsd_give_up_def Let_def)
  have rename: "freebsd_rename e S f ifname a mtu w \<noteq> None" for f a w
    using from_file_returns(3) [OF k fa] up
    by (simp add: freebsd_rename_def deferred_close_def split: sum.split prod.split del: not_None_eq)
  have configure: "freebsd_configure e S t ifname a mtu w \<noteq> None" for t a w
  proof -
    obtain e1 t1 w1 where o1: "operateOnFd S (run_ioctl S TUNSIFHEAD (native_bytes64 e 1)) 0 t w = Some (e1, t1, w1)"
      using operateOnFd_returns [OF disjI2 [OF fa], where fn = "run_ioctl S TUNSIFHEAD (native_bytes64 e 1)"] by blast
    obtain e2 t2 w2 where o2: "operateOnFd S (run_ioctl S TUNSIFMODE (native_bytes64 e 0x8002)) 0 t1 w1 = Some (e2, t2, w2)"
      using operateOnFd_returns [OF disjI2 [OF fa], where fn = "run_ioctl S TUNSIFMODE (native_bytes64 e 0x8002)"] by blast
    show ?thesis using up rename
      by (simp add: freebsd_configure_def o1 o2 deferred_close_def split: sum.split prod.split option.split del: not_None_eq)
  qed
  have "(do { (r, t, w) \<leftarrow> operateOnFd S (freebsd_tunName S) (Inr []) t w;
      case r of Inl err \<Rightarrow> Some (Inl err, snd (fClose S f w)) | Inr a \<Rightarrow> freebsd_configure e S t ifname a mtu w }) \<noteq> None" for t f w
  proof -
    obtain r t' w' where "operateOnFd S (freebsd_tunName S) (Inr []) t w = Some (r, t', w')"
      using operateOnFd_returns [OF disjI2 [OF fa], where fn = "freebsd_tunName S"] by blast
    then show ?thesis using configure by (simp split: sum.split del: not_None_eq)
  qed
  then show ?thesis
    by (simp add: freebsdCreateTUN_def split: sum.split prod.split del: not_None_eq)
qed

text \<open>
  C25. The constructors of the three platforms return, on FreeBSD as long as the file
  answers, and leak no descriptor: if \<open>CreateTUN\<close> fails, whatever call failed, the open descriptors are
  those before it; if it succeeds, there are two more, the device file and the routing socket. \<open>Close\<close> of
  a device that is open on all platforms closes both, and called again it does nothing.
\<close>

theorem bsd_create_fds:
  assumes "bsd_fd_kernel S fds"
  shows "(\<exists>r. darwinCreateTUN e S ifname mtu w = Some r \<and> created fds w r)
    \<and> (\<exists>r. openbsdCreateTUN e S ifname mtu w = Some r \<and> created fds w r)
    \<and> (files_answer S \<longrightarrow> (\<exists>r. freebsdCreateTUN e S ifname mtu w = Some r))
    \<and> (\<forall>r. freebsdCreateTUN e S ifname mtu w = Some r \<longrightarrow> created fds w r)
    \<and> (device_open f t \<longrightarrow> (\<exists>err t' w'. bsdClose p S t w = Some (err, t', w')
         \<and> fds w' = fds w - {#f, bRoute t#} \<and> bsdClose p S t' w' = Some (None, t', w')))"
proof (intro conjI allI impI)
  note k = assms
  show "\<exists>r. darwinCreateTUN e S ifname mtu w = Some r \<and> created fds w r"
    using darwin_create_returns [OF k] darwinCreateTUN_created [OF k] by blast
  show "\<exists>r. openbsdCreateTUN e S ifname mtu w = Some r \<and> created fds w r"
    using openbsd_create_returns [OF k] openbsdCreateTUN_created [OF k] by blast
  show "\<exists>r. freebsdCreateTUN e S ifname mtu w = Some r" if "files_answer S"
    using freebsd_create_returns [OF k that] by blast
  show "created fds w r" if "freebsdCreateTUN e S ifname mtu w = Some r" for r by (rule freebsdCreateTUN_created [OF k that])
  assume "device_open f t"
  then have t: "bFile t = f" "0 \<le> bRoute t" "\<not> bCloseDone t" by (simp_all add: device_open_def)
  obtain err t' w' where c: "bsdClose p S t w = Some (err, t', w')" "fds w' = fds w - {#bFile t#} - {#bRoute t#}"
    using bsdClose_fds [OF k t(2,3)] by blast
  have "bCloseDone t'"
    using c(1) t(3) by (auto simp: bsdClose_def bsd_close_body_def Let_def bind_eq_Some_conv split: if_splits prod.splits)
  then have "bsdClose p S t' w' = Some (None, t', w')" by (simp add: bsdClose_def)
  with c t(1) show "\<exists>err t' w'. bsdClose p S t w = Some (err, t', w')
      \<and> fds w' = fds w - {#f, bRoute t#} \<and> bsdClose p S t' w' = Some (None, t', w')"
    by (auto simp: add_mset_commute)
qed

text \<open>A system that keeps the list of its descriptors and refuses the MTU.\<close>

definition demo_bsd_fds :: "int list bsdSys" where
  "demo_bsd_fds = \<lparr>fSyscallConn = \<lambda>_ _. None, fControl = \<lambda>_ _. None,
     fIoctl = \<lambda>_ q b w. (if q = BSD_SIOCSIFMTU then 22 else 0, b, w),
     fControlName = \<lambda>_ w. (Inr utun, w), fRdev = \<lambda>_ w. (Inr 0, w), fSocket = \<lambda>_ w. (Inr 4, 4 # w),
     fClose = \<lambda>fd w. (None, remove1 fd w), fShutdown = \<lambda>_ w. w, fInterfaceByName = \<lambda>_ w. (Inr 1, w),
     fOpen = \<lambda>_ w. (Inr 3, 3 # w), fCtlInfo = \<lambda>_ w. (Inr 0, w), fConnectCtl = \<lambda>_ _ _ w. (None, w),
     fSetNonblock = \<lambda>_ w. (None, w), fScan = \<lambda>_. Some 0, fNameFile = \<lambda>_ w. w, fByteString = \<lambda>b. b,
     fRead = \<lambda>_ n w. (([], Some ErrClosed), w), fWrite = \<lambda>_ x w. (None, w)\<rparr>"

theorem bsd_create_fds_witness:
  "\<exists>err w'. openbsdCreateTUN LittleE demo_bsd_fds tun_prefix 1420 [7] = Some (Inl err, w') \<and> mset w' = {#7#}"
proof -
  have k: "bsd_fd_kernel demo_bsd_fds mset" by (simp add: bsd_fd_kernel_def demo_bsd_fds_def)
  have "openbsdCreateTUN LittleE demo_bsd_fds tun_prefix 1420 [7]
      = Some (Inl (ErrText ''failed to set MTU''), [7])" by code_simp
  then show ?thesis
    using bsd_create_fds [OF k, of LittleE tun_prefix 1420 "[7]"] by (auto simp: created_def)
qed

text \<open>
  On FreeBSD \<open>CreateTUNFromFile\<close> does not return for a file that is closed: \<open>operateOnFd\<close> puts its error into
  the channel \<open>errors\<close>, which holds one, and the error is not looked at; the next \<open>operateOnFd\<close>, in \<open>Name\<close>,
  waits for room in the channel. On macOS, where the channel holds five, it returns an error.
\<close>

lemma freebsd_closed_file_blocks:
  assumes "\<And>w. fSyscallConn S f w = Some err"
  shows "freebsdCreateTUNFromFile e S f mtu w = None"
  using assms
  by (simp add: freebsdCreateTUNFromFile_def operateOnFd_def bsd_new_def send_error_def bsd_from_named_def bsdName_def freebsdName_def)

text \<open>
  A \<open>Write\<close> of a buffer without a packet panics on macOS and OpenBSD, which look at the first byte of the
  packet without a check; FreeBSD checks first and returns \<open>ErrShortBuffer\<close>.
\<close>

lemma bsd_empty_packet:
  "darwinWrite S t [replicate 4 0] 4 w = None"
  "openbsdWrite S t [replicate 4 0] 4 w = None"
  "freebsdWrite S t [replicate 4 0] 4 w = Some ((0, Some ErrShortBuffer), [replicate 4 0], w)"
  by (simp_all add: darwinWrite_def openbsdWrite_def freebsdWrite_def bsdWrite_def slice_from_int_def
      slice_from_def idx_def set_at_def)

end
