(* ===== verification/BsdThreads.thy ===== *)
theory BsdThreads
  imports BsdTun
begin

text \<open>
  The goroutines of a device on macOS, FreeBSD and OpenBSD: \<open>routineRouteListener\<close>, the goroutine that
  creates the device and later closes it, the readers of \<open>Events\<close> and \<open>Read\<close>, and callers of \<open>Name\<close>. They
  share the channels \<open>events\<close> and \<open>errors\<close>, the routing socket with the variable \<open>routeSocket\<close>, and the file. Any
  of them may move next; the platform is an argument.
\<close>

section \<open>The shared state\<close>

text \<open>
  Where the listener is: in the first \<open>check\<close> of OpenBSD, before it loads \<open>routeSocket\<close>, in the system call (with the
  number of the socket, or with -1), sending the events of a report, with an error to send, before the deferred
  \<open>close\<close>.
\<close>

datatype listenPoint =
    LCheck | LRead linkStatus | LSys linkStatus bool | LSend "event list" linkStatus | LFail | LCloseEvents | LEnd

text \<open>Where the owner is. From \<open>CFile\<close> on it runs the body of \<open>closeOnce\<close>; \<open>CElse\<close> is its branch \<open>else if\<close>.\<close>

datatype closePoint = CSetMTU | COpen | CFile | CDestroy | CSocket | CElse | CShutdown | CCloseSock | CUnset | CClosed

datatype sockState = SockOpen | SockShut | SockClosed

text \<open>
  \<open>rtEvents\<close> is what \<open>events\<close> holds, \<open>rtErrors\<close> how much \<open>errors\<close> holds. \<open>rtKept\<close>: \<open>routeSocket\<close> is not -1. \<open>rtReused\<close>:
  the number of the closed socket belongs to another file by now. \<open>rtGiven\<close>: the caller has the device.
  \<open>rtCrash\<close> is a panic of a goroutine, which ends the program.
\<close>

record routeThreads =
  rtEvents :: "event list"
  rtOpen :: bool
  rtErrors :: nat
  rtSock :: sockState
  rtKept :: bool
  rtReused :: bool
  rtFile :: bool
  rtGiven :: bool
  rtCrash :: bool
  rtListen :: listenPoint
  rtClose :: closePoint

definition bsdEventsCap :: nat where "bsdEventsCap = 10"

definition bsdErrorsCap :: "platform \<Rightarrow> nat" where
  "bsdErrorsCap p = (case p of Darwin \<Rightarrow> 5 | FreeBSD \<Rightarrow> 1 | OpenBSD \<Rightarrow> 1)"

definition listen_start :: "platform \<Rightarrow> listenPoint" where
  "listen_start p = (if p = OpenBSD then LCheck else LRead (False, 0))"

text \<open>After \<open>go tun.routineRouteListener(tunIfindex)\<close>.\<close>

definition route_init :: "platform \<Rightarrow> routeThreads" where
  "route_init p = \<lparr>rtEvents = [], rtOpen = True, rtErrors = 0, rtSock = SockOpen, rtKept = True, rtReused = False,
     rtFile = True, rtGiven = False, rtCrash = False, rtListen = listen_start p, rtClose = CSetMTU\<rparr>"

section \<open>The goroutines\<close>

text \<open>
  What a read can deliver that was called with the number of the socket (\<open>b\<close>): anything while the socket is open,
  nothing but the end of the data once it is shut down, an error alone once it is closed, unless the number
  belongs to another file by then. A read of -1 is an error.
\<close>

definition route_delivers :: "routeThreads \<Rightarrow> bool \<Rightarrow> byte list \<Rightarrow> bool" where
  "route_delivers s b msg \<longleftrightarrow>
     b \<and> (case rtSock s of SockOpen \<Rightarrow> True | SockShut \<Rightarrow> msg = [] | SockClosed \<Rightarrow> rtReused s)"

text \<open>
  \<open>routineRouteListener\<close>. A read fails with any error at any time; \<open>EINTR\<close> is retried, with a message that is
  dropped. A send waits for room; on a closed channel it is a panic.
\<close>

inductive listener_move :: "platform \<Rightarrow> endian \<Rightarrow> int \<Rightarrow> routeThreads \<Rightarrow> routeThreads \<Rightarrow> bool" for p e index where
  l_check: "rtListen s = LCheck \<Longrightarrow>
    listener_move p e index s (s\<lparr>rtListen := LSend (link_report (False, 0) new) new\<rparr>)"
| l_check_fails: "rtListen s = LCheck \<Longrightarrow> listener_move p e index s (s\<lparr>rtListen := LFail\<rparr>)"
| l_load: "rtListen s = LRead st \<Longrightarrow> listener_move p e index s (s\<lparr>rtListen := LSys st (rtKept s)\<rparr>)"
| l_retry: "rtListen s = LSys st b \<Longrightarrow> route_delivers s b [] \<Longrightarrow> listener_move p e index s (s\<lparr>rtListen := LRead st\<rparr>)"
| l_read_fails: "rtListen s = LSys st b \<Longrightarrow> listener_move p e index s (s\<lparr>rtListen := LFail\<rparr>)"
| l_skip: "rtListen s = LSys st b \<Longrightarrow> route_delivers s b msg \<Longrightarrow> route_msg p e index msg iface = None \<Longrightarrow>
    listener_move p e index s (s\<lparr>rtListen := LRead st\<rparr>)"
| l_gone: "rtListen s = LSys st b \<Longrightarrow> route_delivers s b msg \<Longrightarrow> route_msg p e index msg iface = Some (Inl err) \<Longrightarrow>
    listener_move p e index s (s\<lparr>rtListen := LFail\<rparr>)"
| l_report: "rtListen s = LSys st b \<Longrightarrow> route_delivers s b msg \<Longrightarrow> route_msg p e index msg iface = Some (Inr new) \<Longrightarrow>
    listener_move p e index s (s\<lparr>rtListen := LSend (link_report st new) new\<rparr>)"
| l_send: "rtListen s = LSend (ev # evs) st \<Longrightarrow> rtOpen s \<Longrightarrow> length (rtEvents s) < bsdEventsCap \<Longrightarrow>
    listener_move p e index s (s\<lparr>rtEvents := rtEvents s @ [ev], rtListen := LSend evs st\<rparr>)"
| l_send_panic: "rtListen s = LSend (ev # evs) st \<Longrightarrow> \<not> rtOpen s \<Longrightarrow> listener_move p e index s (s\<lparr>rtCrash := True\<rparr>)"
| l_sent: "rtListen s = LSend [] st \<Longrightarrow> listener_move p e index s (s\<lparr>rtListen := LRead st\<rparr>)"
| l_error: "rtListen s = LFail \<Longrightarrow> rtErrors s < bsdErrorsCap p \<Longrightarrow>
    listener_move p e index s (s\<lparr>rtErrors := Suc (rtErrors s), rtListen := LCloseEvents\<rparr>)"
| l_close: "rtListen s = LCloseEvents \<Longrightarrow> rtOpen s \<Longrightarrow> listener_move p e index s (s\<lparr>rtOpen := False, rtListen := LEnd\<rparr>)"
| l_close_panic: "rtListen s = LCloseEvents \<Longrightarrow> \<not> rtOpen s \<Longrightarrow> listener_move p e index s (s\<lparr>rtCrash := True\<rparr>)"

text \<open>
  The end of \<open>CreateTUNFromFile\<close>, which calls \<open>Close\<close> if the MTU cannot be set, and \<open>Close\<close>, whose body
  \<open>closeOnce\<close> runs once. macOS leaves the number of the closed socket in \<open>routeSocket\<close>.
\<close>

inductive owner_move :: "platform \<Rightarrow> routeThreads \<Rightarrow> routeThreads \<Rightarrow> bool" for p where
  o_created: "rtClose s = CSetMTU \<Longrightarrow> owner_move p s (s\<lparr>rtGiven := True, rtClose := COpen\<rparr>)"
| o_create_fails: "rtClose s = CSetMTU \<Longrightarrow> owner_move p s (s\<lparr>rtClose := CFile\<rparr>)"
| o_close: "rtClose s = COpen \<Longrightarrow> owner_move p s (s\<lparr>rtClose := CFile\<rparr>)"
| o_file: "rtClose s = CFile \<Longrightarrow>
    owner_move p s (s\<lparr>rtFile := False, rtClose := (if p = FreeBSD then CDestroy else CSocket)\<rparr>)"
| o_destroy: "rtClose s = CDestroy \<Longrightarrow> owner_move p s (s\<lparr>rtClose := CSocket\<rparr>)"
| o_socket: "rtClose s = CSocket \<Longrightarrow> owner_move p s (s\<lparr>rtClose := (if rtKept s then CShutdown else CElse)\<rparr>)"
| o_else: "rtClose s = CElse \<Longrightarrow> rtOpen s \<Longrightarrow> owner_move p s (s\<lparr>rtOpen := False, rtClose := CClosed\<rparr>)"
| o_else_panic: "rtClose s = CElse \<Longrightarrow> \<not> rtOpen s \<Longrightarrow> owner_move p s (s\<lparr>rtCrash := True\<rparr>)"
| o_shutdown: "rtClose s = CShutdown \<Longrightarrow> owner_move p s (s\<lparr>rtSock := SockShut, rtClose := CCloseSock\<rparr>)"
| o_close_sock: "rtClose s = CCloseSock \<Longrightarrow>
    owner_move p s (s\<lparr>rtSock := SockClosed, rtClose := (if p = Darwin then CClosed else CUnset)\<rparr>)"
| o_unset: "rtClose s = CUnset \<Longrightarrow> owner_move p s (s\<lparr>rtKept := False, rtClose := CClosed\<rparr>)"

text \<open>
  The listener and the reader of the events: what moves without the help of the owner or of a caller.
\<close>

inductive route_move :: "platform \<Rightarrow> endian \<Rightarrow> int \<Rightarrow> routeThreads \<Rightarrow> routeThreads \<Rightarrow> bool" for p e index where
  r_listener: "\<not> rtCrash s \<Longrightarrow> listener_move p e index s s' \<Longrightarrow> route_move p e index s s'"
| r_reader: "\<not> rtCrash s \<Longrightarrow> rtGiven s \<Longrightarrow> rtEvents s = ev # evs \<Longrightarrow> route_move p e index s (s\<lparr>rtEvents := evs\<rparr>)"

text \<open>
  The rest: \<open>Name\<close> on a closed file, where \<open>operateOnFd\<close> sends an error (OpenBSD does not use it); \<open>Read\<close>, which
  takes an error from the channel; and the system, which gives the number of the closed socket away.
\<close>

inductive caller_move :: "platform \<Rightarrow> routeThreads \<Rightarrow> routeThreads \<Rightarrow> bool" for p where
  c_name: "p \<noteq> OpenBSD \<Longrightarrow> rtGiven s \<Longrightarrow> \<not> rtFile s \<Longrightarrow> rtErrors s < bsdErrorsCap p \<Longrightarrow>
    caller_move p s (s\<lparr>rtErrors := Suc (rtErrors s)\<rparr>)"
| c_read: "rtGiven s \<Longrightarrow> rtErrors s = Suc n \<Longrightarrow> caller_move p s (s\<lparr>rtErrors := n\<rparr>)"
| c_reuse: "rtSock s = SockClosed \<Longrightarrow> caller_move p s (s\<lparr>rtReused := True\<rparr>)"

inductive route_reachable :: "platform \<Rightarrow> endian \<Rightarrow> int \<Rightarrow> routeThreads \<Rightarrow> bool" for p e index where
  rr_init: "route_reachable p e index (route_init p)"
| rr_route: "route_reachable p e index s \<Longrightarrow> route_move p e index s s' \<Longrightarrow> route_reachable p e index s'"
| rr_owner: "route_reachable p e index s \<Longrightarrow> \<not> rtCrash s \<Longrightarrow> owner_move p s s' \<Longrightarrow> route_reachable p e index s'"
| rr_caller: "route_reachable p e index s \<Longrightarrow> \<not> rtCrash s \<Longrightarrow> caller_move p s s' \<Longrightarrow> route_reachable p e index s'"

section \<open>The invariant\<close>

fun file_open_at :: "closePoint \<Rightarrow> bool" where
  "file_open_at CSetMTU = True"
| "file_open_at COpen = True"
| "file_open_at CFile = True"
| "file_open_at c = False"

fun sock_at :: "closePoint \<Rightarrow> sockState" where
  "sock_at CCloseSock = SockShut"
| "sock_at CUnset = SockClosed"
| "sock_at CClosed = SockClosed"
| "sock_at c = SockOpen"

fun error_sent :: "listenPoint \<Rightarrow> nat" where
  "error_sent LCloseEvents = 1"
| "error_sent LEnd = 1"
| "error_sent l = 0"

definition route_inv :: "platform \<Rightarrow> routeThreads \<Rightarrow> bool" where
  "route_inv p s \<longleftrightarrow> \<not> rtCrash s
     \<and> rtOpen s = (rtListen s \<noteq> LEnd)
     \<and> rtSock s = sock_at (rtClose s)
     \<and> rtKept s = (rtClose s \<noteq> CClosed \<or> p = Darwin)
     \<and> rtClose s \<noteq> CElse \<and> (rtClose s = CUnset \<longrightarrow> p \<noteq> Darwin)
     \<and> rtFile s = file_open_at (rtClose s)
     \<and> (p = OpenBSD \<longrightarrow> rtErrors s \<le> error_sent (rtListen s))
     \<and> length (rtEvents s) \<le> bsdEventsCap"

lemma listener_move_inv: "listener_move p e index s s' \<Longrightarrow> route_inv p s \<Longrightarrow> route_inv p s'"
  by (induction rule: listener_move.induct) (clarsimp simp: route_inv_def)+

lemma owner_move_inv: "owner_move p s s' \<Longrightarrow> route_inv p s \<Longrightarrow> route_inv p s'"
  by (induction rule: owner_move.induct) (clarsimp simp: route_inv_def)+

lemma caller_move_inv: "caller_move p s s' \<Longrightarrow> route_inv p s \<Longrightarrow> route_inv p s'"
  by (induction rule: caller_move.induct) (clarsimp simp: route_inv_def)+

lemma route_move_inv: "route_move p e index s s' \<Longrightarrow> route_inv p s \<Longrightarrow> route_inv p s'"
  by (induction rule: route_move.induct) (auto simp: listener_move_inv, simp add: route_inv_def)

lemma route_reachable_inv: "route_reachable p e index s \<Longrightarrow> route_inv p s"
proof (induction rule: route_reachable.induct)
  case rr_init
  show ?case by (simp add: route_inv_def route_init_def listen_start_def)
qed (blast intro: route_move_inv owner_move_inv caller_move_inv)+

section \<open>Shutdown\<close>

fun listen_work :: "listenPoint \<Rightarrow> nat" where
  "listen_work LCheck = 10"
| "listen_work (LSend evs st) = 5 + 2 * length evs"
| "listen_work (LRead st) = 4"
| "listen_work (LSys st b) = 3"
| "listen_work LFail = 2"
| "listen_work LCloseEvents = 1"
| "listen_work LEnd = 0"

definition route_work :: "routeThreads \<Rightarrow> nat" where
  "route_work s = listen_work (rtListen s) + length (rtEvents s)"

text \<open>
  The number of the closed socket belongs to another file, and the listener reads it, or is going to load it.
\<close>

definition foreign :: "routeThreads \<Rightarrow> bool" where
  "foreign s \<longleftrightarrow> rtReused s \<and> (rtKept s \<or> (\<exists>st. rtListen s = LSys st True))"

text \<open>Closed, in the hands of a caller, and no foreign file in reach.\<close>

definition route_closed :: "routeThreads \<Rightarrow> bool" where
  "route_closed s \<longleftrightarrow> rtClose s = CClosed \<and> rtGiven s \<and> \<not> foreign s"

definition route_ended :: "routeThreads \<Rightarrow> bool" where
  "route_ended s \<longleftrightarrow> rtListen s = LEnd \<and> \<not> rtOpen s \<and> rtEvents s = []"

text \<open>
  A run after \<open>Close\<close>, with the number of moves of the listener and of the reader of the events. Callers of \<open>Name\<close> and
  \<open>Read\<close> move in between, and the system, as long as it gives the number to no file that the listener would read.
\<close>

inductive closed_run :: "platform \<Rightarrow> endian \<Rightarrow> int \<Rightarrow> nat \<Rightarrow> routeThreads \<Rightarrow> routeThreads \<Rightarrow> bool" for p e index where
  cr_refl: "closed_run p e index 0 s s"
| cr_route: "closed_run p e index n s t \<Longrightarrow> route_move p e index t s' \<Longrightarrow> closed_run p e index (Suc n) s s'"
| cr_caller: "closed_run p e index n s t \<Longrightarrow> caller_move p t s' \<Longrightarrow> \<not> foreign s' \<Longrightarrow> closed_run p e index n s s'"

lemma link_report_length: "length (link_report old new) \<le> 2"
  by (auto simp: link_report_def)

lemma closed_delivers_nothing:
  "route_inv p s \<Longrightarrow> route_closed s \<Longrightarrow> rtListen s = LSys st b \<Longrightarrow> \<not> route_delivers s b msg"
  by (auto simp: route_inv_def route_closed_def route_delivers_def foreign_def)

lemma route_closed_work:
  assumes "route_inv p s" and "route_closed s" and "route_move p e index s s'"
  shows "route_closed s' \<and> route_work s' < route_work s"
  using assms(3)
proof cases
  case r_listener
  note silent = closed_delivers_nothing [OF assms(1,2)]
  have b: "rtOpen s = (rtListen s \<noteq> LEnd)" using assms(1) by (simp add: route_inv_def)
  from r_listener(2) show ?thesis
  proof cases
    case (l_check new)
    then show ?thesis using assms(2) link_report_length [of "(False, 0)" new]
      by (auto simp: route_closed_def route_work_def foreign_def)
  qed (use assms(2) silent b in \<open>auto simp: route_closed_def route_work_def foreign_def\<close>)
next
  case (r_reader ev evs)
  then show ?thesis using assms(2) by (simp add: route_closed_def route_work_def foreign_def)
qed

lemma caller_closed:
  assumes "caller_move p s s'" and "route_closed s" and "\<not> foreign s'"
  shows "route_closed s' \<and> route_work s' = route_work s"
  using assms by cases (simp_all add: route_closed_def route_work_def)

text \<open>
  Where neither the listener nor the reader can move, the listener has ended, or it waits for room in \<open>errors\<close>, which
  other errors fill.
\<close>

lemma route_closed_stuck:
  assumes inv: "route_inv p s" and c: "route_closed s" and stuck: "\<nexists>s'. route_move p e index s s'"
  shows "route_ended s \<or> p \<noteq> OpenBSD \<and> rtListen s = LFail \<and> bsdErrorsCap p \<le> rtErrors s"
proof -
  have ok: "\<not> rtCrash s" "rtGiven s" using inv c by (auto simp: route_inv_def route_closed_def)
  have no: "\<not> listener_move p e index s s'" for s' using stuck ok(1) r_listener by blast
  have empty: "rtEvents s = []" using stuck ok r_reader by (cases "rtEvents s") blast+
  have "rtListen s = LEnd \<or> rtListen s = LFail"
  proof (cases "rtListen s")
    case LCheck
    then show ?thesis using no l_check by blast
  next
    case (LRead st)
    then show ?thesis using no l_load by blast
  next
    case (LSys st b)
    then show ?thesis using no l_read_fails by blast
  next
    case (LSend evs st)
    have "length (rtEvents s) < bsdEventsCap" by (simp add: empty bsdEventsCap_def)
    moreover have "rtOpen s" using inv LSend by (simp add: route_inv_def)
    ultimately show ?thesis using LSend no l_sent l_send by (cases evs) blast+
  next
    case LCloseEvents
    then show ?thesis using no l_close l_close_panic by blast
  qed simp_all
  then show ?thesis
  proof
    assume "rtListen s = LEnd"
    then show ?thesis using inv empty by (simp add: route_ended_def route_inv_def)
  next
    assume l: "rtListen s = LFail"
    then have full: "bsdErrorsCap p \<le> rtErrors s" using no l_error by (meson not_le)
    moreover have "p \<noteq> OpenBSD" using inv l full by (auto simp: route_inv_def bsdErrorsCap_def)
    ultimately show ?thesis using l by simp
  qed
qed

lemma route_closed_runs:
  assumes "closed_run p e index n s s'" and "route_inv p s" and "route_closed s"
  shows "route_inv p s' \<and> route_closed s' \<and> n + route_work s' \<le> route_work s"
  using assms
proof (induction rule: closed_run.induct)
  case (cr_route n s t s')
  then show ?case using route_move_inv [OF cr_route.hyps(2)] route_closed_work [OF _ _ cr_route.hyps(2)] by fastforce
next
  case (cr_caller n s t s')
  then show ?case using caller_move_inv [OF cr_caller.hyps(2)] caller_closed [OF cr_caller.hyps(2)] by auto
qed simp

text \<open>
  C23. On macOS, FreeBSD and OpenBSD, however the listener, the owner of the device and
  its callers interleave, nothing is sent on the closed channel of events and no channel is closed twice: the
  listener alone closes the events, as the last thing it does, and the branch of \<open>Close\<close> that would close them
  is never taken. Once \<open>Close\<close> has returned, \<open>routeSocket\<close> is -1, except on macOS, and no read delivers anything,
  unless the number of the socket has been given to another file.
\<close>

theorem route_listener_safe:
  assumes "route_reachable p e index s"
  shows "\<not> rtCrash s \<and> rtClose s \<noteq> CElse \<and> (rtOpen s \<longleftrightarrow> rtListen s \<noteq> LEnd)
    \<and> (rtClose s = CClosed \<longrightarrow> (p = Darwin \<or> \<not> rtKept s) \<and> (\<not> rtReused s \<longrightarrow> \<not> route_delivers s b msg))"
  using route_reachable_inv [OF assms] by (auto simp: route_inv_def route_delivers_def)

text \<open>
  C24. Once \<open>Close\<close> of a created device has returned, and as long as the number of its routing
  socket is not given to another file that the listener still reads (it has loaded the number, or is on macOS, where
  the number stays in \<open>routeSocket\<close>), the listener and the reader of the events make no more than \<open>route_work s\<close> steps,
  however the callers of \<open>Name\<close> and \<open>Read\<close> move in between. Where they can make none, the listener has
  ended and the channel of events is closed and empty, or the listener waits with its last error for room in
  \<open>errors\<close>, which errors of \<open>Name\<close> fill; on OpenBSD it never waits.
\<close>

theorem close_ends_route_listener:
  assumes "route_reachable p e index s" and "rtClose s = CClosed" and "rtGiven s" and "\<not> foreign s"
    and "closed_run p e index n s s'"
  shows "n \<le> route_work s
    \<and> ((\<nexists>s''. route_move p e index s' s'') \<longrightarrow>
         route_ended s' \<or> p \<noteq> OpenBSD \<and> rtListen s' = LFail \<and> bsdErrorsCap p \<le> rtErrors s')"
proof -
  have "route_closed s" using assms(2-4) by (simp add: route_closed_def)
  from route_closed_runs [OF assms(5) route_reachable_inv [OF assms(1)] this] route_closed_stuck show ?thesis by auto
qed

section \<open>Witnesses and two schedules\<close>

text \<open>A device that is created and closed before its listener moves.\<close>

definition route_closed_at_once :: "platform \<Rightarrow> routeThreads" where
  "route_closed_at_once p = (route_init p)\<lparr>rtGiven := True, rtFile := False, rtSock := SockClosed,
     rtKept := (p = Darwin), rtClose := CClosed\<rparr>"

lemma owner_reaches:
  "route_reachable p e index s \<Longrightarrow> owner_move p s t \<Longrightarrow> \<not> rtCrash s \<Longrightarrow> s' = t \<Longrightarrow> route_reachable p e index s'"
  by (blast intro: rr_owner)

lemma route_closed_at_once_reachable: "route_reachable p e index (route_closed_at_once p)"
proof -
  let ?s = "route_init p\<lparr>rtGiven := True\<rparr>"
  have s: "rtCrash (route_init p) = False" "rtKept (route_init p)" "rtClose (route_init p) = CSetMTU"
    by (simp_all add: route_init_def)
  have "route_reachable p e index (?s\<lparr>rtClose := COpen\<rparr>)"
    by (rule owner_reaches [OF rr_init o_created]) (simp_all add: s)
  then have "route_reachable p e index (?s\<lparr>rtClose := CFile\<rparr>)"
    by (rule owner_reaches [OF _ o_close]) (simp_all add: s)
  then have f: "route_reachable p e index (?s\<lparr>rtFile := False, rtClose := (if p = FreeBSD then CDestroy else CSocket)\<rparr>)"
    by (rule owner_reaches [OF _ o_file]) (simp_all add: s)
  have "route_reachable p e index (?s\<lparr>rtFile := False, rtClose := CSocket\<rparr>)"
  proof (cases "p = FreeBSD")
    case True
    then show ?thesis by (intro owner_reaches [OF f o_destroy]) (simp_all add: s route_init_def)
  qed (use f in simp)
  then have "route_reachable p e index (?s\<lparr>rtFile := False, rtClose := CShutdown\<rparr>)"
    by (rule owner_reaches [OF _ o_socket]) (simp_all add: s)
  then have "route_reachable p e index (?s\<lparr>rtFile := False, rtSock := SockShut, rtClose := CCloseSock\<rparr>)"
    by (rule owner_reaches [OF _ o_shutdown]) (simp_all add: s)
  then have c: "route_reachable p e index (?s\<lparr>rtFile := False, rtSock := SockClosed, rtClose := (if p = Darwin then CClosed else CUnset)\<rparr>)"
    by (rule owner_reaches [OF _ o_close_sock]) (simp_all add: s)
  show ?thesis
  proof (cases "p = Darwin")
    case True
    then show ?thesis using c s(2) by (simp add: route_closed_at_once_def route_init_def)
  next
    case False
    then show ?thesis using c by (intro owner_reaches [OF c o_unset]) (simp_all add: s route_closed_at_once_def)
  qed
qed

theorem route_listener_safe_witness:
  "\<not> rtCrash (route_closed_at_once FreeBSD) \<and> \<not> route_delivers (route_closed_at_once FreeBSD) True [1, 2, 3]"
  using route_listener_safe [OF route_closed_at_once_reachable [of FreeBSD LittleE 4], of True "[1, 2, 3]"]
  by (simp add: route_closed_at_once_def route_init_def)

text \<open>A caller of \<open>Name\<close> sends an error before the listener moves; the listener makes at most four steps.\<close>

theorem close_ends_route_listener_witness:
  "\<exists>s. caller_move Darwin (route_closed_at_once Darwin) s \<and> \<not> (\<exists>s'. (route_move Darwin LittleE 4 ^^ 5) s s')"
proof -
  let ?c = "route_closed_at_once Darwin"
  define s where "s = ?c\<lparr>rtErrors := Suc (rtErrors ?c)\<rparr>"
  have n: "caller_move Darwin ?c s" unfolding s_def
    by (rule c_name) (simp_all add: route_closed_at_once_def route_init_def bsdErrorsCap_def)
  have c: "rtClose ?c = CClosed" "rtGiven ?c" "\<not> foreign ?c" "\<not> foreign s" "route_work ?c = 4"
    by (simp_all add: s_def foreign_def route_work_def route_closed_at_once_def route_init_def listen_start_def)
  have run: "closed_run Darwin LittleE 4 k ?c s'" if "(route_move Darwin LittleE 4 ^^ k) s s'" for k s'
    using that
  proof (induction k arbitrary: s')
    case 0
    then show ?case using cr_caller [OF cr_refl n c(4)] by simp
  next
    case (Suc k)
    then show ?case by (auto intro: cr_route)
  qed
  have "\<not> (\<exists>s'. (route_move Darwin LittleE 4 ^^ 5) s s')"
    using close_ends_route_listener [OF route_closed_at_once_reachable c(1-3) run] c(5) by fastforce
  then show ?thesis using n by blast
qed

text \<open>
  FreeBSD has room for one error. A call of \<open>Name\<close> on the closed device takes it, the listener waits with its
  own error and does not close the events, until somebody calls \<open>Read\<close>.
\<close>

lemma freebsd_name_blocks_listener:
  "\<exists>s. route_reachable FreeBSD e index s \<and> rtClose s = CClosed \<and> rtOpen s \<and> (\<nexists>s'. route_move FreeBSD e index s s')"
proof -
  let ?c = "route_closed_at_once FreeBSD"
  let ?s = "?c\<lparr>rtErrors := Suc (rtErrors ?c), rtListen := LFail\<rparr>"
  have n: "caller_move FreeBSD ?c (?c\<lparr>rtErrors := Suc (rtErrors ?c)\<rparr>)"
    by (rule c_name) (simp_all add: route_closed_at_once_def route_init_def bsdErrorsCap_def)
  have "route_reachable FreeBSD e index (?c\<lparr>rtErrors := Suc (rtErrors ?c)\<rparr>)"
    by (rule rr_caller [OF route_closed_at_once_reachable _ n]) (simp add: route_closed_at_once_def route_init_def)
  then have "route_reachable FreeBSD e index (?c\<lparr>rtErrors := Suc (rtErrors ?c), rtListen := LSys (False, 0) False\<rparr>)"
    using rr_route [OF _ r_listener [OF _ l_load [of "?c\<lparr>rtErrors := Suc (rtErrors ?c)\<rparr>" "(False, 0)"]]]
    by (simp add: route_closed_at_once_def route_init_def listen_start_def)
  then have r: "route_reachable FreeBSD e index ?s"
    using rr_route [OF _ r_listener [OF _ l_read_fails [of "?c\<lparr>rtErrors := Suc (rtErrors ?c), rtListen := LSys (False, 0) False\<rparr>" "(False, 0)" False]]]
    by (simp add: route_closed_at_once_def route_init_def listen_start_def)
  have "\<not> route_move FreeBSD e index ?s s'" for s'
    by (auto simp: route_closed_at_once_def route_init_def bsdErrorsCap_def elim!: route_move.cases listener_move.cases)
  then show ?thesis using r
    by (intro exI [of _ ?s]) (simp add: route_closed_at_once_def route_init_def)
qed

text \<open>
  macOS does not set \<open>routeSocket\<close> to -1: a listener that comes back to its read after \<open>Close\<close> reads whatever
  file has the number by then.
\<close>

lemma darwin_reads_foreign_file:
  "\<exists>s st. route_reachable Darwin e index s \<and> rtClose s = CClosed \<and> rtListen s = LSys st True \<and> (\<forall>msg. route_delivers s True msg)"
proof -
  let ?c = "route_closed_at_once Darwin"
  have u: "caller_move Darwin ?c (?c\<lparr>rtReused := True\<rparr>)" by (rule c_reuse) (simp add: route_closed_at_once_def)
  have "route_reachable Darwin e index (?c\<lparr>rtReused := True\<rparr>)"
    by (rule rr_caller [OF route_closed_at_once_reachable _ u]) (simp add: route_closed_at_once_def route_init_def)
  then have "route_reachable Darwin e index (?c\<lparr>rtReused := True, rtListen := LSys (False, 0) True\<rparr>)"
    using rr_route [OF _ r_listener [OF _ l_load [of "?c\<lparr>rtReused := True\<rparr>" "(False, 0)"]]]
    by (simp add: route_closed_at_once_def route_init_def listen_start_def)
  then show ?thesis
    by (intro exI [of _ "?c\<lparr>rtReused := True, rtListen := LSys (False, 0) True\<rparr>"] exI [of _ "(False, 0)"])
      (simp add: route_closed_at_once_def route_delivers_def)
qed

text \<open>
  FreeBSD sets it, but not at once with the \<open>close\<close>: between the two, or if the listener has loaded the number
  before, it reads the file that has got the number.
\<close>

lemma freebsd_reads_foreign_file:
  "\<exists>s st. route_reachable FreeBSD e index s \<and> rtClose s = CClosed \<and> rtListen s = LSys st True \<and> (\<forall>msg. route_delivers s True msg)"
proof -
  define c where "c = (route_closed_at_once FreeBSD)\<lparr>rtKept := True, rtListen := LSys (False, 0) True, rtSock := SockOpen, rtFile := True, rtGiven := False, rtClose := CSetMTU\<rparr>"
  have step: "route_reachable FreeBSD e index s \<Longrightarrow> owner_move FreeBSD s t \<Longrightarrow> \<not> rtCrash s \<Longrightarrow> s' = t \<Longrightarrow> route_reachable FreeBSD e index s'" for s t s'
    by (rule owner_reaches)
  have "c = (route_init FreeBSD)\<lparr>rtListen := LSys (False, 0) True\<rparr>" by (simp add: c_def route_closed_at_once_def route_init_def)
  then have "route_reachable FreeBSD e index c"
    using rr_route [OF rr_init r_listener [OF _ l_load [of "route_init FreeBSD" "(False, 0)"]]]
    by (simp add: route_init_def listen_start_def)
  then have "route_reachable FreeBSD e index (c\<lparr>rtGiven := True, rtClose := COpen\<rparr>)"
    by (rule step [OF _ o_created]) (simp_all add: c_def route_closed_at_once_def route_init_def)
  then have "route_reachable FreeBSD e index (c\<lparr>rtGiven := True, rtClose := CFile\<rparr>)"
    by (rule step [OF _ o_close]) (simp_all add: c_def route_closed_at_once_def route_init_def)
  then have "route_reachable FreeBSD e index (c\<lparr>rtGiven := True, rtFile := False, rtClose := CDestroy\<rparr>)"
    by (rule step [OF _ o_file]) (simp_all add: c_def route_closed_at_once_def route_init_def)
  then have "route_reachable FreeBSD e index (c\<lparr>rtGiven := True, rtFile := False, rtClose := CSocket\<rparr>)"
    by (rule step [OF _ o_destroy]) (simp_all add: c_def route_closed_at_once_def route_init_def)
  then have "route_reachable FreeBSD e index (c\<lparr>rtGiven := True, rtFile := False, rtClose := CShutdown\<rparr>)"
    by (rule step [OF _ o_socket]) (simp_all add: c_def route_closed_at_once_def route_init_def)
  then have "route_reachable FreeBSD e index (c\<lparr>rtGiven := True, rtFile := False, rtSock := SockShut, rtClose := CCloseSock\<rparr>)"
    by (rule step [OF _ o_shutdown]) (simp_all add: c_def route_closed_at_once_def route_init_def)
  then have "route_reachable FreeBSD e index (c\<lparr>rtGiven := True, rtFile := False, rtSock := SockClosed, rtClose := CUnset\<rparr>)"
    by (rule step [OF _ o_close_sock]) (simp_all add: c_def route_closed_at_once_def route_init_def)
  then have "route_reachable FreeBSD e index (c\<lparr>rtGiven := True, rtFile := False, rtSock := SockClosed, rtKept := False, rtClose := CClosed\<rparr>)"
    by (rule step [OF _ o_unset]) (simp_all add: c_def route_closed_at_once_def route_init_def)
  then have "route_reachable FreeBSD e index (c\<lparr>rtGiven := True, rtFile := False, rtSock := SockClosed, rtKept := False, rtClose := CClosed, rtReused := True\<rparr>)"
    using rr_caller [OF _ _ c_reuse, of FreeBSD e index "c\<lparr>rtGiven := True, rtFile := False, rtSock := SockClosed, rtKept := False, rtClose := CClosed\<rparr>"]
    by (simp add: c_def route_closed_at_once_def route_init_def)
  then show ?thesis by (intro exI conjI allI, assumption) (simp_all add: c_def route_delivers_def)
qed

end
