(* ===== verification/WindowsTun.thy ===== *)
theory WindowsTun
  imports LinuxTun
begin

text \<open>
  The Windows device of \<open>src/tun/tun_windows.go\<close>: the rate measurement that \<open>Read\<close> and \<open>Write\<close> share, as
  atomic steps of any number of goroutines, and the operations of the device. Wintun is the argument
  \<open>S\<close>.
\<close>

section \<open>The rate measurement\<close>

definition rateMeasurementGranularity :: u64 where "rateMeasurementGranularity = 500000000"
definition spinloopRateThreshold :: u64 where "spinloopRateThreshold = 100000000"
definition spinloopDuration :: u64 where "spinloopDuration = 12500"

text \<open>A time is the 64 bits of a Go \<open>int64\<close>; the conversion of a difference to \<open>uint64\<close> keeps the bits.\<close>

record rateJuggler =
  rjCurrent :: u64
  nextByteCount :: u64
  nextStartTime :: u64
  rjChanging :: bool

text \<open>
  \<open>update\<close> as a goroutine runs it: one constructor for each point between two accesses to the shared
  fields, with the local variables that are still needed.
\<close>

datatype updatePoint =
    UpdateBegin u64
  | UpdateAdd u64 u64
  | UpdateLoad u64 u64
  | UpdateSwap u64 u64 u64
  | UpdateStoreStart u64 u64 u64
  | UpdateStoreCurrent u64 u64
  | UpdateStoreCount
  | UpdateRelease
  | UpdateEnd

definition new_rate :: "u64 \<Rightarrow> u64 \<Rightarrow> u64" where
  "new_rate tot period = (tot * 1000000000) div period"

fun rate_step :: "u64 \<Rightarrow> updatePoint \<Rightarrow> rateJuggler \<Rightarrow> updatePoint \<times> rateJuggler" where
  "rate_step clock (UpdateBegin packetLen) r = (UpdateAdd clock packetLen, r)"
| "rate_step clock (UpdateAdd now packetLen) r =
     (UpdateLoad now (nextByteCount r + packetLen), r\<lparr>nextByteCount := nextByteCount r + packetLen\<rparr>)"
| "rate_step clock (UpdateLoad now tot) r =
     (let period = now - nextStartTime r in
      (if rateMeasurementGranularity \<le> period then UpdateSwap now tot period else UpdateEnd, r))"
| "rate_step clock (UpdateSwap now tot period) r =
     (if rjChanging r then (UpdateEnd, r) else (UpdateStoreStart now tot period, r\<lparr>rjChanging := True\<rparr>))"
| "rate_step clock (UpdateStoreStart now tot period) r = (UpdateStoreCurrent tot period, r\<lparr>nextStartTime := now\<rparr>)"
| "rate_step clock (UpdateStoreCurrent tot period) r = (UpdateStoreCount, r\<lparr>rjCurrent := new_rate tot period\<rparr>)"
| "rate_step clock UpdateStoreCount r = (UpdateRelease, r\<lparr>nextByteCount := 0\<rparr>)"
| "rate_step clock UpdateRelease r = (UpdateEnd, r\<lparr>rjChanging := False\<rparr>)"
| "rate_step clock UpdateEnd r = (UpdateEnd, r)"

text \<open>A schedule says which goroutine moves next and what the clock shows.\<close>

type_synonym rateState = "rateJuggler \<times> updatePoint list"

fun rate_run :: "(nat \<times> u64) list \<Rightarrow> rateState \<Rightarrow> rateState" where
  "rate_run [] s = s"
| "rate_run ((i, clock) # sched) (r, ps) =
     (if i < length ps
      then let (p, r) = rate_step clock (ps ! i) r in rate_run sched (r, ps[i := p])
      else rate_run sched (r, ps))"

text \<open>\<open>update\<close> when no other goroutine moves meanwhile.\<close>

definition rate_update :: "u64 \<Rightarrow> u64 \<Rightarrow> rateJuggler \<Rightarrow> rateJuggler" where
  "rate_update now packetLen r =
     (let tot = nextByteCount r + packetLen;
          r = r\<lparr>nextByteCount := tot\<rparr>;
          period = now - nextStartTime r in
      if rateMeasurementGranularity \<le> period
      then if rjChanging r then r
           else r\<lparr>nextStartTime := now, rjCurrent := new_rate tot period, nextByteCount := 0, rjChanging := False\<rparr>
      else r)"

section \<open>The device\<close>

datatype winError = NoMoreItems | HandleEOF | InvalidData | BufferOverflow | OtherWinError nat

record 'w winSys =
  winCreateAdapter :: "byte list \<Rightarrow> 'w \<Rightarrow> (goerror + unit) \<times> 'w"
  winStartSession :: "nat \<Rightarrow> 'w \<Rightarrow> (goerror + unit) \<times> 'w"
  winCloseAdapter :: "'w \<Rightarrow> 'w"
  winEndSession :: "'w \<Rightarrow> 'w"
  winSetEvent :: "'w \<Rightarrow> 'w"
  winNanotime :: "'w \<Rightarrow> u64 \<times> 'w"
  winAllocate :: "int \<Rightarrow> 'w \<Rightarrow> (winError + nat) \<times> 'w"
  winSend :: "byte list \<Rightarrow> 'w \<Rightarrow> 'w"
  winLUID :: "'w \<Rightarrow> u64"

record winTun =
  wtName :: "byte list"
  wtRate :: rateJuggler
  wtEvents :: chan
  wtPending :: "event list"
  wtClosed :: bool
  wtCloseDone :: bool
  forcedMTU :: int

definition new_rates :: rateJuggler where
  "new_rates = \<lparr>rjCurrent = 0, nextByteCount = 0, nextStartTime = 0, rjChanging = False\<rparr>"

definition winCreateTUN :: "'w winSys \<Rightarrow> byte list \<Rightarrow> int \<Rightarrow> 'w \<Rightarrow> (goerror + winTun) \<times> 'w" where
  "winCreateTUN S ifname mtu w =
     (case winCreateAdapter S ifname w of
        (Inl err, w) \<Rightarrow> (Inl (ErrWrapped ''Error creating interface'' err), w)
      | (Inr _, w) \<Rightarrow>
          let mtu = (if 0 < mtu then mtu else 1420);
              t = \<lparr>wtName = ifname, wtRate = new_rates, wtEvents = chanOpen, wtPending = [], wtClosed = False,
                   wtCloseDone = False, forcedMTU = mtu\<rparr> in
          (case winStartSession S 0x800000 w of
             (Inl err, w) \<Rightarrow> (Inl (ErrWrapped ''Error starting session'' err), winCloseAdapter S w)
           | (Inr _, w) \<Rightarrow> (Inr t, w)))"

definition winName :: "winTun \<Rightarrow> byte list" where "winName t = wtName t"
definition winMTU :: "winTun \<Rightarrow> int" where "winMTU t = forcedMTU t"

definition winClose :: "'w winSys \<Rightarrow> winTun \<Rightarrow> 'w \<Rightarrow> (winTun \<times> 'w) option" where
  "winClose S t w =
     (if wtCloseDone t then Some (t, w)
      else let t = t\<lparr>wtCloseDone := True, wtClosed := True\<rparr>;
               w = winCloseAdapter S (winEndSession S (winSetEvent S w)) in
        do { c \<leftarrow> close_chan (wtEvents t); Some (t\<lparr>wtEvents := c\<rparr>, w) })"

definition winForceMTU :: "winTun \<Rightarrow> int \<Rightarrow> winTun" where
  "winForceMTU t mtu =
     (if wtClosed t then t
      else let update = (forcedMTU t \<noteq> mtu);
               t = t\<lparr>forcedMTU := mtu\<rparr> in
        if update then t\<lparr>wtPending := wtPending t @ [EventMTUUpdate]\<rparr> else t)"

definition winDeviceLUID :: "'w winSys \<Rightarrow> winTun \<Rightarrow> 'w \<Rightarrow> u64" where
  "winDeviceLUID S t w = (if wtClosed t then 0 else winLUID S w)"

subsection \<open>Read\<close>

text \<open>
  One look at the session, as the code makes it: whether the device is closed, the time and the rate if
  it has come from \<open>retry\<close>, whether it is closed in the loop, the packet or error, and the time after an error.
\<close>

record winPoll =
  pollRetryClosed :: bool
  pollStart :: u64
  pollRate :: rateJuggler
  pollClosed :: bool
  pollAnswer :: "winError + byte list"
  pollNow :: u64

datatype winPause = PauseWait | PauseSpin

datatype winResult = WinClosed | WinPacket "byte list" | WinCorrupt | WinFailed winError

text \<open>\<open>shouldSpin\<close>.\<close>

definition should_spin :: "rateJuggler \<Rightarrow> u64 \<Rightarrow> bool" where
  "should_spin r start \<longleftrightarrow>
     spinloopRateThreshold \<le> rjCurrent r \<and> start - nextStartTime r \<le> rateMeasurementGranularity * 2"

text \<open>
  The loop. Its third argument is \<open>None\<close> at \<open>retry\<close>, otherwise \<open>start\<close> and \<open>shouldSpin\<close>. It answers what
  ends it, \<open>None\<close> if it still waits, and the pauses it has made.
\<close>

definition win_poll :: "winPoll \<Rightarrow> (u64 \<times> bool) option \<Rightarrow> winResult + winPause \<times> (u64 \<times> bool) option" where
  "win_poll p st =
     (if st = None \<and> pollRetryClosed p then Inl WinClosed
      else let (start, spin) = (case st of None \<Rightarrow> (pollStart p, should_spin (pollRate p) (pollStart p)) | Some s \<Rightarrow> s) in
        if pollClosed p then Inl WinClosed
        else case pollAnswer p of
          Inr packet \<Rightarrow> Inl (WinPacket packet)
        | Inl NoMoreItems \<Rightarrow>
            if \<not> spin \<or> spinloopDuration \<le> pollNow p - start then Inr (PauseWait, None)
            else Inr (PauseSpin, Some (start, spin))
        | Inl HandleEOF \<Rightarrow> Inl WinClosed
        | Inl InvalidData \<Rightarrow> Inl WinCorrupt
        | Inl err \<Rightarrow> Inl (WinFailed err))"

fun win_read_loop :: "winPoll list \<Rightarrow> (u64 \<times> bool) option \<Rightarrow> winResult option \<times> winPause list" where
  "win_read_loop [] st = (None, [])"
| "win_read_loop (p # ps) st =
     (case win_poll p st of
        Inl res \<Rightarrow> (Some res, [])
      | Inr (pause, st) \<Rightarrow> let (res, pauses) = win_read_loop ps st in (res, pause # pauses))"

text \<open>\<open>None\<close> is a panic, and a \<open>Read\<close> that still waits is \<open>Some None\<close>; \<open>now\<close> is the time \<open>update\<close> sees.\<close>

definition winRead ::
  "winTun \<Rightarrow> winPoll list \<Rightarrow> u64 \<Rightarrow> byte list list \<Rightarrow> nat list \<Rightarrow> int
    \<Rightarrow> ((nat \<times> winResult option) \<times> byte list list \<times> nat list \<times> winTun) option option" where
  "winRead t polls now bs sizes offset =
     (case fst (win_read_loop polls None) of
        None \<Rightarrow> Some None
      | Some (WinPacket packet) \<Rightarrow> do {
          b \<leftarrow> idx bs 0;
          dst \<leftarrow> slice_from_int b offset;
          b \<leftarrow> copy_at b (nat offset) packet;
          bs \<leftarrow> set_at bs 0 b;
          let n = min (length dst) (length packet);
          sizes \<leftarrow> set_at sizes 0 n;
          Some (Some ((1, None), bs, sizes, t\<lparr>wtRate := rate_update now (of_nat n) (wtRate t)\<rparr>))
        }
      | Some err \<Rightarrow> Some (Some ((0, Some err), bs, sizes, t)))"

subsection \<open>Write\<close>

text \<open>The packet that is allocated has a length of its own; the copy fills it as far as it reaches.\<close>

fun win_write_loop ::
  "'w winSys \<Rightarrow> byte list list \<Rightarrow> int \<Rightarrow> nat \<Rightarrow> rateJuggler \<Rightarrow> 'w
    \<Rightarrow> ((nat \<times> winResult option) \<times> rateJuggler \<times> 'w) option" where
  "win_write_loop S [] offset i r w = Some ((i, None), r, w)"
| "win_write_loop S (buf # bs) offset i r w =
     (let packetSize = int (length buf) - offset;
          (now, w) = winNanotime S w;
          r = rate_update now (of_int packetSize) r;
          (res, w) = winAllocate S packetSize w in
      case res of
        Inr n \<Rightarrow> do {
          src \<leftarrow> slice_from_int buf offset;
          packet \<leftarrow> copy_at (replicate n 0) 0 src;
          win_write_loop S bs offset (Suc i) r (winSend S packet w)
        }
      | Inl HandleEOF \<Rightarrow> Some ((i, Some WinClosed), r, w)
      | Inl BufferOverflow \<Rightarrow> win_write_loop S bs offset (Suc i) r w
      | Inl err \<Rightarrow> Some ((i, Some (WinFailed err)), r, w))"

definition winWrite ::
  "'w winSys \<Rightarrow> winTun \<Rightarrow> byte list list \<Rightarrow> int \<Rightarrow> 'w \<Rightarrow> ((nat \<times> winResult option) \<times> winTun \<times> 'w) option" where
  "winWrite S t bs offset w =
     (if wtClosed t then Some ((0, Some WinClosed), t, w)
      else map_option (\<lambda>(res, r, w). (res, t\<lparr>wtRate := r\<rparr>, w)) (win_write_loop S bs offset 0 (wtRate t) w))"

section \<open>Properties of the rate measurement\<close>

text \<open>The goroutines between the swap and the release.\<close>

fun changes :: "updatePoint \<Rightarrow> bool" where
  "changes (UpdateStoreStart now tot period) = True"
| "changes (UpdateStoreCurrent tot period) = True"
| "changes UpdateStoreCount = True"
| "changes UpdateRelease = True"
| "changes p = False"

definition exclusive :: "rateState \<Rightarrow> bool" where
  "exclusive s \<longleftrightarrow> length (filter changes (snd s)) = (if rjChanging (fst s) then 1 else 0)"

lemma length_filter_update:
  "i < length ps \<Longrightarrow> length (filter P (ps[i := p])) + (if P (ps ! i) then 1 else 0)
     = length (filter P ps) + (if P p then 1 else 0)"
proof (induction ps arbitrary: i)
  case (Cons a ps)
  then show ?case using Cons.IH [of "i - 1"] by (cases i) auto
qed simp

lemma rate_step_exclusive:
  assumes "exclusive (r, ps)" and "i < length ps" and "rate_step clock (ps ! i) r = (p, r')"
  shows "exclusive (r', ps[i := p])"
  using assms length_filter_update [OF assms(2), of changes p]
  by (cases "ps ! i") (auto simp: exclusive_def Let_def split: if_splits)

lemma rate_run_exclusive: "exclusive s \<Longrightarrow> exclusive (rate_run sched s)"
proof (induction sched s rule: rate_run.induct)
  case (2 i clock sched r ps)
  then show ?case using rate_step_exclusive [of r ps i clock] by (auto simp: split_def Let_def)
qed simp

text \<open>One goroutine after the other: the steps of an undisturbed \<open>update\<close> are \<open>rate_update\<close>.\<close>

lemma rate_run_alone:
  assumes "\<not> rjChanging r"
  shows "rate_run ([(0, now)] @ replicate 7 (0, c)) (r, [UpdateBegin n]) = (rate_update now n r, [UpdateEnd])"
  using assms by (simp add: numeral_eq_Suc rate_update_def Let_def)

lemma new_rate_bounds:
  assumes "0 < period" and "unat tot * 1000000000 < 2 ^ 64"
  shows "unat (new_rate tot period) * unat period \<le> unat tot * 1000000000"
    and "unat tot * 1000000000 < (unat (new_rate tot period) + 1) * unat period"
proof -
  have m: "unat (tot * 1000000000) = unat tot * 1000000000" using assms(2) by (simp add: unat_word_ariths)
  have d: "unat (new_rate tot period) = unat tot * 1000000000 div unat period" by (simp add: new_rate_def unat_div m)
  have p: "0 < unat period" using assms(1) by (simp add: word_gt_0 unat_gt_0)
  show "unat (new_rate tot period) * unat period \<le> unat tot * 1000000000" by (simp add: d)
  show "unat tot * 1000000000 < (unat (new_rate tot period) + 1) * unat period"
    using dividend_less_div_times [OF p, of "unat tot * 1000000000"] by (simp add: d algebra_simps)
qed

text \<open>
  C38. However many goroutines update the rate and however their steps interleave, at most
  one of them is between the swap of \<open>changing\<close> and its release, and exactly when \<open>changing\<close> is set. An
  update that is not disturbed and that ends a measurement stores the bytes per second, rounded down, if
  the bytes times a thousand million fit into 64 bits, and starts the count again.
\<close>

theorem rate_exclusive:
  assumes "\<not> rjChanging r"
  shows "exclusive (rate_run sched (r, map UpdateBegin lens))
    \<and> (\<forall>now n. rate_run ([(0, now)] @ replicate 7 (0, now)) (r, [UpdateBegin n]) = (rate_update now n r, [UpdateEnd]))
    \<and> (\<forall>now n. rateMeasurementGranularity \<le> now - nextStartTime r
         \<longrightarrow> unat (nextByteCount r + n) * 1000000000 < 2 ^ 64
         \<longrightarrow> nextByteCount (rate_update now n r) = 0 \<and> nextStartTime (rate_update now n r) = now
           \<and> unat (rjCurrent (rate_update now n r)) = unat (nextByteCount r + n) * 1000000000 div unat (now - nextStartTime r))"
proof (intro conjI allI impI)
  have "\<not> changes (UpdateBegin n)" for n by simp
  then have "filter changes (map UpdateBegin lens) = []" by (auto simp: filter_empty_conv)
  then have "exclusive (r, map UpdateBegin lens)" using assms by (simp add: exclusive_def)
  then show "exclusive (rate_run sched (r, map UpdateBegin lens))" by (rule rate_run_exclusive)
  show "rate_run ([(0, now)] @ replicate 7 (0, now)) (r, [UpdateBegin n]) = (rate_update now n r, [UpdateEnd])" for now n
    by (rule rate_run_alone [OF assms])
  fix now n
  assume g: "rateMeasurementGranularity \<le> now - nextStartTime r" and b: "unat (nextByteCount r + n) * 1000000000 < 2 ^ 64"
  show "nextByteCount (rate_update now n r) = 0" "nextStartTime (rate_update now n r) = now"
    using assms g by (simp_all add: rate_update_def Let_def)
  have "unat ((nextByteCount r + n) * 1000000000) = unat (nextByteCount r + n) * 1000000000"
    using b by (subst unat_word_ariths) simp
  then show "unat (rjCurrent (rate_update now n r)) = unat (nextByteCount r + n) * 1000000000 div unat (now - nextStartTime r)"
    using assms g by (simp add: rate_update_def Let_def new_rate_def unat_div)
qed

theorem rate_exclusive_witness:
  "exclusive (rate_run [(0, 7), (1, 9), (1, 9), (0, 9), (1, 9), (1, 9)] (new_rates, map UpdateBegin [100, 200]))"
  using rate_exclusive [of new_rates "[(0, 7), (1, 9), (1, 9), (0, 9), (1, 9), (1, 9)]" "[100, 200]"]
  by (simp add: new_rates_def)

text \<open>
  The clock is read before the shared fields. If a goroutine has read it and another one, whose clock is
  later, completes an update meanwhile, the difference to the start time is negative, which the
  conversion to \<open>uint64\<close> makes a huge period: the first goroutine stores a rate of 0, whatever the
  traffic is, and sets the start time back.
\<close>

lemma unat_uminus: "0 < d \<Longrightarrow> unat (- d) = 2 ^ 64 - unat (d :: u64)"
proof -
  assume d: "0 < d"
  have "unat (- d + d) = (unat (- d) + unat d) mod 2 ^ 64" by (simp only: unat_word_ariths) simp
  then have "(unat (- d) + unat d) mod 2 ^ 64 = 0" by simp
  then obtain k where k: "unat (- d) + unat d = 18446744073709551616 * k" by (auto simp: mod_eq_0_iff_dvd elim: dvdE)
  have b: "unat (- d) < 18446744073709551616" "unat d < 18446744073709551616" "0 < unat d"
    using unat_u64_less [of "- d"] unat_u64_less [of d] d by (simp_all add: word_less_nat_alt)
  have "k = 1"
  proof (cases k)
    case 0
    then show ?thesis using k b by simp
  next
    case (Suc j)
    then show ?thesis using k b by (cases j) simp_all
  qed
  then show ?thesis using k by simp
qed

lemma new_rate_negative_period:
  assumes "0 < d" and "unat d \<le> 2 ^ 63" and "unat tot * 1000000000 < 2 ^ 63"
  shows "new_rate tot (- d) = 0" and "rateMeasurementGranularity \<le> - d"
proof -
  have m: "unat (tot * 1000000000) = unat tot * 1000000000" using assms(3) by (simp add: unat_word_ariths)
  have "2 ^ 63 \<le> unat (- d)" using assms(1,2) by (simp add: unat_uminus)
  then have "unat tot * 1000000000 div unat (- d) = 0" "500000000 \<le> unat (- d)" using assms(3) by simp_all
  then show "new_rate tot (- d) = 0" "rateMeasurementGranularity \<le> - d"
    by (simp_all add: new_rate_def rateMeasurementGranularity_def word_le_nat_alt word_unat_eq_iff unat_div m)
qed

lemma rate_clock_race:
  assumes r: "\<not> rjChanging r" "rateMeasurementGranularity \<le> late - nextStartTime r"
    and d: "0 < late - early" "unat (late - early) \<le> 2 ^ 63" and n: "unat n * 1000000000 < 2 ^ 63"
  shows "rate_run ([(1, early)] @ replicate 8 (0, late) @ replicate 7 (1, c)) (r, [UpdateBegin m, UpdateBegin n])
    = (r\<lparr>rjCurrent := 0, nextByteCount := 0, nextStartTime := early, rjChanging := False\<rparr>, [UpdateEnd, UpdateEnd])"
proof -
  have e: "early - late = - (late - early)" by simp
  note z = new_rate_negative_period [OF d n, folded e]
  show ?thesis using r z by (simp add: numeral_eq_Suc Let_def)
qed

section \<open>Properties of \<open>Read\<close> and \<open>Write\<close>\<close>

lemma win_read_packet:
  assumes "\<forall>p \<in> set ps. \<not> pollRetryClosed p \<and> \<not> pollClosed p \<and> pollAnswer p = Inl NoMoreItems"
    and "\<not> pollRetryClosed p" "\<not> pollClosed p" "pollAnswer p = Inr packet"
  shows "\<exists>pauses. win_read_loop (ps @ [p]) st = (Some (WinPacket packet), pauses) \<and> length pauses = length ps"
  using assms
proof (induction ps arbitrary: st)
  case Nil
  then show ?case by (cases st) (auto simp: win_poll_def)
next
  case (Cons q ps)
  obtain pause st' where q: "win_poll q st = Inr (pause, st')"
  proof -
    have "\<exists>pause st'. win_poll q st = Inr (pause, st')"
      using Cons.prems by (cases st) (auto simp: win_poll_def Let_def)
    then show thesis using that by blast
  qed
  obtain pauses where "win_read_loop (ps @ [p]) st' = (Some (WinPacket packet), pauses)" "length pauses = length ps"
    using Cons.IH [of st'] Cons.prems by auto
  then show ?case by (simp add: q)
qed

text \<open>A session: what it answers to the next allocations (\<open>None\<close> grants it), and what has been sent.\<close>

definition win_session :: "'w winSys \<Rightarrow> ('w \<Rightarrow> winError option list) \<Rightarrow> ('w \<Rightarrow> byte list list) \<Rightarrow> bool" where
  "win_session S ans sent \<longleftrightarrow>
     (\<forall>n w a as. ans w = a # as \<longrightarrow>
        (\<exists>w'. winAllocate S n w = (case a of None \<Rightarrow> Inr (nat n) | Some err \<Rightarrow> Inl err, w') \<and> ans w' = as \<and> sent w' = sent w))
     \<and> (\<forall>p w. ans (winSend S p w) = ans w \<and> sent (winSend S p w) = sent w @ [p])
     \<and> (\<forall>w. ans (snd (winNanotime S w)) = ans w \<and> sent (snd (winNanotime S w)) = sent w)"

definition goes_on :: "winError option \<Rightarrow> bool" where
  "goes_on a \<longleftrightarrow> a = None \<or> a = Some BufferOverflow"

definition write_ends :: "winError option list \<Rightarrow> nat \<times> winResult option" where
  "write_ends as = (length (takeWhile goes_on as),
     case dropWhile goes_on as of Some HandleEOF # _ \<Rightarrow> Some WinClosed | Some err # _ \<Rightarrow> Some (WinFailed err) | _ \<Rightarrow> None)"

definition written_packets :: "nat \<Rightarrow> byte list list \<Rightarrow> winError option list \<Rightarrow> byte list list" where
  "written_packets off bs as = map (drop off \<circ> fst) (filter (\<lambda>(b, a). a = None) (zip bs (takeWhile goes_on as)))"

lemma win_write_loop_sends:
  assumes k: "win_session S ans sent" and off: "\<forall>b \<in> set bs. off \<le> length b"
    and a: "ans w = as" "length as = length bs"
  shows "\<exists>r' w'. win_write_loop S bs (int off) i r w = Some ((i + fst (write_ends as), snd (write_ends as)), r', w')
    \<and> sent w' = sent w @ written_packets off bs as"
  using off a
proof (induction bs arbitrary: as i r w)
  case Nil
  then show ?case by (simp add: write_ends_def written_packets_def)
next
  case (Cons b bs)
  obtain a as' where as: "as = a # as'" using Cons.prems by (cases as) auto
  obtain now w1 where now: "winNanotime S w = (now, w1)" by (cases "winNanotime S w")
  have w1: "ans w1 = a # as'" "sent w1 = sent w"
    using k now Cons.prems as unfolding win_session_def by (metis snd_conv)+
  obtain w2 where al: "winAllocate S (int (length b) - int off) w1
      = (case a of None \<Rightarrow> Inr (nat (int (length b) - int off)) | Some err \<Rightarrow> Inl err, w2)"
    and w2: "ans w2 = as'" "sent w2 = sent w"
    using k w1 unfolding win_session_def by metis
  define r1 where "r1 = rate_update now (of_int (int (length b) - int off)) r"
  have len: "length as' = length bs" and off': "\<forall>b \<in> set bs. off \<le> length b" "off \<le> length b"
    using Cons.prems as by simp_all
  show ?case
  proof (cases "goes_on a")
    case True
    define w3 where "w3 = (if a = None then winSend S (drop off b) w2 else w2)"
    have w3: "ans w3 = as'" "sent w3 = sent w @ (if a = None then [drop off b] else [])"
      using k w2 by (simp_all add: w3_def win_session_def)
    obtain r' w' where ih: "win_write_loop S bs (int off) (Suc i) r1 w3 = Some ((Suc i + fst (write_ends as'), snd (write_ends as')), r', w')"
      "sent w' = sent w3 @ written_packets off bs as'"
      using Cons.IH [OF off'(1) w3(1) len, of "Suc i" r1] by blast
    have src: "slice_from_int b (int off) = Some (drop off b)"
      using off'(2) by (simp add: slice_from_int_def slice_from_def)
    have cp: "copy_at (replicate (length b - off) 0) 0 (drop off b) = Some (drop off b)" by (simp add: copy_at_def)
    have n: "nat (int (length b) - int off) = length b - off" by simp
    have "win_write_loop S (b # bs) (int off) i r w = win_write_loop S bs (int off) (Suc i) r1 w3"
      using True al by (auto simp: Let_def now r1_def w3_def goes_on_def src cp n)
    then show ?thesis using ih w3 True
      by (auto simp: as write_ends_def written_packets_def)
  next
    case False
    then obtain err where err: "a = Some err" "err \<noteq> BufferOverflow" by (auto simp: goes_on_def)
    then show ?thesis using al w2 False
      by (cases err) (simp_all add: Let_def now as write_ends_def written_packets_def)
  qed
qed

text \<open>
  C39. On a session that grants, drops or refuses each packet, \<open>Write\<close> sends, in order and
  without the offset, the packets whose allocation is granted before the first refusal; a full ring only
  drops its packet. It returns the number of buffers before the refusal and its error, or the number of
  buffers: the packets that a full ring has dropped are counted as written, which is not what \<open>Device.Write\<close>
  documents. A closed device sends nothing.
\<close>

theorem win_write_sends:
  assumes "win_session S ans sent" and "\<forall>b \<in> set bs. off \<le> length b" and "length (ans w) = length bs"
  shows "\<exists>res t' w'. winWrite S t bs (int off) w = Some (res, t', w')
    \<and> (if wtClosed t then res = (0, Some WinClosed) \<and> w' = w
       else res = write_ends (ans w) \<and> sent w' = sent w @ written_packets off bs (ans w))"
proof (cases "wtClosed t")
  case True
  then show ?thesis by (simp add: winWrite_def)
next
  case False
  obtain r' w' where "win_write_loop S bs (int off) 0 (wtRate t) w
      = Some ((0 + fst (write_ends (ans w)), snd (write_ends (ans w))), r', w')"
    "sent w' = sent w @ written_packets off bs (ans w)"
    using win_write_loop_sends [OF assms(1,2) refl assms(3), of 0 "wtRate t"] by blast
  with False show ?thesis by (simp add: winWrite_def)
qed

text \<open>A session whose state is its answers and what has been sent.\<close>

definition demo_win :: "(winError option list \<times> byte list list) winSys" where
  "demo_win = \<lparr>winCreateAdapter = \<lambda>n w. (Inr (), w), winStartSession = \<lambda>n w. (Inr (), w),
     winCloseAdapter = \<lambda>w. w, winEndSession = \<lambda>w. w, winSetEvent = \<lambda>w. w, winNanotime = \<lambda>w. (7, w),
     winAllocate = \<lambda>n (as, ps). (case hd as of None \<Rightarrow> Inr (nat n) | Some err \<Rightarrow> Inl err, (tl as, ps)),
     winSend = \<lambda>p (as, ps). (as, ps @ [p]), winLUID = \<lambda>w. 0\<rparr>"

definition demo_win_tun :: winTun where
  "demo_win_tun = \<lparr>wtName = [], wtRate = new_rates, wtEvents = chanOpen, wtPending = [], wtClosed = False,
     wtCloseDone = False, forcedMTU = 1420\<rparr>"

theorem win_write_sends_witness:
  "\<exists>t' as. winWrite demo_win demo_win_tun [[9, 1], [9, 2], [9, 3], [9, 4]] 1
      ([None, Some BufferOverflow, None, Some HandleEOF], []) = Some ((3, Some WinClosed), t', as, [[1], [3]])"
proof -
  have k: "win_session demo_win fst snd"
    by (auto simp: win_session_def demo_win_def)
  let ?w = "([None, Some BufferOverflow, None, Some HandleEOF], [] :: byte list list)"
  have e: "write_ends (fst ?w) = (3, Some WinClosed)"
    "written_packets 1 [[9, 1], [9, 2], [9, 3], [9, 4]] (fst ?w) = [[1], [3]]"
    by (simp_all add: write_ends_def written_packets_def goes_on_def)
  show ?thesis
    using win_write_sends [OF k, of "[[9, 1], [9, 2], [9, 3], [9, 4]]" 1 ?w demo_win_tun, unfolded e]
    by (auto simp: demo_win_tun_def)
qed

end
