(* ===== verification/WinThreads.thy ===== *)
theory WinThreads
  imports WindowsTun
begin

text \<open>
  The goroutines that use a Windows device at the same time: one in \<open>Read\<close>, one in \<open>Write\<close> (the code allows no
  more of these), any number in \<open>LUID\<close>, one in \<open>ForceMTU\<close>, and the one in \<open>Close\<close>. They share the flag \<open>close\<close>, the
  \<open>WaitGroup\<close> \<open>running\<close>, the event \<open>readWait\<close>, the session, the adapter and the channel of events.
\<close>

section \<open>The shared state\<close>

text \<open>
  \<open>RRetry\<close> and \<open>RLoop\<close> are before the two looks at \<open>close\<close>, \<open>RRelease\<close> before the packet is given back. A \<open>WSend n\<close>
  has \<open>n\<close> packets left, a \<open>WSent n\<close> one more that is allocated.
\<close>

datatype readPoint = RIdle | RRetry | RLoop | RPoll | RRelease | RWait | RDone
datatype writePoint = WIdle | WCheck nat | WSend nat | WSent nat | WDone
datatype forcePoint = FIdle | FCheck | FSend
datatype closerPoint = KIdle | KFlag | KSetEvent | KWait | KEndSession | KAdapter | KCloseEvents | KClosed

text \<open>
  \<open>wnLUIDCheck\<close>, \<open>wnLUIDCall\<close> and \<open>wnLUIDDone\<close> are the numbers of goroutines in \<open>LUID\<close> that are before the check of \<open>close\<close>,
  before the call of the adapter, and before \<open>running.Done()\<close>. \<open>running\<close> is an atomic counter: that it forbids an
  \<open>Add\<close> from 0 during \<open>Wait\<close> is not part of the model (see \<open>add_during_wait\<close>). \<open>wnEvent\<close> is the auto-reset event, \<open>wnBad\<close> the use of a session or an adapter that is gone, \<open>wnCrash\<close> a panic,
  which ends the program.
\<close>

record winThreads =
  wnFlag :: bool
  wnEvent :: bool
  wnRunning :: nat
  wnSession :: bool
  wnAdapter :: bool
  wnPending :: nat
  wnOpen :: bool
  wnBad :: bool
  wnCrash :: bool
  wnReader :: readPoint
  wnWriter :: writePoint
  wnLUIDCheck :: nat
  wnLUIDCall :: nat
  wnLUIDDone :: nat
  wnForce :: forcePoint
  wnCloser :: closerPoint

definition winEventsCap :: nat where "winEventsCap = 10"

definition win_init :: winThreads where
  "win_init = \<lparr>wnFlag = False, wnEvent = False, wnRunning = 0, wnSession = True, wnAdapter = True, wnPending = 0,
     wnOpen = True, wnBad = False, wnCrash = False, wnReader = RIdle, wnWriter = WIdle, wnLUIDCheck = 0, wnLUIDCall = 0, wnLUIDDone = 0,
     wnForce = FIdle, wnCloser = KIdle\<rparr>"

text \<open>A call of the session or of the adapter.\<close>

definition use_session :: "winThreads \<Rightarrow> winThreads" where
  "use_session s = (if wnSession s then s else s\<lparr>wnBad := True\<rparr>)"

definition use_adapter :: "winThreads \<Rightarrow> winThreads" where
  "use_adapter s = (if wnAdapter s then s else s\<lparr>wnBad := True\<rparr>)"

section \<open>The goroutines\<close>

text \<open>
  A call starts, with \<open>running.Add(1)\<close> where there is one: \<open>Write\<close> with any number of packets. The driver sets the event
  when packets arrive.
\<close>

inductive call_move :: "winThreads \<Rightarrow> winThreads \<Rightarrow> bool" where
  call_read: "wnReader s = RIdle \<Longrightarrow> call_move s (s\<lparr>wnRunning := Suc (wnRunning s), wnReader := RRetry\<rparr>)"
| call_write: "wnWriter s = WIdle \<Longrightarrow> call_move s (s\<lparr>wnRunning := Suc (wnRunning s), wnWriter := WCheck n\<rparr>)"
| call_luid: "call_move s (s\<lparr>wnRunning := Suc (wnRunning s), wnLUIDCheck := Suc (wnLUIDCheck s)\<rparr>)"
| call_force: "wnForce s = FIdle \<Longrightarrow> call_move s (s\<lparr>wnForce := FCheck\<rparr>)"
| call_close: "wnCloser s = KIdle \<Longrightarrow> call_move s (s\<lparr>wnCloser := KFlag\<rparr>)"
| driver_signals: "call_move s (s\<lparr>wnEvent := True\<rparr>)"

text \<open>\<open>Read\<close>. The session answers what it likes; the reader spins or waits when there is no packet.\<close>

inductive read_move :: "winThreads \<Rightarrow> winThreads \<Rightarrow> bool" where
  r_retry_closed: "wnReader s = RRetry \<Longrightarrow> wnFlag s \<Longrightarrow> read_move s (s\<lparr>wnReader := RDone\<rparr>)"
| r_retry: "wnReader s = RRetry \<Longrightarrow> \<not> wnFlag s \<Longrightarrow> read_move s (s\<lparr>wnReader := RLoop\<rparr>)"
| r_loop_closed: "wnReader s = RLoop \<Longrightarrow> wnFlag s \<Longrightarrow> read_move s (s\<lparr>wnReader := RDone\<rparr>)"
| r_loop: "wnReader s = RLoop \<Longrightarrow> \<not> wnFlag s \<Longrightarrow> read_move s (s\<lparr>wnReader := RPoll\<rparr>)"
| r_packet: "wnReader s = RPoll \<Longrightarrow> read_move s ((use_session s)\<lparr>wnReader := RRelease\<rparr>)"
| r_release: "wnReader s = RRelease \<Longrightarrow> read_move s ((use_session s)\<lparr>wnReader := RDone\<rparr>)"
| r_no_packet: "wnReader s = RPoll \<Longrightarrow> read_move s ((use_session s)\<lparr>wnReader := RWait\<rparr>)"
| r_spin: "wnReader s = RPoll \<Longrightarrow> read_move s ((use_session s)\<lparr>wnReader := RLoop\<rparr>)"
| r_fails: "wnReader s = RPoll \<Longrightarrow> read_move s ((use_session s)\<lparr>wnReader := RDone\<rparr>)"
| r_wake: "wnReader s = RWait \<Longrightarrow> wnEvent s \<Longrightarrow> read_move s (s\<lparr>wnEvent := False, wnReader := RRetry\<rparr>)"
| r_done: "wnReader s = RDone \<Longrightarrow> read_move s (s\<lparr>wnRunning := wnRunning s - 1, wnReader := RIdle\<rparr>)"

text \<open>\<open>Write\<close>, which looks at \<open>close\<close> once.\<close>

inductive write_move :: "winThreads \<Rightarrow> winThreads \<Rightarrow> bool" where
  w_closed: "wnWriter s = WCheck n \<Longrightarrow> wnFlag s \<Longrightarrow> write_move s (s\<lparr>wnWriter := WDone\<rparr>)"
| w_open: "wnWriter s = WCheck n \<Longrightarrow> \<not> wnFlag s \<Longrightarrow> write_move s (s\<lparr>wnWriter := WSend n\<rparr>)"
| w_all: "wnWriter s = WSend 0 \<Longrightarrow> write_move s (s\<lparr>wnWriter := WDone\<rparr>)"
| w_allocated: "wnWriter s = WSend (Suc n) \<Longrightarrow> write_move s ((use_session s)\<lparr>wnWriter := WSent n\<rparr>)"
| w_dropped: "wnWriter s = WSend (Suc n) \<Longrightarrow> write_move s ((use_session s)\<lparr>wnWriter := WSend n\<rparr>)"
| w_fails: "wnWriter s = WSend (Suc n) \<Longrightarrow> write_move s ((use_session s)\<lparr>wnWriter := WDone\<rparr>)"
| w_sent: "wnWriter s = WSent n \<Longrightarrow> write_move s ((use_session s)\<lparr>wnWriter := WSend n\<rparr>)"
| w_done: "wnWriter s = WDone \<Longrightarrow> write_move s (s\<lparr>wnRunning := wnRunning s - 1, wnWriter := WIdle\<rparr>)"

text \<open>One of the goroutines in \<open>LUID\<close>.\<close>

inductive luid_move :: "winThreads \<Rightarrow> winThreads \<Rightarrow> bool" where
  u_closed: "wnLUIDCheck s = Suc k \<Longrightarrow> wnFlag s \<Longrightarrow> luid_move s (s\<lparr>wnLUIDCheck := k, wnLUIDDone := Suc (wnLUIDDone s)\<rparr>)"
| u_open: "wnLUIDCheck s = Suc k \<Longrightarrow> \<not> wnFlag s \<Longrightarrow> luid_move s (s\<lparr>wnLUIDCheck := k, wnLUIDCall := Suc (wnLUIDCall s)\<rparr>)"
| u_call: "wnLUIDCall s = Suc k \<Longrightarrow> luid_move s ((use_adapter s)\<lparr>wnLUIDCall := k, wnLUIDDone := Suc (wnLUIDDone s)\<rparr>)"
| u_done: "wnLUIDDone s = Suc k \<Longrightarrow> luid_move s (s\<lparr>wnRunning := wnRunning s - 1, wnLUIDDone := k\<rparr>)"

text \<open>\<open>ForceMTU\<close>, which is not counted in \<open>running\<close>: it sends an event if the MTU is a new one.\<close>

inductive force_move :: "winThreads \<Rightarrow> winThreads \<Rightarrow> bool" where
  f_closed: "wnForce s = FCheck \<Longrightarrow> wnFlag s \<Longrightarrow> force_move s (s\<lparr>wnForce := FIdle\<rparr>)"
| f_same: "wnForce s = FCheck \<Longrightarrow> \<not> wnFlag s \<Longrightarrow> force_move s (s\<lparr>wnForce := FIdle\<rparr>)"
| f_update: "wnForce s = FCheck \<Longrightarrow> \<not> wnFlag s \<Longrightarrow> force_move s (s\<lparr>wnForce := FSend\<rparr>)"
| f_send: "wnForce s = FSend \<Longrightarrow> wnOpen s \<Longrightarrow> wnPending s < winEventsCap \<Longrightarrow>
    force_move s (s\<lparr>wnPending := Suc (wnPending s), wnForce := FIdle\<rparr>)"
| f_panic: "wnForce s = FSend \<Longrightarrow> \<not> wnOpen s \<Longrightarrow> force_move s (s\<lparr>wnCrash := True\<rparr>)"

text \<open>The body of \<open>closeOnce\<close>.\<close>

inductive closer_move :: "winThreads \<Rightarrow> winThreads \<Rightarrow> bool" where
  k_flag: "wnCloser s = KFlag \<Longrightarrow> closer_move s (s\<lparr>wnFlag := True, wnCloser := KSetEvent\<rparr>)"
| k_event: "wnCloser s = KSetEvent \<Longrightarrow> closer_move s (s\<lparr>wnEvent := True, wnCloser := KWait\<rparr>)"
| k_wait: "wnCloser s = KWait \<Longrightarrow> wnRunning s = 0 \<Longrightarrow> closer_move s (s\<lparr>wnCloser := KEndSession\<rparr>)"
| k_session: "wnCloser s = KEndSession \<Longrightarrow> closer_move s ((use_session s)\<lparr>wnSession := False, wnCloser := KAdapter\<rparr>)"
| k_adapter: "wnCloser s = KAdapter \<Longrightarrow> closer_move s ((use_adapter s)\<lparr>wnAdapter := False, wnCloser := KCloseEvents\<rparr>)"
| k_events: "wnCloser s = KCloseEvents \<Longrightarrow> wnOpen s \<Longrightarrow> closer_move s (s\<lparr>wnOpen := False, wnCloser := KClosed\<rparr>)"
| k_panic: "wnCloser s = KCloseEvents \<Longrightarrow> \<not> wnOpen s \<Longrightarrow> closer_move s (s\<lparr>wnCrash := True\<rparr>)"

text \<open>What moves without new calls; \<open>win_reader\<close> takes an event.\<close>

inductive win_move :: "winThreads \<Rightarrow> winThreads \<Rightarrow> bool" where
  win_read: "\<not> wnCrash s \<Longrightarrow> read_move s s' \<Longrightarrow> win_move s s'"
| win_write: "\<not> wnCrash s \<Longrightarrow> write_move s s' \<Longrightarrow> win_move s s'"
| win_luid: "\<not> wnCrash s \<Longrightarrow> luid_move s s' \<Longrightarrow> win_move s s'"
| win_force: "\<not> wnCrash s \<Longrightarrow> force_move s s' \<Longrightarrow> win_move s s'"
| win_closer: "\<not> wnCrash s \<Longrightarrow> closer_move s s' \<Longrightarrow> win_move s s'"
| win_reader: "\<not> wnCrash s \<Longrightarrow> wnPending s = Suc n \<Longrightarrow> win_move s (s\<lparr>wnPending := n\<rparr>)"

inductive win_reachable :: "winThreads \<Rightarrow> bool" where
  wr_init: "win_reachable win_init"
| wr_call: "win_reachable s \<Longrightarrow> \<not> wnCrash s \<Longrightarrow> call_move s s' \<Longrightarrow> win_reachable s'"
| wr_move: "win_reachable s \<Longrightarrow> win_move s s' \<Longrightarrow> win_reachable s'"

section \<open>The invariant\<close>

text \<open>A goroutine that is counted, and one that may use the session or the adapter.\<close>

definition active :: "winThreads \<Rightarrow> nat" where
  "active s = of_bool (wnReader s \<noteq> RIdle) + of_bool (wnWriter s \<noteq> WIdle)
     + (wnLUIDCheck s + wnLUIDCall s + wnLUIDDone s)"

fun reader_inside :: "readPoint \<Rightarrow> bool" where
  "reader_inside RIdle = False"
| "reader_inside RRetry = False"
| "reader_inside RDone = False"
| "reader_inside r = True"

fun writer_inside :: "writePoint \<Rightarrow> bool" where
  "writer_inside (WSend n) = True"
| "writer_inside (WSent n) = True"
| "writer_inside w = False"

definition inside :: "winThreads \<Rightarrow> bool" where
  "inside s \<longleftrightarrow> reader_inside (wnReader s) \<or> writer_inside (wnWriter s) \<or> 0 < wnLUIDCall s"

fun flag_set :: "closerPoint \<Rightarrow> bool" where
  "flag_set KIdle = False"
| "flag_set KFlag = False"
| "flag_set k = True"

fun waited :: "closerPoint \<Rightarrow> bool" where
  "waited KEndSession = True"
| "waited KAdapter = True"
| "waited KCloseEvents = True"
| "waited KClosed = True"
| "waited k = False"

definition win_inv :: "winThreads \<Rightarrow> bool" where
  "win_inv s \<longleftrightarrow> \<not> wnBad s
     \<and> (wnCrash s \<longrightarrow> wnForce s = FSend \<and> wnCloser s = KClosed)
     \<and> wnRunning s = active s
     \<and> wnFlag s = flag_set (wnCloser s)
     \<and> (waited (wnCloser s) \<longrightarrow> \<not> inside s)
     \<and> wnSession s = (\<not> waited (wnCloser s) \<or> wnCloser s = KEndSession)
     \<and> wnAdapter s = (wnSession s \<or> wnCloser s = KAdapter)
     \<and> wnOpen s = (wnCloser s \<noteq> KClosed)
     \<and> (wnFlag s \<and> wnCloser s \<noteq> KSetEvent \<and> reader_inside (wnReader s) \<longrightarrow> wnEvent s)
     \<and> wnPending s \<le> winEventsCap"

lemma not_waited [simp]: "\<not> flag_set k \<Longrightarrow> \<not> waited k"
  by (cases k) simp_all

lemma use_session_id: "win_inv s \<Longrightarrow> inside s \<Longrightarrow> use_session s = s"
  by (auto simp: win_inv_def use_session_def)

lemma use_adapter_id: "win_inv s \<Longrightarrow> inside s \<Longrightarrow> use_adapter s = s"
  by (auto simp: win_inv_def use_adapter_def)

lemma call_move_inv: "call_move s s' \<Longrightarrow> \<not> wnCrash s \<Longrightarrow> win_inv s \<Longrightarrow> win_inv s'"
  by (induction rule: call_move.induct) (clarsimp simp: win_inv_def active_def inside_def)+

lemma read_move_inv: "read_move s s' \<Longrightarrow> win_inv s \<Longrightarrow> win_inv s'"
  by (induction rule: read_move.induct)
    ((simp add: use_session_id inside_def)?, clarsimp simp: win_inv_def active_def inside_def)+

lemma write_move_inv: "write_move s s' \<Longrightarrow> win_inv s \<Longrightarrow> win_inv s'"
  by (induction rule: write_move.induct)
    ((simp add: use_session_id inside_def)?, clarsimp simp: win_inv_def active_def inside_def)+

lemma luid_move_inv: "luid_move s s' \<Longrightarrow> win_inv s \<Longrightarrow> win_inv s'"
  by (induction rule: luid_move.induct)
    ((simp add: use_adapter_id inside_def)?, clarsimp simp: win_inv_def active_def inside_def)+

lemma force_move_inv: "force_move s s' \<Longrightarrow> win_inv s \<Longrightarrow> win_inv s'"
  by (induction rule: force_move.induct) (clarsimp simp: win_inv_def active_def inside_def)+

lemma closer_move_inv: "closer_move s s' \<Longrightarrow> win_inv s \<Longrightarrow> win_inv s'"
  by (induction rule: closer_move.induct) (clarsimp simp: win_inv_def active_def inside_def use_session_def use_adapter_def)+

lemma win_move_inv: "win_move s s' \<Longrightarrow> win_inv s \<Longrightarrow> win_inv s'"
  by (induction rule: win_move.induct)
    (simp_all add: read_move_inv write_move_inv luid_move_inv force_move_inv closer_move_inv, simp add: win_inv_def active_def inside_def)

lemma win_reachable_inv: "win_reachable s \<Longrightarrow> win_inv s"
proof (induction rule: win_reachable.induct)
  case wr_init
  show ?case by (simp add: win_inv_def win_init_def active_def inside_def)
qed (blast intro: call_move_inv win_move_inv)+

section \<open>Shutdown\<close>

fun read_work :: "readPoint \<Rightarrow> nat" where
  "read_work RPoll = 7"
| "read_work RLoop = 6"
| "read_work RWait = 5"
| "read_work RRetry = 2"
| "read_work RRelease = 2"
| "read_work RDone = 1"
| "read_work RIdle = 0"

fun write_work :: "writePoint \<Rightarrow> nat" where
  "write_work (WSent n) = 3 + 2 * n"
| "write_work (WSend n) = 2 + 2 * n"
| "write_work (WCheck n) = 2"
| "write_work WDone = 1"
| "write_work WIdle = 0"

fun force_work :: "forcePoint \<Rightarrow> nat" where
  "force_work FCheck = 3"
| "force_work FSend = 2"
| "force_work FIdle = 0"

fun closer_work :: "closerPoint \<Rightarrow> nat" where
  "closer_work KSetEvent = 5"
| "closer_work KWait = 4"
| "closer_work KEndSession = 3"
| "closer_work KAdapter = 2"
| "closer_work KCloseEvents = 1"
| "closer_work k = 0"

text \<open>A panic counts as a step of \<open>force_move\<close>, after which nothing moves.\<close>

definition win_work :: "winThreads \<Rightarrow> nat" where
  "win_work s = (if wnCrash s then 0 else read_work (wnReader s) + write_work (wnWriter s) + (3 * wnLUIDCheck s + 2 * wnLUIDCall s + wnLUIDDone s)
     + force_work (wnForce s) + closer_work (wnCloser s) + wnPending s)"

definition win_ended :: "winThreads \<Rightarrow> bool" where
  "win_ended s \<longleftrightarrow> wnCloser s = KClosed \<and> wnReader s = RIdle \<and> wnWriter s = WIdle 
     \<and> wnLUIDCheck s = 0 \<and> wnLUIDCall s = 0 \<and> wnLUIDDone s = 0
     \<and> wnForce s = FIdle \<and> \<not> wnSession s \<and> \<not> wnAdapter s \<and> \<not> wnOpen s"

lemma use_simps [simp]:
  "wnFlag (use_session s) = wnFlag s" "wnFlag (use_adapter s) = wnFlag s"
  "wnCrash (use_session s) = wnCrash s" "wnCrash (use_adapter s) = wnCrash s"
  "wnReader (use_session s) = wnReader s" "wnReader (use_adapter s) = wnReader s"
  "wnWriter (use_session s) = wnWriter s" "wnWriter (use_adapter s) = wnWriter s"
  "wnLUIDCheck (use_session s) = wnLUIDCheck s" "wnLUIDCheck (use_adapter s) = wnLUIDCheck s"
  "wnLUIDCall (use_session s) = wnLUIDCall s" "wnLUIDCall (use_adapter s) = wnLUIDCall s"
  "wnLUIDDone (use_session s) = wnLUIDDone s" "wnLUIDDone (use_adapter s) = wnLUIDDone s"
  "wnForce (use_session s) = wnForce s" "wnForce (use_adapter s) = wnForce s"
  "wnCloser (use_session s) = wnCloser s" "wnCloser (use_adapter s) = wnCloser s"
  "wnPending (use_session s) = wnPending s" "wnPending (use_adapter s) = wnPending s"
  by (simp_all add: use_session_def use_adapter_def)

lemma win_closed_work:
  assumes "win_move s s'" and "win_inv s" and "wnFlag s"
  shows "wnFlag s' \<and> win_work s' < win_work s"
  using assms(1)
proof cases
  case win_read
  from win_read(2) show ?thesis using assms(3) win_read(1) by cases (simp_all add: win_work_def)
next
  case win_write
  from win_write(2) show ?thesis using assms(3) win_write(1) by cases (simp_all add: win_work_def)
next
  case win_luid
  from win_luid(2) show ?thesis using assms(3) win_luid(1) by cases (simp_all add: win_work_def)
next
  case win_force
  from win_force(2) show ?thesis using assms(3) win_force(1) by cases (simp_all add: win_work_def)
next
  case win_closer
  from win_closer(2) show ?thesis using assms(2,3) win_closer(1)
    by cases (simp_all add: win_work_def win_inv_def)
next
  case (win_reader n)
  then show ?thesis using assms(3) by (simp add: win_work_def)
qed

text \<open>A step of a goroutine that is in a call. The reader of the events is not one of them.\<close>

definition in_call_move :: "winThreads \<Rightarrow> winThreads \<Rightarrow> bool" where
  "in_call_move s s' \<longleftrightarrow> \<not> wnCrash s \<and> (read_move s s' \<or> write_move s s' \<or> luid_move s s' \<or> force_move s s' \<or> closer_move s s')"

lemma win_closed_stuck:
  assumes inv: "win_inv s" and flag: "wnFlag s" and ok: "\<not> wnCrash s" and stuck: "\<nexists>s'. in_call_move s s'"
  shows "win_ended s"
proof -
  have no: "\<not> read_move s s'" "\<not> write_move s s'" "\<not> luid_move s s'" "\<not> force_move s s'" "\<not> closer_move s s'" for s'
    using stuck ok by (auto simp: in_call_move_def)
  have w: "wnWriter s = WIdle"
  proof (cases "wnWriter s")
    case (WCheck n)
    then show ?thesis using no(2) w_closed flag by blast
  next
    case (WSend n)
    then show ?thesis using no(2) w_all w_dropped by (cases n) blast+
  qed (use no(2) w_sent w_done in blast)+
  have u: "wnLUIDCheck s = 0" "wnLUIDCall s = 0" "wnLUIDDone s = 0"
    using no(3) u_closed u_call u_done flag by (metis not0_implies_Suc)+
  have k: "wnCloser s = KClosed \<or> wnCloser s = KWait"
  proof (cases "wnCloser s")
    case KCloseEvents
    then have "wnOpen s" using inv by (simp add: win_inv_def)
    then show ?thesis using KCloseEvents no(5) k_events by blast
  qed (use no(5) k_event k_session k_adapter inv flag in \<open>auto simp: win_inv_def\<close>)
  have r: "wnReader s = RIdle"
  proof (cases "wnReader s")
    case RWait
    then have "wnEvent s" using inv k flag by (auto simp: win_inv_def)
    then show ?thesis using RWait no(1) r_wake by blast
  qed (use no(1) r_retry_closed r_loop_closed r_fails r_release r_done flag in blast)+
  have "wnRunning s = 0" using inv r w u by (simp add: win_inv_def active_def)
  then have c: "wnCloser s = KClosed" using k no(5) k_wait by blast
  have f: "wnForce s = FIdle"
  proof (cases "wnForce s")
    case FSend
    have "\<not> wnOpen s" using inv c by (simp add: win_inv_def)
    then show ?thesis using FSend no(4) f_panic by blast
  qed (use no(4) f_closed flag in blast)+
  show ?thesis using inv r w u f c by (simp add: win_ended_def win_inv_def)
qed

text \<open>After the flag has been set, no \<open>ForceMTU\<close> comes to its send any more.\<close>

lemma win_closed_force:
  assumes "win_move s s'" and "wnFlag s" and "wnForce s \<noteq> FSend"
  shows "wnForce s' \<noteq> FSend"
  using assms(1)
proof cases
  case win_read
  from win_read(2) show ?thesis using assms(3) by cases simp_all
next
  case win_write
  from win_write(2) show ?thesis using assms(3) by cases simp_all
next
  case win_luid
  from win_luid(2) show ?thesis using assms(3) by cases simp_all
next
  case win_force
  from win_force(2) show ?thesis using assms(2,3) by cases simp_all
next
  case win_closer
  from win_closer(2) show ?thesis using assms(3) by cases simp_all
next
  case (win_reader n)
  then show ?thesis using assms(3) by simp
qed

lemma win_closed_runs:
  assumes "(win_move ^^ n) s s'" and "win_inv s" and "wnFlag s"
  shows "win_inv s' \<and> wnFlag s' \<and> n + win_work s' \<le> win_work s \<and> (wnForce s \<noteq> FSend \<longrightarrow> wnForce s' \<noteq> FSend)"
  using assms(1)
proof (induction n arbitrary: s')
  case 0
  then show ?case using assms(2-) by simp
next
  case (Suc n)
  obtain t where t: "(win_move ^^ n) s t" "win_move t s'" using Suc.prems by auto
  note ih = Suc.IH [OF t(1)]
  show ?case using ih win_move_inv [OF t(2)] win_closed_work [OF t(2)] win_closed_force [OF t(2)] by fastforce
qed

text \<open>
  C12. However one goroutine each in \<open>Read\<close>, \<open>Write\<close>, \<open>ForceMTU\<close> and \<open>Close\<close> and any number in \<open>LUID\<close> interleave, none of them
  uses the session or the adapter after \<open>Close\<close> has ended it: once \<open>Close\<close> has waited for \<open>running\<close>, nobody is
  between the check of \<open>close\<close> and its last call of the session. The events are closed once, and the only
  panic is that of a \<open>ForceMTU\<close> that sends its event after \<open>Close\<close> has closed the channel.
\<close>

theorem win_close_safe:
  assumes "win_reachable s"
  shows "\<not> wnBad s \<and> (\<not> wnSession s \<or> \<not> wnAdapter s \<longrightarrow> \<not> inside s)
    \<and> (wnCrash s \<longrightarrow> wnForce s = FSend \<and> wnCloser s = KClosed)"
  using win_reachable_inv [OF assms] by (auto simp: win_inv_def)

text \<open>
  C13. Once \<open>Close\<close> has set the flag, the goroutines that are in a call, and the reader of the events
  if there is one, make no more than \<open>win_work s\<close> steps, whatever the session answers: a reader that waits for packets
  is woken, one that spins sees the flag. Where none of those in a call can make a step, whether the events have been
  taken or not, every call has returned, \<open>Close\<close> too, and the session, the adapter and the events are closed, or a
  \<open>ForceMTU\<close> that was past its check of the flag when the flag was set has panicked on the closed channel.
\<close>

theorem win_close_returns:
  assumes "win_reachable s" and "wnFlag s" and "(win_move ^^ n) s s'"
  shows "n \<le> win_work s
    \<and> ((\<nexists>s''. in_call_move s' s'') \<longrightarrow> win_ended s' \<or> wnCrash s' \<and> wnForce s = FSend \<and> wnForce s' = FSend \<and> wnCloser s' = KClosed)"
proof -
  have r: "win_inv s'" "wnFlag s'" "n \<le> win_work s" "wnForce s \<noteq> FSend \<longrightarrow> wnForce s' \<noteq> FSend"
    using win_closed_runs [OF assms(3) win_reachable_inv [OF assms(1)] assms(2)] by auto
  have "wnForce s' = FSend \<and> wnCloser s' = KClosed" if "wnCrash s'" using r(1) that by (simp add: win_inv_def)
  then show ?thesis using r win_closed_stuck [OF r(1,2)] by auto
qed

section \<open>Witnesses and two schedules\<close>

text \<open>A reader waits for packets when \<open>Close\<close> sets the flag.\<close>

definition win_reader_waits :: winThreads where
  "win_reader_waits = win_init\<lparr>wnRunning := 1, wnReader := RWait\<rparr>"

definition win_reader_closing :: winThreads where
  "win_reader_closing = win_reader_waits\<lparr>wnFlag := True, wnCloser := KSetEvent\<rparr>"

lemma win_moves:
  "win_reachable s \<Longrightarrow> call_move s t \<Longrightarrow> \<not> wnCrash s \<Longrightarrow> s' = t \<Longrightarrow> win_reachable s'"
  "win_reachable s \<Longrightarrow> read_move s t \<Longrightarrow> \<not> wnCrash s \<Longrightarrow> s' = t \<Longrightarrow> win_reachable s'"
  "win_reachable s \<Longrightarrow> force_move s t \<Longrightarrow> \<not> wnCrash s \<Longrightarrow> s' = t \<Longrightarrow> win_reachable s'"
  "win_reachable s \<Longrightarrow> closer_move s t \<Longrightarrow> \<not> wnCrash s \<Longrightarrow> s' = t \<Longrightarrow> win_reachable s'"
  using wr_call wr_move win_read win_force win_closer by blast+

lemma win_reader_waits_reachable: "win_reachable win_reader_waits"
proof -
  have "win_reachable (win_init\<lparr>wnRunning := 1, wnReader := RRetry\<rparr>)"
    by (rule win_moves(1) [OF wr_init call_read]) (simp_all add: win_init_def)
  then have "win_reachable (win_init\<lparr>wnRunning := 1, wnReader := RLoop\<rparr>)"
    by (rule win_moves(2) [OF _ r_retry]) (simp_all add: win_init_def)
  then have "win_reachable (win_init\<lparr>wnRunning := 1, wnReader := RPoll\<rparr>)"
    by (rule win_moves(2) [OF _ r_loop]) (simp_all add: win_init_def)
  then show ?thesis
    by (rule win_moves(2) [OF _ r_no_packet]) (simp_all add: win_init_def win_reader_waits_def use_session_def)
qed

lemma win_reader_closing_reachable: "win_reachable win_reader_closing"
proof -
  have "win_reachable (win_reader_waits\<lparr>wnCloser := KFlag\<rparr>)"
    by (rule win_moves(1) [OF win_reader_waits_reachable call_close]) (simp_all add: win_init_def win_reader_waits_def)
  then show ?thesis
    by (rule win_moves(4) [OF _ k_flag]) (simp_all add: win_init_def win_reader_waits_def win_reader_closing_def)
qed

theorem win_close_safe_witness: "\<not> wnBad win_reader_closing \<and> inside win_reader_closing"
  using win_close_safe [OF win_reader_closing_reachable]
  by (simp add: inside_def win_reader_closing_def win_reader_waits_def)

theorem win_close_returns_witness: "\<not> (\<exists>s'. (win_move ^^ 11) win_reader_closing s')"
proof
  assume "\<exists>s'. (win_move ^^ 11) win_reader_closing s'"
  then obtain s' where s': "(win_move ^^ 11) win_reader_closing s'" by blast
  have c: "wnFlag win_reader_closing" "win_work win_reader_closing = 10"
    by (simp_all add: win_work_def win_reader_closing_def win_reader_waits_def win_init_def)
  show False using win_close_returns [OF win_reader_closing_reachable c(1) s'] c(2) by simp
qed

text \<open>
  \<open>ForceMTU\<close> looks at \<open>close\<close> and sends its event later, and \<open>Close\<close> does not wait for it: if \<open>Close\<close> runs in
  between, the send is on a closed channel.
\<close>

lemma force_mtu_panics: "\<exists>s. win_reachable s \<and> wnCrash s"
proof -
  define s0 where "s0 = win_init\<lparr>wnForce := FSend\<rparr>"
  define s1 where "s1 = s0\<lparr>wnFlag := True, wnCloser := KSetEvent\<rparr>"
  define s2 where "s2 = s1\<lparr>wnEvent := True, wnCloser := KWait\<rparr>"
  define s3 where "s3 = s2\<lparr>wnSession := False, wnAdapter := False, wnCloser := KCloseEvents\<rparr>"
  note defs = s0_def s1_def s2_def s3_def win_init_def
  have "win_reachable (win_init\<lparr>wnForce := FCheck\<rparr>)"
    by (rule win_moves(1) [OF wr_init call_force]) (simp_all add: defs)
  then have "win_reachable s0" by (rule win_moves(3) [OF _ f_update]) (simp_all add: defs)
  then have "win_reachable (s0\<lparr>wnCloser := KFlag\<rparr>)" by (rule win_moves(1) [OF _ call_close]) (simp_all add: defs)
  then have "win_reachable s1" by (rule win_moves(4) [OF _ k_flag]) (simp_all add: defs)
  then have "win_reachable s2" by (rule win_moves(4) [OF _ k_event]) (simp_all add: defs)
  then have "win_reachable (s2\<lparr>wnCloser := KEndSession\<rparr>)" by (rule win_moves(4) [OF _ k_wait]) (simp_all add: defs)
  then have "win_reachable (s2\<lparr>wnSession := False, wnCloser := KAdapter\<rparr>)"
    by (rule win_moves(4) [OF _ k_session]) (simp_all add: defs use_session_def)
  then have "win_reachable s3" by (rule win_moves(4) [OF _ k_adapter]) (simp_all add: defs use_adapter_def)
  then have "win_reachable (s3\<lparr>wnOpen := False, wnCloser := KClosed\<rparr>)"
    by (rule win_moves(4) [OF _ k_events]) (simp_all add: defs)
  then have "win_reachable (s3\<lparr>wnOpen := False, wnCloser := KClosed, wnCrash := True\<rparr>)"
    by (rule win_moves(3) [OF _ f_panic]) (simp_all add: defs)
  then show ?thesis by fastforce
qed

text \<open>
  \<open>Read\<close> may call \<open>running.Add(1)\<close> from 0 while \<open>Close\<close> is in \<open>running.Wait\<close>, which the documentation of \<open>WaitGroup\<close>
  forbids: a call with a positive delta from 0 must happen before a \<open>Wait\<close>.
\<close>

lemma add_during_wait:
  "\<exists>s s'. win_reachable s \<and> wnCloser s = KWait \<and> wnRunning s = 0 \<and> call_move s s' \<and> wnRunning s' = 1 \<and> wnCloser s' = KWait"
proof -
  define s where "s = win_init\<lparr>wnFlag := True, wnEvent := True, wnCloser := KWait\<rparr>"
  have "win_reachable (win_init\<lparr>wnCloser := KFlag\<rparr>)" by (rule win_moves(1) [OF wr_init call_close]) (simp_all add: win_init_def)
  then have "win_reachable (win_init\<lparr>wnFlag := True, wnCloser := KSetEvent\<rparr>)"
    by (rule win_moves(4) [OF _ k_flag]) (simp_all add: win_init_def)
  then have "win_reachable s" by (rule win_moves(4) [OF _ k_event]) (simp_all add: win_init_def s_def)
  moreover have "call_move s (s\<lparr>wnRunning := Suc (wnRunning s), wnReader := RRetry\<rparr>)"
    by (rule call_read) (simp add: s_def win_init_def)
  ultimately show ?thesis by (intro exI [of _ s] exI conjI) (auto simp: s_def win_init_def)
qed

end
