(* ===== verification/Device.thy ===== *)
theory Device
  imports GSOBounds LinuxTun BsdTun WindowsTun Netstack TestTun
begin

text \<open>
  The interface \<open>Device\<close> of \<open>src/tun/tun.go\<close>, which the devices of all systems implement: the small accessors of
  each device, and the contract of \<open>BatchSize\<close>, \<open>Read\<close> and \<open>Write\<close> that the comments of the interface state, as
  locales that are interpreted on every device.
\<close>

section \<open>The accessors\<close>

text \<open>The numbers of the events, \<open>1 << iota\<close>.\<close>

fun event_number :: "event \<Rightarrow> int" where
  "event_number EventUp = 1"
| "event_number EventDown = 2"
| "event_number EventMTUUpdate = 4"

definition linuxFile :: "nativeTun \<Rightarrow> int" where "linuxFile t = tunFile t"
definition linuxEvents :: "nativeTun \<Rightarrow> chan" where "linuxEvents t = eventsChan t"
definition linuxBatchSize :: "nativeTun \<Rightarrow> nat" where "linuxBatchSize t = batchSize t"

definition darwinFile :: "bsdTun \<Rightarrow> int" where "darwinFile t = bFile t"
definition darwinEvents :: "bsdTun \<Rightarrow> chan" where "darwinEvents t = bEvents t"
definition darwinBatchSize :: "bsdTun \<Rightarrow> nat" where "darwinBatchSize t = 1"

definition freebsdFile :: "bsdTun \<Rightarrow> int" where "freebsdFile t = bFile t"
definition freebsdEvents :: "bsdTun \<Rightarrow> chan" where "freebsdEvents t = bEvents t"
definition freebsdBatchSize :: "bsdTun \<Rightarrow> nat" where "freebsdBatchSize t = 1"

definition openbsdFile :: "bsdTun \<Rightarrow> int" where "openbsdFile t = bFile t"
definition openbsdEvents :: "bsdTun \<Rightarrow> chan" where "openbsdEvents t = bEvents t"
definition openbsdBatchSize :: "bsdTun \<Rightarrow> nat" where "openbsdBatchSize t = 1"

text \<open>A device without a file answers a nil \<open>File\<close>.\<close>

definition winFile :: "winTun \<Rightarrow> int option" where "winFile t = None"
definition winEvents :: "winTun \<Rightarrow> chan" where "winEvents t = wtEvents t"
definition winBatchSize :: "winTun \<Rightarrow> nat" where "winBatchSize t = 1"

definition netTunFile :: "netTun \<Rightarrow> int option" where "netTunFile dev = None"
definition netTunEvents :: "netTun \<Rightarrow> chan" where "netTunEvents dev = ntEvents dev"
definition netTunBatchSize :: "netTun \<Rightarrow> nat" where "netTunBatchSize dev = 1"

definition chFile :: "channelTUN \<Rightarrow> int option" where "chFile t = None"
definition chEvents :: "channelTUN \<Rightarrow> chan" where "chEvents t = ctEvents t"
definition chBatchSize :: "channelTUN \<Rightarrow> nat" where "chBatchSize t = 1"
definition chMTU :: "channelTUN \<Rightarrow> int" where "chMTU t = 1420"
definition chName :: "channelTUN \<Rightarrow> byte list" where "chName t = map of_char ''loopbackTun1''"

section \<open>The contract\<close>

text \<open>
  What a reader may rely on when \<open>Read\<close> answers \<open>n\<close>: there are no more packets than buffers, a size for each of
  them, and the slice \<open>bufs[i][offset:offset+sizes[i]]\<close>, which is how a packet is taken out, does not panic. The
  buffers and \<open>sizes\<close> keep their lengths. \<open>osp i\<close> is the memory behind the \<open>i\<close>-th buffer, up to its capacity.
\<close>

definition handed_out :: "(nat \<Rightarrow> byte list) \<Rightarrow> nat \<Rightarrow> byte list list \<Rightarrow> nat list \<Rightarrow> nat \<Rightarrow> byte list option" where
  "handed_out osp off bs sizes i = do { b \<leftarrow> idx bs i; n \<leftarrow> idx sizes i; reslice b (osp i) off (off + n) }"

definition read_fits ::
  "(nat \<Rightarrow> byte list) \<Rightarrow> nat \<Rightarrow> byte list list \<Rightarrow> nat list \<Rightarrow> int \<times> byte list list \<times> nat list \<Rightarrow> bool" where
  "read_fits osp off bs sizes r = (case r of (n, bs', sizes') \<Rightarrow>
     n \<le> int (length bs) \<and> map length bs' = map length bs \<and> length sizes' = length sizes
     \<and> (\<forall>i. int i < n \<longrightarrow> handed_out osp off bs' sizes' i \<noteq> None))"

text \<open>
  The same as a reader sees it: each packet can be taken out and has the length that \<open>sizes\<close> gives. Of a buffer
  whose capacity is its length it lies within the buffer.
\<close>

definition packets_there :: "(nat \<Rightarrow> byte list) \<Rightarrow> nat \<Rightarrow> byte list list \<Rightarrow> int \<Rightarrow> byte list list \<Rightarrow> nat list \<Rightarrow> bool" where
  "packets_there osp off bs n bs' sizes' \<longleftrightarrow> n \<le> int (length bs)
     \<and> (\<forall>i. int i < n \<longrightarrow> (\<exists>p. handed_out osp off bs' sizes' i = Some p \<and> length p = sizes' ! i
         \<and> (osp i = [] \<longrightarrow> off + length p \<le> length (bs' ! i))))"

text \<open>
  \<open>batch\<close> is \<open>BatchSize\<close>, \<open>read\<close> is \<open>Read\<close> with what the system answers (\<open>'q\<close>) and \<open>None\<close> where it panics or
  still waits, \<open>other\<close> are the other operations. \<open>sound\<close> is what is assumed of the system, \<open>spare\<close> the memory behind
  the buffers that the call may reach.
\<close>

locale tun_device =
  fixes batch :: "'d \<Rightarrow> nat"
    and rd :: "'q \<Rightarrow> 'd \<Rightarrow> byte list list \<Rightarrow> nat list \<Rightarrow> nat \<Rightarrow> ((int \<times> byte list list \<times> nat list) \<times> 'd) option"
    and other :: "'d \<Rightarrow> 'd \<Rightarrow> bool"
    and sound :: "'q \<Rightarrow> bool"
    and spare :: "'q \<Rightarrow> nat \<Rightarrow> byte list"
  assumes batch_read: "rd q d bs sizes off = Some (r, d') \<Longrightarrow> batch d' = batch d"
    and batch_other: "other d d' \<Longrightarrow> batch d' = batch d"
    and read_fit: "rd q d bs sizes off = Some (r, d') \<Longrightarrow> sound q \<Longrightarrow> read_fits (spare q) off bs sizes r"
begin

definition used :: "'d \<Rightarrow> 'd \<Rightarrow> bool" where
  "used d d' \<longleftrightarrow> other d d' \<or> (\<exists>q bs sizes off r. rd q d bs sizes off = Some (r, d'))"

text \<open>\<open>BatchSize\<close> does not change over the lifetime of the device.\<close>

lemma batch_constant: "used\<^sup>*\<^sup>* d d' \<Longrightarrow> batch d' = batch d"
  by (induction rule: rtranclp_induct) (auto simp: used_def batch_read batch_other)

lemma packets_taken_out:
  assumes "rd q d bs sizes off = Some ((n, bs', sizes'), d')" and "sound q"
  shows "packets_there (spare q) off bs n bs' sizes'"
  using read_fit [OF assms] by (fastforce simp: read_fits_def packets_there_def handed_out_def bind_Some_iff reslice_def go_iff)

end

text \<open>
  A device whose \<open>Write\<close> counts the packets, as the interface documents it. On Linux it counts the bytes, as
  \<open>write_read_loopback\<close> shows.
\<close>

locale counting_device = tun_device batch rd other sound spare
  for batch :: "'d \<Rightarrow> nat"
    and rd :: "'q \<Rightarrow> 'd \<Rightarrow> byte list list \<Rightarrow> nat list \<Rightarrow> nat \<Rightarrow> ((int \<times> byte list list \<times> nat list) \<times> 'd) option"
    and other :: "'d \<Rightarrow> 'd \<Rightarrow> bool"
    and sound :: "'q \<Rightarrow> bool"
    and spare :: "'q \<Rightarrow> nat \<Rightarrow> byte list" +
  fixes wr :: "'s \<Rightarrow> 'd \<Rightarrow> byte list list \<Rightarrow> nat \<Rightarrow> (nat \<times> bool) option"
  assumes write_all: "wr s d bs off = Some (n, True) \<Longrightarrow> n = length bs"
    and write_some: "wr s d bs off = Some (n, False) \<Longrightarrow> n \<le> length bs"
begin

lemma write_counts: "wr s d bs off = Some (n, ok) \<Longrightarrow> n \<le> length bs \<and> (ok \<longrightarrow> n = length bs)"
  using write_all write_some by (cases ok) auto

end

section \<open>The devices\<close>

text \<open>One packet in the first buffer.\<close>

lemma read_fits_none: "n \<le> 0 \<Longrightarrow> read_fits osp off bs sizes (n, bs, sizes)"
  by (simp add: read_fits_def)

lemma read_fits_one:
  assumes "bs \<noteq> []" and "sizes \<noteq> []" and "length b = length (bs ! 0)" and "off + n \<le> length b"
  shows "read_fits osp off bs sizes (1, bs[0 := b], sizes[0 := n])"
proof -
  have "map length (bs[0 := b]) = (map length bs)[0 := length b]" by (simp add: map_update)
  moreover have "(map length bs)[0 := length b] = map length bs"
    using assms(1,3) by (metis length_greater_0_conv list_update_id nth_map)
  moreover have "Suc 0 \<le> length bs" using assms(1) by (cases bs) simp_all
  ultimately show ?thesis using assms by (simp add: read_fits_def handed_out_def idx_def reslice_def slice_def)
qed

subsection \<open>Linux\<close>

text \<open>A read of the file answers no more bytes than were asked for.\<close>

definition linux_sound :: "'w sys \<Rightarrow> bool" where
  "linux_sound S \<longleftrightarrow> (\<forall>fd n w b w'. sysRead S fd n w = (Inr b, w') \<longrightarrow> length b \<le> n)"

definition linux_rd ::
  "'w sys \<Rightarrow> endian \<times> (nat \<Rightarrow> byte list) \<times> byte list \<times> 'w \<Rightarrow> nativeTun \<Rightarrow> byte list list \<Rightarrow> nat list \<Rightarrow> nat
    \<Rightarrow> ((int \<times> byte list list \<times> nat list) \<times> nativeTun) option" where
  "linux_rd S q t bs sizes off = (case q of (e, osp, buff, w) \<Rightarrow>
     map_option (\<lambda>((n, err, bs, sizes), t, w). ((n, bs, sizes), t)) (tunRead e S t osp buff bs sizes off w))"

definition linux_other :: "'w sys \<Rightarrow> nativeTun \<Rightarrow> nativeTun \<Rightarrow> bool" where
  "linux_other S t t' \<longleftrightarrow> (\<exists>w r w'. tunName S t w = (r, t', w')) \<or> (\<exists>e n w r w'. tunSetMTU e S t n w = (r, t', w'))
     \<or> (\<exists>e w r w'. tunMTU e S t w = (r, t', w')) \<or> (\<exists>e bs off w r bs' w'. tunWrite e S t bs off w = Some (r, bs', t', w'))
     \<or> (\<exists>w r w'. tunClose S t w = Some (r, t', w'))"

lemma linux_name_batch: "tunName S t w = (r, t', w') \<Longrightarrow> batchSize t' = batchSize t"
  by (auto simp: tunName_def split: option.splits prod.splits)

lemma linux_write_batch: "tunWrite e S t bs off w = Some (r, bs', t', w') \<Longrightarrow> batchSize t' = batchSize t"
  by (auto simp: tunWrite_def Let_def bind_Some_iff split: if_splits)

lemma linux_close_batch: "tunClose S t w = Some (r, t', w') \<Longrightarrow> batchSize t' = batchSize t"
  by (auto simp: tunClose_def close_body_def Let_def bind_Some_iff split_def split: if_splits option.splits)

lemma linux_other_batch:
  assumes "linux_other S t t'"
  shows "batchSize t' = batchSize t"
proof -
  have named: "batchSize t' = batchSize t"
    if "(case tunName S t w of (Inl err, t, w) \<Rightarrow> (Inl err, t, w) | (Inr nm, t, w) \<Rightarrow> let (r, w) = f nm w in (r, t, w)) = (r, t', w')"
    for f :: "byte list \<Rightarrow> 'a \<Rightarrow> (goerror + 'c) \<times> 'a" and w r w'
  proof -
    obtain a t1 w1 where n: "tunName S t w = (a, t1, w1)" by (metis surj_pair)
    then show ?thesis using that linux_name_batch [OF n] by (cases a) (auto simp: Let_def split_def)
  qed
  show ?thesis using assms unfolding linux_other_def tunSetMTU_def tunMTU_def
    by (elim disjE exE) (erule linux_name_batch linux_write_batch linux_close_batch named)+
qed

lemma virtio_read_fits:
  assumes "handleVirtioRead e sp pkt bs sizes off = Some (n, err, bs', sizes')"
  shows "read_fits (outSpare sp) off bs sizes (n, bs', sizes')"
proof -
  note b = handleVirtioRead_within [OF assms]
  have "length bs' = length bs" using b by (metis length_map)
  with b show ?thesis by (auto simp: read_fits_def handed_out_def idx_def reslice_def slice_def)
qed

lemma linux_read_ok:
  assumes "tunRead e S t osp buff bs sizes off w = Some ((n, err, bs', sizes'), t', w')"
  shows "batchSize t' = batchSize t \<and> (linux_sound S \<longrightarrow> read_fits osp off bs sizes (n, bs', sizes'))"
proof (cases "pendingErrors t")
  case (Cons a list)
  then show ?thesis using assms by (auto simp: tunRead_def read_fits_none)
next
  case Nil
  obtain r w1 where r: "sysRead S (tunFile t) (if vnetHdr t then readBuffLen else length (bs ! 0) - off) w = (r, w1)"
    by (meson surj_pair)
  have b: "bs \<noteq> []" "off \<le> length (bs ! 0)" using assms Nil by (auto simp: tunRead_def bind_Some_iff go_iff)
  show ?thesis
  proof (cases r)
    case (Inl err')
    then show ?thesis using assms Nil r b
      by (auto simp: tunRead_def go_simps idx_def slice_from_def read_fits_none split: if_splits)
  next
    case (Inr pkt)
    show ?thesis
    proof (cases "vnetHdr t")
      case True
      then have "handleVirtioRead e \<lparr>inSpare = drop (length pkt) buff, outSpare = osp\<rparr> pkt bs sizes off = Some (n, err, bs', sizes')" "t' = t"
        using assms Nil r b Inr by (auto simp: tunRead_def idx_def slice_from_def bind_Some_iff)
      then show ?thesis using virtio_read_fits by fastforce
    next
      case False
      have "length pkt \<le> length (bs ! 0) - off" if "linux_sound S"
        using that r Inr False unfolding linux_sound_def by simp blast
      then show ?thesis using assms Nil r b Inr False
        by (auto simp: tunRead_def idx_def slice_from_def bind_Some_iff go_iff intro!: read_fits_one)
    qed
  qed
qed

interpretation linux: tun_device linuxBatchSize "linux_rd S" "linux_other S" "\<lambda>q. linux_sound S" "\<lambda>q. fst (snd q)" for S
  by unfold_locales
    (auto simp: linuxBatchSize_def linux_other_batch linux_rd_def dest: linux_read_ok)

text \<open>Any operation on the device.\<close>

definition linux_used :: "'w sys \<Rightarrow> nativeTun \<Rightarrow> nativeTun \<Rightarrow> bool" where
  "linux_used S = tun_device.used (linux_rd S) (linux_other S)"

subsection \<open>macOS, FreeBSD and OpenBSD\<close>

definition bsd_sound :: "'w bsdSys \<Rightarrow> bool" where
  "bsd_sound S \<longleftrightarrow> (\<forall>fd n w. length (fst (fst (fRead S fd n w))) \<le> n)"

definition bsd_rd ::
  "'w bsdSys \<Rightarrow> 'w \<Rightarrow> bsdTun \<Rightarrow> byte list list \<Rightarrow> nat list \<Rightarrow> nat \<Rightarrow> ((int \<times> byte list list \<times> nat list) \<times> bsdTun) option" where
  "bsd_rd S w t bs sizes off = map_option (\<lambda>((n, err), bs, sizes, t, w). ((int n, bs, sizes), t))
     (bsdRead S t bs sizes (int off) w)"

definition bsd_wr ::
  "platform \<Rightarrow> 'w bsdSys \<Rightarrow> 'w \<Rightarrow> bsdTun \<Rightarrow> byte list list \<Rightarrow> nat \<Rightarrow> (nat \<times> bool) option" where
  "bsd_wr p S w t bs off = map_option (\<lambda>((n, err), bs, w). (n, err = None)) (bsdWrite p S t bs (int off) w)"

definition bsd_other :: "platform \<Rightarrow> 'w bsdSys \<Rightarrow> bsdTun \<Rightarrow> bsdTun \<Rightarrow> bool" where
  "bsd_other p S t t' \<longleftrightarrow> (\<exists>w r w'. bsdName p S t w = Some (r, t', w')) \<or> (\<exists>w r w'. bsdClose p S t w = Some (r, t', w'))"

lemma bsd_read_fits:
  assumes "bsdRead S t bs sizes (int off) w = Some ((n, err), bs', sizes', t', w')" and "bsd_sound S"
  shows "read_fits (\<lambda>_. []) off bs sizes (int n, bs', sizes')"
proof (cases "bErrors t")
  case (Cons a list)
  then show ?thesis using assms(1) by (simp add: bsdRead_def read_fits_none)
next
  case Nil
  let ?k = "nat (int off - 4)"
  obtain got err1 w1 where r: "fRead S (bFile t) (length (bs ! 0) - ?k) w = ((got, err1), w1)" by (metis surj_pair)
  have got: "length got \<le> length (bs ! 0) - ?k" using assms(2) r unfolding bsd_sound_def by (metis fst_conv)
  have b: "bs \<noteq> []" "4 \<le> off" "?k \<le> length (bs ! 0)"
    using assms(1) Nil by (auto simp: bsdRead_def bind_Some_iff slice_from_int_def go_iff split: if_splits)
  have c: "copy_at (bs ! 0) ?k got = Some (take ?k (bs ! 0) @ got @ drop (?k + length got) (bs ! 0))"
    using b got by (simp add: copy_at_def)
  have len: "length (take ?k (bs ! 0) @ got @ drop (?k + length got) (bs ! 0)) = length (bs ! 0)" using b got by simp
  define b' where "b' = take ?k (bs ! 0) @ got @ drop (?k + length got) (bs ! 0)"
  show ?thesis
  proof (cases "length got < 4")
    case True
    then have "n = 0" "bs' = bs[0 := b']" "sizes' = sizes"
      using assms(1) Nil r b c
      by (auto simp: bsdRead_def bind_Some_iff slice_from_int_def idx_def slice_from_def set_at_def b'_def)
    moreover have "map length (bs[0 := b']) = map length bs"
      using b(1) len by (metis b'_def length_greater_0_conv list_update_id map_update nth_map)
    ultimately show ?thesis by (simp add: read_fits_def)
  next
    case False
    then have "n = 1" "bs' = bs[0 := b']" "sizes' = sizes[0 := length got - 4]" "sizes \<noteq> []"
      using assms(1) Nil r b c
      by (auto simp: bsdRead_def bind_Some_iff slice_from_int_def idx_def slice_from_def set_at_def b'_def split: if_splits)
    moreover have "off + (length got - 4) \<le> length b'" using False got b len by (simp add: b'_def)
    ultimately show ?thesis using b(1) len by (simp add: b'_def read_fits_one)
  qed
qed

lemma bsd_write_loop_count:
  "bsd_write_loop p S file offset i bss bs w = Some ((n, err), bss', w') \<Longrightarrow>
     n \<le> i + length bs \<and> (err = None \<longrightarrow> n = i + length bs)"
proof (induction bs arbitrary: i bss w)
  case (Cons b bs)
  have step: "n \<le> i + length (b # bs) \<and> (err = None \<longrightarrow> n = i + length (b # bs))"
    if "(case x of (Some err, w) \<Rightarrow> Some ((i, Some err), bss1, w) | (None, w) \<Rightarrow> bsd_write_loop p S file offset (Suc i) bss1 bs w)
      = Some ((n, err), bss', w')" for x bss1
  proof -
    obtain e w1 where x: "x = (e, w1)" by (metis surj_pair)
    show ?thesis using that Cons.IH [of "Suc i" bss1 w1] by (cases e) (auto simp: x)
  qed
  show ?case using Cons.prems by (auto simp: bind_Some_iff Let_def split: if_split_asm dest!: step)
qed simp

lemma bsd_write_count: "bsd_wr p S w t bs off = Some (n, ok) \<Longrightarrow> n \<le> length bs \<and> (ok \<longrightarrow> n = length bs)"
  by (auto simp: bsd_wr_def bsdWrite_def split: if_split_asm dest: bsd_write_loop_count)

lemma bsd_rd_fits: "bsd_rd S w t bs sizes off = Some (r, t') \<Longrightarrow> bsd_sound S \<Longrightarrow> read_fits (\<lambda>_. []) off bs sizes r"
  by (auto simp: bsd_rd_def dest: bsd_read_fits)

interpretation darwin: counting_device darwinBatchSize "bsd_rd S" "bsd_other Darwin S" "\<lambda>w. bsd_sound S" "\<lambda>_ _. []" "bsd_wr Darwin S" for S
  by unfold_locales (auto simp: darwinBatchSize_def bsd_rd_fits dest: bsd_write_count)

interpretation freebsd: counting_device freebsdBatchSize "bsd_rd S" "bsd_other FreeBSD S" "\<lambda>w. bsd_sound S" "\<lambda>_ _. []" "bsd_wr FreeBSD S" for S
  by unfold_locales (auto simp: freebsdBatchSize_def bsd_rd_fits dest: bsd_write_count)

interpretation openbsd: counting_device openbsdBatchSize "bsd_rd S" "bsd_other OpenBSD S" "\<lambda>w. bsd_sound S" "\<lambda>_ _. []" "bsd_wr OpenBSD S" for S
  by unfold_locales (auto simp: openbsdBatchSize_def bsd_rd_fits dest: bsd_write_count)

subsection \<open>A packet that is copied into the first buffer\<close>

text \<open>Windows, the test device and, after \<open>view.Read\<close>, the network stack read in the same way.\<close>

lemma copied_fits:
  assumes "idx bs 0 = Some b" and "slice_from_int b (int off) = Some dst" and "copy_at b off packet = Some b'"
    and "set_at bs 0 b' = Some bs'" and "set_at sizes 0 (min (length dst) (length packet)) = Some sizes'"
  shows "read_fits (\<lambda>_. []) off bs sizes (1, bs', sizes')"
proof -
  have "bs \<noteq> []" "sizes \<noteq> []" "b = bs ! 0" "off \<le> length b" "dst = drop off b" "bs' = bs[0 := b']"
    "sizes' = sizes[0 := min (length dst) (length packet)]" "length b' = length b"
    using assms by (auto simp: go_iff slice_from_int_def split: if_splits)
  then show ?thesis by (auto intro!: read_fits_one)
qed

subsection \<open>Windows\<close>

definition win_rd ::
  "winPoll list \<times> u64 \<Rightarrow> winTun \<Rightarrow> byte list list \<Rightarrow> nat list \<Rightarrow> nat
    \<Rightarrow> ((int \<times> byte list list \<times> nat list) \<times> winTun) option" where
  "win_rd q t bs sizes off = (case winRead t (fst q) (snd q) bs sizes (int off) of
     Some (Some ((n, err), bs, sizes, t)) \<Rightarrow> Some ((int n, bs, sizes), t) | _ \<Rightarrow> None)"

definition win_wr :: "'w winSys \<Rightarrow> 'w \<Rightarrow> winTun \<Rightarrow> byte list list \<Rightarrow> nat \<Rightarrow> (nat \<times> bool) option" where
  "win_wr S w t bs off = map_option (\<lambda>((n, err), t, w). (n, err = None)) (winWrite S t bs (int off) w)"

definition win_other :: "'w winSys \<Rightarrow> winTun \<Rightarrow> winTun \<Rightarrow> bool" where
  "win_other S t t' \<longleftrightarrow> (\<exists>mtu. t' = winForceMTU t mtu) \<or> (\<exists>bs off w r w'. winWrite S t bs off w = Some (r, t', w'))
     \<or> (\<exists>w w'. winClose S t w = Some (t', w'))"

lemma win_read_fits:
  assumes "winRead t polls now bs sizes (int off) = Some (Some ((n, err), bs', sizes', t'))"
  shows "read_fits (\<lambda>_. []) off bs sizes (int n, bs', sizes')"
proof -
  obtain res where res: "fst (win_read_loop polls None) = Some res"
    using assms by (auto simp: winRead_def split: option.split_asm)
  show ?thesis
  proof (cases res)
    case (WinPacket packet)
    then show ?thesis using assms res copied_fits [of bs _ off _ packet _ bs' sizes sizes']
      by (auto simp: winRead_def bind_Some_iff Let_def)
  qed (use assms res in \<open>auto simp: winRead_def read_fits_none\<close>)
qed

lemma win_write_loop_count:
  "win_write_loop S bs off i r w = Some ((n, err), r', w') \<Longrightarrow> n \<le> i + length bs \<and> (err = None \<longrightarrow> n = i + length bs)"
proof (induction bs arbitrary: i r w)
  case (Cons b bs)
  show ?case using Cons.prems
    by (auto simp: bind_Some_iff Let_def split: sum.split_asm winError.split_asm prod.split_asm dest!: Cons.IH)
qed simp

lemma win_write_count: "win_wr S w t bs off = Some (n, ok) \<Longrightarrow> n \<le> length bs \<and> (ok \<longrightarrow> n = length bs)"
  by (auto simp: win_wr_def winWrite_def split: if_split_asm dest: win_write_loop_count)

interpretation windows: counting_device winBatchSize win_rd "win_other S" "\<lambda>q. True" "\<lambda>_ _. []" "win_wr S" for S
  by unfold_locales
    (auto simp: winBatchSize_def win_rd_def split: option.split_asm dest: win_write_count win_read_fits)

subsection \<open>The network stack\<close>

text \<open>\<open>view.Read\<close> fills no more than the buffer it is given.\<close>

definition net_sound :: "('c, 'x, 'w) netSys \<Rightarrow> bool" where
  "net_sound N \<longleftrightarrow> (\<forall>view n got. viewRead N view n = Inr got \<longrightarrow> length got \<le> n)"

definition net_rd ::
  "('c, 'x, 'w) netSys \<Rightarrow> 'w \<Rightarrow> netTun \<Rightarrow> byte list list \<Rightarrow> nat list \<Rightarrow> nat
    \<Rightarrow> ((int \<times> byte list list \<times> nat list) \<times> netTun) option" where
  "net_rd N w dev bs sizes off = map_option (\<lambda>((n, err), bs, sizes, w). ((int n, bs, sizes), dev))
     (netTunRead N bs sizes (int off) w)"

definition net_wr :: "('c, 'x, 'w) netSys \<Rightarrow> 'w \<Rightarrow> netTun \<Rightarrow> byte list list \<Rightarrow> nat \<Rightarrow> (nat \<times> bool) option" where
  "net_wr N w dev bs off = map_option (\<lambda>((n, err), w). (n, err = None)) (netTunWrite N bs (int off) w)"

definition net_other :: "('c, 'x, 'w) netSys \<Rightarrow> netTun \<Rightarrow> netTun \<Rightarrow> bool" where
  "net_other N dev dev' \<longleftrightarrow> (\<exists>w w'. netTunClose N dev w = Some (dev', w'))"

lemma net_read_fits:
  assumes "netTunRead N bs sizes (int off) w = Some ((n, err), bs', sizes', w')" and "net_sound N"
  shows "read_fits (\<lambda>_. []) off bs sizes (int n, bs', sizes')"
proof -
  obtain pkt w1 where p: "recvPacket N w = (pkt, w1)" by (metis surj_pair)
  show ?thesis
  proof (cases pkt)
    case None
    then show ?thesis using assms(1) p by (auto simp: netTunRead_def read_fits_none)
  next
    case (Some view)
    obtain b dst where b: "idx bs 0 = Some b" "slice_from_int b (int off) = Some dst"
      using assms(1) p Some by (auto simp: netTunRead_def bind_Some_iff)
    show ?thesis
    proof (cases "viewRead N view (length dst)")
      case (Inl e)
      then show ?thesis using assms(1) p Some b by (auto simp: netTunRead_def read_fits_none)
    next
      case (Inr got)
      then have "min (length dst) (length got) = length got" using assms(2) unfolding net_sound_def by (metis min.absorb2)
      then show ?thesis using assms(1) p Some b Inr copied_fits [OF b, of got _ bs' sizes sizes']
        by (auto simp: netTunRead_def bind_Some_iff)
    qed
  qed
qed

lemma net_write_count: "net_wr N w dev bs off = Some (n, ok) \<Longrightarrow> n \<le> length bs \<and> (ok \<longrightarrow> n = length bs)"
  by (auto simp: net_wr_def netTunWrite_def bind_Some_iff split: if_splits)

interpretation netstack: counting_device netTunBatchSize "net_rd N" "net_other N" "\<lambda>w. net_sound N" "\<lambda>_ _. []" "net_wr N" for N
  by unfold_locales (auto simp: netTunBatchSize_def net_rd_def dest: net_write_count net_read_fits)

subsection \<open>The test device\<close>

definition ch_rd ::
  "byte list select \<Rightarrow> channelTUN \<Rightarrow> byte list list \<Rightarrow> nat list \<Rightarrow> nat
    \<Rightarrow> ((int \<times> byte list list \<times> nat list) \<times> channelTUN) option" where
  "ch_rd sel t bs sizes off = map_option (\<lambda>((n, err), bs, sizes). ((int n, bs, sizes), t)) (chRead sel bs sizes (int off))"

definition ch_wr :: "unit select list \<Rightarrow> channelTUN \<Rightarrow> byte list list \<Rightarrow> nat \<Rightarrow> (nat \<times> bool) option" where
  "ch_wr sel t bs off = map_option (\<lambda>((n, err), sent, t). (n, err = None)) (chWrite t sel bs (int off))"

definition ch_other :: "channelTUN \<Rightarrow> channelTUN \<Rightarrow> bool" where
  "ch_other t t' \<longleftrightarrow> chClose t = Some t'"

lemma ch_read_fits:
  "chRead sel bs sizes (int off) = Some ((n, err), bs', sizes') \<Longrightarrow> read_fits (\<lambda>_. []) off bs sizes (int n, bs', sizes')"
  by (cases sel) (auto simp: chRead_def bind_Some_iff read_fits_none intro: copied_fits)

lemma ch_write_loop_count:
  "ch_write_loop sel i off ds sent = Some ((n, err), sent') \<Longrightarrow> n \<le> i + length ds \<and> (err = None \<longrightarrow> n = i + length ds)"
proof (induction ds arbitrary: i sent)
  case (Cons d ds)
  obtain s where s: "idx sel i = Some s" using Cons.prems by (auto simp: bind_Some_iff)
  show ?case using Cons.prems s by (cases s) (auto simp: bind_Some_iff dest!: Cons.IH)
qed simp

lemma ch_write_count: "ch_wr sel t bs off = Some (n, ok) \<Longrightarrow> n \<le> length bs \<and> (ok \<longrightarrow> n = length bs)"
  by (auto simp: ch_wr_def chWrite_def bind_Some_iff dest: ch_write_loop_count)

interpretation channel: counting_device chBatchSize ch_rd ch_other "\<lambda>sel. True" "\<lambda>_ _. []" ch_wr
  by unfold_locales (auto simp: chBatchSize_def ch_rd_def dest: ch_write_count ch_read_fits)

section \<open>What every device promises\<close>

text \<open>
  C11. On every device, if the system answers a read with no more bytes than were asked for,
  a \<open>Read\<close> that returns reports no more packets than it was given buffers, and each of them can be sliced out
  of its buffer behind the offset without a panic and has the length in \<open>sizes\<close>. It lies within the length of its
  buffer, except that on Linux it may reach on to the capacity of a buffer whose capacity is larger than its
  length (\<open>read_beyond_length\<close>).
\<close>

theorem device_reads:
  "(linux_sound S \<longrightarrow> tunRead e S t osp buff bs sizes off w = Some ((n, err, bs', sizes'), t', w')
      \<longrightarrow> packets_there osp off bs n bs' sizes')
   \<and> (bsd_sound B \<longrightarrow> bsdRead B tb bs sizes (int off) v = Some ((k, err), bs', sizes', tb', v')
      \<longrightarrow> packets_there (\<lambda>_. []) off bs (int k) bs' sizes')
   \<and> (winRead tw polls now bs sizes (int off) = Some (Some ((k, werr), bs', sizes', tw'))
      \<longrightarrow> packets_there (\<lambda>_. []) off bs (int k) bs' sizes')
   \<and> (net_sound N \<longrightarrow> netTunRead N bs sizes (int off) u = Some ((k, nerr), bs', sizes', u')
      \<longrightarrow> packets_there (\<lambda>_. []) off bs (int k) bs' sizes')
   \<and> (chRead sel bs sizes (int off) = Some ((k, err), bs', sizes') \<longrightarrow> packets_there (\<lambda>_. []) off bs (int k) bs' sizes')"
  using linux.packets_taken_out [of S "(e, osp, buff, w)" t bs sizes off n bs' sizes' t']
    darwin.packets_taken_out [of B v tb bs sizes off "int k" bs' sizes' tb']
    windows.packets_taken_out [of "(polls, now)" tw bs sizes off "int k" bs' sizes' tw']
    netstack.packets_taken_out [of N u undefined bs sizes off "int k" bs' sizes' undefined]
    channel.packets_taken_out [of sel undefined bs sizes off "int k" bs' sizes' undefined]
  by (simp add: linux_rd_def bsd_rd_def win_rd_def net_rd_def ch_rd_def)

text \<open>
  A Windows device that delivers a packet of three bytes, and one packet that does not fit into the buffer of
  the test device.
\<close>

definition demo_poll :: winPoll where
  "demo_poll = \<lparr>pollRetryClosed = False, pollStart = 0, pollRate = new_rates, pollClosed = False,
     pollAnswer = Inr [1, 2, 3], pollNow = 0\<rparr>"

theorem device_reads_witness:
  "packets_there (\<lambda>_. []) 1 [[0, 0, 0, 0, 0]] 1 [[0, 1, 2, 3, 0]] [3] \<and> packets_there (\<lambda>_. []) 1 [[0, 0]] 1 [[0, 7]] [1]"
proof -
  obtain t' where w: "winRead demo_win_tun [demo_poll] 0 [[0, 0, 0, 0, 0]] [0] (int 1) = Some (Some ((1, None), [[0, 1, 2, 3, 0]], [3], t'))"
    by (simp add: winRead_def win_poll_def demo_poll_def Let_def go_simps slice_from_int_def copy_at_def)
  have c: "chRead (SelMsg [7, 8]) [[0, 0]] [0] (int 1) = Some ((1, None), [[0, 7]], [1])"
    by (simp add: chRead_def Let_def go_simps slice_from_int_def copy_at_def)
  show ?thesis using device_reads [THEN conjunct2, THEN conjunct2, THEN conjunct1, rule_format, OF w]
      device_reads [THEN conjunct2, THEN conjunct2, THEN conjunct2, THEN conjunct2, rule_format, OF c] by simp
qed

text \<open>
  On macOS, FreeBSD, OpenBSD and Windows, on the network stack and on the test device a
  \<open>Write\<close> that returns has counted packets, as the interface says: it reports all of them if there is no
  error, and at most all of them otherwise. \<open>BatchSize\<close> of the Linux device, the only one that is not 1,
  stays the same whatever operations are used on it.
\<close>

theorem device_writes_count:
  "(bsdWrite p B tb bs (int off) v = Some ((k, err), bs', v') \<longrightarrow> k \<le> length bs \<and> (err = None \<longrightarrow> k = length bs))
   \<and> (winWrite W tw bs (int off) x = Some ((k, werr), tw', x') \<longrightarrow> k \<le> length bs \<and> (werr = None \<longrightarrow> k = length bs))
   \<and> (netTunWrite N bs (int off) u = Some ((k, nerr), u') \<longrightarrow> k \<le> length bs \<and> (nerr = None \<longrightarrow> k = length bs))
   \<and> (chWrite tc sel bs (int off) = Some ((k, err), sent, tc') \<longrightarrow> k \<le> length bs \<and> (err = None \<longrightarrow> k = length bs))
   \<and> ((linux_used S)\<^sup>*\<^sup>* t t' \<longrightarrow> linuxBatchSize t' = linuxBatchSize t)"
  using bsd_write_count [of p B v tb bs off k "err = None"]
    windows.write_counts [of W x tw bs off k "werr = None"]
    netstack.write_counts [of N u undefined bs off k "nerr = None"]
    channel.write_counts [of sel tc bs off k "err = None"] linux.batch_constant [of S t t']
  by (simp add: linux_used_def bsd_wr_def win_wr_def net_wr_def ch_wr_def)

theorem device_writes_count_witness:
  "\<exists>t'. chWrite newChannelTUN [SelMsg (), SelMsg ()] [[9, 1], [9, 2]] 1 = Some ((2, None), [[1], [2]], t')
     \<and> 2 = length [[9, 1], [9, 2 :: byte]]"
proof -
  have w: "chWrite newChannelTUN [SelMsg (), SelMsg ()] [[9, 1], [9, 2]] (int 1) = Some ((2, None), [[1], [2]], newChannelTUN)"
    by (simp add: chWrite_def slice_from_int_def slice_from_def idx_def)
  show ?thesis
    using device_writes_count [THEN conjunct2, THEN conjunct2, THEN conjunct2, THEN conjunct1, rule_format, OF w] w by simp
qed

end
