(* ===== verification/Examples.thy ===== *)
theory Examples
  imports Dial
begin

text \<open>
  The example programs of \<open>src/tun/netstack/examples\<close>: a ping client, an HTTP client and an HTTP server on the network
  stack. The package \<open>device\<close> of WireGuard is the argument \<open>W\<close>, \<open>golang.org/x/net/icmp\<close> the argument \<open>M\<close>, \<open>net/http\<close> the
  argument \<open>H\<close>.
\<close>

section \<open>The packages\<close>

text \<open>\<open>NewDevice\<close> with the default bind, \<open>IpcSet\<close> and \<open>Up\<close>.\<close>

record ('d, 'w) wgLib =
  wgNewDevice :: "netTun \<Rightarrow> 'w \<Rightarrow> 'd \<times> 'w"
  wgIpcSet :: "'d \<Rightarrow> string \<Rightarrow> 'w \<Rightarrow> netError option \<times> 'w"
  wgUp :: "'d \<Rightarrow> 'w \<Rightarrow> netError option \<times> 'w"

text \<open>
  \<open>icmpMarshal seq data\<close> is the message of an echo request, empty if it cannot be made (the code drops the error);
  a parsed message has a type and a body. \<open>randIntn\<close> is \<open>rand.Intn\<close>.
\<close>

datatype icmpBody = EchoBody int "byte list" | OtherBody

record 'w icmpLib =
  icmpMarshal :: "int \<Rightarrow> byte list \<Rightarrow> byte list"
  icmpParse :: "nat \<Rightarrow> byte list \<Rightarrow> netError + nat \<times> icmpBody"
  randIntn :: "int \<Rightarrow> 'w \<Rightarrow> int \<times> 'w"

text \<open>
  \<open>httpGet\<close> is \<open>Get\<close> of a client with the given \<open>DialContext\<close>, \<open>ioReadAll\<close> reads a body; \<open>httpServe\<close> runs a server
  with a handler for the pattern \<open>/\<close>, until it fails.
\<close>

record ('c, 'x, 'r, 'w) httpLib =
  httpGet :: "('x option \<Rightarrow> byte list \<Rightarrow> byte list \<Rightarrow> 'w \<Rightarrow> ((netError + 'c netConn) \<times> 'w) option)
    \<Rightarrow> string \<Rightarrow> 'w \<Rightarrow> ((netError + 'r) \<times> 'w) option"
  ioReadAll :: "'r \<Rightarrow> 'w \<Rightarrow> (netError + byte list) \<times> 'w"
  httpServe :: "'c \<Rightarrow> (byte list \<Rightarrow> byte list) \<Rightarrow> 'w \<Rightarrow> netError option \<times> 'w"

section \<open>The programs\<close>

text \<open>
  How a program ends: \<open>log.Panic\<close> with an error, \<open>log.Panicf\<close>, a result that is printed, or the end of \<open>main\<close>. \<open>None\<close> is a panic of the
  stack, or a loop that does not end.
\<close>

datatype 'a ending = LogPanic netError | LogPanicf string | Printed 'a | MainReturns

definition conf_lines :: "string list \<Rightarrow> string" where
  "conf_lines ls = concat (map (\<lambda>l. l @ [CHR 0x0A]) ls)"

definition ping_conf :: string where
  "ping_conf = conf_lines
     [''private_key=a8dac1d8a70a751f0f699fb14ba1cff7b79cf4fbd8f09f44c6e6a90d0369604f'',
      ''public_key=25123c5dcd3328ff645e4f2a3fce0d754400d3887a0cb7c56f0267e20fbf3c5b'',
      ''endpoint=163.172.161.0:12912'', ''allowed_ip=0.0.0.0/0'']"

definition gopher :: "byte list" where "gopher = map of_char ''gopher burrow''"

text \<open>The exchange over the socket, once it is there. The request and the reply share one buffer.\<close>

definition ping_exchange ::
  "('c, 'x, 'w) netSys \<Rightarrow> 'w icmpLib \<Rightarrow> 'c pingConn \<Rightarrow> 'w \<Rightarrow> (int ending \<times> 'w) option" where
  "ping_exchange N M socket w =
     (let (sq, w) = randIntn M 65536 w;
          icmpBytes = icmpMarshal M sq gopher;
          (now, w) = timeNow N w;
          (_, w) = pingSetReadDeadline N socket (now + 10 * 1000000000) w;
          (start, w) = timeNow N w;
          ((_, err), w) = pingWrite N socket icmpBytes w in
      case err of
        Some err \<Rightarrow> Some (LogPanic err, w)
      | None \<Rightarrow> do {
          ((n, err), icmpBytes, w) \<leftarrow> pingRead N socket icmpBytes w;
          case err of
            Some err \<Rightarrow> Some (LogPanic err, w)
          | None \<Rightarrow> do {
              reply \<leftarrow> slice icmpBytes 0 n;
              case icmpParse M 1 reply of
                Inl err \<Rightarrow> Some (LogPanic err, w)
              | Inr (_, OtherBody) \<Rightarrow> Some (LogPanicf ''invalid reply type'', w)
              | Inr (_, EchoBody rsq rdata) \<Rightarrow>
                  if rdata \<noteq> gopher \<or> rsq \<noteq> sq then Some (LogPanicf ''invalid ping reply'', w)
                  else let (now, w) = timeNow N w in Some (Printed (time_sub now start), w)
            }
        })"

text \<open>The socket that \<open>Dial\<close> gives for the network \<open>ping4\<close> is a \<open>PingConn\<close> (\<open>ping4_conn\<close>).\<close>

definition ping_client ::
  "('p, 'b) dnsLib \<Rightarrow> ipLib \<Rightarrow> ('c, 'x, 'w) netSys \<Rightarrow> ('d, 'w) wgLib \<Rightarrow> 'w icmpLib \<Rightarrow> 'x \<Rightarrow> bool \<Rightarrow> 'w
    \<Rightarrow> (int ending \<times> 'w) option" where
  "ping_client D I N W M background order w =
     (case createNetTUN N [IP4 [192, 168, 4, 29]] [IP4 [8, 8, 8, 8]] 1420 w of
        (Inl err, w) \<Rightarrow> Some (LogPanic err, w)
      | (Inr tnet, w) \<Rightarrow>
          let (dev, w) = wgNewDevice W tnet w;
              (_, w) = wgIpcSet W dev ping_conf w;
              (err, w) = wgUp W dev w in
          case err of
            Some err \<Rightarrow> Some (LogPanic err, w)
          | None \<Rightarrow> do {
              (socket, w) \<leftarrow> dialBackground D I N background tnet (map of_char ''ping4'') (map of_char ''zx2c4.com'') order w;
              case socket of
                Inl err \<Rightarrow> Some (LogPanic err, w)
              | Inr (PingConn socket) \<Rightarrow> ping_exchange N M socket w
              | Inr _ \<Rightarrow> None
            })"

definition client_conf :: string where
  "client_conf = conf_lines
     [''private_key=087ec6e14bbed210e7215cdc73468dfa23f080a1bfb8665b2fd809bd99d28379'',
      ''public_key=c4c8e984c5322c8184c72265b92b250fdb63688705f504ba003c88f03393cf28'',
      ''allowed_ip=0.0.0.0/0'', ''endpoint=127.0.0.1:58120'']"

text \<open>The error of \<open>IpcSet\<close> is stored in \<open>err\<close> and overwritten by that of \<open>Up\<close>.\<close>

definition http_client ::
  "('p, 'b) dnsLib \<Rightarrow> ipLib \<Rightarrow> ('c, 'x, 'w) netSys \<Rightarrow> ('d, 'w) wgLib \<Rightarrow> ('c, 'x, 'r, 'w) httpLib \<Rightarrow> bool \<Rightarrow> 'w
    \<Rightarrow> (byte list ending \<times> 'w) option" where
  "http_client D I N W H order w =
     (case createNetTUN N [IP4 [192, 168, 4, 28]] [IP4 [8, 8, 8, 8]] 1420 w of
        (Inl err, w) \<Rightarrow> Some (LogPanic err, w)
      | (Inr tnet, w) \<Rightarrow>
          let (dev, w) = wgNewDevice W tnet w;
              (err, w) = wgIpcSet W dev client_conf w;
              (err, w) = wgUp W dev w in
          case err of
            Some err \<Rightarrow> Some (LogPanic err, w)
          | None \<Rightarrow> do {
              (resp, w) \<leftarrow> httpGet H (\<lambda>ctx network address w. dialContext D I N tnet ctx network address order w)
                ''http://192.168.4.29/'' w;
              case resp of
                Inl err \<Rightarrow> Some (LogPanic err, w)
              | Inr resp \<Rightarrow>
                  (case ioReadAll H resp w of
                     (Inl err, w) \<Rightarrow> Some (LogPanic err, w)
                   | (Inr body, w) \<Rightarrow> Some (Printed body, w))
            })"

definition server_conf :: string where
  "server_conf = conf_lines
     [''private_key=003ed5d73b55806c30de3f8a7bdab38af13539220533055e635690b8b87ad641'',
      ''listen_port=58120'',
      ''public_key=f928d4f6c1b86c12f2562c10b07c555c5c57fd00f59e90c8d8d88767271cbf7c'',
      ''allowed_ip=192.168.4.28/32'', ''persistent_keepalive_interval=25'']"

definition hello :: "byte list \<Rightarrow> byte list" where
  "hello request = map of_char ''Hello from userspace TCP!''"

text \<open>The errors of \<open>IpcSet\<close> and of \<open>Up\<close> are dropped.\<close>

definition http_server ::
  "('c, 'x, 'w) netSys \<Rightarrow> ('d, 'w) wgLib \<Rightarrow> ('c, 'x, 'r, 'w) httpLib \<Rightarrow> 'w \<Rightarrow> unit ending \<times> 'w" where
  "http_server N W H w =
     (case createNetTUN N [IP4 [192, 168, 4, 29]] [IP4 [8, 8, 8, 8], IP4 [8, 8, 4, 4]] 1420 w of
        (Inl err, w) \<Rightarrow> (LogPanic err, w)
      | (Inr tnet, w) \<Rightarrow>
          let (dev, w) = wgNewDevice W tnet w;
              (_, w) = wgIpcSet W dev server_conf w;
              (_, w) = wgUp W dev w in
          (case listenTCP N (Some ([], 80)) w of
             (Inl err, w) \<Rightarrow> (LogPanic err, w)
           | (Inr listener, w) \<Rightarrow>
               (case httpServe H listener hello w of
                  (Some err, w) \<Rightarrow> (LogPanic err, w)
                | (None, w) \<Rightarrow> (MainReturns, w))))"

section \<open>Errors that are dropped\<close>

text \<open>A WireGuard device that is the same except for the errors of \<open>IpcSet\<close>, and of \<open>Up\<close>.\<close>

definition ipc_fails :: "netError \<Rightarrow> ('d, 'w) wgLib \<Rightarrow> ('d, 'w) wgLib" where
  "ipc_fails err W = W\<lparr>wgIpcSet := \<lambda>d c w. (Some err, snd (wgIpcSet W d c w))\<rparr>"

definition up_fails :: "netError \<Rightarrow> ('d, 'w) wgLib \<Rightarrow> ('d, 'w) wgLib" where
  "up_fails err W = W\<lparr>wgUp := \<lambda>d w. (Some err, snd (wgUp W d w))\<rparr>"

lemma ipc_error_dropped:
  "ping_client D I N (ipc_fails err W) M background order w = ping_client D I N W M background order w"
  "http_client D I N (ipc_fails err W) H order w = http_client D I N W H order w"
  "http_server N (ipc_fails err W) H w = http_server N W H w"
  unfolding ping_client_def http_client_def http_server_def ipc_fails_def
  by (simp_all add: Let_def case_prod_beta split: sum.split)

lemma server_up_error_dropped: "http_server N (up_fails err W) H w = http_server N W H w"
  unfolding http_server_def up_fails_def by (simp add: Let_def case_prod_beta split: sum.split)

section \<open>The ping client\<close>

lemma ping_splitter: "protoSplitter (map of_char ''ping4'') = Some (ProtoPing, Some 52)"
  by code_simp

text \<open>A dial of \<open>ping4\<close> gives a ping connection to an IPv4 address of the host.\<close>

lemma ping4_conn:
  assumes "dialContext D I N tnet ctx (map of_char ''ping4'') host order w = Some (Inr conn, w')"
  shows "\<exists>pc. conn = PingConn pc \<and> is_4 (pcRaddr pc)
    \<and> (\<exists>saddrs w1. lookupContextHost D I N tnet (the ctx) host order w = Some (Inr saddrs, w1)
         \<and> (\<exists>s \<in> set saddrs. parseAddr I s = Some (pcRaddr pc)))"
proof -
  obtain proto v h port saddrs w1 ip ctx' w2 where "protoSplitter (map of_char ''ping4'') = Some (proto, v)"
    "if proto = ProtoPing then h = host \<and> port = 0 else \<exists>sport. splitHostPort I host = Inr (h, sport) \<and> atoi sport = Some port"
    and c: "lookupContextHost D I N tnet (the ctx) h order w = Some (Inr saddrs, w1)" "\<exists>s \<in> set saddrs. parseAddr I s = Some ip"
      "case v of None \<Rightarrow> is_4 ip \<or> is_6 ip | Some c \<Rightarrow> if c = 52 then is_4 ip else is_6 ip"
      "dial_one N ctx' proto (ip, of_int port) w2 = (Inr conn, w')"
    using dial_context_conn [OF assms] by blast
  then have v: "proto = ProtoPing" "is_4 ip" "h = host" "port = 0" by (auto simp: ping_splitter [simplified])
  from c(4) obtain pc where pc: "conn = PingConn pc" "dialPingAddr N NoAddr ip w2 = (Inr pc, w')"
    by (cases "dialPingAddr N NoAddr ip w2"; cases "fst (dialPingAddr N NoAddr ip w2)") (auto simp: dial_one_def v)
  have "pcRaddr pc = ip" using pc(2) v(2)
    by (cases ip) (auto simp: dialPingAddr_def is_valid_def Let_def split: prod.split_asm sum.split_asm option.split_asm)
  then show ?thesis using pc c(1,2) v by blast
qed

text \<open>An exchange that ends with a latency has read an echo with the number and the data of the request.\<close>

lemma ping_exchange_printed:
  assumes "ping_exchange N M pc w = Some (Printed latency, w')"
  shows "\<exists>sq n w1 w2 w3 w4 got src ty start now. pingWrite N pc (icmpMarshal M sq gopher) w1 = ((n, None), w2)
    \<and> pingDeadline N (pcEp pc) w2 = (False, w3)
    \<and> pingRecv N (pcEp pc) (length (icmpMarshal M sq gopher)) w3 = (Inr (got, src), w4)
    \<and> icmpParse M 1 got = Inr (ty, EchoBody sq gopher)
    \<and> timeNow N w4 = (now, w') \<and> latency = time_sub now start"
proof -
  obtain sq w0 where a: "randIntn M 65536 w = (sq, w0)" by (metis surj_pair)
  obtain now w01 where b: "timeNow N w0 = (now, w01)" by (metis surj_pair)
  obtain r w02 where c: "pingSetReadDeadline N pc (now + 10 * 1000000000) w01 = (r, w02)" by (metis surj_pair)
  obtain start w1 where d: "timeNow N w02 = (start, w1)" by (metis surj_pair)
  let ?p = "icmpMarshal M sq gopher"
  obtain n err w2 where e: "pingWrite N pc ?p w1 = ((n, err), w2)" by (metis surj_pair)
  note steps = ping_exchange_def Let_def a b c [simplified] d e
  have err: "err = None" using assms by (cases err) (auto simp: steps)
  obtain k rerr p' w4 where f: "pingRead N pc ?p w2 = Some ((k, rerr), p', w4)"
    using assms by (auto simp: steps err bind_Some_iff)
  have rerr: "rerr = None" using assms by (cases rerr) (auto simp: steps err f)
  obtain w3 got src where g: "pingDeadline N (pcEp pc) w2 = (False, w3)" "pingRecv N (pcEp pc) (length ?p) w3 = (Inr (got, src), w4)"
    "copy_at ?p 0 got = Some p'" "k = length got"
    using f rerr by (auto simp: pingRead_def pingReadFrom_def bind_Some_iff split: prod.split_asm bool.split_asm sum.split_asm)
  obtain reply where h: "slice p' 0 k = Some reply"
    using assms by (auto simp: steps err f rerr bind_Some_iff)
  have reply: "reply = got" using g(3,4) h by (auto simp: go_iff)
  obtain ty body where i: "icmpParse M 1 got = Inr (ty, body)"
    using assms by (cases "icmpParse M 1 got") (auto simp: steps err f rerr h reply)
  obtain fin w5 where j: "timeNow N w4 = (fin, w5)" by (metis surj_pair)
  note steps = steps err f rerr h reply i [simplified] j
  have "body = EchoBody sq gopher \<and> latency = time_sub fin start \<and> w' = w5"
  proof (cases body)
    case (EchoBody rsq rdata)
    show ?thesis
    proof (cases "rdata \<noteq> gopher \<or> rsq \<noteq> sq")
      case True
      then show ?thesis using assms by (simp add: steps EchoBody)
    next
      case False
      then show ?thesis using assms by (simp add: steps EchoBody)
    qed
  next
    case OtherBody
    then show ?thesis using assms by (simp add: steps)
  qed
  then show ?thesis using e err g i j by blast
qed

text \<open>
  C28. The ping client prints a latency only if it has sent an echo request over a ping
  connection to an IPv4 address that the lookup of \<open>zx2c4.com\<close> returned, and before the deadline has received on
  this connection a message that parses as an echo with the number and the data of the request. The latency
  is the time from before the write to after the checks.
\<close>

theorem ping_client_prints:
  assumes "ping_client D I N W M background order w = Some (Printed latency, w')"
  shows "\<exists>tnet pc wl saddrs wl'. lookupContextHost D I N tnet background (map of_char ''zx2c4.com'') order wl = Some (Inr saddrs, wl')
    \<and> is_4 (pcRaddr pc) \<and> (\<exists>s \<in> set saddrs. parseAddr I s = Some (pcRaddr pc))
    \<and> (\<exists>sq n w1 w2 w3 w4 got src ty start now. pingWrite N pc (icmpMarshal M sq gopher) w1 = ((n, None), w2)
         \<and> pingDeadline N (pcEp pc) w2 = (False, w3)
         \<and> pingRecv N (pcEp pc) (length (icmpMarshal M sq gopher)) w3 = (Inr (got, src), w4)
         \<and> icmpParse M 1 got = Inr (ty, EchoBody sq gopher)
         \<and> timeNow N w4 = (now, w') \<and> latency = time_sub now start)"
proof -
  obtain tnet w1 where a: "createNetTUN N [IP4 [192, 168, 4, 29]] [IP4 [8, 8, 8, 8]] 1420 w = (Inr tnet, w1)"
    using assms by (auto simp: ping_client_def split: prod.split_asm sum.split_asm)
  obtain dev w2 where n: "wgNewDevice W tnet w1 = (dev, w2)" by (metis surj_pair)
  obtain ierr w2' where i: "wgIpcSet W dev ping_conf w2 = (ierr, w2')" by (metis surj_pair)
  obtain err w3 where b: "wgUp W dev w2' = (err, w3)" by (metis surj_pair)
  note main = ping_client_def a n i b Let_def
  have err: "err = None" using assms by (cases err) (auto simp: main)
  obtain r w4 where d: "dialBackground D I N background tnet (map of_char ''ping4'') (map of_char ''zx2c4.com'') order w3 = Some (r, w4)"
    using assms by (auto simp: main err bind_Some_iff)
  obtain conn where r: "r = Inr conn" using assms by (cases r) (auto simp: main err d [simplified])
  obtain pc saddrs wl' where pc: "conn = PingConn pc" "is_4 (pcRaddr pc)"
    "lookupContextHost D I N tnet background (map of_char ''zx2c4.com'') order w3 = Some (Inr saddrs, wl')"
    "\<exists>s \<in> set saddrs. parseAddr I s = Some (pcRaddr pc)"
    using ping4_conn [OF d [unfolded r dialBackground_def]] by auto
  have "ping_exchange N M pc w4 = Some (Printed latency, w')" using assms by (simp add: main err d [simplified] r pc(1))
  from ping_exchange_printed [OF this] show ?thesis using pc(2-4) by blast
qed

text \<open>A network that sends back what it is sent; its state is the last packet and the clock.\<close>

definition echo_net :: "(nat, int, byte list \<times> int) netSys" where
  "echo_net = (demo_net (\<lambda>w. (Inr [], w)) id (\<lambda>_. id))\<lparr>epWrite := \<lambda>c b a (p, t). ((length b, None), (b, t)),
     timeNow := \<lambda>(p, t). (t, (p, t + 7)), pingDeadline := \<lambda>c w. (False, w),
     pingRecv := \<lambda>c n (p, t). (Inr (take n p, [1, 2, 3, 4]), (p, t))\<rparr>"

definition echo_icmp :: "(byte list \<times> int) icmpLib" where
  "echo_icmp = \<lparr>icmpMarshal = \<lambda>sq d. of_int sq # d,
     icmpParse = \<lambda>p b. (case b of [] \<Rightarrow> Inl SectionDone | x # d \<Rightarrow> Inr (0, EchoBody (int (unat x)) d)),
     randIntn = \<lambda>n w. (5, w)\<rparr>"

definition echo_wg :: "(unit, byte list \<times> int) wgLib" where
  "echo_wg = \<lparr>wgNewDevice = \<lambda>dev w. ((), w), wgIpcSet = \<lambda>d c w. (None, w), wgUp = \<lambda>d w. (None, w)\<rparr>"

definition echo_ips :: ipLib where
  "echo_ips = \<lparr>parseAddr = \<lambda>s. Some (IP4 [1, 2, 3, 4]), addrString = as_slice, splitHostPort = \<lambda>s. Inr (s, [])\<rparr>"

theorem ping_client_prints_witness:
  "ping_client demo_lib echo_ips echo_net echo_wg echo_icmp 0 False ([], 0) = Some (Printed 7, (5 # gopher, 28))
   \<and> (\<exists>sq src w3 w4 got. pingRecv echo_net 0 (length (icmpMarshal echo_icmp sq gopher)) w3 = (Inr (got, src), w4)
        \<and> icmpParse echo_icmp 1 got = Inr (0, EchoBody sq gopher))"
proof -
  have r: "ping_client demo_lib echo_ips echo_net echo_wg echo_icmp 0 False ([], 0) = Some (Printed 7, (5 # gopher, 28))"
    by code_simp
  obtain pc :: "nat pingConn" and sq w3 w4 got src ty where
    "pingRecv echo_net (pcEp pc) (length (icmpMarshal echo_icmp sq gopher)) w3 = (Inr (got, src), w4)"
    "icmpParse echo_icmp 1 got = Inr (ty, EchoBody sq gopher)"
    using ping_client_prints [OF r] by blast
  moreover from this have "ty = 0" by (simp add: echo_icmp_def split: list.split_asm)
  moreover have "pingRecv echo_net c = pingRecv echo_net 0" for c by (simp add: echo_net_def)
  ultimately show ?thesis using r by metis
qed

end
