(* ===== verification/Crypto.thy ===== *)
theory Crypto
  imports Prelude
begin

text \<open>
  The cryptographic wrappers of \<open>src/crypto\<close>. The libraries are the argument \<open>L\<close>: XChaCha20-Poly1305,
  HKDF, ML-KEM-768, Ed25519 and X.509, and the source of randomness.
\<close>

section \<open>What the code calls\<close>

datatype cryptoError =
    ErrInvalidKey | ErrCiphertextShort | ErrAuthFailed
  | LibraryError nat
  | CryptoWrapped string cryptoError

text \<open>
  \<open>'r\<close> are the readers that \<open>hkdf.New\<close> makes, \<open>'d\<close> and \<open>'e\<close> the decapsulation and encapsulation keys, \<open>'t\<close> the
  parsed certificates. \<open>randFull\<close> and \<open>kdfFull\<close> are \<open>io.ReadFull\<close> of so many bytes. A \<open>Seal\<close> is what it appends to
  its first argument.
\<close>

record certTemplate =
  ctSerial :: nat
  ctCommonName :: string
  ctOrganization :: "string list"
  ctNotBefore :: int
  ctNotAfter :: int
  ctDigitalSignature :: bool
  ctCertSign :: bool
  ctServerAuth :: bool
  ctClientAuth :: bool
  ctBasicConstraintsValid :: bool
  ctIsCA :: bool

record ('r, 'd, 'e, 't, 'w) cryptoLib =
  randFull :: "nat \<Rightarrow> 'w \<Rightarrow> (cryptoError + byte list) \<times> 'w"
  keySize :: nat
  newX :: "byte list \<Rightarrow> cryptoError option"
  nonceSize :: nat
  aeadSeal :: "byte list \<Rightarrow> byte list \<Rightarrow> byte list \<Rightarrow> byte list \<Rightarrow> byte list"
  aeadOpen :: "byte list \<Rightarrow> byte list \<Rightarrow> byte list \<Rightarrow> byte list \<Rightarrow> cryptoError + byte list"
  hkdfNew :: "byte list \<Rightarrow> byte list \<Rightarrow> byte list \<Rightarrow> 'r"
  kdfFull :: "nat \<Rightarrow> 'r \<Rightarrow> (cryptoError + byte list) \<times> 'r"
  mlkemGenerate :: "'w \<Rightarrow> (cryptoError + 'd) \<times> 'w"
  mlkemEncapsKey :: "'d \<Rightarrow> 'e"
  mlkemKeyBytes :: "'e \<Rightarrow> byte list"
  mlkemNewEncaps :: "byte list \<Rightarrow> cryptoError + 'e"
  mlkemEncaps :: "'e \<Rightarrow> 'w \<Rightarrow> (byte list \<times> byte list) \<times> 'w"
  mlkemDecaps :: "'d \<Rightarrow> byte list \<Rightarrow> cryptoError + byte list"
  mlkemNewDecaps :: "byte list \<Rightarrow> cryptoError + 'd"
  edGenerate :: "'w \<Rightarrow> (cryptoError + byte list \<times> byte list) \<times> 'w"
  edSign :: "byte list \<Rightarrow> byte list \<Rightarrow> byte list"
  edVerify :: "byte list \<Rightarrow> byte list \<Rightarrow> byte list \<Rightarrow> bool"
  uuidNew :: "'w \<Rightarrow> string \<times> 'w"
  randInt :: "nat \<Rightarrow> 'w \<Rightarrow> (cryptoError + nat) \<times> 'w"
  timeNow :: "'w \<Rightarrow> int \<times> 'w"
  addYears :: "int \<Rightarrow> int \<Rightarrow> int"
  certCreate :: "certTemplate \<Rightarrow> byte list \<Rightarrow> byte list \<Rightarrow> 'w \<Rightarrow> (cryptoError + byte list) \<times> 'w"
  certParse :: "byte list \<Rightarrow> cryptoError + 't"
  certVerify :: "'t \<Rightarrow> 't list \<Rightarrow> 'w \<Rightarrow> cryptoError option \<times> 'w"
  pemEncode :: "string \<Rightarrow> byte list \<Rightarrow> string"

section \<open>Authenticated encryption\<close>

definition encryptXAEAD ::
  "('r, 'd, 'e, 't, 'w) cryptoLib \<Rightarrow> byte list \<Rightarrow> byte list \<Rightarrow> byte list \<Rightarrow> 'w \<Rightarrow> (cryptoError + byte list) \<times> 'w" where
  "encryptXAEAD L secret plaintext ad w =
     (if length secret \<noteq> keySize L then (Inl ErrInvalidKey, w)
      else case newX L secret of
        Some err \<Rightarrow> (Inl err, w)
      | None \<Rightarrow>
          (case randFull L (nonceSize L) w of
             (Inl err, w) \<Rightarrow> (Inl (CryptoWrapped ''crypto: rand read failed'' err), w)
           | (Inr nonce, w) \<Rightarrow> (Inr (nonce @ aeadSeal L secret nonce plaintext ad), w)))"

definition decryptXAEAD ::
  "('r, 'd, 'e, 't, 'w) cryptoLib \<Rightarrow> byte list \<Rightarrow> byte list \<Rightarrow> byte list \<Rightarrow> cryptoError + byte list" where
  "decryptXAEAD L secret ciphertext ad =
     (if length secret \<noteq> keySize L then Inl ErrInvalidKey
      else case newX L secret of
        Some err \<Rightarrow> Inl err
      | None \<Rightarrow>
          (let ns = nonceSize L in
           if length ciphertext < ns then Inl ErrCiphertextShort
           else case aeadOpen L secret (take ns ciphertext) (drop ns ciphertext) ad of
             Inl err \<Rightarrow> Inl ErrAuthFailed
           | Inr plaintext \<Rightarrow> Inr plaintext))"

section \<open>Session keys\<close>

record derivedKeys =
  clientWriteKey :: "byte list"
  serverWriteKey :: "byte list"
  clientIV :: "byte list"
  serverIV :: "byte list"

definition deriveSessionKeys ::
  "('r, 'd, 'e, 't, 'w) cryptoLib \<Rightarrow> byte list \<Rightarrow> byte list \<Rightarrow> byte list \<Rightarrow> cryptoError + derivedKeys" where
  "deriveSessionKeys L masterSecret salt info =
     (let kdf = hkdfNew L masterSecret salt info in
      case kdfFull L 32 kdf of
        (Inl err, kdf) \<Rightarrow> Inl (CryptoWrapped ''hkdf: failed to derive client key'' err)
      | (Inr cw, kdf) \<Rightarrow>
          (case kdfFull L 32 kdf of
             (Inl err, kdf) \<Rightarrow> Inl (CryptoWrapped ''hkdf: failed to derive server key'' err)
           | (Inr sw, kdf) \<Rightarrow>
               (case kdfFull L 24 kdf of
                  (Inl err, kdf) \<Rightarrow> Inl (CryptoWrapped ''hkdf: failed to derive client IV'' err)
                | (Inr ci, kdf) \<Rightarrow>
                    (case kdfFull L 24 kdf of
                       (Inl err, kdf) \<Rightarrow> Inl (CryptoWrapped ''hkdf: failed to derive server IV'' err)
                     | (Inr si, kdf) \<Rightarrow>
                         Inr \<lparr>clientWriteKey = cw, serverWriteKey = sw, clientIV = ci, serverIV = si\<rparr>))))"

section \<open>Key encapsulation and signatures\<close>

record ('d, 'e) keyPair768 =
  decapsKey :: 'd
  encapsKey :: 'e

definition generate768 ::
  "('r, 'd, 'e, 't, 'w) cryptoLib \<Rightarrow> 'w \<Rightarrow> (cryptoError + ('d, 'e) keyPair768) \<times> 'w" where
  "generate768 L w =
     (case mlkemGenerate L w of
        (Inl err, w) \<Rightarrow> (Inl err, w)
      | (Inr dk, w) \<Rightarrow> (Inr \<lparr>decapsKey = dk, encapsKey = mlkemEncapsKey L dk\<rparr>, w))"

definition encapsulate768 ::
  "('r, 'd, 'e, 't, 'w) cryptoLib \<Rightarrow> byte list \<Rightarrow> 'w \<Rightarrow> (cryptoError + byte list \<times> byte list) \<times> 'w" where
  "encapsulate768 L pubKeyBytes w =
     (case mlkemNewEncaps L pubKeyBytes of
        Inl err \<Rightarrow> (Inl (CryptoWrapped ''invalid encapsulation key'' err), w)
      | Inr ek \<Rightarrow> let ((secret, ct), w) = mlkemEncaps L ek w in (Inr (secret, ct), w))"

definition decapsulate :: "('r, 'd, 'e, 't, 'w) cryptoLib \<Rightarrow> ('d, 'e) keyPair768 \<Rightarrow> byte list \<Rightarrow> cryptoError + byte list" where
  "decapsulate L kp ciphertext =
     (case mlkemDecaps L (decapsKey kp) ciphertext of
        Inl err \<Rightarrow> Inl (CryptoWrapped ''decapsulation failed'' err)
      | Inr secret \<Rightarrow> Inr secret)"

definition generateMlKemSeed768 :: "('r, 'd, 'e, 't, 'w) cryptoLib \<Rightarrow> 'w \<Rightarrow> (cryptoError + byte list) \<times> 'w" where
  "generateMlKemSeed768 L w = randFull L 64 w"

definition genDecapsulationKey :: "('r, 'd, 'e, 't, 'w) cryptoLib \<Rightarrow> byte list \<Rightarrow> cryptoError + 'd" where
  "genDecapsulationKey L seed = mlkemNewDecaps L seed"

record edKeyPair =
  edPublic :: "byte list"
  edPrivate :: "byte list"

definition generateEdKeyPair :: "('r, 'd, 'e, 't, 'w) cryptoLib \<Rightarrow> 'w \<Rightarrow> (cryptoError + edKeyPair) \<times> 'w" where
  "generateEdKeyPair L w =
     (case edGenerate L w of
        (Inl err, w) \<Rightarrow> (Inl err, w)
      | (Inr (pub, priv), w) \<Rightarrow> (Inr \<lparr>edPublic = pub, edPrivate = priv\<rparr>, w))"

definition edSignMessage :: "('r, 'd, 'e, 't, 'w) cryptoLib \<Rightarrow> edKeyPair \<Rightarrow> byte list \<Rightarrow> byte list" where
  "edSignMessage L kp message = edSign L (edPrivate kp) message"

definition edVerifyMessage :: "('r, 'd, 'e, 't, 'w) cryptoLib \<Rightarrow> byte list \<Rightarrow> byte list \<Rightarrow> byte list \<Rightarrow> bool" where
  "edVerifyMessage L pub message sig = edVerify L pub message sig"

definition newUUID :: "('r, 'd, 'e, 't, 'w) cryptoLib \<Rightarrow> 'w \<Rightarrow> string \<times> 'w" where
  "newUUID L w = uuidNew L w"

section \<open>Certificates\<close>

record certificateInfo =
  ciCommonName :: string
  ciOrganization :: string
  ciExpiryYears :: int

text \<open>The clock is read once for each end of the validity.\<close>

definition generateX509SelfSigned ::
  "('r, 'd, 'e, 't, 'w) cryptoLib \<Rightarrow> certificateInfo \<Rightarrow> 'w \<Rightarrow> (cryptoError + byte list \<times> byte list) \<times> 'w" where
  "generateX509SelfSigned L info w =
     (case edGenerate L w of
        (Inl err, w) \<Rightarrow> (Inl err, w)
      | (Inr (pub, priv), w) \<Rightarrow>
          (case randInt L (2 ^ 128) w of
             (Inl err, w) \<Rightarrow> (Inl err, w)
           | (Inr serial, w) \<Rightarrow>
               (let (before, w) = timeNow L w;
                    (now, w) = timeNow L w;
                    template = \<lparr>ctSerial = serial, ctCommonName = ciCommonName info,
                      ctOrganization = [ciOrganization info], ctNotBefore = before,
                      ctNotAfter = addYears L now (ciExpiryYears info), ctDigitalSignature = True,
                      ctCertSign = True, ctServerAuth = True, ctClientAuth = True,
                      ctBasicConstraintsValid = True, ctIsCA = True\<rparr> in
                case certCreate L template pub priv w of
                  (Inl err, w) \<Rightarrow> (Inl (CryptoWrapped ''failed to create certificate'' err), w)
                | (Inr certDER, w) \<Rightarrow> (Inr (certDER, priv), w))))"

definition encodeToPEM :: "('r, 'd, 'e, 't, 'w) cryptoLib \<Rightarrow> byte list \<Rightarrow> string" where
  "encodeToPEM L certDER = pemEncode L ''CERTIFICATE'' certDER"

definition verifyCertificate ::
  "('r, 'd, 'e, 't, 'w) cryptoLib \<Rightarrow> byte list \<Rightarrow> byte list \<Rightarrow> 'w \<Rightarrow> cryptoError option \<times> 'w" where
  "verifyCertificate L rootCertDER nodeCertDER w =
     (case certParse L rootCertDER of
        Inl err \<Rightarrow> (Some (CryptoWrapped ''root parse error'' err), w)
      | Inr rootCert \<Rightarrow>
          (case certParse L nodeCertDER of
             Inl err \<Rightarrow> (Some (CryptoWrapped ''node parse error'' err), w)
           | Inr nodeCert \<Rightarrow>
               (let (err, w) = certVerify L nodeCert [rootCert] w in
                (map_option (CryptoWrapped ''verification failed'') err, w))))"

section \<open>What the libraries promise\<close>

text \<open>
  XChaCha20-Poly1305 opens what it has sealed under the same key, nonce and additional data, takes every
  key of its size, and \<open>io.ReadFull\<close> fills the nonce.
\<close>

definition aead_laws :: "('r, 'd, 'e, 't, 'w) cryptoLib \<Rightarrow> bool" where
  "aead_laws L \<longleftrightarrow>
     (\<forall>k. length k = keySize L \<longrightarrow> newX L k = None)
     \<and> (\<forall>k n p ad. length k = keySize L \<longrightarrow> length n = nonceSize L \<longrightarrow> aeadOpen L k n (aeadSeal L k n p ad) ad = Inr p)
     \<and> (\<forall>m w b w'. randFull L m w = (Inr b, w') \<longrightarrow> length b = m)"

text \<open>
  The reader of HKDF delivers the bytes of one stream, \<open>okm\<close>, in order, as far as it goes. What is left of
  the stream in a reader is \<open>rest\<close>.
\<close>

definition hkdf_laws ::
  "('r, 'd, 'e, 't, 'w) cryptoLib \<Rightarrow> (byte list \<Rightarrow> byte list \<Rightarrow> byte list \<Rightarrow> byte list) \<Rightarrow> ('r \<Rightarrow> byte list) \<Rightarrow> bool" where
  "hkdf_laws L okm rest \<longleftrightarrow>
     (\<forall>s t i. rest (hkdfNew L s t i) = okm s t i)
     \<and> (\<forall>n r. n \<le> length (rest r) \<longrightarrow> (\<exists>r'. kdfFull L n r = (Inr (take n (rest r)), r') \<and> rest r' = drop n (rest r)))"

text \<open>ML-KEM: a key survives its encoding, and what is encapsulated for a key it decapsulates.\<close>

definition kem_laws :: "('r, 'd, 'e, 't, 'w) cryptoLib \<Rightarrow> bool" where
  "kem_laws L \<longleftrightarrow>
     (\<forall>e. mlkemNewEncaps L (mlkemKeyBytes L e) = Inr e)
     \<and> (\<forall>d w s c w'. mlkemEncaps L (mlkemEncapsKey L d) w = ((s, c), w') \<longrightarrow> mlkemDecaps L d c = Inr s)"

section \<open>Properties\<close>

text \<open>Each key is its own part of the stream.\<close>

lemma derive_slices:
  assumes k: "hkdf_laws L okm rest" and len: "112 \<le> length (okm s t i)"
  shows "deriveSessionKeys L s t i = Inr \<lparr>clientWriteKey = take 32 (okm s t i),
     serverWriteKey = take 32 (drop 32 (okm s t i)), clientIV = take 24 (drop 64 (okm s t i)),
     serverIV = take 24 (drop 88 (okm s t i))\<rparr>"
proof -
  have step: "\<exists>r'. kdfFull L n r = (Inr (take n (rest r)), r') \<and> rest r' = drop n (rest r)" if "n \<le> length (rest r)" for n r
    using k that by (simp add: hkdf_laws_def)
  define r0 where "r0 = hkdfNew L s t i"
  have r0: "rest r0 = okm s t i" using k by (simp add: hkdf_laws_def r0_def)
  obtain r1 where r1: "kdfFull L 32 r0 = (Inr (take 32 (okm s t i)), r1)" "rest r1 = drop 32 (okm s t i)"
    using step [of 32 r0] len r0 by force
  obtain r2 where r2: "kdfFull L 32 r1 = (Inr (take 32 (drop 32 (okm s t i))), r2)" "rest r2 = drop 64 (okm s t i)"
    using step [of 32 r1] len r1 by force
  obtain r3 where r3: "kdfFull L 24 r2 = (Inr (take 24 (drop 64 (okm s t i))), r3)" "rest r3 = drop 88 (okm s t i)"
    using step [of 24 r2] len r2 by force
  obtain r4 where r4: "kdfFull L 24 r3 = (Inr (take 24 (drop 88 (okm s t i))), r4)"
    using step [of 24 r3] len r3 by force
  show ?thesis by (simp add: deriveSessionKeys_def r0_def [symmetric] r1 r2 r3 r4)
qed

lemma xaead_roundtrip:
  assumes "aead_laws L" and "encryptXAEAD L secret plaintext ad w = (Inr c, w')"
  shows "decryptXAEAD L secret c ad = Inr plaintext"
proof -
  have len: "length secret = keySize L" using assms(2) by (auto simp: encryptXAEAD_def split: if_splits)
  then have x: "newX L secret = None" using assms(1) by (simp add: aead_laws_def)
  obtain nonce where n: "randFull L (nonceSize L) w = (Inr nonce, w')" "c = nonce @ aeadSeal L secret nonce plaintext ad"
    using assms(2) len x by (auto simp: encryptXAEAD_def split: prod.splits sum.splits)
  have "length nonce = nonceSize L" using assms(1) n(1) unfolding aead_laws_def by blast
  then show ?thesis using assms(1) len x by (simp add: decryptXAEAD_def n(2) Let_def aead_laws_def)
qed

lemma xaead_errors:
  "length secret \<noteq> keySize L \<Longrightarrow> encryptXAEAD L secret p ad w = (Inl ErrInvalidKey, w)"
  "length secret \<noteq> keySize L \<Longrightarrow> decryptXAEAD L secret c ad = Inl ErrInvalidKey"
  "length secret = keySize L \<Longrightarrow> newX L secret = None \<Longrightarrow> length c < nonceSize L \<Longrightarrow>
     decryptXAEAD L secret c ad = Inl ErrCiphertextShort"
  by (simp_all add: encryptXAEAD_def decryptXAEAD_def)

text \<open>
  C40. If a party encapsulates a secret for the public key of the other, which decapsulates
  it, the two derive the same session keys: 32, 32, 24 and 24 bytes that are consecutive parts of the
  HKDF stream, so no byte is used twice. What one encrypts under a key of the session the other decrypts
  with the same additional data.
\<close>

theorem handshake_agrees:
  assumes "aead_laws L" and "hkdf_laws L okm rest" and "kem_laws L" and "keySize L = 32"
    and "\<forall>s. 112 \<le> length (okm s salt info)"
    and "generate768 L w = (Inr kp, w1)"
    and "encapsulate768 L (mlkemKeyBytes L (encapsKey kp)) w1 = (Inr (secret, ct), w2)"
  shows "decapsulate L kp ct = Inr secret
    \<and> (\<exists>keys. deriveSessionKeys L secret salt info = Inr keys
         \<and> clientWriteKey keys @ serverWriteKey keys @ clientIV keys @ serverIV keys = take 112 (okm secret salt info)
         \<and> length (clientWriteKey keys) = 32 \<and> length (serverWriteKey keys) = 32
         \<and> length (clientIV keys) = 24 \<and> length (serverIV keys) = 24
         \<and> (\<forall>key \<in> {clientWriteKey keys, serverWriteKey keys}. \<forall>msg ad w3 c w4.
              encryptXAEAD L key msg ad w3 = (Inr c, w4) \<longrightarrow> decryptXAEAD L key c ad = Inr msg))"
proof
  obtain dk where dk: "kp = \<lparr>decapsKey = dk, encapsKey = mlkemEncapsKey L dk\<rparr>"
    using assms(6) by (auto simp: generate768_def split: prod.splits sum.splits)
  have "mlkemEncaps L (mlkemEncapsKey L dk) w1 = ((secret, ct), w2)"
    using assms(3,7) by (auto simp: encapsulate768_def dk kem_laws_def split: prod.splits)
  then have "mlkemDecaps L dk ct = Inr secret" using assms(3) unfolding kem_laws_def by blast
  then show "decapsulate L kp ct = Inr secret" by (simp add: decapsulate_def dk)
  have len: "112 \<le> length (okm secret salt info)" using assms(5) by blast
  define o' where "o' = okm secret salt info"
  have cat: "take 32 o' @ take 32 (drop 32 o') @ take 24 (drop 64 o') @ take 24 (drop 88 o') = take 112 o'"
    using take_add [of 32 32 o'] take_add [of 64 24 o'] take_add [of 88 24 o'] by simp
  show "\<exists>keys. deriveSessionKeys L secret salt info = Inr keys
         \<and> clientWriteKey keys @ serverWriteKey keys @ clientIV keys @ serverIV keys = take 112 (okm secret salt info)
         \<and> length (clientWriteKey keys) = 32 \<and> length (serverWriteKey keys) = 32
         \<and> length (clientIV keys) = 24 \<and> length (serverIV keys) = 24
         \<and> (\<forall>key \<in> {clientWriteKey keys, serverWriteKey keys}. \<forall>msg ad w3 c w4.
              encryptXAEAD L key msg ad w3 = (Inr c, w4) \<longrightarrow> decryptXAEAD L key c ad = Inr msg)"
    unfolding derive_slices [OF assms(2) len]
    using len cat xaead_roundtrip [OF assms(1)] by (auto simp: o'_def)
qed

text \<open>A library that adds nothing: the keys are their bytes, the stream is 200 zeros.\<close>

definition demo_crypto :: "(byte list, byte list, byte list, unit, nat) cryptoLib" where
  "demo_crypto = \<lparr>randFull = \<lambda>n w. (Inr (replicate n (of_nat w)), w + 1), keySize = 32, newX = \<lambda>k. None,
     nonceSize = 24, aeadSeal = \<lambda>k n p ad. p @ ad,
     aeadOpen = \<lambda>k n c ad. if drop (length c - length ad) c = ad then Inr (take (length c - length ad) c) else Inl (LibraryError 0),
     hkdfNew = \<lambda>s t i. s @ replicate 200 0, kdfFull = \<lambda>n r. if n \<le> length r then (Inr (take n r), drop n r) else (Inl (LibraryError 1), r),
     mlkemGenerate = \<lambda>w. (Inr [5], w + 1), mlkemEncapsKey = \<lambda>d. d, mlkemKeyBytes = \<lambda>e. e, mlkemNewEncaps = \<lambda>b. Inr b,
     mlkemEncaps = \<lambda>e w. (([of_nat w], [of_nat w]), w + 1), mlkemDecaps = \<lambda>d c. Inr c, mlkemNewDecaps = \<lambda>b. Inr b,
     edGenerate = \<lambda>w. (Inr ([], []), w), edSign = \<lambda>k m. m, edVerify = \<lambda>k m s. m = s, uuidNew = \<lambda>w. ([], w),
     randInt = \<lambda>n w. (Inr 0, w), timeNow = \<lambda>w. (0, w), addYears = \<lambda>t y. t + y,
     certCreate = \<lambda>t p k w. (Inr [], w), certParse = \<lambda>b. Inr (), certVerify = \<lambda>t r w. (None, w), pemEncode = \<lambda>t b. t\<rparr>"

theorem handshake_agrees_witness:
  "\<exists>keys. deriveSessionKeys demo_crypto [8] [] [] = Inr keys \<and> length (serverIV keys) = 24
    \<and> decapsulate demo_crypto \<lparr>decapsKey = [5], encapsKey = [5]\<rparr> [8] = Inr [8]"
proof -
  have a: "aead_laws demo_crypto" by (auto simp: aead_laws_def demo_crypto_def)
  have h: "hkdf_laws demo_crypto (\<lambda>s t i. s @ replicate 200 0) (\<lambda>r. r)" by (auto simp: hkdf_laws_def demo_crypto_def)
  have k: "kem_laws demo_crypto" by (auto simp: kem_laws_def demo_crypto_def)
  have s: "keySize demo_crypto = 32" by (simp add: demo_crypto_def)
  have g: "generate768 demo_crypto 7 = (Inr \<lparr>decapsKey = [5], encapsKey = [5]\<rparr>, 8)"
    by (simp add: generate768_def demo_crypto_def)
  have e: "encapsulate768 demo_crypto (mlkemKeyBytes demo_crypto (encapsKey \<lparr>decapsKey = [5], encapsKey = [5]\<rparr>)) 8 = (Inr ([8], [8]), 9)"
    by (simp add: encapsulate768_def demo_crypto_def)
  show ?thesis
    using handshake_agrees [OF a h k s _ g e, of "[]" "[]"] by auto
qed

end
