(* ===== verification/Spec2Isabelle.thy ===== *)
theory Spec2Isabelle
  imports Checksum Virtio GROTable Coalesce GRO GROProps GSOProps GSOBounds RoundTrip Listeners LinuxTun LinuxTunProps Mutex LinuxMutex LinuxConf LinuxThreads Float64 AtomicCell Telemetry ConfigManager
    DomainName Netstack DNS DNSProps Dial TestTun BsdTun BsdProps BsdFds BsdThreads WindowsTun WinThreads Device Examples Crypto
begin

text \<open>
  A model of kernelMesh: the TUN devices with the segmentation offloads of Linux (\<open>src/tun\<close>), the network
  stack in user space with its DNS client (\<open>src/tun/netstack\<close>), the routing metrics of the mesh
  (\<open>src/common/a_star\<close>) and the cryptographic wrappers (\<open>src/crypto\<close>).

  \<^bold>\<open>The program.\<close> A node of the mesh exchanges IP packets with the kernel through a TUN device. On
  Linux the device takes batches: \<open>Write\<close> merges the packets of a flow into large ones that carry a
  \<open>virtioNetHdr\<close> (generic receive offload, GRO), \<open>Read\<close> cuts the large packets that the kernel
  delivers back into segments (generic segmentation offload, GSO) and completes their checksums.
  Goroutines watch the interface and send events. On macOS, FreeBSD and OpenBSD a packet goes through the
  device file behind its address family; Windows has rings of packets, and a stack in user space takes
  the place of the kernel where there is no device; it brings its own resolver and dialer. The routing side keeps measures of the links
  behind atomic pointers, which any goroutine reads and updates, and the weights of the measures in
  a configuration that is reloaded while the program runs.

  \<^bold>\<open>Conventions.\<close> \<open>Prelude\<close> holds the model of Go that all theories share: bytes and machine integers
  are words, a slice is a list, a buffer is its bytes and its capacity (\<open>gobuf\<close>), an operation that can
  panic is \<open>option\<close>-valued with \<open>None\<close> for the panic, an error is a value of \<open>goerror\<close> (in \<open>Virtio\<close>).
  The byte order of the host is an argument of every definition that depends on it. The named
  collection \<open>go_simps\<close> evaluates programs, \<open>go_iff\<close> and the lemmas \<open>*_Some\<close> invert successful ones.

  \<^bold>\<open>Checksums.\<close> \<open>Checksum\<close> models \<open>checksum.go\<close>: the 64-bit additions with carry, block by block, the
  folds and the pseudo header. Its lemmas read every partial sum modulo 65535, which makes the
  blocks, the byte order and the folds commute with concatenation; the result is the RFC 1071 sum
  and equals that of the reference in \<open>checksum_test.go\<close>.

  \<^bold>\<open>The header.\<close> \<open>Virtio\<close> models \<open>virtioNetHdr\<close> with \<open>encode\<close> and \<open>decode\<close>, and the errors of the package.

  \<^bold>\<open>GRO\<close> (\<open>offload_linux.go\<close>). \<open>GROTable\<close> has the flow keys, the items, and the two tables with their pool of
  item slices; a Go map is an association list, and a locale states the laws of the tables that
  the clients use. \<open>Coalesce\<close> has the tests that allow two packets to be merged and the merge itself.
  \<open>GRO\<close> has \<open>tcpGRO\<close>, \<open>udpGRO\<close>, \<open>handleGRO\<close> and the accounting that rewrites the headers. The proofs are
  in \<open>GROInv\<close> (the invariant of the loop: every item stands for a run of packets of one flow whose
  payloads its buffer holds), \<open>GROSteps\<close> and \<open>GROPacket\<close> (each operation keeps it), \<open>GROAccount\<close> (what the
  accounting writes), \<open>GROVector\<close> (the loop and the whole function) and \<open>GROProps\<close> (the properties).

  \<^bold>\<open>GSO\<close> (\<open>offload_linux.go\<close> and \<open>handleVirtioRead\<close> in \<open>tun_linux.go\<close>). \<open>GSO\<close> has the definitions, \<open>GSOSplit\<close>
  what a segment contains, \<open>GSOProps\<close> and \<open>GSOBounds\<close> the properties. Go checks a reslice against the capacity,
  so the memory between the length and the capacity of the read buffer and of the caller's buffers is an argument
  (\<open>spareMem\<close>): the properties hold for all of it, and \<open>read_beyond_length\<close> shows a read that reports a size beyond its
  buffer. The loop of \<open>gsoSplit\<close> is a
  \<open>function\<close> whose measure is the number of buffers left: it ends even if \<open>gsoSize\<close> is 0. \<open>RoundTrip\<close> composes
  the two sides: reading what \<open>handleGRO\<close> has merged gives back the packets.

  \<^bold>\<open>The device\<close> (\<open>tun_linux.go\<close>). \<open>LinuxTun\<close> models \<open>NativeTun\<close>, its three constructors, \<open>Name\<close>, \<open>MTU\<close>, \<open>setMTU\<close>,
  \<open>Read\<close>, \<open>Write\<close> and \<open>Close\<close>. The kernel is the argument \<open>sys\<close>, a record with one function per system
  call on a state of its own type; a theorem that relies on a behaviour of the kernel names it as a
  hypothesis (\<open>scripted\<close>, \<open>fd_kernel\<close>, \<dots>), and its witness gives a kernel that has it. \<open>LinuxTunProps\<close>
  has the invariant of the device and what \<open>Write\<close> puts on the file; \<open>LinuxConf\<close> the MTU, the file
  descriptors and \<open>Close\<close>. \<open>Mutex\<close> is any number of goroutines that call the operations of an object under a mutex,
  with the locale \<open>critical_section\<close> that says when this is as if the calls were made one after the other;
  \<open>LinuxMutex\<close> interprets it on the steps of \<open>Write\<close> (under \<open>writeOpMu\<close>) and of \<open>Read\<close> (under \<open>readOpMu\<close>, which guards
  \<open>readBuff\<close>). \<open>Listeners\<close> models the two goroutines that send events. The netlink parser
  is a \<open>partial_function\<close>, since a message of length 0 makes the code loop forever. \<open>LinuxThreads\<close> runs the
  listeners concurrently with the creation of the device, \<open>Close\<close> and the reader of the events, as step
  relations over the shared channels, the mutex and the socket, with the datagrams on which the parser panics or does
  not return and a \<open>Cancel\<close> that fails; its invariant excludes every other panic, and \<open>threads_work\<close> bounds what is
  left to do after a \<open>Close\<close> whose \<open>Cancel\<close> has succeeded.

  \<^bold>\<open>The other devices.\<close> \<open>BsdTun\<close> models \<open>tun_darwin.go\<close>, \<open>tun_freebsd.go\<close>, \<open>tun_openbsd.go\<close> and
  \<open>operateonfd.go\<close>: where the three files agree up to constants and single checks, one definition takes
  the platform as an argument, and there is an instance for each file. The system is the argument
  \<open>bsdSys\<close>. \<open>BsdProps\<close> has the route listeners, which turn a list of messages into events, and packets
  through \<open>Write\<close> and \<open>Read\<close>; \<open>BsdFds\<close> follows the descriptors through every path of the constructors and
  \<open>Close\<close>. An option there is \<open>None\<close> where the code panics or waits forever for a channel. \<open>WindowsTun\<close>
  models \<open>tun_windows.go\<close>: \<open>update\<close> of the rate is a machine with one step for each atomic access, and a
  schedule interleaves any number of goroutines; \<open>Read\<close> works on the list of what it sees when it looks
  at the session, so that it is total, with the result that it still waits. \<open>TestTun\<close> models \<open>tuntest.go\<close>.

  \<^bold>\<open>Goroutines of the other devices.\<close> \<open>BsdThreads\<close> runs \<open>routineRouteListener\<close> concurrently with the end of
  \<open>CreateTUNFromFile\<close>, \<open>Close\<close>, the readers of \<open>Events\<close> and \<open>Read\<close>, and \<open>Name\<close>, with the capacities of the channels and
  the life of the socket: the listener loads its number before it reads, \<open>Close\<close> closes it before it forgets it, and
  the system may give it to another file; the messages are those of \<open>BsdTun\<close>. \<open>WinThreads\<close> runs \<open>Read\<close>, \<open>Write\<close>, any number of \<open>LUID\<close>, \<open>ForceMTU\<close> and \<open>Close\<close>
  concurrently, over the flag, the \<open>WaitGroup\<close>, the event, the session, the adapter and the channel of events.
  As on Linux, an invariant excludes what must not happen and a measure (\<open>route_work\<close>, \<open>win_work\<close>) bounds the
  steps after \<open>Close\<close>; both theories end with the schedules under which the code goes wrong.

  \<^bold>\<open>The interface.\<close> \<open>Device\<close> has the accessors of all devices and the contract of the interface \<open>Device\<close> in
  \<open>tun.go\<close> as the locales \<open>tun_device\<close> (\<open>BatchSize\<close> is constant, a \<open>Read\<close> reports packets that lie in their buffers, on Linux up to the capacity)
  and \<open>counting_device\<close> (\<open>Write\<close> counts packets), interpreted on the devices of all systems; Linux satisfies the
  first alone.

  \<^bold>\<open>The network stack\<close> (\<open>netstack/tun.go\<close>). \<open>Netstack\<close> has the device \<open>netTun\<close>, addresses, the dials and the
  ping connections; gvisor is the argument \<open>netSys\<close>. \<open>DomainName\<close> has \<open>isDomainName\<close>, proved equal to a
  specification by labels, and the comparison of names. \<open>DNS\<close> has the client up to \<open>tryOneName\<close>; the package
  \<open>dnsmessage\<close> is the argument \<open>dnsLib\<close>, and the loops that wait for a datagram or skip answers are
  \<open>partial_function\<close>s. \<open>DNSProps\<close> shows which responses are accepted, that a query returns, and which
  connections stay open. \<open>Dial\<close> has \<open>LookupContextHost\<close>, whose result is compared with the
  records that the parser delivers (\<open>delivers\<close>), the deadlines and \<open>DialContext\<close>, whose connections are traced to the
  calls of gvisor. \<open>Examples\<close> has the programs
  of \<open>netstack/examples\<close> on top of these, with the WireGuard device, \<open>icmp\<close> and \<open>net/http\<close> as arguments.

  \<^bold>\<open>Cryptography\<close> (\<open>src/crypto\<close>). \<open>Crypto\<close> models the wrappers over \<open>cryptoLib\<close>, a record of the library
  functions, with what these promise as hypotheses, and the handshake of the package's test.

  \<^bold>\<open>Metrics\<close> (\<open>rtt.go\<close>, \<open>weight.go\<close>, \<open>config.go\<close>). \<open>Float64\<close> models \<open>float64\<close>: finite values are rational
  numbers, results are rounded to nearest even with gradual underflow and overflow to infinity;
  the sign of zero is left out, no operation of the code depends on it. \<open>AtomicCell\<close> models an
  \<open>atomic.Pointer\<close> under compare-and-swap loops of any number of goroutines as a step relation, with
  the proof that every interleaving amounts to the updates in some order. It is generic in
  the update; the locale \<open>cell_client\<close> gives its clients the invariants of their snapshots.
  \<open>Telemetry\<close> and \<open>ConfigManager\<close> are the clients. Whether the compiler fuses the multiplication and
  the addition of \<open>Update\<close> is an argument.

  \<^bold>\<open>Not modelled.\<close> A \<open>Read\<close>, a \<open>Write\<close> and a \<open>Close\<close> of the Linux device that overlap in time: the goroutines in
  \<open>Write\<close> interleave with one another, and so do those in \<open>Read\<close>. The two lanes of a lookup run one after the other;
  an argument says which one delivers its result first. \<open>sync.WaitGroup\<close> is an atomic counter. Apart from those of
  \<open>GSO\<close> and the buffers of \<open>GRO\<close> slices have no capacity: the code reslices them within their lengths. What is outside the repository is an argument: system calls, gvisor, wintun, the WireGuard device,
  \<open>dnsmessage\<close>, \<open>icmp\<close>, \<open>net/http\<close>, \<open>netip\<close>, the cryptographic libraries, reading a file, decoding JSON. \<open>RunningVersion\<close>
  and \<open>PingAddr.String\<close> only pass on what a library answers, \<open>socketCloexec\<close> of macOS is one system call of the
  model. \<open>packet.pb.go\<close> is generated, \<open>a_star.go\<close> and \<open>distance.go\<close> are empty.
\<close>

end
